(* ===== verification/Prelude.thy ===== *)
theory Prelude
  imports Complex_Main "HOL-Library.Product_Lexorder" "HOL-Library.List_Lexorder" "HOL-Library.Char_ord"
begin

text \<open>
  Shared ground of the development: the names of the model's basic types, the error monad of a
  database transaction, the SQL statements every query of the program is built from (on tables
  kept as lists of rows), the Python string operations the code uses, and the generic lemmas and
  named collections the component theories share.
\<close>

named_theorems ops_defs \<open>definitions of the operations of the query layer\<close>
named_theorems row_simps \<open>what an operation does to the rows of a table\<close>

section \<open>Basic types\<close>

text \<open>
  A UUID is a 128-bit number that PostgreSQL compares as a number. A timestamp (and a duration)
  is a number of seconds, kept as a rational: the rounding of Python floats and of PostgreSQL's
  microseconds is not modelled.
\<close>

type_synonym uuid = nat
type_synonym time = rat

section \<open>Transactions as error or new state\<close>

text \<open>
  A query function takes the database and returns its result with the new database, or the
  exception it raised. A raised exception carries no database, because the transaction that was
  open is rolled back (\<open>db/session.py\<close>, \<open>api/deps.py\<close>).
\<close>

fun bindE :: "'e + 'a \<Rightarrow> ('a \<Rightarrow> 'e + 'b) \<Rightarrow> 'e + 'b" where
  "bindE (Inl e) f = Inl e"
| "bindE (Inr x) f = f x"

lemma bindE_Inr_iff [simp]: "bindE m f = Inr y \<longleftrightarrow> (\<exists>x. m = Inr x \<and> f x = Inr y)"
  by (cases m) auto

lemma bindE_Inl_iff: "bindE m f = Inl e \<longleftrightarrow> m = Inl e \<or> (\<exists>x. m = Inr x \<and> f x = Inl e)"
  by (cases m) auto

lemma bindE_assoc: "bindE (bindE m f) g = bindE m (\<lambda>x. bindE (f x) g)"
  by (cases m) auto

text \<open>Run one operation per element of a list, in order, stopping at the first error.\<close>

fun foldE :: "('a \<Rightarrow> 's \<Rightarrow> 'e + 's) \<Rightarrow> 'a list \<Rightarrow> 's \<Rightarrow> 'e + 's" where
  "foldE f [] s = Inr s"
| "foldE f (x # xs) s = bindE (f x s) (foldE f xs)"

lemma foldE_preserves:
  assumes "\<And>x s s'. x \<in> set xs \<Longrightarrow> P s \<Longrightarrow> f x s = Inr s' \<Longrightarrow> P s'"
    and "P s" and "foldE f xs s = Inr s'"
  shows "P s'"
  using assms
proof (induction xs arbitrary: s)
  case Nil
  then show ?case by simp
next
  case (Cons x xs)
  from Cons.prems(3) obtain t where t: "f x s = Inr t" "foldE f xs t = Inr s'" by auto
  show ?case
  proof (rule Cons.IH)
    show "P t" by (rule Cons.prems(1) [of x s t]) (use Cons.prems(2) t(1) in auto)
    show "foldE f xs t = Inr s'" by (rule t(2))
    show "\<And>y u u'. y \<in> set xs \<Longrightarrow> P u \<Longrightarrow> f y u = Inr u' \<Longrightarrow> P u'"
      using Cons.prems(1) by auto
  qed
qed

lemma foldE_total:
  assumes "\<And>x s. x \<in> set xs \<Longrightarrow> P s \<Longrightarrow> \<exists>s'. f x s = Inr s' \<and> P s'" and "P s"
  shows "\<exists>s'. foldE f xs s = Inr s' \<and> P s'"
  using assms
proof (induction xs arbitrary: s)
  case Nil
  then show ?case by simp
next
  case (Cons x xs)
  from Cons.prems obtain t where "f x s = Inr t" "P t" by (auto dest: Cons.prems(1))
  with Cons show ?case by simp
qed

section \<open>Tables as lists of rows\<close>

text \<open>
  \<open>UPDATE .. SET .. WHERE p\<close> rewrites the rows that satisfy the predicate;
  \<open>RETURNING\<close> gives their new versions. A \<open>SELECT .. WHERE p\<close> is \<open>filter p\<close>, and
  \<open>.first()\<close> of it by primary key is \<open>find_by\<close>.
\<close>

definition sql_update :: "('r \<Rightarrow> bool) \<Rightarrow> ('r \<Rightarrow> 'r) \<Rightarrow> 'r list \<Rightarrow> 'r list" where
  "sql_update p f rows = map (\<lambda>r. if p r then f r else r) rows"

definition sql_returning :: "('r \<Rightarrow> bool) \<Rightarrow> ('r \<Rightarrow> 'r) \<Rightarrow> 'r list \<Rightarrow> 'r list" where
  "sql_returning p f rows = map f (filter p rows)"

definition find_by :: "('r \<Rightarrow> 'k) \<Rightarrow> 'k \<Rightarrow> 'r list \<Rightarrow> 'r option" where
  "find_by key k rows = find (\<lambda>r. key r = k) rows"

lemma sql_update_Nil [simp]: "sql_update p f [] = []"
  by (simp add: sql_update_def)

lemma sql_update_Cons [simp]:
  "sql_update p f (r # rs) = (if p r then f r else r) # sql_update p f rs"
  by (simp add: sql_update_def)

lemma length_sql_update [simp]: "length (sql_update p f rs) = length rs"
  by (simp add: sql_update_def)

lemma set_sql_update: "set (sql_update p f rs) = (\<lambda>r. if p r then f r else r) ` set rs"
  by (simp add: sql_update_def)

lemma sql_update_none: "(\<And>r. r \<in> set rs \<Longrightarrow> \<not> p r) \<Longrightarrow> sql_update p f rs = rs"
  by (induction rs) auto

lemma sql_update_filter_empty: "filter p rs = [] \<Longrightarrow> sql_update p f rs = rs"
  by (auto simp: filter_empty_conv intro: sql_update_none)

lemma sql_returning_empty [simp]: "sql_returning p f rs = [] \<longleftrightarrow> filter p rs = []"
  by (simp add: sql_returning_def)

lemma find_by_Nil [simp]: "find_by key k [] = None"
  by (simp add: find_by_def)

lemma find_by_Cons [simp]:
  "find_by key k (r # rs) = (if key r = k then Some r else find_by key k rs)"
  by (simp add: find_by_def)

lemma find_by_append: "find_by key k (xs @ ys) =
    (case find_by key k xs of None \<Rightarrow> find_by key k ys | Some r \<Rightarrow> Some r)"
  by (induction xs) auto

lemma find_by_SomeD: "find_by key k rs = Some r \<Longrightarrow> r \<in> set rs \<and> key r = k"
  by (induction rs) (auto split: if_splits)

lemma find_by_None_iff: "find_by key k rs = None \<longleftrightarrow> k \<notin> key ` set rs"
  by (induction rs) auto

lemma find_by_in_set: "distinct (map key rs) \<Longrightarrow> r \<in> set rs \<Longrightarrow> find_by key (key r) rs = Some r"
  by (induction rs) (auto simp: rev_image_eqI)

lemma find_by_unique:
  "distinct (map key rs) \<Longrightarrow> find_by key k rs = Some r \<longleftrightarrow> r \<in> set rs \<and> key r = k"
  using find_by_in_set find_by_SomeD by fastforce

lemma find_by_map:
  "(\<And>x. key (g x) = key x) \<Longrightarrow> find_by key k (map g xs) = map_option g (find_by key k xs)"
  by (induction xs) auto

lemma filter_key_unique:
  assumes "distinct (map key rs)"
  shows "filter (\<lambda>r. key r = k \<and> p r) rs =
    (case find_by key k rs of None \<Rightarrow> [] | Some r \<Rightarrow> if p r then [r] else [])"
  using assms
proof (induction rs)
  case Nil
  then show ?case by simp
next
  case (Cons r rs)
  have "filter (\<lambda>r. key r = k \<and> p r) rs = []" if "key r = k"
    using Cons.prems that by (auto simp: filter_empty_conv) (metis imageI)
  with Cons show ?case by (auto simp: find_by_def)
qed

text \<open>
  The interface of a table with a primary key whose rows are edited in place: every edit the
  program makes keeps the key. Its lemmas say what an \<open>UPDATE\<close> does to a later lookup.
\<close>

locale keyed_table =
  fixes key :: "'r \<Rightarrow> 'k" and edit :: "'e \<Rightarrow> 'r \<Rightarrow> 'r"
  assumes key_edit: "key (edit e r) = key r"
begin

lemma map_key_update: "map key (sql_update p (edit e) rs) = map key rs"
  by (induction rs) (auto simp: key_edit)

lemma distinct_update: "distinct (map key (sql_update p (edit e) rs)) = distinct (map key rs)"
  by (simp add: map_key_update)

lemma keys_update: "key ` set (sql_update p (edit e) rs) = key ` set rs"
  using map_key_update [of p e rs] by (metis list.set_map)

lemma find_update:
  "find_by key k (sql_update p (edit e) rs) =
    map_option (\<lambda>r. if p r then edit e r else r) (find_by key k rs)"
  by (induction rs) (auto simp: key_edit)

lemma find_update_other:
  assumes "\<And>r. r \<in> set rs \<Longrightarrow> key r = k \<Longrightarrow> \<not> p r"
  shows "find_by key k (sql_update p (edit e) rs) = find_by key k rs"
  using assms by (induction rs) (auto simp: key_edit)

lemma returning_keys: "map key (sql_returning p (edit e) rs) = map key (filter p rs)"
  by (simp add: sql_returning_def key_edit)

end

section \<open>Python strings\<close>

text \<open>
  \<open>str.strip\<close>, \<open>str.lower\<close>, \<open>str.join\<close>, \<open>str.split(',')\<close>, \<open>repr\<close> and \<open>str(int)\<close> on
  ASCII text, the text capability names, worker ids and messages are made of.
\<close>

definition is_py_space :: "char \<Rightarrow> bool" where
  "is_py_space c = (let n = (of_char c :: nat) in n = 32 \<or> (9 \<le> n \<and> n \<le> 13) \<or> (28 \<le> n \<and> n \<le> 31))"

definition py_strip :: "string \<Rightarrow> string" where
  "py_strip s = rev (dropWhile is_py_space (rev (dropWhile is_py_space s)))"

definition lower_char :: "char \<Rightarrow> char" where
  "lower_char c = (let n = (of_char c :: nat) in if 65 \<le> n \<and> n \<le> 90 then char_of (n + 32) else c)"

definition py_lower :: "string \<Rightarrow> string" where
  "py_lower s = map lower_char s"

fun py_join :: "string \<Rightarrow> string list \<Rightarrow> string" where
  "py_join sep [] = []"
| "py_join sep [s] = s"
| "py_join sep (s # t # ss) = s @ sep @ py_join sep (t # ss)"

fun py_split_char :: "char \<Rightarrow> string \<Rightarrow> string list" where
  "py_split_char c [] = [[]]"
| "py_split_char c (x # xs) =
     (if x = c then [] # py_split_char c xs
      else (case py_split_char c xs of [] \<Rightarrow> [[x]] | s # ss \<Rightarrow> (x # s) # ss))"

definition hex_digit :: "nat \<Rightarrow> char" where
  "hex_digit n = (if n < 10 then char_of (48 + n) else char_of (87 + n))"

definition hex_pad :: "nat \<Rightarrow> int \<Rightarrow> string" where
  "hex_pad width n = map (\<lambda>k. hex_digit (nat ((n div 16 ^ k) mod 16))) (rev [0..<width])"

text \<open>\<open>str(uuid)\<close>.\<close>

definition uuid_str :: "uuid \<Rightarrow> string" where
  "uuid_str u = (let n = int u in
     hex_pad 8 (n div 2 ^ 96) @ ''-'' @ hex_pad 4 (n div 2 ^ 80) @ ''-'' @ hex_pad 4 (n div 2 ^ 64)
     @ ''-'' @ hex_pad 4 (n div 2 ^ 48) @ ''-'' @ hex_pad 12 n)"

definition repr_char :: "char \<Rightarrow> char \<Rightarrow> string" where
  "repr_char q c = (let n = (of_char c :: nat) in
     if c = q \<or> n = 92 then [CHR 92, c]
     else if n = 9 then [CHR 92, CHR ''t'']
     else if n = 10 then [CHR 92, CHR ''n'']
     else if n = 13 then [CHR 92, CHR ''r'']
     else if n < 32 \<or> n = 127 then [CHR 92, CHR ''x'', hex_digit (n div 16), hex_digit (n mod 16)]
     else [c])"

definition py_repr :: "string \<Rightarrow> string" where
  "py_repr s = (let q = (if CHR 39 \<in> set s \<and> CHR 34 \<notin> set s then CHR 34 else CHR 39)
                in [q] @ concat (map (repr_char q) s) @ [q])"

fun py_repr_opt :: "string option \<Rightarrow> string" where
  "py_repr_opt None = ''None''"
| "py_repr_opt (Some s) = py_repr s"

fun show_nat :: "nat \<Rightarrow> string" where
  "show_nat n = (if n < 10 then [char_of (48 + n)] else show_nat (n div 10) @ [char_of (48 + n mod 10)])"

declare show_nat.simps [simp del]

definition py_str_int :: "int \<Rightarrow> string" where
  "py_str_int i = (if i < 0 then CHR ''-'' # show_nat (nat (- i)) else show_nat (nat i))"

text \<open>\<open>a or b\<close> on an optional string: an absent or empty first operand gives the second.\<close>

fun py_or :: "string option \<Rightarrow> string option \<Rightarrow> string option" where
  "py_or None b = b"
| "py_or (Some []) b = b"
| "py_or (Some (c # cs)) b = Some (c # cs)"

section \<open>Lists\<close>

text \<open>\<open>sorted({...})\<close> of a Python set given by the listed elements.\<close>

definition sorted_set :: "'a::linorder list \<Rightarrow> 'a list" where
  "sorted_set xs = sort (remdups xs)"

lemma set_sorted_set [simp]: "set (sorted_set xs) = set xs"
  by (simp add: sorted_set_def)

lemma distinct_sorted_set [simp]: "distinct (sorted_set xs)"
  by (simp add: sorted_set_def)

lemma sorted_sorted_set [simp]: "sorted (sorted_set xs)"
  by (simp add: sorted_set_def)

lemma sorted_set_eq_iff: "sorted_set xs = sorted_set ys \<longleftrightarrow> set xs = set ys"
proof
  assume "sorted_set xs = sorted_set ys"
  then show "set xs = set ys" by (metis set_sorted_set)
next
  assume "set xs = set ys"
  then show "sorted_set xs = sorted_set ys"
    by (intro sorted_distinct_set_unique) auto
qed

lemma sorted_set_id: "sorted xs \<Longrightarrow> distinct xs \<Longrightarrow> sorted_set xs = xs"
  by (simp add: sorted_set_def sorted_sort_id)

lemma sorted_set_idem [simp]: "sorted_set (sorted_set xs) = sorted_set xs"
  by (rule sorted_set_id) auto

lemma length_filter_disj:
  "(\<And>x. x \<in> set xs \<Longrightarrow> \<not> (P x \<and> Q x)) \<Longrightarrow>
     length (filter (\<lambda>x. P x \<or> Q x) xs) = length (filter P xs) + length (filter Q xs)"
  by (induction xs) auto

end
