(* ===== verification/TaskStates.thy ===== *)
theory TaskStates
  imports Prelude
begin

text \<open>
  \<open>domain/states.py\<close>: the five task states, the legality table, and the event types of the
  append-only history.
\<close>

datatype state = QUEUED | RUNNING | SUCCEEDED | FAILED | CANCELLED

definition TERMINAL :: "state list" where
  "TERMINAL = [SUCCEEDED, FAILED, CANCELLED]"

definition ACTIVE_STATES :: "state list" where
  "ACTIVE_STATES = [QUEUED, RUNNING]"

fun ALLOWED :: "state \<Rightarrow> state list" where
  "ALLOWED QUEUED = [RUNNING, CANCELLED]"
| "ALLOWED RUNNING = [QUEUED, SUCCEEDED, FAILED, CANCELLED]"
| "ALLOWED SUCCEEDED = []"
| "ALLOWED FAILED = []"
| "ALLOWED CANCELLED = []"

definition is_legal :: "state \<Rightarrow> state \<Rightarrow> bool" where
  "is_legal frm to = (to \<in> set (ALLOWED frm))"

definition is_terminal :: "state \<Rightarrow> bool" where
  "is_terminal s = (s \<in> set TERMINAL)"

datatype event_type =
    TASK_CREATED | TASK_CLAIMED | TASK_STARTED | ATTEMPT_FAILED | RETRY_SCHEDULED
  | LEASE_RENEWED | LEASE_EXPIRED | TASK_RECOVERED | TASK_ABANDONED | WORKER_LOST
  | STALE_WRITE_REJECTED | TASK_SUCCEEDED | TASK_FAILED | TOOL_ACCESS_ALLOWED
  | TOOL_ACCESS_DENIED | TOOL_EXECUTED | TOOL_EXECUTION_FAILED | CANCEL_REQUESTED
  | TASK_CANCELLED

text \<open>The exceptions that leave the query layer. \<open>IntegrityError\<close> names the constraint.\<close>

datatype exn =
    IllegalTransition state state
  | ValueError string
  | LookupError string
  | PayloadMismatch uuid
  | IntegrityError string
  | AssertionError string
  | AgentNotFound uuid
  | NoRoute string
  | NotRoutable string
  | ImmutableVersion uuid

definition assert_legal :: "state \<Rightarrow> state \<Rightarrow> exn + unit" where
  "assert_legal frm to = (if \<not> is_legal frm to then Inl (IllegalTransition frm to) else Inr ())"

lemma is_legal_simps [simp]:
  "is_legal QUEUED s \<longleftrightarrow> s = RUNNING \<or> s = CANCELLED"
  "is_legal RUNNING s \<longleftrightarrow> s \<noteq> RUNNING"
  "\<not> is_legal SUCCEEDED s" "\<not> is_legal FAILED s" "\<not> is_legal CANCELLED s"
  by (cases s; simp add: is_legal_def)+

lemma is_terminal_simps [simp]:
  "\<not> is_terminal QUEUED" "\<not> is_terminal RUNNING"
  "is_terminal SUCCEEDED" "is_terminal FAILED" "is_terminal CANCELLED"
  by (simp_all add: is_terminal_def TERMINAL_def)

lemma terminal_iff_no_successor: "is_terminal s \<longleftrightarrow> (\<forall>t. \<not> is_legal s t)"
  by (cases s) auto

lemma assert_legal_Inr [simp]: "assert_legal s t = Inr u \<longleftrightarrow> is_legal s t"
  by (simp add: assert_legal_def)

text \<open>A run through the state machine, and what it can reach.\<close>

inductive legal_run :: "state \<Rightarrow> state \<Rightarrow> bool" where
  run_refl: "legal_run s s"
| run_step: "legal_run s t \<Longrightarrow> is_legal t u \<Longrightarrow> legal_run s u"

lemma legal_run_terminal: "legal_run s t \<Longrightarrow> is_terminal s \<Longrightarrow> t = s"
  by (induction rule: legal_run.induct) (auto simp: terminal_iff_no_successor)

text \<open>
  The legality table over all 25 ordered pairs of states: no state is its own successor, the
  terminal states are exactly those with no successor, every run from a terminal state stays
  there, every run that leaves \<open>QUEUED\<close> for \<open>SUCCEEDED\<close> or \<open>FAILED\<close> has to be claimed first
  (their only predecessor is \<open>RUNNING\<close>), and every state is reachable from \<open>QUEUED\<close>.
\<close>

theorem state_machine_shape:
  "\<not> is_legal s s
   \<and> (is_terminal s \<longleftrightarrow> ALLOWED s = [])
   \<and> (is_terminal s \<and> legal_run s t \<longrightarrow> t = s)
   \<and> (is_legal t SUCCEEDED \<longleftrightarrow> t = RUNNING) \<and> (is_legal t FAILED \<longleftrightarrow> t = RUNNING)
   \<and> (is_legal t RUNNING \<longleftrightarrow> t = QUEUED)
   \<and> legal_run QUEUED s"
proof -
  have r: "legal_run QUEUED RUNNING" by (rule run_step [OF run_refl]) simp
  have "legal_run QUEUED s"
    by (cases s) (auto intro: run_refl r run_step [OF r])
  moreover have "is_terminal s \<longleftrightarrow> ALLOWED s = []" "\<not> is_legal s s" by (cases s; simp)+
  moreover have "is_legal t SUCCEEDED \<longleftrightarrow> t = RUNNING" "is_legal t FAILED \<longleftrightarrow> t = RUNNING"
    "is_legal t RUNNING \<longleftrightarrow> t = QUEUED" by (cases t; simp)+
  ultimately show ?thesis using legal_run_terminal by blast
qed

end
