(* ===== verification/Capabilities.thy ===== *)
theory Capabilities
  imports Prelude "HOL-Library.Sublist"
begin

text \<open>
  \<open>domain/agents.py\<close>: agent and version lifecycles, and capability matching. The main result is
  that asking the database for the rows whose \<open>capability_key\<close> is one of the worker's satisfiable
  keys is the same as testing subset containment, as long as no capability name holds a comma.
\<close>

datatype agent_status = AGENT_ACTIVE | AGENT_DEPRECATED | AGENT_DISABLED

datatype version_status = VERSION_DRAFT | VERSION_ACTIVE | VERSION_DEPRECATED | VERSION_DISABLED

definition ROUTABLE_VERSION_STATUSES :: "version_status list" where
  "ROUTABLE_VERSION_STATUSES = [VERSION_ACTIVE]"

definition ROUTABLE_AGENT_STATUSES :: "agent_status list" where
  "ROUTABLE_AGENT_STATUSES = [AGENT_ACTIVE]"

section \<open>Normalisation, keys, containment\<close>

definition norm_cap :: "string \<Rightarrow> string" where
  "norm_cap c = py_lower (py_strip c)"

definition normalise_caps :: "string list \<Rightarrow> string list" where
  "normalise_caps cs = sorted_set (map norm_cap (filter (\<lambda>c. c \<noteq> [] \<and> py_strip c \<noteq> []) cs))"

definition capability_key :: "string list \<Rightarrow> string" where
  "capability_key cs = py_join '','' (normalise_caps cs)"

definition worker_satisfies :: "string list \<Rightarrow> string list \<Rightarrow> bool" where
  "worker_satisfies required worker_capabilities =
     list_all (\<lambda>c. c \<in> set (normalise_caps worker_capabilities)) (normalise_caps required)"

definition MAX_KEYED_CLAIM_CAPABILITIES :: nat where
  "MAX_KEYED_CLAIM_CAPABILITIES = 5"

text \<open>\<open>itertools.combinations\<close>: the subsequences of a given length, in lexicographic order.\<close>

fun combinations :: "'a list \<Rightarrow> nat \<Rightarrow> 'a list list" where
  "combinations xs 0 = [[]]"
| "combinations [] (Suc r) = []"
| "combinations (x # xs) (Suc r) = map ((#) x) (combinations xs r) @ combinations xs (Suc r)"

definition satisfiable_capability_keys :: "string list \<Rightarrow> string list" where
  "satisfiable_capability_keys worker_capabilities =
     (let caps = normalise_caps worker_capabilities in
      sorted_set (concat (map (\<lambda>r. map capability_key (combinations caps r)) [0..<Suc (length caps)])))"

section \<open>Normalisation is idempotent\<close>

lemma of_char_lt: "(of_char c :: nat) < 256"
  by (metis nat_of_char_less_256)

lemma of_char_lower: "(of_char (lower_char c) :: nat) =
    (if 65 \<le> (of_char c :: nat) \<and> (of_char c :: nat) \<le> 90 then of_char c + 32 else of_char c)"
  by (simp add: lower_char_def Let_def)

lemma lower_char_idem [simp]: "lower_char (lower_char c) = lower_char c"
proof -
  have "\<not> (65 \<le> (of_char (lower_char c) :: nat) \<and> (of_char (lower_char c) :: nat) \<le> 90)"
    by (auto simp: of_char_lower)
  then show ?thesis unfolding lower_char_def [of "lower_char c"] Let_def by (rule if_not_P)
qed

lemma is_py_space_lower [simp]: "is_py_space (lower_char c) = is_py_space c"
  by (auto simp: is_py_space_def Let_def of_char_lower)

lemma lower_char_comma [simp]: "lower_char c = CHR '','' \<longleftrightarrow> c = CHR '',''"
proof
  assume "lower_char c = CHR '',''"
  then have "(of_char (lower_char c) :: nat) = 44" by simp
  then have "(of_char c :: nat) = 44" by (simp add: of_char_lower split: if_splits)
  then have "(of_char c :: nat) = of_char (CHR '','')" by simp
  then show "c = CHR '',''" by (simp only: of_char_eq_iff)
qed (simp add: lower_char_def)

lemma dropWhile_map_lower: "dropWhile is_py_space (map lower_char s) = map lower_char (dropWhile is_py_space s)"
  by (induction s) auto

lemma py_strip_lower: "py_strip (py_lower s) = py_lower (py_strip s)"
  by (simp add: py_strip_def py_lower_def dropWhile_map_lower rev_map)

lemma dropWhile_idem [simp]: "dropWhile P (dropWhile P xs) = dropWhile P xs"
  by (induction xs) auto

lemma dropWhile_rev_dropWhile:
  "dropWhile P xs = xs \<Longrightarrow> dropWhile P (rev (dropWhile P (rev xs))) = rev (dropWhile P (rev xs))"
proof (cases xs)
  case (Cons x ys)
  assume "dropWhile P xs = xs"
  then have nx: "\<not> P x" using Cons length_dropWhile_le [of P ys] by (auto split: if_splits)
  have "dropWhile P (rev xs) = dropWhile P (rev ys) @ [x] \<or> dropWhile P (rev xs) = [x]"
    using nx Cons by (cases "\<forall>y \<in> set ys. P y") (auto simp: dropWhile_append dropWhile_eq_Nil_conv)
  then show ?thesis using nx by auto
qed simp

lemma py_strip_idem [simp]: "py_strip (py_strip s) = py_strip s"
proof -
  let ?t = "dropWhile is_py_space s"
  have "dropWhile is_py_space (py_strip s) = py_strip s"
    unfolding py_strip_def by (rule dropWhile_rev_dropWhile) simp
  then show ?thesis by (simp add: py_strip_def [of "py_strip s"]) (simp add: py_strip_def)
qed

lemma py_lower_idem [simp]: "py_lower (py_lower s) = py_lower s"
  by (simp add: py_lower_def)

lemma norm_cap_idem [simp]: "norm_cap (norm_cap c) = norm_cap c"
  by (simp add: norm_cap_def py_strip_lower)

lemma set_py_strip: "set (py_strip s) \<subseteq> set s"
  unfolding py_strip_def by (auto dest!: set_dropWhileD)

lemma comma_norm_cap: "CHR '','' \<notin> set c \<Longrightarrow> CHR '','' \<notin> set (norm_cap c)"
  using set_py_strip [of c] by (auto simp: norm_cap_def py_lower_def eq_commute [of "CHR '',''"])

lemma set_normalise: "set (normalise_caps cs) = norm_cap ` {c \<in> set cs. py_strip c \<noteq> []}"
proof -
  have "py_strip [] = []" by (simp add: py_strip_def)
  then show ?thesis by (auto simp: normalise_caps_def)
qed

lemma norm_cap_Nil_iff [simp]: "norm_cap c = [] \<longleftrightarrow> py_strip c = []"
  by (simp add: norm_cap_def py_lower_def)

lemma normalise_mem: "c \<in> set (normalise_caps cs) \<Longrightarrow> norm_cap c = c \<and> c \<noteq> [] \<and> py_strip c \<noteq> []"
  by (auto simp: set_normalise norm_cap_def py_strip_lower) (auto simp: py_lower_def)

lemma sorted_normalise [simp]: "sorted (normalise_caps cs)" "distinct (normalise_caps cs)"
  by (simp_all add: normalise_caps_def)

text \<open>A sorted list of normalised capabilities is its own normal form.\<close>

lemma set_normalise_subset:
  assumes "set ds \<subseteq> set (normalise_caps cs)"
  shows "set (normalise_caps ds) = set ds"
proof -
  have "norm_cap c = c \<and> py_strip c \<noteq> []" if "c \<in> set ds" for c
    using that assms normalise_mem by blast
  then show ?thesis by (force simp: set_normalise)
qed

lemma normalise_subset:
  assumes "set ds \<subseteq> set (normalise_caps cs)" "sorted ds" "distinct ds"
  shows "normalise_caps ds = ds"
  by (rule sorted_distinct_set_unique) (use assms set_normalise_subset in auto)

lemma normalise_idem [simp]: "normalise_caps (normalise_caps cs) = normalise_caps cs"
  by (rule normalise_subset) auto

section \<open>The key determines the set\<close>

definition comma_free :: "string list \<Rightarrow> bool" where
  "comma_free cs = list_all (\<lambda>c. CHR '','' \<notin> set c) cs"

lemma split_no_comma: "CHR '','' \<notin> set s \<Longrightarrow> py_split_char (CHR '','') s = [s]"
  by (induction s) auto

lemma split_join_one:
  "CHR '','' \<notin> set s \<Longrightarrow>
   py_split_char (CHR '','') (s @ CHR '','' # rest) = s # py_split_char (CHR '','') rest"
  by (induction s) auto

lemma split_join:
  "cs \<noteq> [] \<Longrightarrow> comma_free cs \<Longrightarrow> py_split_char (CHR '','') (py_join '','' cs) = cs"
proof (induction cs)
  case (Cons c cs)
  then show ?case by (cases cs) (auto simp: comma_free_def split_no_comma split_join_one)
qed simp

lemma join_Nil_iff: "[] \<notin> set cs \<Longrightarrow> py_join '','' cs = [] \<longleftrightarrow> cs = []"
  by (cases cs; cases "tl cs") auto

lemma join_inj:
  assumes "comma_free xs" "comma_free ys" "[] \<notin> set xs" "[] \<notin> set ys"
    and "py_join '','' xs = py_join '','' ys"
  shows "xs = ys"
proof (cases "xs = [] \<or> ys = []")
  case True
  then show ?thesis using assms join_Nil_iff by (metis py_join.simps(1))
next
  case False
  then show ?thesis using assms split_join by metis
qed

lemma comma_free_normalise: "comma_free cs \<Longrightarrow> comma_free (normalise_caps cs)"
  by (auto simp: comma_free_def list_all_iff set_normalise dest: comma_norm_cap)

lemma normalise_nonempty: "[] \<notin> set (normalise_caps cs)"
  using normalise_mem by blast

lemma capability_key_eq_iff:
  assumes "comma_free xs" "comma_free ys"
  shows "capability_key xs = capability_key ys \<longleftrightarrow> set (normalise_caps xs) = set (normalise_caps ys)"
proof
  assume "capability_key xs = capability_key ys"
  then have "normalise_caps xs = normalise_caps ys"
    unfolding capability_key_def
    by (intro join_inj) (simp_all add: assms comma_free_normalise normalise_nonempty)
  then show "set (normalise_caps xs) = set (normalise_caps ys)" by simp
next
  assume "set (normalise_caps xs) = set (normalise_caps ys)"
  then have "normalise_caps xs = normalise_caps ys"
    by (intro sorted_distinct_set_unique) auto
  then show "capability_key xs = capability_key ys" by (simp add: capability_key_def)
qed

section \<open>The keys of a worker\<close>

lemma set_combinations: "set (combinations xs r) = {ys. subseq ys xs \<and> length ys = r}"
proof (induction xs r rule: combinations.induct)
  case (3 x xs r)
  have "subseq ys (x # xs) \<and> length ys = Suc r \<longleftrightarrow>
      (\<exists>zs. ys = x # zs \<and> subseq zs xs \<and> length zs = r) \<or> (subseq ys xs \<and> length ys = Suc r)" for ys
    by (cases ys) (auto simp: subseq_Cons')
  then show ?case by (auto simp: 3)
qed auto

lemma sat_keys_set:
  "set (satisfiable_capability_keys wc) =
     capability_key ` {ys. subseq ys (normalise_caps wc)}"
proof -
  let ?c = "normalise_caps wc"
  have "set (satisfiable_capability_keys wc) =
      (\<Union>r \<in> {0..<Suc (length ?c)}. capability_key ` {ys. subseq ys ?c \<and> length ys = r})"
    by (simp only: satisfiable_capability_keys_def Let_def set_sorted_set set_concat set_map
        image_image set_combinations set_upt)
  also have "\<dots> = capability_key ` {ys. subseq ys ?c}"
    using list_emb_length [of "(=)" _ ?c] by (fastforce simp: less_Suc_eq_le)
  finally show ?thesis .
qed

lemma satisfies_key:
  assumes "worker_satisfies req wc"
  shows "capability_key req \<in> set (satisfiable_capability_keys wc)"
proof -
  let ?n = "normalise_caps req" and ?h = "normalise_caps wc"
  let ?f = "filter (\<lambda>c. c \<in> set ?n) ?h"
  have sub: "set ?n \<subseteq> set ?h"
    using assms by (auto simp: worker_satisfies_def list_all_iff)
  have "?f = ?n"
    by (rule sorted_distinct_set_unique) (use sub in \<open>auto simp: sorted_wrt_filter\<close>)
  moreover have "capability_key ?n = capability_key req" by (simp add: capability_key_def)
  ultimately show ?thesis unfolding sat_keys_set by (metis image_eqI mem_Collect_eq subseq_filter_left)
qed

lemma key_satisfies:
  assumes "comma_free req" "comma_free wc"
    and "capability_key req \<in> set (satisfiable_capability_keys wc)"
  shows "worker_satisfies req wc"
proof -
  let ?h = "normalise_caps wc"
  from assms(3) obtain ys where ys: "subseq ys ?h" "capability_key req = capability_key ys"
    by (auto simp: sat_keys_set)
  have sub: "set ys \<subseteq> set ?h" using ys(1) by (auto dest: list_emb_set)
  have "comma_free ys"
    using sub comma_free_normalise [OF assms(2)] by (auto simp: comma_free_def list_all_iff)
  then have "set (normalise_caps req) = set (normalise_caps ys)"
    using ys(2) assms(1) by (simp add: capability_key_eq_iff)
  also have "\<dots> = set ys"
    by (rule set_normalise_subset) (rule sub)
  finally show ?thesis using sub by (simp add: worker_satisfies_def list_all_iff subset_iff)
qed

lemma sat_keys_length: "length (satisfiable_capability_keys wc) \<le> 2 ^ length (normalise_caps wc)"
proof -
  have "distinct (satisfiable_capability_keys wc)"
    by (simp add: satisfiable_capability_keys_def Let_def)
  then have "length (satisfiable_capability_keys wc) = card (set (satisfiable_capability_keys wc))"
    by (simp add: distinct_card)
  also have "\<dots> = card (capability_key ` set (subseqs (normalise_caps wc)))"
    by (simp add: sat_keys_set set_subseqs_eq)
  also have "\<dots> \<le> length (subseqs (normalise_caps wc))"
    by (meson List.finite_set card_image_le card_length le_trans)
  also have "\<dots> = 2 ^ length (normalise_caps wc)" by (rule length_subseqs)
  finally show ?thesis .
qed

text \<open>
  The keys a worker is given are exactly those of the requirement sets it satisfies: for
  comma-free capability names, a task's key is among \<open>satisfiable_capability_keys\<close> iff the
  subset test \<open>worker_satisfies\<close> holds; equal keys mean equal requirement sets; and there are at
  most \<open>2\<close> to the number of declared capabilities of them (32 on the keyed claim path).
\<close>

theorem satisfiable_keys_correct:
  assumes "comma_free req" "comma_free wc"
  shows "(capability_key req \<in> set (satisfiable_capability_keys wc) \<longleftrightarrow> worker_satisfies req wc)
    \<and> length (satisfiable_capability_keys wc) \<le> 2 ^ length (normalise_caps wc)
    \<and> (capability_key req = capability_key wc \<longleftrightarrow>
         worker_satisfies req wc \<and> worker_satisfies wc req)"
proof (intro conjI)
  show "capability_key req \<in> set (satisfiable_capability_keys wc) \<longleftrightarrow> worker_satisfies req wc"
    using key_satisfies [OF assms] satisfies_key by blast
  show "length (satisfiable_capability_keys wc) \<le> 2 ^ length (normalise_caps wc)"
    by (rule sat_keys_length)
  show "capability_key req = capability_key wc \<longleftrightarrow>
      worker_satisfies req wc \<and> worker_satisfies wc req"
    unfolding capability_key_eq_iff [OF assms]
    by (auto simp: worker_satisfies_def list_all_iff)
qed

theorem satisfiable_keys_correct_witness:
  "comma_free [''GPU ''] \<and> comma_free [''gpu'', ''internet'']
   \<and> worker_satisfies [''GPU ''] [''gpu'', ''internet'']
   \<and> capability_key [''GPU ''] \<in> set (satisfiable_capability_keys [''gpu'', ''internet''])"
proof -
  have c: "comma_free [''GPU '']" "comma_free [''gpu'', ''internet'']" by (simp_all add: comma_free_def)
  have "worker_satisfies [''GPU ''] [''gpu'', ''internet'']" by code_simp
  then show ?thesis using c satisfiable_keys_correct [OF c] by blast
qed

text \<open>
  The comma matters: a task that requires the single capability \<open>gpu,internet\<close> has the key of the
  set \<open>{gpu, internet}\<close>, so the keyed claim hands it to a worker the subset test rejects.
\<close>

theorem capability_key_comma_collision:
  "capability_key [''gpu,internet''] \<in> set (satisfiable_capability_keys [''gpu'', ''internet''])
   \<and> \<not> worker_satisfies [''gpu,internet''] [''gpu'', ''internet'']"
  by code_simp

end
