(* ===== verification/Json.thy ===== *)
theory Json
  imports Prelude
begin

text \<open>
  JSON values as the \<open>payload\<close>, \<open>result\<close>, \<open>runtime_spec\<close> and \<open>data\<close> columns hold them. A Python
  dict is an association list with distinct keys, in insertion order; \<open>==\<close> on dicts ignores that
  order, and a truth value is the number 1 or 0 (\<open>bool\<close> is a subclass of \<open>int\<close>); \<open>json_eq\<close>
  writes both out. The numbers are the finite ones a \<open>jsonb\<close> column can hold: \<open>NaN\<close> and the
  infinities, which Python's parser also accepts, have no value here.
\<close>

datatype json =
    JNull
  | JBool bool
  | JNum rat
  | JStr string
  | JArr "json list"
  | JObj "(string \<times> json) list"

type_synonym dict = "(string \<times> json) list"

lemma size_zip_left [termination_simp]:
  "(a, b) \<in> set (zip xs ys) \<Longrightarrow> size a < Suc (size_list size xs)"
  by (meson le_imp_less_Suc set_zip_leftD size_list_estimation' order_refl)

fun json_eq :: "json \<Rightarrow> json \<Rightarrow> bool" where
  "json_eq JNull JNull = True"
| "json_eq (JBool a) (JBool b) = (a = b)"
| "json_eq (JNum a) (JNum b) = (a = b)"
| "json_eq (JBool a) (JNum b) = (b = of_bool a)"
| "json_eq (JNum a) (JBool b) = (a = of_bool b)"
| "json_eq (JStr a) (JStr b) = (a = b)"
| "json_eq (JArr xs) (JArr ys) =
     (length xs = length ys \<and> list_all (\<lambda>(x, y). json_eq x y) (zip xs ys))"
| "json_eq (JObj xs) (JObj ys) =
     (length xs = length ys \<and>
      list_all (\<lambda>(k, v). case map_of ys k of None \<Rightarrow> False | Some w \<Rightarrow> json_eq v w) xs)"
| "json_eq _ _ = False"

definition dict_eq :: "dict \<Rightarrow> dict \<Rightarrow> bool" where
  "dict_eq d e = json_eq (JObj d) (JObj e)"

definition dict_del :: "string \<Rightarrow> dict \<Rightarrow> dict" where
  "dict_del k d = filter (\<lambda>kv. fst kv \<noteq> k) d"

definition dict_set :: "string \<Rightarrow> json \<Rightarrow> dict \<Rightarrow> dict" where
  "dict_set k v d =
     (if k \<in> fst ` set d then map (\<lambda>(k', v'). if k' = k then (k', v) else (k', v')) d
      else d @ [(k, v)])"

definition dict_get :: "dict \<Rightarrow> string \<Rightarrow> json \<Rightarrow> json" where
  "dict_get d k dflt = (case map_of d k of None \<Rightarrow> dflt | Some v \<Rightarrow> v)"

text \<open>Every dict of a value has distinct keys: what a Python dict guarantees.\<close>

fun json_wf :: "json \<Rightarrow> bool" where
  "json_wf (JArr xs) = list_all json_wf xs"
| "json_wf (JObj kvs) = (distinct (map fst kvs) \<and> list_all (\<lambda>(k, v). json_wf v) kvs)"
| "json_wf _ = True"

definition dict_wf :: "dict \<Rightarrow> bool" where
  "dict_wf d = json_wf (JObj d)"

lemma json_eq_refl: "json_wf v \<Longrightarrow> json_eq v v"
proof (induction v rule: json_wf.induct)
  case (1 xs)
  have "json_eq x y" if "(x, y) \<in> set (zip xs xs)" for x y
    using that 1 by (auto simp: zip_same list_all_iff)
  then show ?case by (auto simp: list_all_iff)
next
  case (2 kvs)
  have "map_of kvs k = Some v" if "(k, v) \<in> set kvs" for k v
    using that 2(2) by simp
  then show ?case using 2 by (fastforce simp: list_all_iff)
qed auto

lemma dict_eq_refl: "dict_wf d \<Longrightarrow> dict_eq d d"
  unfolding dict_wf_def dict_eq_def by (rule json_eq_refl)

lemma map_of_dict_del: "map_of (dict_del k d) k' = (if k' = k then None else map_of d k')"
  unfolding dict_del_def by (induction d) auto

lemma dict_del_set [simp]: "dict_del k (dict_set k v d) = dict_del k d"
proof -
  have "filter (\<lambda>kv. fst kv \<noteq> k) (map (\<lambda>(k', v'). if k' = k then (k', v) else (k', v')) d)
      = filter (\<lambda>kv. fst kv \<noteq> k) d"
    by (induction d) (auto split: if_splits)
  then show ?thesis by (simp add: dict_del_def dict_set_def)
qed

lemma dict_wf_del: "dict_wf d \<Longrightarrow> dict_wf (dict_del k d)"
  unfolding dict_wf_def dict_del_def
  by (simp add: list_all_iff distinct_map_filter)

lemma dict_del_idem [simp]: "dict_del k (dict_del k d) = dict_del k d"
  by (simp add: dict_del_def)

lemma map_of_dict_set: "map_of (dict_set k v d) k' = (if k' = k then Some v else map_of d k')"
proof -
  have "map_of (map (\<lambda>(x, w). if x = k then (x, v) else (x, w)) d) k' =
      (if k' = k then (if map_of d k = None then None else Some v) else map_of d k')" for k'
    by (induction d) auto
  moreover have "k \<in> fst ` set d \<longleftrightarrow> map_of d k \<noteq> None"
    by (simp add: map_of_eq_None_iff)
  ultimately show ?thesis
    by (auto simp: dict_set_def map_add_def split: option.splits)
qed

lemma dict_get_set: "dict_get (dict_set k v d) k dflt = v"
  by (simp add: dict_get_def map_of_dict_set)

end
