(* ===== verification/Authz.thy ===== *)
theory Authz
  imports Json
begin

text \<open>
  \<open>domain/authz.py\<close>: tool references, the policy frozen for an attempt, and the authorization
  decision. A Python mapping from tool name to \<open>ToolRef\<close> is a partial function.
\<close>

datatype tool_status = TOOL_ACTIVE | TOOL_DISABLED

datatype tool_type = SIMULATED | HTTP

datatype deny_reason = UNKNOWN_TOOL | NOT_GRANTED | DENY_TOOL_DISABLED | DENY_VERSION_DISABLED | NO_POLICY

fun deny_value :: "deny_reason \<Rightarrow> string" where
  "deny_value UNKNOWN_TOOL = ''unknown_tool''"
| "deny_value NOT_GRANTED = ''not_granted''"
| "deny_value DENY_TOOL_DISABLED = ''tool_disabled''"
| "deny_value DENY_VERSION_DISABLED = ''version_disabled''"
| "deny_value NO_POLICY = ''no_policy''"

record tool_ref =
  tr_id :: uuid
  tr_name :: string
  tr_tool_type :: tool_type
  tr_status :: tool_status
  tr_config :: dict

record tool_policy =
  tp_agent_version_id :: "uuid option"
  granted_tool_ids :: "uuid list"
  tools_by_name :: "string \<Rightarrow> tool_ref option"
  version_disabled :: bool

definition UNGOVERNED :: tool_policy where
  "UNGOVERNED = \<lparr>tp_agent_version_id = None, granted_tool_ids = [], tools_by_name = Map.empty,
     version_disabled = False\<rparr>"

record authz_decision =
  allowed :: bool
  decision_tool :: "tool_ref option"
  decision_reason :: "deny_reason option"

definition deny :: "tool_ref option \<Rightarrow> deny_reason \<Rightarrow> authz_decision" where
  "deny t r = \<lparr>allowed = False, decision_tool = t, decision_reason = Some r\<rparr>"

definition permit :: "tool_ref \<Rightarrow> authz_decision" where
  "permit t = \<lparr>allowed = True, decision_tool = Some t, decision_reason = None\<rparr>"

definition authorize :: "tool_policy \<Rightarrow> string \<Rightarrow> authz_decision" where
  "authorize policy tool_name =
     (if version_disabled policy then deny None DENY_VERSION_DISABLED
      else if tp_agent_version_id policy = None then deny None NO_POLICY
      else (case tools_by_name policy tool_name of
              None \<Rightarrow> deny None UNKNOWN_TOOL
            | Some tool \<Rightarrow>
                if tr_status tool = TOOL_DISABLED then deny (Some tool) DENY_TOOL_DISABLED
                else if tr_id tool \<notin> set (granted_tool_ids policy) then deny (Some tool) NOT_GRANTED
                else permit tool))"

lemma allowed_deny_permit [simp]:
  "\<not> allowed (deny t r)" "allowed (permit u)"
  "decision_reason (deny t r) = Some r" "decision_reason (permit u) = None"
  "decision_tool (deny t r) = t" "decision_tool (permit u) = Some u"
  by (simp_all add: deny_def permit_def)

lemma tool_status_not_disabled: "s \<noteq> TOOL_DISABLED \<longleftrightarrow> s = TOOL_ACTIVE"
  by (cases s) auto

lemma authorize_allowed_iff:
  "allowed (authorize p n) \<longleftrightarrow> \<not> version_disabled p \<and> tp_agent_version_id p \<noteq> None \<and>
     (\<exists>t. tools_by_name p n = Some t \<and> tr_status t = TOOL_ACTIVE \<and> tr_id t \<in> set (granted_tool_ids p))"
  by (auto simp: authorize_def tool_status_not_disabled split: option.splits)

lemma authorize_allowed_tool:
  "allowed (authorize p n) \<Longrightarrow> \<exists>t. decision_tool (authorize p n) = Some t \<and> tools_by_name p n = Some t"
  by (auto simp: authorize_def split: option.splits if_splits)

lemma authorize_reason: "allowed (authorize p n) \<longleftrightarrow> decision_reason (authorize p n) = None"
  by (auto simp: authorize_def split: option.splits)

text \<open>
  The authorization matrix: a call is allowed exactly when the version is not disabled, a
  version governs the task, the tool exists in the policy, is not disabled, and is granted; the
  kill switches win over every grant; every refusal carries the reason of the first failing test;
  and a task with no version is refused everything.
\<close>

theorem authorize_matrix:
  "(allowed (authorize p n) \<longleftrightarrow> \<not> version_disabled p \<and> tp_agent_version_id p \<noteq> None \<and>
      (\<exists>t. tools_by_name p n = Some t \<and> tr_status t = TOOL_ACTIVE \<and> tr_id t \<in> set (granted_tool_ids p)))
   \<and> (decision_reason (authorize p n) = Some DENY_VERSION_DISABLED \<longleftrightarrow> version_disabled p)
   \<and> (decision_reason (authorize p n) = Some NO_POLICY \<longleftrightarrow>
        \<not> version_disabled p \<and> tp_agent_version_id p = None)
   \<and> (decision_reason (authorize p n) = Some UNKNOWN_TOOL \<longleftrightarrow>
        \<not> version_disabled p \<and> tp_agent_version_id p \<noteq> None \<and> tools_by_name p n = None)
   \<and> (decision_reason (authorize p n) = Some DENY_TOOL_DISABLED \<longleftrightarrow>
        \<not> version_disabled p \<and> tp_agent_version_id p \<noteq> None \<and>
        (\<exists>t. tools_by_name p n = Some t \<and> tr_status t = TOOL_DISABLED))
   \<and> \<not> allowed (authorize UNGOVERNED n)"
  by (auto simp: authorize_allowed_iff UNGOVERNED_def)
     (auto simp: authorize_def split: option.splits if_splits)

end
