(* ===== verification/Schema.thy ===== *)
theory Schema
  imports TaskStates Capabilities Authz
begin

text \<open>
  \<open>db/models.py\<close>: one record per table row, the database as a record of tables, the CHECK
  constraints, and the \<open>UPDATE\<close> statements on rows. An \<open>UPDATE\<close> assigns columns; the columns no
  statement of the program assigns have no assignment constructor, so they cannot change.
\<close>

section \<open>Rows\<close>

datatype worker_status = ALIVE | DRAINING | DEAD

datatype attempt_outcome = OUT_SUCCEEDED | OUT_FAILED | OUT_LOST | OUT_ABANDONED | OUT_CANCELLED

record tenant =
  tn_id :: uuid
  tn_name :: string
  max_concurrent_tasks :: int
  max_queued_tasks :: int
  priority_weight :: int
  tn_created_at :: time

record task =
  t_id :: uuid
  t_tenant_id :: uuid
  task_type :: string
  payload :: dict
  idempotency_key :: "string option"
  priority :: int
  t_state :: state
  t_attempt :: int
  t_max_attempts :: int
  t_max_execution_time_s :: int
  available_at :: time
  lease_worker_id :: "string option"
  lease_expires_at :: "time option"
  t_agent_version_id :: "uuid option"
  t_required_capabilities :: "string list"
  t_capability_key :: string
  cancel_requested :: bool
  t_result :: "dict option"
  t_error_class :: "string option"
  t_error_message :: "string option"
  t_created_at :: time
  updated_at :: time
  first_started_at :: "time option"
  t_finished_at :: "time option"

record task_event =
  te_id :: nat
  te_task_id :: uuid
  te_attempt :: "int option"
  te_event_type :: event_type
  te_worker_id :: "string option"
  te_data :: dict
  te_created_at :: time

record worker =
  w_id :: string
  hostname :: string
  pid :: int
  capacity :: int
  w_capabilities :: "string list"
  w_status :: worker_status
  registered_at :: time
  last_heartbeat_at :: time

record task_attempt =
  ta_task_id :: uuid
  ta_attempt :: int
  ta_worker_id :: string
  started_at :: time
  ta_finished_at :: "time option"
  outcome :: "attempt_outcome option"
  ta_error_class :: "string option"
  ta_error_message :: "string option"

record agent =
  ag_id :: uuid
  ag_tenant_id :: uuid
  ag_name :: string
  ag_description :: "string option"
  ag_status :: agent_status
  default_version_id :: "uuid option"
  ag_created_at :: time
  ag_updated_at :: time

record agent_version =
  av_id :: uuid
  av_agent_id :: uuid
  av_version :: int
  runtime_spec :: dict
  av_required_capabilities :: "string list"
  av_config :: dict
  av_max_attempts :: int
  av_max_execution_time_s :: int
  av_status :: version_status
  av_created_at :: time

record agent_route =
  rt_tenant_id :: uuid
  rt_request_type :: string
  rt_agent_id :: uuid
  rt_created_at :: time

record tool =
  tl_id :: uuid
  tl_tenant_id :: uuid
  tl_name :: string
  tl_description :: "string option"
  tl_tool_type :: tool_type
  tl_config :: dict
  tl_status :: tool_status
  tl_created_at :: time

record tool_grant =
  gr_agent_version_id :: uuid
  gr_tool_id :: uuid
  gr_created_at :: time

record audit_event =
  au_id :: nat
  au_tenant_id :: uuid
  au_actor :: string
  au_action :: string
  au_resource_type :: string
  au_resource_id :: "uuid option"
  au_outcome :: string
  au_data :: dict
  au_created_at :: time

text \<open>
  The database at one moment: \<open>now\<close> is PostgreSQL's clock, which \<open>now()\<close> reads once per
  transaction; the two \<open>BIGSERIAL\<close> sequences are counters.
\<close>

record db =
  now :: time
  tenants :: "tenant list"
  tasks :: "task list"
  task_events :: "task_event list"
  next_event_id :: nat
  workers :: "worker list"
  task_attempts :: "task_attempt list"
  agents :: "agent list"
  agent_versions :: "agent_version list"
  agent_routes :: "agent_route list"
  tools :: "tool list"
  agent_version_tool_grants :: "tool_grant list"
  audit_events :: "audit_event list"
  next_audit_id :: nat

definition empty_db :: "time \<Rightarrow> db" where
  "empty_db t = \<lparr>now = t, tenants = [], tasks = [], task_events = [], next_event_id = 1,
     workers = [], task_attempts = [], agents = [], agent_versions = [], agent_routes = [],
     tools = [], agent_version_tool_grants = [], audit_events = [], next_audit_id = 1\<rparr>"

section \<open>Durations\<close>

definition seconds :: "rat \<Rightarrow> rat" where
  "seconds value = value * 1"

lemma seconds_id [simp]: "seconds v = v"
  by (simp add: seconds_def)

section \<open>CHECK constraints\<close>

definition lease_coherent :: "task \<Rightarrow> bool" where
  "lease_coherent t =
     ((t_state t = RUNNING) = (lease_worker_id t \<noteq> None \<and> lease_expires_at t \<noteq> None))"

definition task_violation :: "task \<Rightarrow> string option" where
  "task_violation t =
     (if \<not> (t_max_attempts t \<ge> 1) then Some ''ck_tasks_max_attempts''
      else if \<not> (t_max_execution_time_s t \<ge> 1) then Some ''ck_tasks_max_execution_time''
      else if \<not> (t_attempt t \<ge> 0) then Some ''ck_tasks_attempt_nonneg''
      else if \<not> (priority t \<ge> 0) then Some ''ck_tasks_priority_nonneg''
      else if \<not> lease_coherent t then Some ''ck_tasks_lease_coherence''
      else None)"

text \<open>The first constraint a list of new row versions violates.\<close>

fun first_violation :: "task list \<Rightarrow> string option" where
  "first_violation [] = None"
| "first_violation (t # ts) = (case task_violation t of None \<Rightarrow> first_violation ts | Some c \<Rightarrow> Some c)"

lemma task_violation_None [simp]:
  "task_violation t = None \<longleftrightarrow> t_max_attempts t \<ge> 1 \<and> t_max_execution_time_s t \<ge> 1 \<and>
     t_attempt t \<ge> 0 \<and> priority t \<ge> 0 \<and> lease_coherent t"
  by (auto simp: task_violation_def)

lemma first_violation_None: "first_violation ts = None \<longleftrightarrow> (\<forall>t \<in> set ts. task_violation t = None)"
  by (induction ts) (auto simp del: task_violation_None split: option.splits)

section \<open>Assignments of an UPDATE\<close>

datatype assignment =
    SET_state state
  | SET_attempt int
  | SET_available_at time
  | SET_lease_worker_id "string option"
  | SET_lease_expires_at "time option"
  | SET_cancel_requested bool
  | SET_result "dict option"
  | SET_error_class "string option"
  | SET_error_message "string option"
  | SET_updated_at time
  | SET_first_started_at "time option"
  | SET_finished_at "time option"

fun assign :: "assignment \<Rightarrow> task \<Rightarrow> task" where
  "assign (SET_state v) t = t\<lparr>t_state := v\<rparr>"
| "assign (SET_attempt v) t = t\<lparr>t_attempt := v\<rparr>"
| "assign (SET_available_at v) t = t\<lparr>available_at := v\<rparr>"
| "assign (SET_lease_worker_id v) t = t\<lparr>lease_worker_id := v\<rparr>"
| "assign (SET_lease_expires_at v) t = t\<lparr>lease_expires_at := v\<rparr>"
| "assign (SET_cancel_requested v) t = t\<lparr>cancel_requested := v\<rparr>"
| "assign (SET_result v) t = t\<lparr>t_result := v\<rparr>"
| "assign (SET_error_class v) t = t\<lparr>t_error_class := v\<rparr>"
| "assign (SET_error_message v) t = t\<lparr>t_error_message := v\<rparr>"
| "assign (SET_updated_at v) t = t\<lparr>updated_at := v\<rparr>"
| "assign (SET_first_started_at v) t = t\<lparr>first_started_at := v\<rparr>"
| "assign (SET_finished_at v) t = t\<lparr>t_finished_at := v\<rparr>"

text \<open>The right-hand sides of a \<open>SET\<close> clause may read the row's old version.\<close>

definition set_row :: "(task \<Rightarrow> assignment list) \<Rightarrow> task \<Rightarrow> task" where
  "set_row f t = fold assign (f t) t"

text \<open>The columns no statement assigns: what a submission pins for the life of the task.\<close>

definition pinned :: "task \<Rightarrow> uuid \<times> uuid \<times> string \<times> dict \<times> string option \<times> int \<times> int \<times> int
    \<times> uuid option \<times> string list \<times> string \<times> time" where
  "pinned t = (t_id t, t_tenant_id t, task_type t, payload t, idempotency_key t, priority t,
     t_max_attempts t, t_max_execution_time_s t, t_agent_version_id t, t_required_capabilities t,
     t_capability_key t, t_created_at t)"

lemma pinned_assign [simp]: "pinned (assign a t) = pinned t"
  by (cases a) (simp_all add: pinned_def)

lemma pinned_fold_assign [simp]: "pinned (fold assign as t) = pinned t"
  by (induction as arbitrary: t) auto

lemma pinned_set_row [simp]: "pinned (set_row f t) = pinned t"
  by (simp add: set_row_def)

lemma pinned_columns:
  assumes "pinned t = pinned u"
  shows "t_id t = t_id u" "t_tenant_id t = t_tenant_id u" "idempotency_key t = idempotency_key u"
    "t_max_attempts t = t_max_attempts u" "priority t = priority u"
    "t_max_execution_time_s t = t_max_execution_time_s u"
    "t_agent_version_id t = t_agent_version_id u" "t_capability_key t = t_capability_key u"
    "payload t = payload u" "t_required_capabilities t = t_required_capabilities u"
  using assms by (simp_all add: pinned_def)

lemma set_row_columns [simp]:
  "t_id (set_row f t) = t_id t" "t_tenant_id (set_row f t) = t_tenant_id t"
  "idempotency_key (set_row f t) = idempotency_key t" "priority (set_row f t) = priority t"
  "t_max_attempts (set_row f t) = t_max_attempts t"
  "t_max_execution_time_s (set_row f t) = t_max_execution_time_s t"
  "t_agent_version_id (set_row f t) = t_agent_version_id t"
  "t_capability_key (set_row f t) = t_capability_key t"
  "t_required_capabilities (set_row f t) = t_required_capabilities t"
  by (rule pinned_columns [OF pinned_set_row])+

interpretation task_rows: keyed_table t_id set_row
  by unfold_locales simp

datatype worker_assignment = SET_last_heartbeat_at time | SET_worker_status worker_status

fun assign_worker :: "worker_assignment \<Rightarrow> worker \<Rightarrow> worker" where
  "assign_worker (SET_last_heartbeat_at v) w = w\<lparr>last_heartbeat_at := v\<rparr>"
| "assign_worker (SET_worker_status v) w = w\<lparr>w_status := v\<rparr>"

lemma assign_worker_id [simp]: "w_id (assign_worker a w) = w_id w"
  by (cases a) auto

interpretation worker_rows: keyed_table w_id assign_worker
  by unfold_locales simp

section \<open>Statements on the tasks table\<close>

definition find_task :: "db \<Rightarrow> uuid \<Rightarrow> task option" where
  "find_task d i = find_by t_id i (tasks d)"

text \<open>
  \<open>UPDATE tasks SET f WHERE p RETURNING *\<close>: the new versions of the matching rows and the new
  table, or the constraint a new version violates.
\<close>

definition update_tasks ::
  "(task \<Rightarrow> bool) \<Rightarrow> (task \<Rightarrow> assignment list) \<Rightarrow> db \<Rightarrow> exn + (task list \<times> db)" where
  "update_tasks p f d =
     (let rows = sql_returning p (set_row f) (tasks d) in
      case first_violation rows of
        Some c \<Rightarrow> Inl (IntegrityError c)
      | None \<Rightarrow> Inr (rows, d\<lparr>tasks := sql_update p (set_row f) (tasks d)\<rparr>))"

text \<open>\<open>INSERT INTO task_events\<close>, with its foreign key to \<open>tasks\<close>.\<close>

definition insert_event ::
  "uuid \<Rightarrow> event_type \<Rightarrow> int option \<Rightarrow> string option \<Rightarrow> dict \<Rightarrow> db \<Rightarrow> exn + db" where
  "insert_event i et a w data d =
     (if find_task d i = None then Inl (IntegrityError ''task_events_task_id_fkey'')
      else Inr (d\<lparr>task_events := task_events d @
                   [\<lparr>te_id = next_event_id d, te_task_id = i, te_attempt = a, te_event_type = et,
                     te_worker_id = w, te_data = data, te_created_at = now d\<rparr>],
                 next_event_id := next_event_id d + 1\<rparr>))"

definition find_worker :: "db \<Rightarrow> string \<Rightarrow> worker option" where
  "find_worker d i = find_by w_id i (workers d)"

text \<open>\<open>INSERT INTO task_attempts\<close>: the primary key and the foreign keys to tasks and workers.\<close>

definition insert_attempt :: "uuid \<Rightarrow> int \<Rightarrow> string \<Rightarrow> db \<Rightarrow> exn + db" where
  "insert_attempt i a w d =
     (if find_task d i = None then Inl (IntegrityError ''task_attempts_task_id_fkey'')
      else if find_worker d w = None then Inl (IntegrityError ''task_attempts_worker_id_fkey'')
      else if list_ex (\<lambda>r. ta_task_id r = i \<and> ta_attempt r = a) (task_attempts d)
        then Inl (IntegrityError ''pk_task_attempts'')
      else Inr (d\<lparr>task_attempts := task_attempts d @
                   [\<lparr>ta_task_id = i, ta_attempt = a, ta_worker_id = w, started_at = now d,
                     ta_finished_at = None, outcome = None, ta_error_class = None,
                     ta_error_message = None\<rparr>]\<rparr>))"

lemma find_task_SomeD: "find_task d i = Some t \<Longrightarrow> t \<in> set (tasks d) \<and> t_id t = i"
  unfolding find_task_def by (rule find_by_SomeD)

lemma update_tasks_Inr:
  "update_tasks p f d = Inr (rows, d') \<longleftrightarrow>
     (\<forall>t \<in> set (tasks d). p t \<longrightarrow> task_violation (set_row f t) = None) \<and>
     rows = sql_returning p (set_row f) (tasks d) \<and>
     d' = d\<lparr>tasks := sql_update p (set_row f) (tasks d)\<rparr>"
proof -
  have "first_violation (sql_returning p (set_row f) (tasks d)) = None \<longleftrightarrow>
      (\<forall>t \<in> set (tasks d). p t \<longrightarrow> task_violation (set_row f t) = None)"
    by (auto simp: first_violation_None sql_returning_def simp del: task_violation_None)
  then show ?thesis
    by (auto simp: update_tasks_def Let_def split: option.splits)
qed

lemma insert_event_Inr:
  "insert_event i et a w data d = Inr d' \<longleftrightarrow>
     find_task d i \<noteq> None \<and>
     d' = d\<lparr>task_events := task_events d @
              [\<lparr>te_id = next_event_id d, te_task_id = i, te_attempt = a, te_event_type = et,
                te_worker_id = w, te_data = data, te_created_at = now d\<rparr>],
            next_event_id := next_event_id d + 1\<rparr>"
  by (auto simp: insert_event_def)

lemma insert_attempt_Inr:
  "insert_attempt i a w d = Inr d' \<longleftrightarrow>
     find_task d i \<noteq> None \<and> find_worker d w \<noteq> None \<and>
     (\<forall>r \<in> set (task_attempts d). \<not> (ta_task_id r = i \<and> ta_attempt r = a)) \<and>
     d' = d\<lparr>task_attempts := task_attempts d @
              [\<lparr>ta_task_id = i, ta_attempt = a, ta_worker_id = w, started_at = now d,
                ta_finished_at = None, outcome = None, ta_error_class = None,
                ta_error_message = None\<rparr>]\<rparr>"
  by (auto simp: insert_attempt_def list_ex_iff)

lemma find_task_update:
  "find_task (d\<lparr>tasks := sql_update p (set_row f) (tasks d)\<rparr>) i =
     map_option (\<lambda>t. if p t then set_row f t else t) (find_task d i)"
  unfolding find_task_def by (simp add: task_rows.find_update)

end
