(* ===== verification/Transitions.thy ===== *)
theory Transitions
  imports Schema
begin

text \<open>
  \<open>db/queries/transitions.py\<close>: the compare-and-set every change of \<open>tasks.state\<close> but the claim,
  the agent sweep goes through, the classification of a lost race, and the events with no state
  change. A lost race is a result (\<open>applied = False\<close>); an illegal transition is an exception.
\<close>

datatype rejection =
    NOT_FOUND | STATE_MISMATCH | ATTEMPT_MISMATCH | WORKER_MISMATCH | LEASE_NOT_EXPIRED
  | EXECUTION_TIME_NOT_EXCEEDED

fun rejection_value :: "rejection \<Rightarrow> string" where
  "rejection_value NOT_FOUND = ''not_found''"
| "rejection_value STATE_MISMATCH = ''state_mismatch''"
| "rejection_value ATTEMPT_MISMATCH = ''attempt_mismatch''"
| "rejection_value WORKER_MISMATCH = ''worker_mismatch''"
| "rejection_value LEASE_NOT_EXPIRED = ''lease_not_expired''"
| "rejection_value EXECUTION_TIME_NOT_EXCEEDED = ''execution_time_not_exceeded''"

record transition_result =
  applied :: bool
  result_task :: "task option"
  res_rejection :: "rejection option"
  observed :: "task option"

definition rejected :: "rejection \<Rightarrow> task option \<Rightarrow> transition_result" where
  "rejected r obs = \<lparr>applied = False, result_task = None, res_rejection = Some r, observed = obs\<rparr>"

definition granted :: "task \<Rightarrow> transition_result" where
  "granted t = \<lparr>applied = True, result_task = Some t, res_rejection = None, observed = None\<rparr>"

text \<open>The keyword arguments of \<open>transition\<close>.\<close>

record cas =
  expect_state :: "state list"
  to_state :: state
  cas_event_type :: event_type
  expect_attempt :: "int option"
  expect_worker :: "string option"
  expect_lease_expired :: bool
  expect_execution_time_exceeded :: bool
  set_fields :: "assignment list"
  event_data :: dict

section \<open>The predicates of the WHERE clause\<close>

text \<open>A comparison with a NULL column is not true.\<close>

definition lease_expired :: "time \<Rightarrow> task \<Rightarrow> bool" where
  "lease_expired tnow t = (case lease_expires_at t of None \<Rightarrow> False | Some e \<Rightarrow> e < tnow)"

definition execution_time_exceeded :: "time \<Rightarrow> task \<Rightarrow> bool" where
  "execution_time_exceeded tnow t =
     (case first_started_at t of None \<Rightarrow> False
      | Some s \<Rightarrow> s + seconds (of_int (t_max_execution_time_s t)) < tnow)"

definition attempt_ok :: "cas \<Rightarrow> task \<Rightarrow> bool" where
  "attempt_ok c t = (case expect_attempt c of None \<Rightarrow> True | Some a \<Rightarrow> t_attempt t = a)"

definition worker_ok :: "cas \<Rightarrow> task \<Rightarrow> bool" where
  "worker_ok c t = (case expect_worker c of None \<Rightarrow> True | Some w \<Rightarrow> lease_worker_id t = Some w)"

definition cas_where :: "time \<Rightarrow> cas \<Rightarrow> uuid \<Rightarrow> task \<Rightarrow> bool" where
  "cas_where tnow c i t =
     (t_id t = i \<and> t_state t \<in> set (expect_state c) \<and> attempt_ok c t \<and> worker_ok c t
      \<and> (expect_lease_expired c \<longrightarrow> lease_expired tnow t)
      \<and> (expect_execution_time_exceeded c \<longrightarrow> execution_time_exceeded tnow t))"

definition cas_set :: "time \<Rightarrow> cas \<Rightarrow> task \<Rightarrow> assignment list" where
  "cas_set tnow c t = [SET_state (to_state c), SET_updated_at tnow] @ set_fields c"

definition explain :: "uuid \<Rightarrow> cas \<Rightarrow> db \<Rightarrow> transition_result" where
  "explain i c d =
     (case find_task d i of
        None \<Rightarrow> rejected NOT_FOUND None
      | Some obs \<Rightarrow> rejected
          (if t_state obs \<notin> set (expect_state c) then STATE_MISMATCH
           else if \<not> attempt_ok c obs then ATTEMPT_MISMATCH
           else if \<not> worker_ok c obs then WORKER_MISMATCH
           else if expect_lease_expired c \<and> \<not> lease_expired (now d) obs then LEASE_NOT_EXPIRED
           else if expect_execution_time_exceeded c \<and> \<not> execution_time_exceeded (now d) obs
             then EXECUTION_TIME_NOT_EXCEEDED
           else STATE_MISMATCH) (Some obs))"

text \<open>\<open>for src in expected: assert_legal(src, to_state)\<close>.\<close>

fun assert_all_legal :: "state list \<Rightarrow> state \<Rightarrow> exn + unit" where
  "assert_all_legal [] to = Inr ()"
| "assert_all_legal (s # ss) to = bindE (assert_legal s to) (\<lambda>_. assert_all_legal ss to)"

definition transition :: "uuid \<Rightarrow> cas \<Rightarrow> db \<Rightarrow> exn + (transition_result \<times> db)" where
  "transition i c d =
     (if expect_state c = [] then Inl (ValueError ''expect_state is required'')
      else bindE (assert_all_legal (expect_state c) (to_state c)) (\<lambda>_.
        bindE (update_tasks (cas_where (now d) c i) (cas_set (now d) c) d) (\<lambda>(rows, d1).
          case rows of
            [] \<Rightarrow> Inr (explain i c d1, d1)
          | row # _ \<Rightarrow>
              bindE (insert_event i (cas_event_type c) (Some (t_attempt row))
                       (py_or (lease_worker_id row) (expect_worker c)) (event_data c) d1) (\<lambda>d2.
                Inr (granted row, d2)))))"

definition record_event ::
  "uuid \<Rightarrow> event_type \<Rightarrow> int option \<Rightarrow> string option \<Rightarrow> dict \<Rightarrow> db \<Rightarrow> exn + db" where
  "record_event i et a w data d = insert_event i et a w data d"

section \<open>What a transition does\<close>

lemma applied_simps [simp]:
  "\<not> applied (rejected r obs)" "applied (granted t)"
  "result_task (granted t) = Some t" "res_rejection (rejected r obs) = Some r"
  "observed (rejected r obs) = obs"
  by (simp_all add: rejected_def granted_def)

lemma not_applied_explain [simp]: "\<not> applied (explain i c d)"
  by (simp add: explain_def split: option.splits)

lemma granted_not_explain [simp]: "granted t \<noteq> explain i c d" "explain i c d \<noteq> granted t"
  using not_applied_explain [of i c d] by (metis applied_simps(2))+

lemma assert_all_legal_Inr [simp]:
  "assert_all_legal ss t = Inr u \<longleftrightarrow> (\<forall>s \<in> set ss. is_legal s t)"
  by (induction ss) (auto simp: assert_legal_def)

lemma cas_where_id: "cas_where tnow c i t \<Longrightarrow> t_id t = i"
  by (simp add: cas_where_def)

text \<open>
  The two ways a transition returns: the row with that id matched and alone was rewritten, with
  one event; or nothing matched, the database is unchanged, and the answer is the classification
  of the row. The ids of \<open>tasks\<close> are distinct, as its primary key says.
\<close>

definition ids_distinct :: "db \<Rightarrow> bool" where
  "ids_distinct d = distinct (map t_id (tasks d))"

lemma filter_cas:
  assumes "ids_distinct d"
  shows "filter (cas_where tn c i) (tasks d) =
     (case find_task d i of None \<Rightarrow> [] | Some t \<Rightarrow> if cas_where tn c i t then [t] else [])"
proof -
  have "filter (cas_where tn c i) (tasks d) = filter (\<lambda>t. t_id t = i \<and> cas_where tn c i t) (tasks d)"
    by (rule filter_cong) (auto dest: cas_where_id)
  then show ?thesis
    using filter_key_unique [of t_id "tasks d" i "cas_where tn c i"] assms
    by (simp add: ids_distinct_def find_task_def)
qed

text \<open>The database after a transition that applied to row \<open>t\<close>.\<close>

definition after_transition :: "uuid \<Rightarrow> cas \<Rightarrow> task \<Rightarrow> db \<Rightarrow> db" where
  "after_transition i c t d =
     (let t' = set_row (cas_set (now d) c) t in
      d\<lparr>tasks := sql_update (\<lambda>u. t_id u = i) (set_row (cas_set (now d) c)) (tasks d),
        task_events := task_events d @
          [\<lparr>te_id = next_event_id d, te_task_id = i, te_attempt = Some (t_attempt t'),
            te_event_type = cas_event_type c,
            te_worker_id = py_or (lease_worker_id t') (expect_worker c),
            te_data = event_data c, te_created_at = now d\<rparr>],
        next_event_id := next_event_id d + 1\<rparr>)"

definition cas_legal :: "cas \<Rightarrow> bool" where
  "cas_legal c = (expect_state c \<noteq> [] \<and> list_all (\<lambda>s. is_legal s (to_state c)) (expect_state c))"

lemma sql_update_cas:
  assumes "ids_distinct d" "find_task d i = Some t" "cas_where tn c i t"
  shows "sql_update (cas_where tn c i) f (tasks d) = sql_update (\<lambda>u. t_id u = i) f (tasks d)"
proof -
  have "cas_where tn c i u \<longleftrightarrow> t_id u = i" if "u \<in> set (tasks d)" for u
  proof
    assume "t_id u = i"
    then have "find_task d i = Some u"
      using that assms(1) find_by_unique [of t_id "tasks d" i u] by (simp add: ids_distinct_def find_task_def)
    then show "cas_where tn c i u" using assms(2,3) by simp
  qed (rule cas_where_id)
  then show ?thesis by (simp add: sql_update_def)
qed

lemma find_by_update_same:
  assumes "find_task d i = Some t"
  shows "find_by t_id i (sql_update (\<lambda>u. t_id u = i) (set_row f) (tasks d)) = Some (set_row f t)"
  using assms by (simp add: task_rows.find_update find_task_def) (auto dest: find_by_SomeD)

lemma transition_cases:
  assumes "ids_distinct d" and "cas_legal c"
  shows "transition i c d =
    (case find_task d i of
       None \<Rightarrow> Inr (explain i c d, d)
     | Some t \<Rightarrow>
         if \<not> cas_where (now d) c i t then Inr (explain i c d, d)
         else (case task_violation (set_row (cas_set (now d) c) t) of
                 Some v \<Rightarrow> Inl (IntegrityError v)
               | None \<Rightarrow> Inr (granted (set_row (cas_set (now d) c) t), after_transition i c t d)))"
proof -
  let ?p = "cas_where (now d) c i" and ?f = "cas_set (now d) c"
  have "assert_all_legal (expect_state c) (to_state c) = Inr ()" and ne: "expect_state c \<noteq> []"
    using assms(2) by (auto simp: cas_legal_def list_all_iff)
  then have legal: "bindE (assert_all_legal (expect_state c) (to_state c)) g = g ()"
    for g :: "unit \<Rightarrow> exn + (transition_result \<times> db)" by (simp del: assert_all_legal_Inr)
  have noupd: "sql_update ?p (set_row ?f) (tasks d) = tasks d" if "filter ?p (tasks d) = []"
    using that by (rule sql_update_filter_empty)
  note flt = filter_cas [OF assms(1), of "now d" c i]
  show ?thesis
  proof (cases "find_task d i")
    case None
    then show ?thesis using flt legal ne noupd
      by (simp add: transition_def update_tasks_def sql_returning_def)
  next
    case (Some t)
    show ?thesis
    proof (cases "?p t")
      case False
      then show ?thesis using flt legal ne noupd Some
        by (simp add: transition_def update_tasks_def sql_returning_def)
    next
      case True
      have "find_task (d\<lparr>tasks := sql_update (\<lambda>u. t_id u = i) (set_row ?f) (tasks d)\<rparr>) i = Some (set_row ?f t)"
        using find_by_update_same [OF Some] by (simp add: find_task_def)
      with flt legal ne Some True show ?thesis
        by (simp add: transition_def update_tasks_def sql_returning_def insert_event_def
            sql_update_cas [OF assms(1) Some True] after_transition_def Let_def del: task_violation_None
            split: option.splits)
    qed
  qed
qed

lemma transition_frame:
  assumes "ids_distinct d" "cas_legal c" "transition i c d = Inr (r, d')"
  shows "(\<not> applied r \<and> d' = d \<and> r = explain i c d) \<or>
    (\<exists>t. find_task d i = Some t \<and> cas_where (now d) c i t \<and> applied r \<and>
       r = granted (set_row (cas_set (now d) c) t) \<and>
       task_violation (set_row (cas_set (now d) c) t) = None \<and> d' = after_transition i c t d)"
  using assms(3) unfolding transition_cases [OF assms(1,2)]
  by (auto split: option.splits if_splits simp del: task_violation_None)

lemma after_transition_other_tables [simp]:
  "now (after_transition i c t d) = now d" "tenants (after_transition i c t d) = tenants d"
  "workers (after_transition i c t d) = workers d"
  "task_attempts (after_transition i c t d) = task_attempts d"
  "agents (after_transition i c t d) = agents d"
  "agent_versions (after_transition i c t d) = agent_versions d"
  "agent_routes (after_transition i c t d) = agent_routes d"
  "tools (after_transition i c t d) = tools d"
  "agent_version_tool_grants (after_transition i c t d) = agent_version_tool_grants d"
  "audit_events (after_transition i c t d) = audit_events d"
  by (simp_all add: after_transition_def Let_def)

lemma find_task_after_transition:
  "find_task (after_transition i c t d) j =
     (if j = i then map_option (set_row (cas_set (now d) c)) (find_task d i) else find_task d j)"
  unfolding find_task_def after_transition_def Let_def
  by (simp add: task_rows.find_update) (auto simp: option.map_ident map_option_case dest: find_by_SomeD split: option.splits)

lemma ids_after_transition [simp]: "ids_distinct (after_transition i c t d) = ids_distinct d"
  by (simp add: ids_distinct_def after_transition_def Let_def task_rows.distinct_update)

section \<open>The properties\<close>

text \<open>
  What every request of the sources satisfies: the \<open>set\<close> argument names no \<open>state\<close>, so the target
  state is the one \<open>to_state\<close> gives.
\<close>

definition keeps_target :: "cas \<Rightarrow> bool" where
  "keeps_target c = list_all (\<lambda>a. case a of SET_state s \<Rightarrow> False | _ \<Rightarrow> True) (set_fields c)"

lemma fold_assign_state:
  "list_all (\<lambda>a. case a of SET_state s \<Rightarrow> False | _ \<Rightarrow> True) as \<Longrightarrow> t_state (fold assign as t) = t_state t"
proof (induction as arbitrary: t)
  case (Cons a as)
  then show ?case by (cases a) simp_all
qed simp

lemma target_state: "keeps_target c \<Longrightarrow> t_state (set_row (cas_set tn c) t) = to_state c"
  by (simp add: keeps_target_def set_row_def cas_set_def fold_assign_state)

text \<open>
  C7. The compare-and-set contract. On a database whose task ids are distinct and for a legal
  request that names no second state, \<open>transition\<close> either returns or raises the error of a
  constraint, never an illegal-transition or value error; and it raises exactly when the row it
  matched would break that constraint of the table. When it returns, it applied exactly if the row
  exists, is in an expected state and satisfies every fence given; then only that row changes, its
  pinned columns do not, its state is the target state, its lease columns agree with it, and
  exactly one event is appended, with the row's new attempt, its worker (or else the one expected)
  and the data given; otherwise the database is unchanged.
\<close>

theorem transition_contract:
  assumes "ids_distinct d" and "cas_legal c" and "keeps_target c"
  shows "case transition i c d of
      Inl e \<Rightarrow> (\<exists>t v. find_task d i = Some t \<and> cas_where (now d) c i t
         \<and> task_violation (set_row (cas_set (now d) c) t) = Some v \<and> e = IntegrityError v)
    | Inr (r, d') \<Rightarrow>
        (applied r \<longleftrightarrow> (\<exists>t. find_task d i = Some t \<and> cas_where (now d) c i t))
      \<and> (\<not> applied r \<longrightarrow> d' = d)
      \<and> (applied r \<longrightarrow>
           (\<forall>j. j \<noteq> i \<longrightarrow> find_task d' j = find_task d j)
         \<and> (\<exists>t t' e. find_task d i = Some t \<and> find_task d' i = Some t' \<and> result_task r = Some t'
              \<and> task_violation t' = None \<and> pinned t' = pinned t
              \<and> t_state t' = to_state c \<and> lease_coherent t'
              \<and> task_events d' = task_events d @ [e] \<and> te_task_id e = i
              \<and> te_event_type e = cas_event_type c \<and> te_attempt e = Some (t_attempt t')
              \<and> te_worker_id e = py_or (lease_worker_id t') (expect_worker c) \<and> te_data e = event_data c)
         \<and> task_attempts d' = task_attempts d)"
proof (cases "transition i c d")
  case (Inl e)
  then show ?thesis unfolding transition_cases [OF assms(1,2)]
    by (auto split: option.splits if_splits simp del: task_violation_None)
next
  case (Inr p)
  obtain r d' where p: "p = (r, d')" by fastforce
  have t: "transition i c d = Inr (r, d')" using Inr p by simp
  have no: "applied r" if "find_task d i = Some t" "cas_where (now d) c i t" for t
    using t that unfolding transition_cases [OF assms(1,2)]
    by (auto split: option.splits simp del: task_violation_None)
  from transition_frame [OF assms(1,2) t] show ?thesis
  proof (elim disjE exE conjE)
    assume "\<not> applied r" "d' = d"
    then show ?thesis using no by (auto simp: t)
  next
    fix u assume u: "find_task d i = Some u" "cas_where (now d) c i u" "applied r"
      "r = granted (set_row (cas_set (now d) c) u)" "task_violation (set_row (cas_set (now d) c) u) = None"
      "d' = after_transition i c u d"
    let ?t = "set_row (cas_set (now d) c) u"
    have f: "find_task d' i = Some ?t" "\<forall>j. j \<noteq> i \<longrightarrow> find_task d' j = find_task d j"
      using u(1) by (simp_all add: u(6) find_task_after_transition)
    have "\<exists>e. task_events d' = task_events d @ [e] \<and> te_task_id e = i
        \<and> te_event_type e = cas_event_type c \<and> te_attempt e = Some (t_attempt ?t)
        \<and> te_worker_id e = py_or (lease_worker_id ?t) (expect_worker c) \<and> te_data e = event_data c"
      by (simp add: u(6) after_transition_def Let_def)
    then show ?thesis using u f target_state [OF assms(3)] by (simp add: t)
  qed
qed

text \<open>
  The classification of a rejection is exact in a transaction of its own: \<open>not_found\<close> means no
  such row; otherwise the reported mismatch is the first fence, in the order state, attempt,
  worker, lease, execution time, that the row fails. The fall-through of the source ("the row
  matched on re-read") is unreachable.
\<close>

theorem rejection_exact:
  assumes "ids_distinct d" and "cas_legal c" and "transition i c d = Inr (r, d')" and "\<not> applied r"
  shows "(res_rejection r = Some NOT_FOUND \<longleftrightarrow> find_task d i = None)
    \<and> (\<forall>t. find_task d i = Some t \<longrightarrow> observed r = Some t
        \<and> (res_rejection r = Some STATE_MISMATCH \<longleftrightarrow> t_state t \<notin> set (expect_state c))
        \<and> (res_rejection r = Some ATTEMPT_MISMATCH \<longleftrightarrow>
             t_state t \<in> set (expect_state c) \<and> \<not> attempt_ok c t)
        \<and> (res_rejection r = Some WORKER_MISMATCH \<longleftrightarrow>
             t_state t \<in> set (expect_state c) \<and> attempt_ok c t \<and> \<not> worker_ok c t))"
proof -
  from transition_frame [OF assms(1-3)] assms(4)
  have r: "r = explain i c d" "d' = d" by auto
  have nomatch: "\<not> cas_where (now d) c i t" if "find_task d i = Some t" for t
    using that assms(3,4) unfolding transition_cases [OF assms(1,2)]
    by (auto split: option.splits if_splits simp del: task_violation_None)
  show ?thesis
    using nomatch
    by (auto simp: r explain_def cas_where_def split: option.splits dest: find_task_SomeD)
qed

end
