(* ===== verification/Invariant.thy ===== *)
theory Invariant
  imports Transitions
begin

text \<open>
  The invariant of the task tables: what is true of every task row and of the execution history
  in \<open>task_attempts\<close> between any two transactions. The database enforces part of it by CHECK and
  key constraints; the rest is what the operations have to keep. The lemmas reduce its
  preservation by an operation to facts about the rows the operation rewrites.
\<close>

section \<open>Rows and their history\<close>

definition attempts_of :: "db \<Rightarrow> uuid \<Rightarrow> task_attempt list" where
  "attempts_of d i = filter (\<lambda>r. ta_task_id r = i) (task_attempts d)"

text \<open>
  A row: the CHECK constraints; a lease exactly while \<open>RUNNING\<close>; \<open>first_started_at\<close> set with the
  first attempt; \<open>finished_at\<close> set exactly in a terminal state; a result exactly on success.
\<close>

definition row_wf :: "task \<Rightarrow> bool" where
  "row_wf t \<longleftrightarrow> task_violation t = None
     \<and> (t_state t \<noteq> RUNNING \<longrightarrow> lease_worker_id t = None \<and> lease_expires_at t = None)
     \<and> (first_started_at t = None \<longleftrightarrow> t_attempt t = 0)
     \<and> (t_state t \<in> {RUNNING, SUCCEEDED, FAILED} \<longrightarrow> 1 \<le> t_attempt t)
     \<and> (is_terminal (t_state t) \<longleftrightarrow> t_finished_at t \<noteq> None)
     \<and> (t_state t = SUCCEEDED \<longleftrightarrow> t_result t \<noteq> None)"

text \<open>
  The history of one task: its attempts are numbered \<open>1 .. attempt\<close> in order, the only open one is
  the current attempt of a running task, whose worker holds the lease, and the only successful
  one is the last attempt of a succeeded task.
\<close>

definition log_ok :: "task \<Rightarrow> task_attempt list \<Rightarrow> bool" where
  "log_ok t as \<longleftrightarrow> map ta_attempt as = [1..t_attempt t]
     \<and> (\<forall>r \<in> set as. outcome r = None \<longleftrightarrow> t_state t = RUNNING \<and> ta_attempt r = t_attempt t)
     \<and> (\<forall>r \<in> set as. outcome r = Some OUT_SUCCEEDED \<longleftrightarrow> t_state t = SUCCEEDED \<and> ta_attempt r = t_attempt t)
     \<and> (\<forall>r \<in> set as. outcome r = None \<longrightarrow> lease_worker_id t = Some (ta_worker_id r))"

definition task_ok :: "db \<Rightarrow> task \<Rightarrow> bool" where
  "task_ok d t \<longleftrightarrow> row_wf t \<and> log_ok t (attempts_of d (t_id t))"

definition same_key :: "task \<Rightarrow> task \<Rightarrow> bool" where
  "same_key t u \<longleftrightarrow> t_tenant_id t = t_tenant_id u \<and> idempotency_key t = idempotency_key u
     \<and> idempotency_key t \<noteq> None"

definition tasks_ok :: "db \<Rightarrow> bool" where
  "tasks_ok d \<longleftrightarrow> (\<forall>t \<in> set (tasks d). task_ok d t)"

definition keys_unique :: "db \<Rightarrow> bool" where
  "keys_unique d \<longleftrightarrow> (\<forall>t \<in> set (tasks d). \<forall>u \<in> set (tasks d). same_key t u \<longrightarrow> t_id t = t_id u)"

definition tenant_refs :: "db \<Rightarrow> bool" where
  "tenant_refs d \<longleftrightarrow> (\<forall>t \<in> set (tasks d). t_tenant_id t \<in> tn_id ` set (tenants d))"

definition attempt_refs :: "db \<Rightarrow> bool" where
  "attempt_refs d \<longleftrightarrow> (\<forall>r \<in> set (task_attempts d). ta_task_id r \<in> t_id ` set (tasks d)
     \<and> ta_worker_id r \<in> w_id ` set (workers d))"

definition event_refs :: "db \<Rightarrow> bool" where
  "event_refs d \<longleftrightarrow> (\<forall>e \<in> set (task_events d). te_task_id e \<in> t_id ` set (tasks d))"

definition db_inv :: "db \<Rightarrow> bool" where
  "db_inv d \<longleftrightarrow> ids_distinct d \<and> tasks_ok d \<and> keys_unique d \<and> tenant_refs d \<and> attempt_refs d
     \<and> event_refs d \<and> distinct (map w_id (workers d)) \<and> distinct (map tn_id (tenants d))"

lemma db_inv_empty: "db_inv (empty_db t)"
  by (simp add: db_inv_def empty_db_def ids_distinct_def tasks_ok_def keys_unique_def tenant_refs_def
      attempt_refs_def event_refs_def)

lemma db_inv_ids: "db_inv d \<Longrightarrow> ids_distinct d"
  by (simp add: db_inv_def)

lemma db_inv_task_ok: "db_inv d \<Longrightarrow> t \<in> set (tasks d) \<Longrightarrow> task_ok d t"
  by (simp add: db_inv_def tasks_ok_def)

lemma db_inv_task:
  assumes "db_inv d" "find_task d i = Some t"
  shows "row_wf t" "log_ok t (attempts_of d i)" "t_id t = i"
  using db_inv_task_ok [OF assms(1), of t] find_task_SomeD [OF assms(2)] by (auto simp: task_ok_def)

lemma find_task_iff: "find_task d i \<noteq> None \<longleftrightarrow> i \<in> t_id ` set (tasks d)"
  by (simp add: find_task_def find_by_None_iff flip: not_None_eq)

lemma find_worker_iff: "find_worker d w \<noteq> None \<longleftrightarrow> w \<in> w_id ` set (workers d)"
  by (simp add: find_worker_def find_by_None_iff flip: not_None_eq)

lemma row_wf_lease: "row_wf t \<Longrightarrow> t_state t = RUNNING \<longleftrightarrow> lease_worker_id t \<noteq> None"
  by (cases "t_state t = RUNNING") (simp_all add: row_wf_def lease_coherent_def)

lemma row_wf_lease_time: "row_wf t \<Longrightarrow> t_state t = RUNNING \<longleftrightarrow> lease_expires_at t \<noteq> None"
  by (cases "t_state t = RUNNING") (simp_all add: row_wf_def lease_coherent_def)

section \<open>Preservation\<close>

text \<open>
  The general rule: an operation that rewrites rows of \<open>tasks\<close> by one \<open>UPDATE\<close>, touches the
  history only of tasks it accounts for, and adds events of existing tasks, keeps the invariant if
  every task is in order afterwards.
\<close>

lemma db_inv_update:
  assumes inv: "db_inv d"
    and tasks: "tasks d' = sql_update p (set_row f) (tasks d)"
    and rows: "\<And>t. t \<in> set (tasks d) \<Longrightarrow> p t \<Longrightarrow> task_ok d' (set_row f t)"
    and rest: "\<And>t. t \<in> set (tasks d) \<Longrightarrow> \<not> p t \<Longrightarrow> attempts_of d' (t_id t) = attempts_of d (t_id t)"
    and att: "\<And>r. r \<in> set (task_attempts d') \<Longrightarrow>
        ta_task_id r \<in> t_id ` set (tasks d) \<and> ta_worker_id r \<in> w_id ` set (workers d)"
    and ev: "\<And>e. e \<in> set (task_events d') \<Longrightarrow> te_task_id e \<in> t_id ` set (tasks d)"
    and same: "workers d' = workers d" "tenants d' = tenants d"
  shows "db_inv d'"
proof -
  define g where "g t = (if p t then set_row f t else t)" for t
  have g: "t_id (g t) = t_id t" "t_tenant_id (g t) = t_tenant_id t" "same_key (g t) (g u) = same_key t u" for t u
    by (simp_all add: g_def same_key_def)
  have set': "set (tasks d') = g ` set (tasks d)"
    by (simp add: tasks set_sql_update g_def)
  have ids': "t_id ` set (tasks d') = t_id ` set (tasks d)"
    by (simp add: tasks task_rows.keys_update)
  have "task_ok d' (g t)" if "t \<in> set (tasks d)" for t
    using rows [OF that] rest [OF that] db_inv_task_ok [OF inv that] by (simp add: task_ok_def g_def)
  then have "tasks_ok d'" by (simp add: tasks_ok_def set')
  moreover have "ids_distinct d'"
    using db_inv_ids [OF inv] by (simp add: ids_distinct_def tasks task_rows.distinct_update)
  moreover have "keys_unique d'" "tenant_refs d'"
    using inv by (simp_all add: db_inv_def keys_unique_def tenant_refs_def set' g same(2))
  moreover have "attempt_refs d'" "event_refs d'"
    using att ev by (simp_all add: attempt_refs_def event_refs_def ids' same(1))
  ultimately show ?thesis using inv by (simp add: db_inv_def same)
qed

text \<open>An operation that leaves \<open>tasks\<close>, \<open>task_attempts\<close> and \<open>workers\<close> alone.\<close>

lemma attempts_of_same: "task_attempts d' = task_attempts d \<Longrightarrow> attempts_of d' i = attempts_of d i"
  by (simp add: attempts_of_def)

lemma task_ok_same: "task_attempts d' = task_attempts d \<Longrightarrow> task_ok d' t = task_ok d t"
  by (simp add: task_ok_def attempts_of_def)

lemma db_inv_frame:
  assumes "db_inv d" "tasks d' = tasks d" "task_attempts d' = task_attempts d"
    and "map w_id (workers d') = map w_id (workers d)" "tenants d' = tenants d"
    and "\<And>e. e \<in> set (task_events d') \<Longrightarrow> te_task_id e \<in> t_id ` set (tasks d)"
  shows "db_inv d'"
proof -
  have "w_id ` set (workers d') = w_id ` set (workers d)"
    using assms(4) by (metis list.set_map)
  then show ?thesis
    using assms by (simp add: db_inv_def ids_distinct_def tasks_ok_def task_ok_def attempts_of_def
        keys_unique_def
        tenant_refs_def attempt_refs_def event_refs_def)
qed

lemma db_inv_event:
  assumes "db_inv d" and "insert_event i et a w data d = Inr d'"
  shows "db_inv d'"
proof (rule db_inv_frame [OF assms(1)])
  show "te_task_id e \<in> t_id ` set (tasks d)" if "e \<in> set (task_events d')" for e
    using that assms find_task_iff [of d i]
    by (auto simp: insert_event_Inr db_inv_def event_refs_def)
qed (use assms in \<open>auto simp: insert_event_Inr\<close>)

lemma insert_event_total:
  "db_inv d \<Longrightarrow> find_task d i \<noteq> None \<Longrightarrow>
     \<exists>d'. insert_event i et a w data d = Inr d' \<and> db_inv d' \<and> tasks d' = tasks d
       \<and> task_attempts d' = task_attempts d \<and> workers d' = workers d \<and> tenants d' = tenants d
       \<and> now d' = now d"
  using db_inv_event [of d i et a w data] by (simp add: insert_event_Inr)

lemma insert_event_frame:
  "insert_event i et a w data d = Inr d' \<Longrightarrow> tasks d' = tasks d \<and> task_attempts d' = task_attempts d
     \<and> workers d' = workers d \<and> tenants d' = tenants d \<and> now d' = now d"
  by (auto simp: insert_event_Inr)

section \<open>What every operation does to a task row\<close>

text \<open>
  One step of one row, as any operation may make it: pinned columns stay, the fencing token never
  goes down, a terminal row is frozen, and the state stays or follows the legality table, the
  token going up by one exactly on the step into \<open>RUNNING\<close>; a lease changes hands only through the
  queue, and the first start is never reset.
\<close>

definition row_step :: "task \<Rightarrow> task \<Rightarrow> bool" where
  "row_step t t' \<longleftrightarrow> pinned t' = pinned t
     \<and> (is_terminal (t_state t) \<longrightarrow> t' = t)
     \<and> (t_state t' = t_state t \<or> is_legal (t_state t) (t_state t'))
     \<and> t_attempt t' = (if t_state t = QUEUED \<and> t_state t' = RUNNING then t_attempt t + 1 else t_attempt t)
     \<and> (cancel_requested t \<longrightarrow> cancel_requested t')
     \<and> (t_state t = RUNNING \<and> t_state t' = RUNNING \<longrightarrow> lease_worker_id t' = lease_worker_id t)
     \<and> (first_started_at t \<noteq> None \<longrightarrow> first_started_at t' = first_started_at t)"

definition db_step_ok :: "db \<Rightarrow> db \<Rightarrow> bool" where
  "db_step_ok d d' \<longleftrightarrow> (\<forall>i t. find_task d i = Some t \<longrightarrow> (\<exists>t'. find_task d' i = Some t' \<and> row_step t t'))"

lemma row_step_refl [simp]: "row_step t t"
  by (simp add: row_step_def)

lemma db_step_ok_refl [simp]: "db_step_ok d d"
  by (simp add: db_step_ok_def)

lemma db_step_ok_same: "tasks d' = tasks d \<Longrightarrow> db_step_ok d d'"
  by (auto simp: db_step_ok_def find_task_def)

lemma db_step_okD:
  "db_step_ok d d' \<Longrightarrow> find_task d i = Some t \<Longrightarrow> find_task d' i = Some t' \<Longrightarrow> row_step t t'"
  by (fastforce simp: db_step_ok_def)

lemma db_step_ok_update:
  assumes "tasks d' = sql_update p (set_row f) (tasks d)"
    and "\<And>t. t \<in> set (tasks d) \<Longrightarrow> p t \<Longrightarrow> row_step t (set_row f t)"
  shows "db_step_ok d d'"
proof -
  have "\<exists>t'. find_task d' i = Some t' \<and> row_step t t'" if "find_task d i = Some t" for i t
    using that assms find_task_SomeD [OF that]
    by (auto simp: find_task_def task_rows.find_update)
  then show ?thesis by (simp add: db_step_ok_def)
qed

section \<open>A concrete database\<close>

text \<open>
  One tenant, one live worker and one task in its first attempt, leased until second 40 on a
  clock that stands at 10. It shows that the invariant can hold with work in flight.
\<close>

definition demo_task :: task where
  "demo_task = \<lparr>t_id = 7, t_tenant_id = 1, task_type = ''sleep'', payload = [],
     idempotency_key = Some ''k'', priority = 100, t_state = RUNNING, t_attempt = 1,
     t_max_attempts = 3, t_max_execution_time_s = 300, available_at = 0,
     lease_worker_id = Some ''w1'', lease_expires_at = Some 40, t_agent_version_id = None,
     t_required_capabilities = [], t_capability_key = [], cancel_requested = False,
     t_result = None, t_error_class = None, t_error_message = None, t_created_at = 0,
     updated_at = 10, first_started_at = Some 10, t_finished_at = None\<rparr>"

definition demo_worker :: worker where
  "demo_worker = \<lparr>w_id = ''w1'', hostname = ''h'', pid = 42, capacity = 2, w_capabilities = [],
     w_status = ALIVE, registered_at = 0, last_heartbeat_at = 10\<rparr>"

definition demo_tenant :: tenant where
  "demo_tenant = \<lparr>tn_id = 1, tn_name = ''acme'', max_concurrent_tasks = 10, max_queued_tasks = 100,
     priority_weight = 100, tn_created_at = 0\<rparr>"

definition demo_attempt :: task_attempt where
  "demo_attempt = \<lparr>ta_task_id = 7, ta_attempt = 1, ta_worker_id = ''w1'', started_at = 10,
     ta_finished_at = None, outcome = None, ta_error_class = None, ta_error_message = None\<rparr>"

definition demo_db :: db where
  "demo_db = (empty_db 10)\<lparr>tenants := [demo_tenant], tasks := [demo_task],
     workers := [demo_worker], task_attempts := [demo_attempt]\<rparr>"

lemmas demo_defs = demo_db_def demo_task_def demo_worker_def demo_tenant_def demo_attempt_def
  empty_db_def

lemma demo_db_inv: "db_inv demo_db"
proof -
  have "row_wf demo_task" by (simp add: row_wf_def demo_task_def lease_coherent_def)
  moreover have "log_ok demo_task (attempts_of demo_db 7)"
    by (simp add: log_ok_def attempts_of_def demo_defs upto.simps)
  ultimately show ?thesis
    by (simp add: db_inv_def ids_distinct_def tasks_ok_def task_ok_def keys_unique_def tenant_refs_def
        attempt_refs_def event_refs_def demo_db_def empty_db_def)
       (simp add: demo_defs)
qed

text \<open>A failure of task 7, fenced by an attempt number.\<close>

definition demo_cas :: "int \<Rightarrow> cas" where
  "demo_cas a =
     \<lparr>expect_state = [RUNNING], to_state = FAILED, cas_event_type = TASK_FAILED,
      expect_attempt = Some a, expect_worker = Some ''w1'', expect_lease_expired = False,
      expect_execution_time_exceeded = False,
      set_fields = [SET_finished_at (Some 10), SET_lease_worker_id None, SET_lease_expires_at None],
      event_data = []\<rparr>"

lemma demo_cas_facts:
  "ids_distinct demo_db" "cas_legal (demo_cas a)" "find_task demo_db 7 = Some demo_task"
  "cas_where (now demo_db) (demo_cas a) 7 demo_task \<longleftrightarrow> a = 1"
  "task_violation (set_row (cas_set (now demo_db) (demo_cas a)) demo_task) = None"
proof -
  show "ids_distinct demo_db" by (rule db_inv_ids [OF demo_db_inv])
  show "cas_legal (demo_cas a)" by (simp add: cas_legal_def demo_cas_def)
  show "find_task demo_db 7 = Some demo_task" by (simp add: find_task_def demo_db_def demo_task_def)
  show "cas_where (now demo_db) (demo_cas a) 7 demo_task \<longleftrightarrow> a = 1"
    by (auto simp: cas_where_def attempt_ok_def worker_ok_def demo_cas_def demo_task_def)
  show "task_violation (set_row (cas_set (now demo_db) (demo_cas a)) demo_task) = None"
    by (simp add: set_row_def cas_set_def demo_cas_def demo_task_def lease_coherent_def)
qed

lemma demo_transition:
  "\<exists>r d'. transition 7 (demo_cas a) demo_db = Inr (r, d') \<and> (applied r \<longleftrightarrow> a = 1)"
  using transition_cases [OF demo_cas_facts(1) demo_cas_facts(2) [of a], of 7] demo_cas_facts(3-5)
  by (simp del: task_violation_None)

theorem transition_contract_witness:
  "\<exists>r d' t'. transition 7 (demo_cas 1) demo_db = Inr (r, d') \<and> applied r
     \<and> find_task d' 7 = Some t' \<and> t_state t' = FAILED
     \<and> (\<exists>e. task_events d' = task_events demo_db @ [e] \<and> te_event_type e = TASK_FAILED)"
proof -
  obtain r d' where t: "transition 7 (demo_cas 1) demo_db = Inr (r, d')" "applied r"
    using demo_transition [of 1] by auto
  have "cas_event_type (demo_cas 1) = TASK_FAILED" "to_state (demo_cas 1) = FAILED" "keeps_target (demo_cas 1)"
    by (simp_all add: demo_cas_def keeps_target_def)
  then show ?thesis
    using transition_contract [OF demo_cas_facts(1) demo_cas_facts(2), of 1 7] t by auto
qed

theorem rejection_exact_witness:
  "\<exists>r d'. transition 7 (demo_cas 2) demo_db = Inr (r, d') \<and> res_rejection r = Some ATTEMPT_MISMATCH"
proof -
  obtain r d' where t: "transition 7 (demo_cas 2) demo_db = Inr (r, d')" "\<not> applied r"
    using demo_transition [of 2] by auto
  have "t_state demo_task \<in> set (expect_state (demo_cas 2))" "\<not> attempt_ok (demo_cas 2) demo_task"
    by (simp_all add: demo_cas_def attempt_ok_def demo_task_def)
  then show ?thesis
    using rejection_exact [OF demo_cas_facts(1) demo_cas_facts(2) t] t(1) demo_cas_facts(3) by blast
qed

end
