(* ===== verification/Tasks.thy ===== *)
theory Tasks
  imports Invariant
begin

text \<open>
  \<open>db/queries/tasks.py\<close>: idempotent submission, reads and keyset pagination, cancellation of one
  task and of an agent's live work, and the tenants. Identifiers the database generates
  (\<open>gen_random_uuid()\<close>) are arguments.
\<close>

section \<open>Submission\<close>

record submission =
  s_tenant_id :: uuid
  s_task_type :: string
  s_payload :: dict
  s_idempotency_key :: "string option"
  s_priority :: int
  s_max_attempts :: int
  s_max_execution_time_s :: int
  s_available_at :: "time option"
  s_agent_version_id :: "uuid option"
  s_required_capabilities :: "string list"

record submit_result =
  created :: bool
  sub_task :: task

definition without_trace :: "dict \<Rightarrow> dict" where
  "without_trace p = dict_del ''_trace'' p"

text \<open>The inserted row: the submitted columns and the server defaults.\<close>

definition new_task :: "uuid \<Rightarrow> submission \<Rightarrow> time \<Rightarrow> task" where
  "new_task i s tn =
     \<lparr>t_id = i, t_tenant_id = s_tenant_id s, task_type = s_task_type s, payload = s_payload s,
      idempotency_key = s_idempotency_key s, priority = s_priority s, t_state = QUEUED,
      t_attempt = 0, t_max_attempts = s_max_attempts s,
      t_max_execution_time_s = s_max_execution_time_s s,
      available_at = (case s_available_at s of None \<Rightarrow> tn | Some t \<Rightarrow> t),
      lease_worker_id = None, lease_expires_at = None,
      t_agent_version_id = s_agent_version_id s,
      t_required_capabilities = s_required_capabilities s,
      t_capability_key = capability_key (s_required_capabilities s), cancel_requested = False,
      t_result = None, t_error_class = None, t_error_message = None, t_created_at = tn,
      updated_at = tn, first_started_at = None, t_finished_at = None\<rparr>"

text \<open>
  The partial unique index \<open>(tenant_id, idempotency_key) WHERE idempotency_key IS NOT NULL\<close>: a
  comparison with a NULL key is never true.
\<close>

definition key_taken :: "uuid \<Rightarrow> string option \<Rightarrow> task \<Rightarrow> bool" where
  "key_taken tn k t = (t_tenant_id t = tn \<and> k \<noteq> None \<and> idempotency_key t = k)"

text \<open>\<open>INSERT .. ON CONFLICT DO NOTHING RETURNING *\<close>: no row when the index has the key already.\<close>

definition insert_task :: "task \<Rightarrow> db \<Rightarrow> exn + (task option \<times> db)" where
  "insert_task t d =
     (case task_violation t of
        Some c \<Rightarrow> Inl (IntegrityError c)
      | None \<Rightarrow>
          if list_ex (key_taken (t_tenant_id t) (idempotency_key t)) (tasks d) then Inr (None, d)
          else if find_task d (t_id t) \<noteq> None then Inl (IntegrityError ''tasks_pkey'')
          else if t_tenant_id t \<notin> set (map tn_id (tenants d))
            then Inl (IntegrityError ''tasks_tenant_id_fkey'')
          else if (case t_agent_version_id t of None \<Rightarrow> False
                   | Some v \<Rightarrow> v \<notin> set (map av_id (agent_versions d)))
            then Inl (IntegrityError ''fk_tasks_agent_version'')
          else Inr (Some t, d\<lparr>tasks := tasks d @ [t]\<rparr>))"

definition submit_task :: "uuid \<Rightarrow> submission \<Rightarrow> db \<Rightarrow> exn + (submit_result \<times> db)" where
  "submit_task new_id s d =
     bindE (insert_task (new_task new_id s (now d)) d) (\<lambda>(row, d1).
       case row of
         Some t \<Rightarrow>
           bindE (record_event (t_id t) TASK_CREATED (Some 0) None
                    [(''task_type'', JStr (s_task_type s)), (''priority'', JNum (of_int (s_priority s)))] d1)
             (\<lambda>d2. Inr (\<lparr>created = True, sub_task = t\<rparr>, d2))
       | None \<Rightarrow>
           (case find (key_taken (s_tenant_id s) (s_idempotency_key s)) (tasks d1) of
              None \<Rightarrow> Inl (LookupError ''insert conflicted but no row is visible; retry the submission'')
            | Some t \<Rightarrow>
                if \<not> dict_eq (without_trace (payload t)) (without_trace (s_payload s))
                then Inl (PayloadMismatch (t_id t))
                else Inr (\<lparr>created = False, sub_task = t\<rparr>, d1)))"

section \<open>Reads\<close>

definition get_task :: "db \<Rightarrow> uuid \<Rightarrow> task option" where
  "get_task d i = find_task d i"

definition list_key :: "task \<Rightarrow> rat \<times> uuid" where
  "list_key t = (t_created_at t, t_id t)"

definition list_filter :: "uuid option \<Rightarrow> state option \<Rightarrow> task \<Rightarrow> bool" where
  "list_filter tn st t =
     ((case tn of None \<Rightarrow> True | Some i \<Rightarrow> t_tenant_id t = i)
      \<and> (case st of None \<Rightarrow> True | Some s \<Rightarrow> t_state t = s))"

text \<open>\<open>list_tasks\<close> on a decoded cursor, the last row's \<open>(created_at, id)\<close>; its text is in theory \<open>Cursor\<close>.\<close>

definition list_tasks ::
  "uuid option \<Rightarrow> state option \<Rightarrow> nat \<Rightarrow> (rat \<times> uuid) option \<Rightarrow> db \<Rightarrow> task list \<times> (rat \<times> uuid) option" where
  "list_tasks tn st limit cursor d =
     (let matching = filter (\<lambda>t. list_filter tn st t
            \<and> (case cursor of None \<Rightarrow> True | Some c \<Rightarrow> list_key t < c)) (tasks d);
          rows = take (limit + 1) (rev (sort_key list_key matching))
      in if length rows > limit
         then (let page = take limit rows in (page, Some (list_key (last page))))
         else (rows, None))"

definition get_task_events :: "db \<Rightarrow> uuid \<Rightarrow> nat \<Rightarrow> task_event list" where
  "get_task_events d i limit =
     take limit (sort_key te_id (filter (\<lambda>e. te_task_id e = i) (task_events d)))"

definition queued_count_for_tenant :: "db \<Rightarrow> uuid \<Rightarrow> nat" where
  "queued_count_for_tenant d i =
     length (filter (\<lambda>t. t_tenant_id t = i \<and> t_state t = QUEUED) (tasks d))"

section \<open>Cancellation\<close>

datatype cancel_outcome =
    CO_NOT_FOUND | CO_CANCELLED | CO_REQUESTED | CO_ALREADY_REQUESTED | CO_ALREADY_CANCELLED
  | CO_ALREADY_TERMINAL

record cancel_result =
  co_outcome :: cancel_outcome
  co_task :: "task option"

definition cancel_queued_cas :: "time \<Rightarrow> cas" where
  "cancel_queued_cas tn =
     \<lparr>expect_state = [QUEUED], to_state = CANCELLED, cas_event_type = TASK_CANCELLED,
      expect_attempt = None, expect_worker = None, expect_lease_expired = False,
      expect_execution_time_exceeded = False,
      set_fields = [SET_cancel_requested True, SET_finished_at (Some tn)],
      event_data = [(''reason'', JStr ''cancelled_before_start'')]\<rparr>"

definition request_cancel_set :: "time \<Rightarrow> task \<Rightarrow> assignment list" where
  "request_cancel_set tn t = [SET_cancel_requested True, SET_updated_at tn]"

definition cancel_task :: "uuid \<Rightarrow> db \<Rightarrow> exn + (cancel_result \<times> db)" where
  "cancel_task i d =
     (case find_task d i of
        None \<Rightarrow> Inr (\<lparr>co_outcome = CO_NOT_FOUND, co_task = None\<rparr>, d)
      | Some row \<Rightarrow>
          if t_state row = CANCELLED
            then Inr (\<lparr>co_outcome = CO_ALREADY_CANCELLED, co_task = get_task d i\<rparr>, d)
          else if t_state row \<in> set TERMINAL
            then Inr (\<lparr>co_outcome = CO_ALREADY_TERMINAL, co_task = get_task d i\<rparr>, d)
          else if t_state row = QUEUED then
            bindE (transition i (cancel_queued_cas (now d)) d) (\<lambda>(res, d1).
              if \<not> applied res then Inl (AssertionError ''cancel lost a race it holds the row lock for'')
              else Inr (\<lparr>co_outcome = CO_CANCELLED, co_task = result_task res\<rparr>, d1))
          else if cancel_requested row
            then Inr (\<lparr>co_outcome = CO_ALREADY_REQUESTED, co_task = get_task d i\<rparr>, d)
          else
            bindE (update_tasks (\<lambda>t. t_id t = i) (request_cancel_set (now d)) d) (\<lambda>(rows, d1).
            bindE (record_event i CANCEL_REQUESTED (Some (t_attempt row)) None
                     [(''source'', JStr ''api'')] d1) (\<lambda>d2.
              Inr (\<lparr>co_outcome = CO_REQUESTED, co_task = get_task d2 i\<rparr>, d2))))"

definition in_versions :: "uuid list \<Rightarrow> task \<Rightarrow> bool" where
  "in_versions vs t = (case t_agent_version_id t of None \<Rightarrow> False | Some v \<Rightarrow> v \<in> set vs)"

definition sweep_queued_set :: "string \<Rightarrow> time \<Rightarrow> task \<Rightarrow> assignment list" where
  "sweep_queued_set why tn t =
     [SET_state CANCELLED, SET_cancel_requested True, SET_finished_at (Some tn), SET_updated_at tn,
      SET_error_class (Some ''AgentDisabled''), SET_error_message (Some why)]"

definition cancel_agent_tasks :: "uuid list \<Rightarrow> string \<Rightarrow> db \<Rightarrow> exn + (nat \<times> db)" where
  "cancel_agent_tasks vs why d =
     (if vs = [] then Inr (0, d)
      else
        bindE (update_tasks (\<lambda>t. in_versions vs t \<and> t_state t = QUEUED) (sweep_queued_set why (now d)) d)
          (\<lambda>(queued_rows, d1).
        bindE (update_tasks (\<lambda>t. in_versions vs t \<and> t_state t = RUNNING \<and> \<not> cancel_requested t)
                 (request_cancel_set (now d)) d1) (\<lambda>(running_rows, d2).
        bindE (foldE (\<lambda>r. record_event (t_id r) TASK_CANCELLED (Some (t_attempt r)) None
                 [(''reason'', JStr why)]) queued_rows d2) (\<lambda>d3.
        bindE (foldE (\<lambda>r. record_event (t_id r) CANCEL_REQUESTED (Some (t_attempt r)) None
                 [(''reason'', JStr why), (''source'', JStr ''agent_disabled'')]) running_rows d3) (\<lambda>d4.
          Inr (length queued_rows + length running_rows, d4))))))"

section \<open>Tenants\<close>

definition create_tenant :: "uuid \<Rightarrow> string \<Rightarrow> int \<Rightarrow> int \<Rightarrow> db \<Rightarrow> exn + (tenant \<times> db)" where
  "create_tenant new_id nm mc mq d =
     (let tn = \<lparr>tn_id = new_id, tn_name = nm, max_concurrent_tasks = mc, max_queued_tasks = mq,
                priority_weight = 1, tn_created_at = now d\<rparr>
      in if new_id \<in> set (map tn_id (tenants d)) then Inl (IntegrityError ''tenants_pkey'')
         else if nm \<in> set (map tn_name (tenants d)) then Inl (IntegrityError ''tenants_name_key'')
         else Inr (tn, d\<lparr>tenants := tenants d @ [tn]\<rparr>))"

definition get_tenant :: "db \<Rightarrow> uuid \<Rightarrow> tenant option" where
  "get_tenant d i = find_by tn_id i (tenants d)"

section \<open>Submission: lemmas\<close>

lemma new_task_columns [simp]:
  "t_id (new_task i s tn) = i" "t_tenant_id (new_task i s tn) = s_tenant_id s"
  "idempotency_key (new_task i s tn) = s_idempotency_key s" "t_state (new_task i s tn) = QUEUED"
  "t_attempt (new_task i s tn) = 0" "payload (new_task i s tn) = s_payload s"
  "t_agent_version_id (new_task i s tn) = s_agent_version_id s"
  "priority (new_task i s tn) = s_priority s" "t_max_attempts (new_task i s tn) = s_max_attempts s"
  "t_max_execution_time_s (new_task i s tn) = s_max_execution_time_s s"
  by (simp_all add: new_task_def)

text \<open>The bounds the API's schema enforces and the tables check.\<close>

definition submission_ok :: "submission \<Rightarrow> bool" where
  "submission_ok s = (1 \<le> s_max_attempts s \<and> 1 \<le> s_max_execution_time_s s \<and> 0 \<le> s_priority s)"

lemma new_task_violation [simp]:
  "task_violation (new_task i s tn) = None \<longleftrightarrow> submission_ok s"
  unfolding task_violation_None
  by (auto simp: submission_ok_def lease_coherent_def) (simp_all add: new_task_def)

lemma new_task_wf: "submission_ok s \<Longrightarrow> row_wf (new_task i s tn)"
  unfolding row_wf_def new_task_violation by (simp add: new_task_def)

text \<open>The references of a submission: its tenant and its pinned version exist.\<close>

definition refs_ok :: "submission \<Rightarrow> db \<Rightarrow> bool" where
  "refs_ok s d \<longleftrightarrow> s_tenant_id s \<in> tn_id ` set (tenants d)
     \<and> (\<forall>v. s_agent_version_id s = Some v \<longrightarrow> v \<in> av_id ` set (agent_versions d))"

text \<open>The task that holds a submission's key.\<close>

definition holder :: "submission \<Rightarrow> db \<Rightarrow> task option" where
  "holder s d = find (key_taken (s_tenant_id s) (s_idempotency_key s)) (tasks d)"

lemma holder_None: "holder s d = None \<longleftrightarrow>
    \<not> list_ex (key_taken (s_tenant_id s) (s_idempotency_key s)) (tasks d)"
  by (auto simp: holder_def find_None_iff list_ex_iff)

lemma find_append:
  "find P (xs @ ys) = (case find P xs of None \<Rightarrow> find P ys | Some x \<Rightarrow> Some x)"
  by (induction xs) auto

lemma holder_Some: "holder s d = Some t \<Longrightarrow> t \<in> set (tasks d) \<and> t_tenant_id t = s_tenant_id s
    \<and> s_idempotency_key s \<noteq> None \<and> idempotency_key t = s_idempotency_key s"
  by (auto simp: holder_def find_Some_iff key_taken_def)

text \<open>The database after a task was created.\<close>

definition with_task :: "task \<Rightarrow> dict \<Rightarrow> db \<Rightarrow> db" where
  "with_task t data d = d\<lparr>tasks := tasks d @ [t],
     task_events := task_events d @ [\<lparr>te_id = next_event_id d, te_task_id = t_id t, te_attempt = Some 0,
        te_event_type = TASK_CREATED, te_worker_id = None, te_data = data, te_created_at = now d\<rparr>],
     next_event_id := next_event_id d + 1\<rparr>"

definition created_data :: "submission \<Rightarrow> dict" where
  "created_data s = [(''task_type'', JStr (s_task_type s)), (''priority'', JNum (of_int (s_priority s)))]"

lemma submit_new:
  assumes "submission_ok s" "refs_ok s d" "find_task d i = None" "holder s d = None"
  shows "submit_task i s d = Inr (\<lparr>created = True, sub_task = new_task i s (now d)\<rparr>,
    with_task (new_task i s (now d)) (created_data s) d)"
proof -
  let ?t = "new_task i s (now d)"
  have v: "task_violation ?t = None" using assms(1) by (simp only: new_task_violation)
  have fk: "(case s_agent_version_id s of None \<Rightarrow> False | Some v \<Rightarrow> v \<notin> set (map av_id (agent_versions d))) = False"
    using assms(2) by (auto simp: refs_ok_def split: option.split)
  have "insert_task ?t d = Inr (Some ?t, d\<lparr>tasks := tasks d @ [?t]\<rparr>)"
    unfolding insert_task_def v new_task_columns fk
    using assms(2-4) holder_None [of s d] by (simp add: refs_ok_def)
  moreover have "find_task (d\<lparr>tasks := tasks d @ [?t]\<rparr>) i = Some ?t"
    using assms(3) by (simp add: find_task_def find_by_append)
  ultimately show ?thesis
    by (simp add: submit_task_def record_event_def insert_event_def with_task_def created_data_def)
qed

lemma submit_dup:
  assumes "submission_ok s" "holder s d = Some t"
  shows "submit_task i s d =
    (if dict_eq (without_trace (payload t)) (without_trace (s_payload s))
     then Inr (\<lparr>created = False, sub_task = t\<rparr>, d) else Inl (PayloadMismatch (t_id t)))"
proof -
  let ?t = "new_task i s (now d)"
  have v: "task_violation ?t = None" using assms(1) by (simp only: new_task_violation)
  have "list_ex (key_taken (s_tenant_id s) (s_idempotency_key s)) (tasks d)"
    using assms(2) holder_None [of s d] by auto
  then have "insert_task ?t d = Inr (None, d)"
    unfolding insert_task_def v by simp
  then show ?thesis using assms(2) by (simp add: submit_task_def holder_def)
qed

lemma db_inv_with_task:
  assumes inv: "db_inv d" and t: "row_wf t" "t_state t = QUEUED" "t_attempt t = 0"
    and fresh: "find_task d (t_id t) = None" "t_tenant_id t \<in> tn_id ` set (tenants d)"
    and key: "\<And>u. u \<in> set (tasks d) \<Longrightarrow> \<not> same_key u t"
  shows "db_inv (with_task t data d)" and "db_step_ok d (with_task t data d)"
proof -
  let ?d = "with_task t data d"
  have new: "t_id t \<notin> t_id ` set (tasks d)" using fresh(1) find_task_iff [of d "t_id t"] by simp
  have att: "attempts_of ?d j = attempts_of d j" for j by (simp add: attempts_of_def with_task_def)
  have "attempts_of d (t_id t) = []"
  proof -
    have "ta_task_id r \<noteq> t_id t" if "r \<in> set (task_attempts d)" for r
    proof
      assume "ta_task_id r = t_id t"
      moreover have "ta_task_id r \<in> t_id ` set (tasks d)"
        using inv that by (simp add: db_inv_def attempt_refs_def)
      ultimately show False using new by simp
    qed
    then show ?thesis by (simp add: attempts_of_def filter_empty_conv)
  qed
  then have "task_ok ?d t" using t by (simp add: task_ok_def att log_ok_def)
  moreover have "task_ok ?d u" if "u \<in> set (tasks d)" for u
    using db_inv_task_ok [OF inv that] by (simp add: task_ok_def att)
  ultimately have "tasks_ok ?d" by (simp add: tasks_ok_def with_task_def)
  moreover have "ids_distinct ?d" using db_inv_ids [OF inv] new by (simp add: ids_distinct_def with_task_def)
  moreover have "keys_unique ?d"
  proof -
    have "\<not> same_key t u" if "u \<in> set (tasks d)" for u using key [OF that] by (auto simp: same_key_def)
    then show ?thesis using inv key by (auto simp: keys_unique_def with_task_def db_inv_def)
  qed
  moreover have "tenant_refs ?d" "attempt_refs ?d" "event_refs ?d"
    using inv fresh(2) by (auto simp: db_inv_def tenant_refs_def attempt_refs_def event_refs_def with_task_def)
  moreover have "workers ?d = workers d" "tenants ?d = tenants d" by (simp_all add: with_task_def)
  ultimately show "db_inv ?d" using inv by (simp add: db_inv_def)
  have "find_task ?d i = Some u" if "find_task d i = Some u" for i u
    using that by (simp add: find_task_def with_task_def find_by_append)
  then show "db_step_ok d ?d" by (auto simp: db_step_ok_def)
qed

lemma submit_total:
  assumes "db_inv d" "submission_ok s" "refs_ok s d" "find_task d i = None"
  shows "(\<exists>e t. submit_task i s d = Inl (PayloadMismatch e) \<and> holder s d = Some t \<and> t_id t = e)
    \<or> (\<exists>r d'. submit_task i s d = Inr (r, d') \<and> db_inv d' \<and> db_step_ok d d')"
proof (cases "holder s d")
  case (Some t)
  then show ?thesis using submit_dup [OF assms(2) Some] assms(1) by auto
next
  case None
  let ?t = "new_task i s (now d)"
  have "\<not> same_key u ?t" if "u \<in> set (tasks d)" for u
    using None that by (auto simp: holder_None list_ex_iff key_taken_def same_key_def)
  then have "db_inv (with_task ?t (created_data s) d)" "db_step_ok d (with_task ?t (created_data s) d)"
    using assms by (auto intro!: db_inv_with_task new_task_wf simp: refs_ok_def)
  then show ?thesis using submit_new [OF assms(2-4) None] by simp
qed

text \<open>
  C19. Idempotent submission. Under the invariant, for a well-formed submission whose references
  exist: without a holder of its key a task is created, queued with attempt 0, and recorded with
  exactly one event, \<open>TASK_CREATED\<close> of attempt 0 with its type and priority; if a task holds the key with the same payload (the trace context aside) that task is
  returned and the database is unchanged; with another payload the submission is refused by name.
  So whatever is submitted afterwards, a key never has two tasks, and resubmitting the same
  request any number of times returns the one task it created.
\<close>

theorem submit_idempotent:
  assumes "db_inv d" and "submission_ok s" and "refs_ok s d" and "find_task d i = None"
  shows "(holder s d = None \<longrightarrow> (\<exists>d'. submit_task i s d = Inr (\<lparr>created = True, sub_task = new_task i s (now d)\<rparr>, d')
        \<and> db_inv d' \<and> tasks d' = tasks d @ [new_task i s (now d)]
        \<and> (\<exists>e. task_events d' = task_events d @ [e] \<and> te_task_id e = i \<and> te_event_type e = TASK_CREATED
              \<and> te_attempt e = Some 0 \<and> te_worker_id e = None \<and> te_data e = created_data s)
        \<and> (s_idempotency_key s \<noteq> None \<and> dict_wf (s_payload s) \<longrightarrow>
             (\<forall>j t. submit_task j (s\<lparr>s_payload := dict_set ''_trace'' t (s_payload s)\<rparr>) d' =
                Inr (\<lparr>created = False, sub_task = new_task i s (now d)\<rparr>, d')))))
    \<and> (\<forall>t. holder s d = Some t \<longrightarrow> submit_task i s d =
          (if dict_eq (without_trace (payload t)) (without_trace (s_payload s))
           then Inr (\<lparr>created = False, sub_task = t\<rparr>, d) else Inl (PayloadMismatch (t_id t))))"
proof (intro conjI impI allI)
  assume h: "holder s d = None"
  let ?t = "new_task i s (now d)" and ?d = "with_task (new_task i s (now d)) (created_data s) d"
  note new = submit_new [OF assms(2-4) h]
  have inv: "db_inv ?d" using submit_total [OF assms] new h by auto
  have again: "submit_task j (s\<lparr>s_payload := dict_set ''_trace'' v (s_payload s)\<rparr>) ?d =
      Inr (\<lparr>created = False, sub_task = ?t\<rparr>, ?d)"
    if "s_idempotency_key s \<noteq> None" "dict_wf (s_payload s)" for j v
  proof -
    let ?s = "s\<lparr>s_payload := dict_set ''_trace'' v (s_payload s)\<rparr>"
    have "find (key_taken (s_tenant_id s) (s_idempotency_key s)) (tasks d) = None"
      using h by (simp add: holder_def)
    then have "holder ?s ?d = Some ?t"
      using that(1) by (auto simp: holder_def with_task_def find_append key_taken_def)
    moreover have "submission_ok ?s" using assms(2) by (simp add: submission_ok_def)
    moreover have "dict_eq (without_trace (payload ?t)) (without_trace (s_payload ?s))"
      using dict_eq_refl [OF dict_wf_del [OF that(2)], of "''_trace''"] by (simp add: without_trace_def)
    ultimately show ?thesis by (simp add: submit_dup)
  qed
  show "\<exists>d'. submit_task i s d = Inr (\<lparr>created = True, sub_task = ?t\<rparr>, d')
        \<and> db_inv d' \<and> tasks d' = tasks d @ [?t]
        \<and> (\<exists>e. task_events d' = task_events d @ [e] \<and> te_task_id e = i \<and> te_event_type e = TASK_CREATED
              \<and> te_attempt e = Some 0 \<and> te_worker_id e = None \<and> te_data e = created_data s)
        \<and> (s_idempotency_key s \<noteq> None \<and> dict_wf (s_payload s) \<longrightarrow>
             (\<forall>j t. submit_task j (s\<lparr>s_payload := dict_set ''_trace'' t (s_payload s)\<rparr>) d' =
                Inr (\<lparr>created = False, sub_task = ?t\<rparr>, d')))"
    using new inv again by (intro exI [of _ ?d]) (simp add: with_task_def)
next
  fix t assume "holder s d = Some t"
  then show "submit_task i s d =
          (if dict_eq (without_trace (payload t)) (without_trace (s_payload s))
           then Inr (\<lparr>created = False, sub_task = t\<rparr>, d) else Inl (PayloadMismatch (t_id t)))"
    by (rule submit_dup [OF assms(2)])
qed

definition demo_submission :: submission where
  "demo_submission = \<lparr>s_tenant_id = 1, s_task_type = ''sleep'', s_payload = [(''seconds'', JNum 1)],
     s_idempotency_key = Some ''order-17'', s_priority = 100, s_max_attempts = 3,
     s_max_execution_time_s = 300, s_available_at = None, s_agent_version_id = None,
     s_required_capabilities = []\<rparr>"

theorem submit_idempotent_witness:
  "\<exists>d'. submit_task 8 demo_submission demo_db =
      Inr (\<lparr>created = True, sub_task = new_task 8 demo_submission 10\<rparr>, d')
    \<and> map te_event_type (task_events d') = map te_event_type (task_events demo_db) @ [TASK_CREATED]
    \<and> submit_task 9 (demo_submission\<lparr>s_payload := dict_set ''_trace'' JNull [(''seconds'', JNum 1)]\<rparr>) d' =
      Inr (\<lparr>created = False, sub_task = new_task 8 demo_submission 10\<rparr>, d')"
proof -
  have "submission_ok demo_submission" "refs_ok demo_submission demo_db" "find_task demo_db 8 = None"
    "holder demo_submission demo_db = None" "dict_wf (s_payload demo_submission)"
    "s_idempotency_key demo_submission \<noteq> None" "now demo_db = 10"
    "s_payload demo_submission = [(''seconds'', JNum 1)]"
    by (simp_all add: submission_ok_def refs_ok_def holder_def key_taken_def demo_submission_def demo_defs
        find_task_def dict_wf_def)
  then show ?thesis using submit_idempotent [OF demo_db_inv, of demo_submission 8] by auto
qed

section \<open>Cancellation: lemmas\<close>

lemma set_row_request: "set_row (request_cancel_set tn) t = t\<lparr>cancel_requested := True, updated_at := tn\<rparr>"
  by (simp add: set_row_def request_cancel_set_def)

lemma set_row_sweep: "set_row (sweep_queued_set why tn) t =
    t\<lparr>t_state := CANCELLED, cancel_requested := True, t_finished_at := Some tn, updated_at := tn,
      t_error_class := Some ''AgentDisabled'', t_error_message := Some why\<rparr>"
  by (simp add: set_row_def sweep_queued_set_def)

lemma set_row_cancel: "set_row (cas_set tn (cancel_queued_cas tn)) t =
    t\<lparr>t_state := CANCELLED, updated_at := tn, cancel_requested := True, t_finished_at := Some tn\<rparr>"
  by (simp add: set_row_def cas_set_def cancel_queued_cas_def)

lemma log_ok_idle:
  assumes "log_ok t as" "t_state t = QUEUED" "t_state t' = CANCELLED" "t_attempt t' = t_attempt t"
  shows "log_ok t' as"
proof -
  have "outcome r \<noteq> None" "outcome r \<noteq> Some OUT_SUCCEEDED" if "r \<in> set as" for r
    using that assms(1,2) by (simp_all add: log_ok_def del: not_None_eq)
  then show ?thesis using assms by (simp add: log_ok_def del: not_None_eq)
qed

lemma log_ok_flag: "log_ok t as \<Longrightarrow> log_ok (set_row (request_cancel_set tn) t) as"
  by (simp add: log_ok_def set_row_request)

lemma cancelled_row_wf:
  assumes "row_wf t" "t_state t = QUEUED"
  shows "row_wf (set_row (cas_set tn (cancel_queued_cas tn)) t)" "row_wf (set_row (sweep_queued_set why tn) t)"
  using assms by (simp_all add: set_row_cancel set_row_sweep row_wf_def lease_coherent_def)

lemma flagged_row_wf: "row_wf (set_row (request_cancel_set tn) t) = row_wf t"
  by (simp add: set_row_request row_wf_def lease_coherent_def)

text \<open>An update that leaves the history alone.\<close>

lemma update_ok:
  assumes inv: "db_inv d" and d': "tasks d' = sql_update p (set_row f) (tasks d)"
    and same: "task_attempts d' = task_attempts d" "workers d' = workers d" "tenants d' = tenants d"
    and ev: "\<And>e. e \<in> set (task_events d') \<Longrightarrow> te_task_id e \<in> t_id ` set (tasks d)"
    and rows: "\<And>t. t \<in> set (tasks d) \<Longrightarrow> p t \<Longrightarrow> row_wf t \<Longrightarrow> log_ok t (attempts_of d (t_id t)) \<Longrightarrow>
        row_wf (set_row f t) \<and> log_ok (set_row f t) (attempts_of d (t_id t)) \<and> row_step t (set_row f t)"
  shows "db_inv d'" and "db_step_ok d d'"
proof -
  have att: "attempts_of d' j = attempts_of d j" for j by (simp add: attempts_of_def same(1))
  have row: "row_wf (set_row f t) \<and> log_ok (set_row f t) (attempts_of d (t_id t)) \<and> row_step t (set_row f t)"
    if "t \<in> set (tasks d)" "p t" for t
    using rows [OF that] db_inv_task_ok [OF inv that(1)] by (simp add: task_ok_def)
  show "db_inv d'"
  proof (rule db_inv_update [OF inv d'])
    show "task_ok d' (set_row f t)" if "t \<in> set (tasks d)" "p t" for t
      using row [OF that] by (simp add: task_ok_def att)
    show "ta_task_id r \<in> t_id ` set (tasks d) \<and> ta_worker_id r \<in> w_id ` set (workers d)"
      if "r \<in> set (task_attempts d')" for r
      using that inv by (simp add: same db_inv_def attempt_refs_def)
  qed (use ev in \<open>simp_all add: att same\<close>)
  show "db_step_ok d d'" by (rule db_step_ok_update [OF d']) (use row in blast)
qed

text \<open>Events recorded for a list of rows.\<close>

lemma record_events:
  assumes "db_inv d" "\<forall>r \<in> set rows. find_task d (i r) \<noteq> None"
  shows "\<exists>d'. foldE (\<lambda>r. record_event (i r) et (a r) w data) rows d = Inr d'
    \<and> db_inv d' \<and> tasks d' = tasks d \<and> task_attempts d' = task_attempts d \<and> now d' = now d"
proof -
  define P where "P s \<longleftrightarrow> db_inv s \<and> tasks s = tasks d \<and> task_attempts s = task_attempts d \<and> now s = now d" for s
  have "\<exists>s'. foldE (\<lambda>r. record_event (i r) et (a r) w data) rows d = Inr s' \<and> P s'"
  proof (rule foldE_total)
    fix r s assume r: "r \<in> set rows" "P s"
    then have "find_task s (i r) \<noteq> None" using assms(2) by (simp add: P_def find_task_def)
    moreover have "db_inv s" using r(2) by (simp add: P_def)
    ultimately obtain s' where "insert_event (i r) et (a r) w data s = Inr s'" "db_inv s'" "tasks s' = tasks s"
      "task_attempts s' = task_attempts s" "now s' = now s"
      using insert_event_total by blast
    then show "\<exists>s'. record_event (i r) et (a r) w data s = Inr s' \<and> P s'"
      using r(2) by (simp add: record_event_def P_def)
  qed (simp add: P_def assms(1))
  then show ?thesis by (simp add: P_def)
qed

lemma cancel_queued_legal: "cas_legal (cancel_queued_cas tn)"
  by (simp add: cas_legal_def cancel_queued_cas_def)

lemma cancel_queued:
  assumes inv: "db_inv d" and t: "find_task d i = Some t" "t_state t = QUEUED"
  shows "transition i (cancel_queued_cas (now d)) d =
      Inr (granted (set_row (cas_set (now d) (cancel_queued_cas (now d))) t),
           after_transition i (cancel_queued_cas (now d)) t d)"
    and "db_inv (after_transition i (cancel_queued_cas (now d)) t d)"
    and "db_step_ok d (after_transition i (cancel_queued_cas (now d)) t d)"
proof -
  let ?c = "cancel_queued_cas (now d)" and ?d = "after_transition i (cancel_queued_cas (now d)) t d"
  note ti = db_inv_task [OF inv t(1)]
  have wh: "cas_where (now d) ?c i t"
    using t find_task_SomeD [OF t(1)]
    by (simp add: cas_where_def cancel_queued_cas_def attempt_ok_def worker_ok_def)
  have "task_violation (set_row (cas_set (now d) ?c) t) = None"
    using cancelled_row_wf(1) [OF ti(1) t(2), of "now d"] by (simp add: row_wf_def del: task_violation_None)
  then show "transition i ?c d = Inr (granted (set_row (cas_set (now d) ?c) t), ?d)"
    using wh t(1) by (simp add: transition_cases [OF db_inv_ids [OF inv] cancel_queued_legal] del: task_violation_None)
  have tasks: "tasks ?d = sql_update (\<lambda>u. t_id u = i) (set_row (cas_set (now d) ?c)) (tasks d)"
    by (simp add: after_transition_def Let_def)
  have only: "u = t" if "u \<in> set (tasks d)" "t_id u = i" for u
    using that find_by_unique [of t_id "tasks d" i u] t(1) db_inv_ids [OF inv]
    by (simp add: ids_distinct_def find_task_def)
  have ev: "te_task_id e \<in> t_id ` set (tasks d)" if "e \<in> set (task_events ?d)" for e
  proof -
    have "i \<in> t_id ` set (tasks d)" using t(1) find_task_iff [of d i] by simp
    then show ?thesis
      using that inv by (auto simp: after_transition_def Let_def db_inv_def event_refs_def)
  qed
  have row: "row_wf (set_row (cas_set (now d) ?c) u) \<and> log_ok (set_row (cas_set (now d) ?c) u) (attempts_of d (t_id u))
      \<and> row_step u (set_row (cas_set (now d) ?c) u)"
    if "u \<in> set (tasks d)" "t_id u = i" "row_wf u" "log_ok u (attempts_of d (t_id u))" for u
  proof -
    have "t_state u = QUEUED" using only [OF that(1,2)] t(2) by simp
    then show ?thesis
      using cancelled_row_wf(1) [OF that(3)] log_ok_idle [OF that(4)]
      unfolding row_step_def pinned_set_row by (simp add: set_row_cancel)
  qed
  show "db_inv ?d" "db_step_ok d ?d"
    by (rule update_ok [OF inv tasks]; use ev row in simp)+
qed

lemma flag_update:
  assumes inv: "db_inv d" and p: "\<And>t. p t \<Longrightarrow> t_state t = RUNNING"
  shows "update_tasks p (request_cancel_set tn) d =
      Inr (sql_returning p (set_row (request_cancel_set tn)) (tasks d),
           d\<lparr>tasks := sql_update p (set_row (request_cancel_set tn)) (tasks d)\<rparr>)"
    and "db_inv (d\<lparr>tasks := sql_update p (set_row (request_cancel_set tn)) (tasks d)\<rparr>)"
    and "db_step_ok d (d\<lparr>tasks := sql_update p (set_row (request_cancel_set tn)) (tasks d)\<rparr>)"
proof -
  let ?f = "request_cancel_set tn"
  let ?d = "d\<lparr>tasks := sql_update p (set_row ?f) (tasks d)\<rparr>"
  have "task_violation (set_row ?f t) = None" if "t \<in> set (tasks d)" for t
  proof -
    have "row_wf (set_row ?f t)"
      using flagged_row_wf db_inv_task_ok [OF inv that] by (simp add: task_ok_def)
    then show ?thesis by (simp add: row_wf_def del: task_violation_None)
  qed
  then show "update_tasks p ?f d = Inr (sql_returning p (set_row ?f) (tasks d), ?d)"
    unfolding update_tasks_Inr by (simp del: task_violation_None)
  have tasks: "tasks ?d = sql_update p (set_row ?f) (tasks d)" by simp
  have ev: "te_task_id e \<in> t_id ` set (tasks d)" if "e \<in> set (task_events ?d)" for e
    using that inv by (simp add: db_inv_def event_refs_def)
  have row: "row_wf (set_row ?f t) \<and> log_ok (set_row ?f t) (attempts_of d (t_id t)) \<and> row_step t (set_row ?f t)"
    if "p t" "row_wf t" "log_ok t (attempts_of d (t_id t))" for t
    using that(2) log_ok_flag [OF that(3)] p [OF that(1)]
    unfolding flagged_row_wf row_step_def pinned_set_row by (simp add: set_row_request)
  show "db_inv ?d" "db_step_ok d ?d"
    by (rule update_ok [OF inv tasks]; use ev row in simp)+
qed

lemma sweep_update:
  assumes inv: "db_inv d" and p: "\<And>t. p t \<Longrightarrow> t_state t = QUEUED"
  shows "update_tasks p (sweep_queued_set why tn) d =
      Inr (sql_returning p (set_row (sweep_queued_set why tn)) (tasks d),
           d\<lparr>tasks := sql_update p (set_row (sweep_queued_set why tn)) (tasks d)\<rparr>)"
    and "db_inv (d\<lparr>tasks := sql_update p (set_row (sweep_queued_set why tn)) (tasks d)\<rparr>)"
    and "p t \<Longrightarrow> row_step t (set_row (sweep_queued_set why tn) t)"
proof -
  let ?f = "sweep_queued_set why tn"
  let ?d = "d\<lparr>tasks := sql_update p (set_row ?f) (tasks d)\<rparr>"
  have "task_violation (set_row ?f t) = None" if "t \<in> set (tasks d)" "p t" for t
    using cancelled_row_wf(2) [of t why tn] db_inv_task_ok [OF inv that(1)] p [OF that(2)]
    by (simp add: task_ok_def row_wf_def del: task_violation_None)
  then show "update_tasks p ?f d = Inr (sql_returning p (set_row ?f) (tasks d), ?d)"
    unfolding update_tasks_Inr by (simp del: task_violation_None)
  have tasks: "tasks ?d = sql_update p (set_row ?f) (tasks d)" by simp
  have ev: "te_task_id e \<in> t_id ` set (tasks d)" if "e \<in> set (task_events ?d)" for e
    using that inv by (simp add: db_inv_def event_refs_def)
  have step: "row_step t (set_row ?f t)" if "p t" for t
    using p [OF that] unfolding row_step_def pinned_set_row by (simp add: set_row_sweep)
  then show "p t \<Longrightarrow> row_step t (set_row ?f t)" .
  have row: "row_wf (set_row ?f t) \<and> log_ok (set_row ?f t) (attempts_of d (t_id t)) \<and> row_step t (set_row ?f t)"
    if "p t" "row_wf t" "log_ok t (attempts_of d (t_id t))" for t
    using cancelled_row_wf(2) [OF that(2) p [OF that(1)]] log_ok_idle [OF that(3) p [OF that(1)]] step [OF that(1)]
    by (simp add: set_row_sweep)
  show "db_inv ?d"
    by (rule update_ok(1) [OF inv tasks]; use ev row in simp)
qed

lemma update_one:
  assumes "find_task d i = Some t"
  shows "find_task (d\<lparr>tasks := sql_update (\<lambda>u. t_id u = i) (set_row f) (tasks d)\<rparr>) j =
    (if j = i then Some (set_row f t) else find_task d j)"
proof (cases "j = i")
  case True
  then show ?thesis using assms find_task_SomeD [OF assms] by (simp add: find_task_update)
next
  case False
  then show ?thesis
    by (cases "find_task d j") (auto simp: find_task_update dest: find_task_SomeD)
qed

lemma request_cancel:
  assumes inv: "db_inv d" and t: "find_task d i = Some t" "t_state t = RUNNING" "\<not> cancel_requested t"
  shows "\<exists>d'. cancel_task i d = Inr (\<lparr>co_outcome = CO_REQUESTED,
        co_task = Some (t\<lparr>cancel_requested := True, updated_at := now d\<rparr>)\<rparr>, d')
    \<and> db_inv d' \<and> db_step_ok d d' \<and> task_attempts d' = task_attempts d
    \<and> (\<forall>j. find_task d' j = (if j = i then Some (t\<lparr>cancel_requested := True, updated_at := now d\<rparr>) else find_task d j))"
proof -
  have only: "t_id u = i \<longleftrightarrow> u = t" if "u \<in> set (tasks d)" for u
    using that find_by_unique [of t_id "tasks d" i u] t(1) db_inv_ids [OF inv]
    by (auto simp: ids_distinct_def find_task_def)
  let ?p = "\<lambda>u. t_id u = i \<and> t_state u = RUNNING"
  let ?f = "set_row (request_cancel_set (now d))"
  let ?d = "d\<lparr>tasks := sql_update (\<lambda>u. t_id u = i) ?f (tasks d)\<rparr>"
  have same: "sql_update ?p ?f (tasks d) = sql_update (\<lambda>u. t_id u = i) ?f (tasks d)"
    "sql_returning ?p ?f (tasks d) = sql_returning (\<lambda>u. t_id u = i) ?f (tasks d)"
    using only t(2) by (auto simp: sql_update_def sql_returning_def intro!: filter_cong arg_cong [where f = "map ?f"])
  note fl = flag_update [OF inv, of ?p "now d"]
  have "update_tasks (\<lambda>u. t_id u = i) (request_cancel_set (now d)) d =
      Inr (sql_returning (\<lambda>u. t_id u = i) ?f (tasks d), ?d)"
  proof -
    have "\<forall>u \<in> set (tasks d). t_id u = i \<longrightarrow> task_violation (?f u) = None"
      using fl(1) t(2) only unfolding update_tasks_Inr by (auto simp del: task_violation_None)
    then show ?thesis unfolding update_tasks_Inr by simp
  qed
  moreover have inv1: "db_inv ?d" "db_step_ok d ?d" using fl(2,3) by (simp_all add: same)
  moreover have find: "find_task ?d j = (if j = i then Some (?f t) else find_task d j)" for j
    by (rule update_one [OF t(1)])
  moreover obtain d' where d': "insert_event i CANCEL_REQUESTED (Some (t_attempt t)) None [(''source'', JStr ''api'')] ?d = Inr d'"
    "db_inv d'" "tasks d' = tasks ?d" "task_attempts d' = task_attempts ?d"
  proof -
    have "find_task ?d i \<noteq> None" by (simp add: find)
    from insert_event_total [OF inv1(1) this] that show ?thesis by blast
  qed
  moreover have find': "find_task d' j = find_task ?d j" for j by (simp add: find_task_def d'(3))
  moreover have "db_step_ok d d'" using inv1(2) by (simp add: db_step_ok_def find')
  ultimately show ?thesis
    using t by (intro exI [of _ d']) (simp add: cancel_task_def record_event_def TERMINAL_def get_task_def set_row_request)
qed

lemma cancel_task_result:
  assumes "db_inv d"
  shows "\<exists>r d'. cancel_task i d = Inr (r, d') \<and> db_inv d' \<and> db_step_ok d d'
    \<and> (\<forall>j. j \<noteq> i \<longrightarrow> find_task d' j = find_task d j)
    \<and> (case find_task d i of
         None \<Rightarrow> co_outcome r = CO_NOT_FOUND \<and> d' = d
       | Some t \<Rightarrow>
           (case t_state t of
              QUEUED \<Rightarrow> co_outcome r = CO_CANCELLED \<and> (\<exists>t'. find_task d' i = Some t' \<and> t_state t' = CANCELLED)
            | RUNNING \<Rightarrow>
                if cancel_requested t then co_outcome r = CO_ALREADY_REQUESTED \<and> d' = d
                else co_outcome r = CO_REQUESTED
                  \<and> find_task d' i = Some (t\<lparr>cancel_requested := True, updated_at := now d\<rparr>)
            | CANCELLED \<Rightarrow> co_outcome r = CO_ALREADY_CANCELLED \<and> d' = d
            | _ \<Rightarrow> co_outcome r = CO_ALREADY_TERMINAL \<and> d' = d))"
proof (cases "find_task d i")
  case None
  then show ?thesis using assms by (simp add: cancel_task_def)
next
  case (Some t)
  show ?thesis
  proof (cases "t_state t")
    case QUEUED
    note q = cancel_queued [OF assms Some QUEUED]
    have "find_task (after_transition i (cancel_queued_cas (now d)) t d) i =
        Some (set_row (cas_set (now d) (cancel_queued_cas (now d))) t)"
      using Some by (simp add: find_task_after_transition)
    with q show ?thesis
      using QUEUED Some by (simp add: cancel_task_def TERMINAL_def find_task_after_transition set_row_cancel)
  next
    case RUNNING
    show ?thesis
    proof (cases "cancel_requested t")
      case True
      then show ?thesis using RUNNING Some assms by (simp add: cancel_task_def TERMINAL_def)
    next
      case False
      then show ?thesis using request_cancel [OF assms Some RUNNING] Some RUNNING by auto
    qed
  qed (use Some assms in \<open>simp_all add: cancel_task_def TERMINAL_def\<close>)
qed

text \<open>
  Cancelling one task. Under the invariant it never raises (the assertion of the source cannot
  fail) and keeps the invariant. A queued task is cancelled for good at once; a running one keeps
  running with its flag set, which its worker reads with the next renewal; asking twice, or for a
  task that has ended or does not exist, changes nothing; no other task changes.
\<close>

theorem cancel_task_contract:
  assumes "db_inv d"
  shows "\<exists>r d'. cancel_task i d = Inr (r, d') \<and> db_inv d' \<and> db_step_ok d d'
    \<and> (\<forall>j. j \<noteq> i \<longrightarrow> find_task d' j = find_task d j)
    \<and> (case find_task d i of
         None \<Rightarrow> co_outcome r = CO_NOT_FOUND \<and> d' = d
       | Some t \<Rightarrow>
           (case t_state t of
              QUEUED \<Rightarrow> co_outcome r = CO_CANCELLED \<and> (\<exists>t'. find_task d' i = Some t' \<and> t_state t' = CANCELLED)
            | RUNNING \<Rightarrow>
                if cancel_requested t then co_outcome r = CO_ALREADY_REQUESTED \<and> d' = d
                else co_outcome r = CO_REQUESTED
                  \<and> find_task d' i = Some (t\<lparr>cancel_requested := True, updated_at := now d\<rparr>)
            | CANCELLED \<Rightarrow> co_outcome r = CO_ALREADY_CANCELLED \<and> d' = d
            | _ \<Rightarrow> co_outcome r = CO_ALREADY_TERMINAL \<and> d' = d))"
  by (rule cancel_task_result [OF assms])

theorem cancel_task_contract_witness:
  "\<exists>r d'. cancel_task 7 demo_db = Inr (r, d') \<and> co_outcome r = CO_REQUESTED"
proof -
  have "find_task demo_db 7 = Some demo_task" "t_state demo_task = RUNNING" "\<not> cancel_requested demo_task"
    by (simp_all add: demo_defs find_task_def)
  then show ?thesis using cancel_task_contract [OF demo_db_inv, of 7] by auto
qed

section \<open>The sweep of an agent's work\<close>

definition swept :: "uuid list \<Rightarrow> string \<Rightarrow> time \<Rightarrow> task \<Rightarrow> task" where
  "swept vs why tn t =
     (if in_versions vs t \<and> t_state t = QUEUED then set_row (sweep_queued_set why tn) t
      else if in_versions vs t \<and> t_state t = RUNNING \<and> \<not> cancel_requested t
        then set_row (request_cancel_set tn) t else t)"

lemma cancel_agent_tasks_result:
  assumes "db_inv d"
  shows "\<exists>n d'. cancel_agent_tasks vs why d = Inr (n, d') \<and> db_inv d' \<and> db_step_ok d d'
    \<and> (\<forall>i. find_task d' i = map_option (swept vs why (now d)) (find_task d i))
    \<and> (\<forall>t \<in> set (tasks d'). in_versions vs t \<longrightarrow> t_state t \<noteq> QUEUED
          \<and> (t_state t = RUNNING \<longrightarrow> cancel_requested t))
    \<and> n = length (filter (\<lambda>t. in_versions vs t \<and> (t_state t = QUEUED
          \<or> t_state t = RUNNING \<and> \<not> cancel_requested t)) (tasks d))"
proof (cases "vs = []")
  case True
  have no: "\<not> in_versions [] t" for t by (simp add: in_versions_def split: option.split)
  then have "swept vs why (now d) = (\<lambda>t. t)" by (auto simp: swept_def True)
  then show ?thesis using assms True no by (simp add: cancel_agent_tasks_def option.map_ident)
next
  case False
  let ?q = "\<lambda>t. in_versions vs t \<and> t_state t = QUEUED"
  let ?r = "\<lambda>t. in_versions vs t \<and> t_state t = RUNNING \<and> \<not> cancel_requested t"
  let ?fq = "set_row (sweep_queued_set why (now d))" and ?fr = "set_row (request_cancel_set (now d))"
  define d1 where "d1 = d\<lparr>tasks := sql_update ?q ?fq (tasks d)\<rparr>"
  define d2 where "d2 = d1\<lparr>tasks := sql_update ?r ?fr (tasks d1)\<rparr>"
  note sw = sweep_update [OF assms, where p = ?q and why = why and tn = "now d"]
  have u1: "update_tasks ?q (sweep_queued_set why (now d)) d = Inr (sql_returning ?q ?fq (tasks d), d1)"
    and inv1: "db_inv d1" using sw by (simp_all add: d1_def)
  note fl = flag_update [OF inv1, where p = ?r and tn = "now d"]
  have u2: "update_tasks ?r (request_cancel_set (now d)) d1 = Inr (sql_returning ?r ?fr (tasks d1), d2)"
    and inv2: "db_inv d2" using fl by (simp_all add: d2_def)
  have v: "in_versions vs (?fq t) = in_versions vs t" "in_versions vs (?fr t) = in_versions vs t" for t
    by (simp_all add: in_versions_def)
  have tasks2: "tasks d2 = map (swept vs why (now d)) (tasks d)"
    by (auto simp: d2_def d1_def sql_update_def swept_def v set_row_sweep)
  have find2: "find_task d2 i = map_option (swept vs why (now d)) (find_task d i)" for i
  proof -
    have "t_id (swept vs why (now d) t) = t_id t" for t by (simp add: swept_def)
    then show ?thesis unfolding find_task_def tasks2 by (rule find_by_map)
  qed
  have ev1: "find_task d2 (t_id r) \<noteq> None" if "r \<in> set (sql_returning ?q ?fq (tasks d))" for r
  proof -
    from that obtain t where "t \<in> set (tasks d)" "t_id r = t_id t" by (auto simp: sql_returning_def)
    then show ?thesis using find_task_iff [of d "t_id t"] by (simp add: find2)
  qed
  obtain d3 where d3: "foldE (\<lambda>r. record_event (t_id r) TASK_CANCELLED (Some (t_attempt r)) None
       [(''reason'', JStr why)]) (sql_returning ?q ?fq (tasks d)) d2 = Inr d3" "db_inv d3" "tasks d3 = tasks d2"
    using record_events [OF inv2, where rows = "sql_returning ?q ?fq (tasks d)" and i = t_id
        and a = "\<lambda>r. Some (t_attempt r)"] ev1 by blast
  have ev2: "find_task d3 (t_id r) \<noteq> None" if "r \<in> set (sql_returning ?r ?fr (tasks d1))" for r
  proof -
    have "t_id ` set (tasks d1) = t_id ` set (tasks d2)" by (simp add: d2_def task_rows.keys_update)
    moreover from that obtain t where "t \<in> set (tasks d1)" "t_id r = t_id t" by (auto simp: sql_returning_def)
    ultimately have "t_id r \<in> t_id ` set (tasks d3)" by (auto simp: d3(3))
    then show ?thesis using find_task_iff [of d3 "t_id r"] by simp
  qed
  obtain d4 where d4: "foldE (\<lambda>r. record_event (t_id r) CANCEL_REQUESTED (Some (t_attempt r)) None
       [(''reason'', JStr why), (''source'', JStr ''agent_disabled'')]) (sql_returning ?r ?fr (tasks d1)) d3 = Inr d4"
    "db_inv d4" "tasks d4 = tasks d3"
    using record_events [OF d3(2), where rows = "sql_returning ?r ?fr (tasks d1)" and i = t_id
        and a = "\<lambda>r. Some (t_attempt r)"] ev2 by blast
  have run: "cancel_agent_tasks vs why d =
      Inr (length (sql_returning ?q ?fq (tasks d)) + length (sql_returning ?r ?fr (tasks d1)), d4)"
    using False u1 u2 d3(1) d4(1) by (simp add: cancel_agent_tasks_def d1_def)
  have find4: "find_task d4 i = map_option (swept vs why (now d)) (find_task d i)" for i
    using find2 by (simp add: find_task_def d4(3) d3(3))
  have "row_step t (swept vs why (now d) t)" for t
  proof -
    have "row_step t (?fq t)" if "?q t" by (rule sw(3)) (use that in auto)
    moreover have "row_step t (?fr t)" if "?r t"
      using that unfolding row_step_def pinned_set_row by (simp add: set_row_request)
    ultimately show ?thesis by (simp add: swept_def)
  qed
  then have step: "db_step_ok d d4" by (simp add: db_step_ok_def find4)
  have r1: "filter ?r (sql_update ?q ?fq xs) = filter ?r xs" for xs
    by (induction xs) (auto simp: set_row_sweep)
  have "length (sql_returning ?q ?fq (tasks d)) + length (sql_returning ?r ?fr (tasks d1)) =
      length (filter ?q (tasks d)) + length (filter ?r (tasks d))"
    unfolding sql_returning_def d1_def using r1 by simp
  also have "\<dots> = length (filter (\<lambda>t. ?q t \<or> ?r t) (tasks d))"
    by (rule length_filter_disj [symmetric]) auto
  also have "(\<lambda>t. ?q t \<or> ?r t) = (\<lambda>t. in_versions vs t \<and> (t_state t = QUEUED
          \<or> t_state t = RUNNING \<and> \<not> cancel_requested t))" by auto
  finally have n: "length (sql_returning ?q ?fq (tasks d)) + length (sql_returning ?r ?fr (tasks d1)) =
      length (filter (\<lambda>t. in_versions vs t \<and> (t_state t = QUEUED
          \<or> t_state t = RUNNING \<and> \<not> cancel_requested t)) (tasks d))" .
  have "t_state t \<noteq> QUEUED \<and> (t_state t = RUNNING \<longrightarrow> cancel_requested t)"
    if "t \<in> set (tasks d4)" "in_versions vs t" for t
    using that by (auto simp: d4(3) d3(3) tasks2 swept_def v set_row_sweep set_row_request split: if_splits)
  then show ?thesis using run d4(2) step find4 n by blast
qed

text \<open>
  Disabling an agent's work. The sweep never raises under the invariant and keeps it. Afterwards
  no task of the given versions is queued: each was cancelled; every running one carries the
  cancellation flag; no other task is touched; and the count returned is the number of tasks
  cancelled plus the number newly asked to stop.
\<close>

theorem cancel_agent_tasks_contract:
  assumes "db_inv d"
  shows "\<exists>n d'. cancel_agent_tasks vs why d = Inr (n, d') \<and> db_inv d' \<and> db_step_ok d d'
    \<and> (\<forall>i. find_task d' i = map_option (swept vs why (now d)) (find_task d i))
    \<and> (\<forall>t \<in> set (tasks d'). in_versions vs t \<longrightarrow> t_state t \<noteq> QUEUED
          \<and> (t_state t = RUNNING \<longrightarrow> cancel_requested t))
    \<and> n = length (filter (\<lambda>t. in_versions vs t \<and> (t_state t = QUEUED
          \<or> t_state t = RUNNING \<and> \<not> cancel_requested t)) (tasks d))"
  by (rule cancel_agent_tasks_result [OF assms])

definition demo_governed :: db where
  "demo_governed = demo_db\<lparr>tasks := [demo_task\<lparr>t_agent_version_id := Some 5\<rparr>]\<rparr>"

lemma demo_governed_inv: "db_inv demo_governed"
proof -
  let ?t = "demo_task\<lparr>t_agent_version_id := Some 5\<rparr>"
  have "row_wf ?t" by (simp add: row_wf_def demo_task_def lease_coherent_def)
  moreover have "log_ok ?t (attempts_of demo_governed 7)"
    by (simp add: log_ok_def attempts_of_def demo_governed_def demo_defs upto.simps)
  ultimately show ?thesis
    by (simp add: db_inv_def ids_distinct_def tasks_ok_def task_ok_def keys_unique_def tenant_refs_def
        attempt_refs_def event_refs_def demo_governed_def demo_db_def empty_db_def)
       (simp add: demo_defs)
qed

theorem cancel_agent_tasks_contract_witness:
  "\<exists>d'. cancel_agent_tasks [5] ''off'' demo_governed = Inr (1, d') \<and> db_inv d'"
proof -
  have "tasks demo_governed = [demo_task\<lparr>t_agent_version_id := Some 5\<rparr>]"
    "t_state demo_task = RUNNING" "\<not> cancel_requested demo_task"
    by (simp_all add: demo_governed_def demo_task_def)
  then show ?thesis
    using cancel_agent_tasks_contract [OF demo_governed_inv, of "[5]" "''off''"]
    by (auto simp: in_versions_def)
qed

section \<open>Pagination\<close>

text \<open>A client that follows the cursors: the concatenation of the pages, for a number of requests.\<close>

fun all_pages :: "nat \<Rightarrow> uuid option \<Rightarrow> state option \<Rightarrow> nat \<Rightarrow> (rat \<times> uuid) option \<Rightarrow> db \<Rightarrow> task list" where
  "all_pages 0 tn st limit cursor d = []"
| "all_pages (Suc n) tn st limit cursor d =
     (case list_tasks tn st limit cursor d of
        (rows, None) \<Rightarrow> rows
      | (rows, Some c) \<Rightarrow> rows @ all_pages n tn st limit (Some c) d)"

lemma list_key_distinct: "ids_distinct d \<Longrightarrow> distinct (map list_key (tasks d))"
  by (auto simp: ids_distinct_def distinct_map inj_on_def list_key_def)

lemma sorted_desc_split:
  assumes "S = xs @ ys" "xs \<noteq> []" "sorted_wrt (\<lambda>a b. f b < f a) S"
  shows "filter (\<lambda>t. f t < (f (last xs) :: 'k::linorder)) S = ys"
proof -
  obtain zs l where xs: "xs = zs @ [l]" using assms(2) by (cases xs rule: rev_cases) auto
  have "\<not> f x < f l" if "x \<in> set xs" for x
    using that assms(3) by (auto simp: assms(1) xs sorted_wrt_append dest: less_asym)
  moreover have "f y < f l" if "y \<in> set ys" for y
    using that assms(3) by (auto simp: assms(1) xs sorted_wrt_append)
  ultimately have "filter (\<lambda>t. f t < f l) xs = []" "filter (\<lambda>t. f t < f l) ys = ys"
    by (simp_all add: filter_empty_conv filter_id_conv)
  then show ?thesis by (simp add: assms(1)) (simp add: xs)
qed

definition listing :: "uuid option \<Rightarrow> state option \<Rightarrow> (rat \<times> uuid) option \<Rightarrow> db \<Rightarrow> task list" where
  "listing tn st cursor d = rev (sort_key list_key (filter (\<lambda>t. list_filter tn st t
     \<and> (case cursor of None \<Rightarrow> True | Some c \<Rightarrow> list_key t < c)) (tasks d)))"

lemma listing_desc:
  assumes "ids_distinct d"
  shows "sorted_wrt (\<lambda>a b. list_key b < list_key a) (listing tn st cursor d)"
proof -
  let ?xs = "sort_key list_key (filter (\<lambda>t. list_filter tn st t
     \<and> (case cursor of None \<Rightarrow> True | Some c \<Rightarrow> list_key t < c)) (tasks d))"
  have "distinct (map list_key ?xs)"
    using list_key_distinct [OF assms] by (auto simp: distinct_map intro: inj_on_subset)
  then have "sorted_wrt (<) (map list_key ?xs)"
    by (simp add: strict_sorted_iff del: set_sort)
  then show ?thesis by (simp add: listing_def sorted_wrt_rev sorted_wrt_map)
qed

lemma list_tasks_eq: "list_tasks tn st limit cursor d =
    (if limit < length (listing tn st cursor d)
     then (take limit (listing tn st cursor d), Some (list_key (last (take limit (listing tn st cursor d)))))
     else (listing tn st cursor d, None))"
proof -
  define S where "S = listing tn st cursor d"
  have "list_tasks tn st limit cursor d = (let rows = take (limit + 1) S in if length rows > limit
      then (let page = take limit rows in (page, Some (list_key (last page)))) else (rows, None))"
    by (simp only: S_def listing_def list_tasks_def Let_def)
  then show ?thesis unfolding S_def [symmetric] by (simp add: Let_def min_def)
qed

lemma listing_cursor:
  "listing tn st (Some c) d = filter (\<lambda>t. list_key t < c) (listing tn st None d)"
  unfolding listing_def rev_filter [symmetric] filter_sort filter_filter by (simp add: conj_commute)

lemma all_pages_from:
  assumes "ids_distinct d" "0 < limit" "length (listing tn st cursor d) \<le> n * limit" "0 < n"
    and "\<And>c. cursor = Some c \<Longrightarrow> listing tn st cursor d = filter (\<lambda>t. list_key t < c) (listing tn st None d)"
  shows "all_pages n tn st limit cursor d = listing tn st cursor d"
  using assms(3-5)
proof (induction n arbitrary: cursor)
  case 0
  then show ?case by simp
next
  case (Suc n)
  let ?S = "listing tn st cursor d"
  show ?case
  proof (cases "length ?S \<le> limit")
    case True
    then show ?thesis by (simp add: list_tasks_eq)
  next
    case False
    define c where "c = list_key (last (take limit ?S))"
    have page: "list_tasks tn st limit cursor d = (take limit ?S, Some c)"
      using False by (simp add: list_tasks_eq c_def)
    have "take limit ?S \<noteq> []" using False assms(2) by auto
    then have "filter (\<lambda>t. list_key t < c) ?S = drop limit ?S"
      unfolding c_def by (intro sorted_desc_split [OF _ _ listing_desc [OF assms(1)]]) simp_all
    moreover have "filter (\<lambda>t. list_key t < c) ?S = listing tn st (Some c) d"
    proof (cases cursor)
      case None
      then show ?thesis by (simp add: listing_cursor)
    next
      case (Some b)
      have "last (take limit ?S) \<in> set ?S"
        using \<open>take limit ?S \<noteq> []\<close> by (meson in_set_takeD last_in_set)
      then have "c < b" using Some by (auto simp: c_def listing_def)
      then have "(\<lambda>t. list_key t < b \<and> list_key t < c) = (\<lambda>t. list_key t < c)" by auto
      then show ?thesis by (simp add: Some listing_cursor)
    qed
    ultimately have next': "listing tn st (Some c) d = drop limit ?S" by simp
    have "all_pages n tn st limit (Some c) d = listing tn st (Some c) d"
    proof (rule Suc.IH)
      show "length (listing tn st (Some c) d) \<le> n * limit" using Suc.prems(1) by (simp add: next')
      show "0 < n" using Suc.prems(1) False by (cases n) auto
    qed (simp add: listing_cursor)
    then show ?thesis by (simp add: page next')
  qed
qed

text \<open>Whatever the page size, the pages together are the listing, and each is a contiguous piece of it.\<close>

lemma pages_complete:
  assumes "ids_distinct d" and "0 < limit" and "length (tasks d) < n"
  shows "all_pages n tn st limit None d = rev (sort_key list_key (filter (list_filter tn st) (tasks d)))"
    "set (all_pages n tn st limit None d) = {t \<in> set (tasks d). list_filter tn st t}"
    "distinct (map t_id (all_pages n tn st limit None d))"
    "length (fst (list_tasks tn st limit c d)) \<le> limit"
proof -
  have "length (listing tn st None d) \<le> length (tasks d)" by (simp add: listing_def)
  also have "\<dots> \<le> n * limit" using assms(2,3) by (cases limit) auto
  finally have eq: "all_pages n tn st limit None d = listing tn st None d"
    using assms by (intro all_pages_from) auto
  then show "all_pages n tn st limit None d = rev (sort_key list_key (filter (list_filter tn st) (tasks d)))"
    "set (all_pages n tn st limit None d) = {t \<in> set (tasks d). list_filter tn st t}" by (simp_all add: listing_def)
  have "distinct (map t_id (listing tn st None d))"
    using assms(1) by (auto simp: listing_def ids_distinct_def distinct_map rev_map intro: inj_on_subset)
  then show "distinct (map t_id (all_pages n tn st limit None d))" by (simp add: eq)
  show "length (fst (list_tasks tn st limit c d)) \<le> limit"
    by (simp add: list_tasks_eq)
qed

end
