(* ===== verification/Failures.thy ===== *)
theory Failures
  imports Json
begin

text \<open>
  \<open>domain/errors.py\<close>: the closed set of failure classes, the adapter exception hierarchy, and the
  classification of an exception by its class.
\<close>

datatype failure_class =
    TRANSIENT | RATE_LIMITED | TIMEOUT | DEPENDENCY_UNAVAILABLE | FC_WORKER_LOST
  | PERMANENT | USER_ERROR | PERMISSION_DENIED | UNKNOWN

fun failure_value :: "failure_class \<Rightarrow> string" where
  "failure_value TRANSIENT = ''TRANSIENT''"
| "failure_value RATE_LIMITED = ''RATE_LIMITED''"
| "failure_value TIMEOUT = ''TIMEOUT''"
| "failure_value DEPENDENCY_UNAVAILABLE = ''DEPENDENCY_UNAVAILABLE''"
| "failure_value FC_WORKER_LOST = ''WORKER_LOST''"
| "failure_value PERMANENT = ''PERMANENT''"
| "failure_value USER_ERROR = ''USER_ERROR''"
| "failure_value PERMISSION_DENIED = ''PERMISSION_DENIED''"
| "failure_value UNKNOWN = ''UNKNOWN''"

definition ALL_FAILURE_CLASSES :: "failure_class list" where
  "ALL_FAILURE_CLASSES = [TRANSIENT, RATE_LIMITED, TIMEOUT, DEPENDENCY_UNAVAILABLE, FC_WORKER_LOST,
     PERMANENT, USER_ERROR, PERMISSION_DENIED, UNKNOWN]"

definition TERMINAL_CLASSES :: "failure_class list" where
  "TERMINAL_CLASSES = [PERMANENT, USER_ERROR, PERMISSION_DENIED]"

text \<open>
  Exception classes: the builtins \<open>classify\<close> looks for, the adapter hierarchy, the worker's own
  \<open>UnknownTaskType\<close>, and a subclass of any of them, which may override \<open>failure_class\<close>.
\<close>

datatype exc_class =
    PyException | PyTypeError | PyValueError | PyLookupError | PyKeyError | PyOSError
  | PyTimeoutError | PyConnectionError | PyAssertionError
  | AdapterError | Retryable | RateLimited | UpstreamTimeout | DependencyUnavailable
  | PermanentFailure | InvalidInput | PermissionDenied
  | UnknownTaskType | CancelledByRequest
  | Subclass string exc_class "failure_class option"

fun mro :: "exc_class \<Rightarrow> exc_class list" where
  "mro PyException = [PyException]"
| "mro PyKeyError = [PyKeyError, PyLookupError, PyException]"
| "mro PyTimeoutError = [PyTimeoutError, PyOSError, PyException]"
| "mro PyConnectionError = [PyConnectionError, PyOSError, PyException]"
| "mro PyTypeError = [PyTypeError, PyException]"
| "mro PyValueError = [PyValueError, PyException]"
| "mro PyLookupError = [PyLookupError, PyException]"
| "mro PyOSError = [PyOSError, PyException]"
| "mro PyAssertionError = [PyAssertionError, PyException]"
| "mro AdapterError = [AdapterError, PyException]"
| "mro Retryable = [Retryable, AdapterError, PyException]"
| "mro RateLimited = [RateLimited, AdapterError, PyException]"
| "mro UpstreamTimeout = [UpstreamTimeout, AdapterError, PyException]"
| "mro DependencyUnavailable = [DependencyUnavailable, AdapterError, PyException]"
| "mro PermanentFailure = [PermanentFailure, AdapterError, PyException]"
| "mro InvalidInput = [InvalidInput, AdapterError, PyException]"
| "mro PermissionDenied = [PermissionDenied, AdapterError, PyException]"
| "mro UnknownTaskType = [UnknownTaskType, PyException]"
| "mro CancelledByRequest = [CancelledByRequest, PyException]"
| "mro (Subclass n c fc) = Subclass n c fc # mro c"

definition isinstance :: "exc_class \<Rightarrow> exc_class \<Rightarrow> bool" where
  "isinstance c base = (base \<in> set (mro c))"

text \<open>The class attribute \<open>failure_class\<close>, looked up along the inheritance chain.\<close>

fun failure_class_attr :: "exc_class \<Rightarrow> failure_class" where
  "failure_class_attr Retryable = TRANSIENT"
| "failure_class_attr RateLimited = RATE_LIMITED"
| "failure_class_attr UpstreamTimeout = TIMEOUT"
| "failure_class_attr DependencyUnavailable = DEPENDENCY_UNAVAILABLE"
| "failure_class_attr PermanentFailure = PERMANENT"
| "failure_class_attr InvalidInput = USER_ERROR"
| "failure_class_attr PermissionDenied = PERMISSION_DENIED"
| "failure_class_attr (Subclass n c fc) = (case fc of Some f \<Rightarrow> f | None \<Rightarrow> failure_class_attr c)"
| "failure_class_attr _ = UNKNOWN"

fun class_name :: "exc_class \<Rightarrow> string" where
  "class_name PyException = ''Exception''"
| "class_name PyTypeError = ''TypeError''"
| "class_name PyValueError = ''ValueError''"
| "class_name PyLookupError = ''LookupError''"
| "class_name PyKeyError = ''KeyError''"
| "class_name PyOSError = ''OSError''"
| "class_name PyTimeoutError = ''TimeoutError''"
| "class_name PyConnectionError = ''ConnectionError''"
| "class_name PyAssertionError = ''AssertionError''"
| "class_name AdapterError = ''AdapterError''"
| "class_name Retryable = ''Retryable''"
| "class_name RateLimited = ''RateLimited''"
| "class_name UpstreamTimeout = ''UpstreamTimeout''"
| "class_name DependencyUnavailable = ''DependencyUnavailable''"
| "class_name PermanentFailure = ''PermanentFailure''"
| "class_name InvalidInput = ''InvalidInput''"
| "class_name PermissionDenied = ''PermissionDenied''"
| "class_name UnknownTaskType = ''UnknownTaskType''"
| "class_name CancelledByRequest = ''CancelledByRequest''"
| "class_name (Subclass n c fc) = n"

text \<open>What \<open>getattr(exc, 'retry_after_s', None)\<close> can find on an exception object.\<close>

datatype attr_value = AttrNone | AttrNum rat | AttrOther

record exc =
  exc_cls :: exc_class
  exc_msg :: string
  exc_retry_after :: attr_value

definition adapter_error :: "exc_class \<Rightarrow> string \<Rightarrow> attr_value \<Rightarrow> exc" where
  "adapter_error c msg ra = \<lparr>exc_cls = c, exc_msg = msg, exc_retry_after = ra\<rparr>"

definition classify :: "exc \<Rightarrow> failure_class" where
  "classify e =
     (if isinstance (exc_cls e) AdapterError then failure_class_attr (exc_cls e)
      else if isinstance (exc_cls e) PyTimeoutError then TIMEOUT
      else if isinstance (exc_cls e) PyConnectionError then DEPENDENCY_UNAVAILABLE
      else if isinstance (exc_cls e) PyTypeError \<or> isinstance (exc_cls e) PyValueError
              \<or> isinstance (exc_cls e) PyKeyError then USER_ERROR
      else if isinstance (exc_cls e) PyOSError then DEPENDENCY_UNAVAILABLE
      else UNKNOWN)"

definition retry_after_of :: "exc \<Rightarrow> rat option" where
  "retry_after_of e = (case exc_retry_after e of
     AttrNum x \<Rightarrow> (if x \<ge> 0 then Some x else None) | _ \<Rightarrow> None)"

lemma failure_value_inj: "failure_value a = failure_value b \<Longrightarrow> a = b"
  by (cases a; cases b; simp)

lemma all_failure_classes: "c \<in> set ALL_FAILURE_CLASSES"
  by (cases c) (simp_all add: ALL_FAILURE_CLASSES_def)

lemma terminal_classes_iff:
  "c \<in> set TERMINAL_CLASSES \<longleftrightarrow> c = PERMANENT \<or> c = USER_ERROR \<or> c = PERMISSION_DENIED"
  by (auto simp: TERMINAL_CLASSES_def)

lemma isinstance_subclass: "isinstance c base \<Longrightarrow> isinstance (Subclass n c fc) base"
  by (simp add: isinstance_def)

lemma retry_after_of_nonneg: "retry_after_of e = Some x \<Longrightarrow> 0 \<le> x"
  by (auto simp: retry_after_of_def split: attr_value.splits if_splits)

text \<open>
  Subclassing never changes the class an exception is given, unless an adapter error overrides
  \<open>failure_class\<close>: \<open>classify\<close> sees only the inheritance chain.
\<close>

lemma isinstance_Subclass_builtin:
  "(\<And>n c fc. base \<noteq> Subclass n c fc) \<Longrightarrow> isinstance (Subclass n c fc) base = isinstance c base"
  by (auto simp: isinstance_def)

text \<open>
  An exception raised as a subclass of another is classified as its parent is, whatever its
  name; and an adapter error with its own \<open>failure_class\<close> is classified by that, so the worker
  never overrides what the adapter stated.
\<close>

theorem classify_subclass:
  "classify (e\<lparr>exc_cls := Subclass n c None\<rparr>) = classify (e\<lparr>exc_cls := c\<rparr>)
   \<and> (isinstance c AdapterError \<longrightarrow> classify (e\<lparr>exc_cls := Subclass n c (Some f)\<rparr>) = f)"
  by (simp add: classify_def isinstance_Subclass_builtin)

end
