(* ===== verification/Tracing.thy ===== *)
theory Tracing
  imports Failures
begin

text \<open>
  \<open>obs/tracing.py\<close>: the process-wide tracer, the carrier that takes a span's identity across the
  queue, the link rebuilt from it, and the attributes of a span. OpenTelemetry itself is outside:
  which pairs of ids form a valid context is the parameter \<open>valid\<close>, and a span is what the code
  hands to the tracer. \<open>format(n, '032x')\<close> and \<open>int(s, 16)\<close> are Python's.
\<close>

section \<open>Hexadecimal text\<close>

text \<open>\<open>format(n, '0wx')\<close>: at least \<open>w\<close> characters, the sign among them.\<close>

fun hex_len :: "nat \<Rightarrow> nat" where
  "hex_len n = (if n < 16 then 1 else Suc (hex_len (n div 16)))"

declare hex_len.simps [simp del]

definition format_hex :: "nat \<Rightarrow> int \<Rightarrow> string" where
  "format_hex w n =
     (if n < 0 then CHR ''-'' # hex_pad (max (w - 1) (hex_len (nat (- n)))) (- n)
      else hex_pad (max w (hex_len (nat n))) n)"

definition hex_value :: "char \<Rightarrow> int option" where
  "hex_value c = (let n = (of_char c :: nat) in
     if 48 \<le> n \<and> n \<le> 57 then Some (int n - 48)
     else if 97 \<le> n \<and> n \<le> 102 then Some (int n - 87)
     else if 65 \<le> n \<and> n \<le> 70 then Some (int n - 55)
     else None)"

text \<open>
  \<open>int(s, 16)\<close>: blanks around, a sign, an optional \<open>0x\<close>, and digits with single underscores
  between them. \<open>None\<close> is \<open>ValueError\<close>. Not every blank of \<open>str.strip\<close> is one here.
\<close>

definition is_int_space :: "char \<Rightarrow> bool" where
  "is_int_space c = (let n = (of_char c :: nat) in n = 32 \<or> (9 \<le> n \<and> n \<le> 13) \<or> n = 133 \<or> n = 160)"

fun scan_hex :: "int \<Rightarrow> string \<Rightarrow> int option" where
  "scan_hex acc [] = Some acc"
| "scan_hex acc [c] = map_option (\<lambda>v. acc * 16 + v) (hex_value c)"
| "scan_hex acc (c # c' # cs) =
     (if c = CHR ''_''
      then (case hex_value c' of None \<Rightarrow> None | Some v \<Rightarrow> scan_hex (acc * 16 + v) cs)
      else (case hex_value c of None \<Rightarrow> None | Some v \<Rightarrow> scan_hex (acc * 16 + v) (c' # cs)))"

definition hex_body :: "string \<Rightarrow> int option" where
  "hex_body s = (case s of [] \<Rightarrow> None
     | c # cs \<Rightarrow> (case hex_value c of None \<Rightarrow> None | Some v \<Rightarrow> scan_hex v cs))"

fun drop_0x :: "string \<Rightarrow> string" where
  "drop_0x (c # x # cs) =
     (if c = CHR ''0'' \<and> (x = CHR ''x'' \<or> x = CHR ''X'')
      then (case cs of [] \<Rightarrow> [] | u # us \<Rightarrow> if u = CHR ''_'' then us else cs)
      else c # x # cs)"
| "drop_0x s = s"

fun signed_hex :: "string \<Rightarrow> int option" where
  "signed_hex [] = None"
| "signed_hex (c # cs) =
     (if c = CHR ''-'' then map_option uminus (hex_body (drop_0x cs))
      else if c = CHR ''+'' then hex_body (drop_0x cs)
      else hex_body (drop_0x (c # cs)))"

definition py_int16 :: "string \<Rightarrow> int option" where
  "py_int16 s = signed_hex (rev (dropWhile is_int_space (rev (dropWhile is_int_space s))))"

section \<open>The tracer\<close>

datatype span_processor = Batch_OTLP string | Batch_console

record tracer =
  tr_service :: string
  tr_processors :: "span_processor list"

text \<open>\<open>_TRACER\<close> is the argument and the result.\<close>

definition configure_tracing :: "string \<Rightarrow> string option \<Rightarrow> bool \<Rightarrow> tracer option \<Rightarrow> tracer option" where
  "configure_tracing service otlp console g =
     (case g of Some t \<Rightarrow> Some t
      | None \<Rightarrow> Some \<lparr>tr_service = service,
          tr_processors = (case otlp of None \<Rightarrow> [] | Some e \<Rightarrow> if e = [] then [] else [Batch_OTLP e])
            @ (if console then [Batch_console] else [])\<rparr>)"

definition current_tracer :: "tracer option \<Rightarrow> tracer \<times> tracer option" where
  "current_tracer g = (let g1 = (case g of None \<Rightarrow> configure_tracing ''acp'' None False g | Some t \<Rightarrow> Some t)
     in (the g1, g1))"

section \<open>Propagation across the queue\<close>

record span_context =
  sc_trace_id :: int
  sc_span_id :: int
  sc_remote :: bool
  sc_sampled :: bool

definition carrier_for_current_span :: "(int \<Rightarrow> int \<Rightarrow> bool) \<Rightarrow> span_context \<Rightarrow> dict option" where
  "carrier_for_current_span valid ctx =
     (if valid (sc_trace_id ctx) (sc_span_id ctx)
      then Some [(''trace_id'', JStr (format_hex 32 (sc_trace_id ctx))),
                 (''span_id'', JStr (format_hex 16 (sc_span_id ctx)))]
      else None)"

text \<open>\<open>not v\<close> and \<open>k in v\<close> on what a JSON column can hold: only containers answer the second.\<close>

fun falsy :: "json \<Rightarrow> bool" where
  "falsy JNull = True"
| "falsy (JBool b) = (\<not> b)"
| "falsy (JNum x) = (x = 0)"
| "falsy (JStr s) = (s = [])"
| "falsy (JArr xs) = (xs = [])"
| "falsy (JObj kvs) = (kvs = [])"

fun infix_of :: "string \<Rightarrow> string \<Rightarrow> bool" where
  "infix_of p [] = (p = [])"
| "infix_of p (c # cs) = (take (length p) (c # cs) = p \<or> infix_of p cs)"

definition py_error :: "exc_class \<Rightarrow> string \<Rightarrow> exc" where
  "py_error c msg = \<lparr>exc_cls = c, exc_msg = msg, exc_retry_after = AttrNone\<rparr>"

fun py_in :: "string \<Rightarrow> json \<Rightarrow> exc + bool" where
  "py_in k (JObj kvs) = Inr (k \<in> fst ` set kvs)"
| "py_in k (JStr s) = Inr (infix_of k s)"
| "py_in k (JArr xs) = Inr (list_ex (\<lambda>x. x = JStr k) xs)"
| "py_in k _ = Inl (py_error PyTypeError ''argument is not iterable'')"

text \<open>\<open>carrier[k]\<close>, and \<open>int(.., 16)\<close> of it: \<open>None\<close> is the \<open>ValueError\<close> or \<open>KeyError\<close> that is caught.\<close>

fun item :: "string \<Rightarrow> json \<Rightarrow> exc + json option" where
  "item k (JObj kvs) = Inr (map_of kvs k)"
| "item k _ = Inl (py_error PyTypeError ''indices must be integers'')"

fun int16_of :: "json option \<Rightarrow> exc + int option" where
  "int16_of None = Inr None"
| "int16_of (Some (JStr s)) = Inr (py_int16 s)"
| "int16_of (Some v) = Inl (py_error PyTypeError ''int() can't convert non-string with explicit base'')"

text \<open>The link contexts made of a carrier; the trace id is converted before the span id.\<close>

definition link_from_carrier :: "(int \<Rightarrow> int \<Rightarrow> bool) \<Rightarrow> json \<Rightarrow> exc + span_context list" where
  "link_from_carrier valid c =
     (if falsy c then Inr []
      else bindE (py_in ''trace_id'' c) (\<lambda>has_trace. if \<not> has_trace then Inr []
      else bindE (py_in ''span_id'' c) (\<lambda>has_span. if \<not> has_span then Inr []
      else bindE (bindE (item ''trace_id'' c) int16_of) (\<lambda>t. case t of None \<Rightarrow> Inr []
         | Some tid \<Rightarrow>
      bindE (bindE (item ''span_id'' c) int16_of) (\<lambda>s. case s of None \<Rightarrow> Inr []
         | Some sid \<Rightarrow>
      Inr (if valid tid sid
           then [\<lparr>sc_trace_id = tid, sc_span_id = sid, sc_remote = True, sc_sampled = True\<rparr>] else []))))))"

section \<open>Spans\<close>

datatype attribute = A_None | A_str string | A_int int | A_uuid uuid

fun py_str :: "attribute \<Rightarrow> string" where
  "py_str A_None = ''None''"
| "py_str (A_str s) = s"
| "py_str (A_int n) = py_str_int n"
| "py_str (A_uuid u) = uuid_str u"

record span =
  sp_name :: string
  sp_attributes :: "(string \<times> string) list"
  sp_links :: "span_context list"

text \<open>
  \<open>span(..)\<close> up to its \<open>yield\<close>. Building the link may raise, and then the body is never entered;
  an exception of the body passes through it unchanged.
\<close>

definition open_span ::
  "(int \<Rightarrow> int \<Rightarrow> bool) \<Rightarrow> string \<Rightarrow> (string \<times> attribute) list \<Rightarrow> json \<Rightarrow> exc + span" where
  "open_span valid name attrs carrier =
     bindE (link_from_carrier valid carrier) (\<lambda>links.
       Inr \<lparr>sp_name = name,
            sp_attributes = map (\<lambda>(k, v). (k, py_str v)) (filter (\<lambda>(k, v). v \<noteq> A_None) attrs),
            sp_links = links\<rparr>)"

definition task_attributes :: "uuid \<Rightarrow> uuid option \<Rightarrow> string option \<Rightarrow> (string \<times> attribute) list" where
  "task_attributes i tenant ty =
     [(''acp.task_id'', A_str (uuid_str i))]
     @ (case tenant of None \<Rightarrow> [] | Some t \<Rightarrow> [(''acp.tenant_id'', A_str (uuid_str t))])
     @ (case ty of None \<Rightarrow> [] | Some s \<Rightarrow> [(''acp.task_type'', A_str s)])"

section \<open>Reading back what was formatted\<close>

lemma hex_digit_facts:
  assumes "n < 16"
  shows "hex_value (hex_digit n) = Some (int n)" "\<not> is_int_space (hex_digit n)"
    "hex_digit n \<notin> {CHR ''_'', CHR ''-'', CHR ''+'', CHR ''x'', CHR ''X''}"
proof -
  show v: "hex_value (hex_digit n) = Some (int n)"
    using assms by (simp add: hex_value_def hex_digit_def Let_def of_char_of)
  show "\<not> is_int_space (hex_digit n)"
    using assms by (auto simp: is_int_space_def hex_digit_def Let_def of_char_of)
  have "hex_value c = None" if "c \<in> {CHR ''_'', CHR ''-'', CHR ''+'', CHR ''x'', CHR ''X''}" for c
    using that by (auto simp: hex_value_def)
  then show "hex_digit n \<notin> {CHR ''_'', CHR ''-'', CHR ''+'', CHR ''x'', CHR ''X''}" using v by force
qed

lemma nat_mod_16 [simp]: "nat (k mod 16) < 16" "int (nat (k mod 16)) = k mod 16" for k :: int
  by (simp_all add: nat_less_iff)

lemma hex_pad_Suc: "hex_pad (Suc w) n = hex_digit (nat ((n div 16 ^ w) mod 16)) # hex_pad w n"
  by (simp add: hex_pad_def)

lemma hex_pad_0 [simp]: "hex_pad 0 n = []"
  by (simp add: hex_pad_def)

lemma length_hex_pad [simp]: "length (hex_pad w n) = w"
  by (simp add: hex_pad_def)

lemma hex_pad_chars: "c \<in> set (hex_pad w n) \<Longrightarrow> \<exists>k < 16. c = hex_digit k"
  using nat_mod_16(1) by (auto simp: hex_pad_def simp del: nat_mod_16)

lemma scan_hex_digit:
  assumes "k < 16"
  shows "scan_hex acc (hex_digit k # cs) = scan_hex (acc * 16 + int k) cs"
  using hex_digit_facts [OF assms] by (cases cs) simp_all

lemma scan_hex_pad: "scan_hex acc (hex_pad w n) = Some (acc * 16 ^ w + n mod 16 ^ w)"
proof (induction w arbitrary: acc)
  case 0
  then show ?case by simp
next
  case (Suc w)
  have "n mod 16 ^ Suc w = 16 ^ w * ((n div 16 ^ w) mod 16) + n mod 16 ^ w"
    using zmod_zmult2_eq [of 16 n "16 ^ w"] by (simp add: mult.commute)
  then show ?case
    using Suc [of "acc * 16 + (n div 16 ^ w) mod 16"]
    by (simp add: hex_pad_Suc scan_hex_digit algebra_simps)
qed

lemma hex_body_pad:
  assumes "0 < w" "0 \<le> n" "n < 16 ^ w"
  shows "hex_body (hex_pad w n) = Some n"
proof -
  obtain v where w: "w = Suc v" using assms(1) by (cases w) auto
  have "scan_hex 0 (hex_pad w n) = Some n"
    using scan_hex_pad [of 0 w n] assms by simp
  moreover have "scan_hex 0 (hex_pad w n) = scan_hex ((n div 16 ^ v) mod 16) (hex_pad v n)"
    by (simp add: w hex_pad_Suc scan_hex_digit)
  ultimately show ?thesis
    by (simp add: w hex_body_def hex_pad_Suc hex_digit_facts)
qed

lemma drop_0x_keep: "x \<noteq> CHR ''x'' \<Longrightarrow> x \<noteq> CHR ''X'' \<Longrightarrow> drop_0x (c # x # cs) = c # x # cs"
  by simp

lemma drop_0x_pad: "drop_0x (hex_pad w n) = hex_pad w n"
proof (cases "hex_pad w n" rule: drop_0x.cases)
  case (1 c x cs)
  then have "x \<in> set (hex_pad w n)" by simp
  then have "x \<noteq> CHR ''x''" "x \<noteq> CHR ''X''" using hex_digit_facts(3) by (auto dest!: hex_pad_chars)
  then show ?thesis unfolding 1 by (rule drop_0x_keep)
qed simp_all

lemma no_blank_strip:
  assumes "\<And>c. c \<in> set s \<Longrightarrow> \<not> is_int_space c"
  shows "rev (dropWhile is_int_space (rev (dropWhile is_int_space s))) = s"
proof -
  have keep: "dropWhile is_int_space xs = xs" if "set xs = set s" for xs
    using assms that by (cases xs) auto
  show ?thesis using keep [of s] keep [of "rev s"] by simp
qed

lemma hex_len_bound: "n < 16 ^ hex_len n" "0 < hex_len n"
proof (induction n rule: hex_len.induct)
  case (1 n)
  { case 1
    then show ?case
      using "1.IH"(1) by (subst hex_len.simps) (auto simp: div_less_iff_less_mult mult.commute)
  next
    case 2
    then show ?case by (subst hex_len.simps) simp }
qed

text \<open>\<open>int(format(n, '0wx'), 16) == n\<close>, whatever the width and the sign.\<close>

lemma int16_format: "py_int16 (format_hex w n) = Some n"
proof -
  have blank: "\<not> is_int_space c" if "c \<in> set (format_hex w n)" for c
  proof (cases "c = CHR ''-''")
    case True
    then show ?thesis by (simp add: is_int_space_def)
  next
    case False
    then show ?thesis using that hex_digit_facts(2) by (auto simp: format_hex_def dest!: hex_pad_chars split: if_splits)
  qed
  have body: "hex_body (drop_0x (hex_pad (max v (hex_len (nat m))) m)) = Some m" if "0 \<le> m" for v m
  proof -
    have "m < 16 ^ hex_len (nat m)"
      using hex_len_bound(1) [of "nat m"] that by (metis nat_less_iff of_nat_numeral of_nat_power)
    also have "(16 :: int) ^ hex_len (nat m) \<le> 16 ^ max v (hex_len (nat m))" by (simp add: power_increasing)
    finally show ?thesis
      using that hex_len_bound(2) [of "nat m"] by (simp add: drop_0x_pad hex_body_pad)
  qed
  have "py_int16 (format_hex w n) = signed_hex (format_hex w n)"
    by (simp add: py_int16_def no_blank_strip [OF blank])
  also have "\<dots> = Some n"
  proof (cases "n < 0")
    case True
    then show ?thesis using body [of "-n" "w - 1"] by (simp add: format_hex_def)
  next
    case False
    obtain c cs where c: "hex_pad (max w (hex_len (nat n))) n = c # cs"
      using hex_len_bound(2) [of "nat n"] by (metis length_greater_0_conv length_hex_pad less_max_iff_disj neq_Nil_conv)
    then have "c \<in> set (hex_pad (max w (hex_len (nat n))) n)" by simp
    then have "c \<noteq> CHR ''-'' \<and> c \<noteq> CHR ''+''" using hex_digit_facts(3) by (auto dest!: hex_pad_chars)
    then show ?thesis using False c body [of n w] by (simp add: format_hex_def)
  qed
  finally show ?thesis .
qed

section \<open>The carrier and its link\<close>

text \<open>A valid context's carrier is there, is not empty, and gives the context back.\<close>

definition remote_context :: "span_context \<Rightarrow> span_context" where
  "remote_context ctx = \<lparr>sc_trace_id = sc_trace_id ctx, sc_span_id = sc_span_id ctx, sc_remote = True, sc_sampled = True\<rparr>"

lemma carrier_link:
  assumes "carrier_for_current_span valid ctx = Some c"
  shows "c \<noteq> []" "link_from_carrier valid (JObj c) = Inr [remote_context ctx]"
  using assms
  by (auto simp: carrier_for_current_span_def link_from_carrier_def int16_format remote_context_def split: if_splits)

text \<open>What makes the rebuilding of a link raise: a \<open>_trace\<close> that is not a container, a list or string
  that mentions both keys, or an object whose ids are not both strings, up to the first bad one.\<close>

definition carrier_raises :: "json \<Rightarrow> bool" where
  "carrier_raises c = (case c of
      JBool b \<Rightarrow> b
    | JNum x \<Rightarrow> x \<noteq> 0
    | JStr s \<Rightarrow> infix_of ''trace_id'' s \<and> infix_of ''span_id'' s
    | JArr xs \<Rightarrow> JStr ''trace_id'' \<in> set xs \<and> JStr ''span_id'' \<in> set xs
    | JObj kvs \<Rightarrow> (case (map_of kvs ''trace_id'', map_of kvs ''span_id'') of
          (Some (JStr t), Some (JStr s)) \<Rightarrow> False
        | (Some (JStr t), Some v) \<Rightarrow> py_int16 t \<noteq> None
        | (Some v, Some w) \<Rightarrow> True
        | _ \<Rightarrow> False)
    | JNull \<Rightarrow> False)"

lemma int16_of_type_error: "int16_of v = Inl e \<Longrightarrow> exc_cls e = PyTypeError"
  by (cases v rule: int16_of.cases) (auto simp: py_error_def)

lemma link_raises_iff: "(\<exists>e. link_from_carrier valid c = Inl e) \<longleftrightarrow> carrier_raises c"
proof (cases c)
  case (JObj kvs)
  define t where "t = map_of kvs ''trace_id''"
  define s where "s = map_of kvs ''span_id''"
  have k: "''trace_id'' \<in> fst ` set kvs \<longleftrightarrow> t \<noteq> None" "''span_id'' \<in> fst ` set kvs \<longleftrightarrow> s \<noteq> None"
    by (simp_all add: t_def s_def map_of_eq_None_iff)
  have empty: "t = None" if "kvs = []" using that by (simp add: t_def)
  show ?thesis
  proof (cases t)
    case None
    then show ?thesis using k by (auto simp: JObj link_from_carrier_def carrier_raises_def t_def)
  next
    case t: (Some v)
    then have ne: "kvs \<noteq> []" using empty by auto
    show ?thesis
    proof (cases s)
      case None
      then show ?thesis using k t
        by (auto simp: JObj link_from_carrier_def carrier_raises_def t_def s_def split: json.splits)
    next
      case s: (Some w)
      have m: "map_of kvs ''trace_id'' = Some v" "map_of kvs ''span_id'' = Some w"
        using t s by (simp_all add: t_def s_def)
      show ?thesis
        using k ne t s m
        by (cases v; cases w) (auto simp: JObj link_from_carrier_def carrier_raises_def split: option.splits)
    qed
  qed
qed (auto simp: link_from_carrier_def carrier_raises_def list_ex_iff)

lemma link_type_error: "link_from_carrier valid c = Inl e \<Longrightarrow> exc_cls e = PyTypeError"
proof -
  have "exc_cls x = PyTypeError" if "py_in k c = Inl x \<or> item k c = Inl x" for k x
    using that by (cases c) (auto simp: py_error_def)
  then show "link_from_carrier valid c = Inl e \<Longrightarrow> exc_cls e = PyTypeError"
    by (auto simp: link_from_carrier_def bindE_Inl_iff dest: int16_of_type_error split: if_splits option.splits)
qed

lemma no_carrier [simp]: "link_from_carrier valid JNull = Inr []"
  by (simp add: link_from_carrier_def)

section \<open>The tracer is configured once\<close>

lemma configure_once:
  "configure_tracing service' otlp' console' (configure_tracing service otlp console g) = configure_tracing service otlp console g"
  "snd (current_tracer g) = Some (fst (current_tracer g))"
  "g = Some t \<Longrightarrow> current_tracer g = (t, g)"
  by (auto simp: configure_tracing_def current_tracer_def split: option.splits)

end
