(* ===== verification/Calendar.thy ===== *)
theory Calendar
  imports Prelude
begin

text \<open>
  Timestamps as text: \<open>datetime.isoformat()\<close> and \<open>datetime.fromisoformat()\<close> on the form that
  \<open>isoformat\<close> writes for a \<open>timestamptz\<close> read in UTC, over the proleptic Gregorian calendar. Texts of a fixed
  layout (digits of a given width between fixed characters) are printed and parsed by their layout.
\<close>

section \<open>Fixed layouts\<close>

definition dec_digit :: "int \<Rightarrow> char" where
  "dec_digit n = char_of (48 + nat (n mod 10))"

definition dec_value :: "char \<Rightarrow> int option" where
  "dec_value c = (let n = (of_char c :: nat) in if 48 \<le> n \<and> n \<le> 57 then Some (int n - 48) else None)"

fun dec_pad :: "nat \<Rightarrow> int \<Rightarrow> string" where
  "dec_pad 0 n = []"
| "dec_pad (Suc w) n = dec_digit (n div 10 ^ w) # dec_pad w n"

fun dec_read :: "int \<Rightarrow> string \<Rightarrow> int option" where
  "dec_read acc [] = Some acc"
| "dec_read acc (c # cs) = (case dec_value c of None \<Rightarrow> None | Some v \<Rightarrow> dec_read (acc * 10 + v) cs)"

datatype field = Digits nat | Sep char

fun print_fields :: "field list \<Rightarrow> int list \<Rightarrow> string" where
  "print_fields [] ns = []"
| "print_fields (Sep c # fs) ns = c # print_fields fs ns"
| "print_fields (Digits w # fs) [] = []"
| "print_fields (Digits w # fs) (n # ns) = dec_pad w n @ print_fields fs ns"

fun parse_fields :: "field list \<Rightarrow> string \<Rightarrow> int list option" where
  "parse_fields [] s = (if s = [] then Some [] else None)"
| "parse_fields (Sep c # fs) s = (case s of [] \<Rightarrow> None | x # xs \<Rightarrow> if x = c then parse_fields fs xs else None)"
| "parse_fields (Digits w # fs) s =
     (if length s < w then None
      else case dec_read 0 (take w s) of None \<Rightarrow> None | Some n \<Rightarrow> map_option ((#) n) (parse_fields fs (drop w s)))"

fun fields_fit :: "field list \<Rightarrow> int list \<Rightarrow> bool" where
  "fields_fit [] ns = (ns = [])"
| "fields_fit (Sep c # fs) ns = fields_fit fs ns"
| "fields_fit (Digits w # fs) [] = False"
| "fields_fit (Digits w # fs) (n # ns) = (0 \<le> n \<and> n < 10 ^ w \<and> fields_fit fs ns)"

fun layout_width :: "field list \<Rightarrow> nat" where
  "layout_width [] = 0"
| "layout_width (Sep c # fs) = Suc (layout_width fs)"
| "layout_width (Digits w # fs) = w + layout_width fs"

lemma length_dec_pad [simp]: "length (dec_pad w n) = w"
  by (induction w) simp_all

lemma dec_value_digit [simp]: "dec_value (dec_digit n) = Some (n mod 10)"
proof -
  have "nat (n mod 10) \<le> 9" by (simp add: nat_le_iff)
  then show ?thesis by (simp add: dec_value_def dec_digit_def Let_def of_char_of)
qed

lemma dec_read_pad: "dec_read acc (dec_pad w n) = Some (acc * 10 ^ w + n mod 10 ^ w)"
proof (induction w arbitrary: acc)
  case (Suc w)
  have "n mod 10 ^ Suc w = 10 ^ w * ((n div 10 ^ w) mod 10) + n mod 10 ^ w"
    using zmod_zmult2_eq [of 10 n "10 ^ w"] by (simp add: mult.commute)
  then show ?case using Suc [of "acc * 10 + (n div 10 ^ w) mod 10"] by (simp add: algebra_simps)
qed simp

lemma fields_read_back: "fields_fit fs ns \<Longrightarrow> parse_fields fs (print_fields fs ns) = Some ns"
  by (induction fs ns rule: fields_fit.induct) (simp_all add: dec_read_pad)

lemma parse_width: "parse_fields fs s = Some ns \<Longrightarrow> length s = layout_width fs"
proof (induction fs s arbitrary: ns rule: parse_fields.induct)
  case (3 w fs s)
  then obtain n ms where "\<not> length s < w" "dec_read 0 (take w s) = Some n" "parse_fields fs (drop w s) = Some ms"
    by (auto split: if_splits option.splits)
  then show ?case using "3.IH" [of n ms] by simp
qed (auto split: if_splits list.splits)

lemma print_width: "fields_fit fs ns \<Longrightarrow> length (print_fields fs ns) = layout_width fs"
  by (rule parse_width [OF fields_read_back])

section \<open>Days\<close>

definition leap_year :: "int \<Rightarrow> bool" where
  "leap_year y \<longleftrightarrow> y mod 4 = 0 \<and> (y mod 100 \<noteq> 0 \<or> y mod 400 = 0)"

text \<open>The day of the year on which each month begins, from 0; the last entry is the year's length.\<close>

definition month_starts :: "bool \<Rightarrow> int list" where
  "month_starts leap = (let l = (if leap then 1 else 0) in
     [0, 31, 59 + l, 90 + l, 120 + l, 151 + l, 181 + l, 212 + l, 243 + l, 273 + l, 304 + l, 334 + l, 365 + l])"

definition days_before_year :: "int \<Rightarrow> int" where
  "days_before_year y = (let x = y - 1 in x * 365 + x div 4 - x div 100 + x div 400)"

definition date_valid :: "int \<Rightarrow> int \<Rightarrow> int \<Rightarrow> bool" where
  "date_valid y m d \<longleftrightarrow> 1 \<le> y \<and> 1 \<le> m \<and> m \<le> 12 \<and> 1 \<le> d
     \<and> month_starts (leap_year y) ! nat (m - 1) + d \<le> month_starts (leap_year y) ! nat m"

text \<open>The ordinal of a date: 1 January of the year 1 is day 1.\<close>

definition date_ordinal :: "int \<Rightarrow> int \<Rightarrow> int \<Rightarrow> int" where
  "date_ordinal y m d = days_before_year y + month_starts (leap_year y) ! nat (m - 1) + d"

definition year_of :: "int \<Rightarrow> int \<times> int" where
  "year_of day =
     (let i = day - 1; a = i div 146097; r = i mod 146097;
          b = min 3 (r div 36524); r1 = r - b * 36524;
          c = r1 div 1461; r2 = r1 mod 1461;
          e = min 3 (r2 div 365)
      in (400 * a + 100 * b + 4 * c + e + 1, r2 - e * 365))"

definition month_of :: "bool \<Rightarrow> int \<Rightarrow> int" where
  "month_of leap k = int (length (filter (\<lambda>x. x \<le> k) (month_starts leap)))"

definition ordinal_date :: "int \<Rightarrow> int \<times> int \<times> int" where
  "ordinal_date day =
     (let (y, k) = year_of day; m = month_of (leap_year y) k
      in (y, m, k - month_starts (leap_year y) ! nat (m - 1) + 1))"

lemma year_of_day:
  assumes "year_of day = (y, k)"
  shows "days_before_year y + k + 1 = day" "0 \<le> k" "k < 365 + (if leap_year y then 1 else 0)"
    "1 \<le> day \<Longrightarrow> 1 \<le> y"
proof -
  define i where "i = day - 1"
  define a where "a = i div 146097"
  define r where "r = i mod 146097"
  define b where "b = min 3 (r div 36524)"
  define r1 where "r1 = r - b * 36524"
  define c where "c = r1 div 1461"
  define r2 where "r2 = r1 mod 1461"
  define e where "e = min 3 (r2 div 365)"
  have y: "y = 400 * a + 100 * b + 4 * c + e + 1" and k: "k = r2 - e * 365"
    using assms unfolding year_of_def Let_def i_def [symmetric] a_def [symmetric] r_def [symmetric] b_def [symmetric]
      r1_def [symmetric] c_def [symmetric] r2_def [symmetric] e_def [symmetric] by blast+
  have i: "i = 146097 * a + r" "0 \<le> r" "r < 146097" by (simp_all add: a_def r_def)
  have b: "0 \<le> b" "b \<le> 3" "0 \<le> r1" "r1 \<le> 36524" "r1 = 36524 \<longrightarrow> b = 3"
    using i(2,3) unfolding r1_def b_def by (auto simp: min_def)
  have c: "r1 = 1461 * c + r2" "0 \<le> r2" "r2 < 1461" "0 \<le> c" by (simp_all add: c_def r2_def b(3) pos_imp_zdiv_nonneg_iff)
  have c24: "c \<le> 24" using c b(4) by linarith
  have e: "0 \<le> e" "e \<le> 3" "0 \<le> k" "k \<le> 365" "k = 365 \<longrightarrow> e = 3"
    using c(2,3) unfolding k e_def by (auto simp: min_def)
  have x: "(y - 1) div 4 = 100 * a + 25 * b + c" "(y - 1) div 100 = 4 * a + b" "(y - 1) div 400 = a"
    using b(1,2) c(4) c24 e(1,2) by (simp_all add: y)
  show "days_before_year y + k + 1 = day"
    using i(1) c(1) unfolding days_before_year_def Let_def x unfolding y k by (simp add: r1_def i_def)
  show "0 \<le> k" by (rule e(3))
  show "1 \<le> y" if "1 \<le> day"
  proof -
    have "0 \<le> a" using that by (simp add: a_def i_def pos_imp_zdiv_nonneg_iff)
    then show ?thesis using b(1) c(4) e(1) by (simp add: y)
  qed
  have "leap_year y" if "k = 365"
  proof -
    have 3: "e = 3" using that e(5) by simp
    then have r2: "r2 = 1460" using that k by simp
    have m: "y mod 4 = 0" using 3 by (simp add: y)
    show ?thesis
    proof (cases "c = 24")
      case True
      then have "b = 3" using c(1) r2 b(5) by simp
      then show ?thesis using m 3 True by (simp add: leap_year_def y)
    next
      case False
      then have "0 \<le> 4 * c + 4" "4 * c + 4 < 100" using c24 c(4) by simp_all
      moreover have "y = 4 * c + 4 + 100 * (4 * a + b)" using 3 by (simp add: y)
      ultimately have "y mod 100 = 4 * c + 4" by (metis mod_mult_self2 mod_pos_pos_trivial)
      then show ?thesis using m c(4) by (simp add: leap_year_def)
    qed
  qed
  then show "k < 365 + (if leap_year y then 1 else 0)" using e(4) by (cases "k = 365") auto
qed

lemma rank_in_sorted:
  fixes xs :: "int list"
  assumes "sorted xs"
  shows "i < length (filter (\<lambda>x. x \<le> k) xs) \<Longrightarrow> xs ! i \<le> k"
    "length (filter (\<lambda>x. x \<le> k) xs) \<le> i \<Longrightarrow> i < length xs \<Longrightarrow> k < xs ! i"
  using assms
proof (induction xs arbitrary: i)
  case (Cons x xs)
  { case 1 then show ?case using Cons.IH(1) by (cases i) (auto split: if_splits simp: filter_empty_conv) }
  { case 2
    show ?case
    proof (cases "x \<le> k")
      case True
      then show ?thesis using 2 Cons.IH(2) by (cases i) auto
    next
      case False
      then have "\<forall>y \<in> set (x # xs). k < y" using 2(3) by auto
      then show ?thesis using 2(2) nth_mem by blast
    qed }
qed simp_all

lemma month_starts_simps:
  "sorted (month_starts leap)" "length (month_starts leap) = 13" "month_starts leap ! 0 = 0"
  "month_starts leap ! 12 = 365 + (if leap then 1 else 0)"
  by (simp_all add: month_starts_def)

lemma month_of_day:
  assumes "0 \<le> k" "k < 365 + (if leap then 1 else 0)"
  shows "1 \<le> month_of leap k" "month_of leap k \<le> 12"
    "month_starts leap ! nat (month_of leap k - 1) \<le> k" "k < month_starts leap ! nat (month_of leap k)"
proof -
  define n where "n = length (filter (\<lambda>x. x \<le> k) (month_starts leap))"
  have m: "month_of leap k = int n" by (simp add: month_of_def n_def)
  note rank = rank_in_sorted [OF month_starts_simps(1) [of leap], where k = k, folded n_def]
  have "1 \<le> n" using rank(2) [of 0] assms(1) month_starts_simps [of leap] by (cases n) auto
  moreover have "n \<le> 12" using rank(1) [of 12] assms(2) month_starts_simps [of leap] by (cases "12 < n") auto
  ultimately show "1 \<le> month_of leap k" "month_of leap k \<le> 12"
    "month_starts leap ! nat (month_of leap k - 1) \<le> k" "k < month_starts leap ! nat (month_of leap k)"
    using rank(1) [of "n - 1"] rank(2) [of n] month_starts_simps(2) [of leap]
    by (simp_all add: m nat_diff_distrib)
qed

lemma ordinal_date_inverse:
  assumes "ordinal_date day = (y, m, d)" "1 \<le> day"
  shows "date_ordinal y m d = day" "date_valid y m d"
proof -
  obtain k where k: "year_of day = (y, k)" "m = month_of (leap_year y) k"
    "d = k - month_starts (leap_year y) ! nat (m - 1) + 1"
    using assms(1) by (auto simp: ordinal_date_def Let_def split: prod.splits)
  note yk = year_of_day [OF k(1)]
  note mk = month_of_day [OF yk(2,3), folded k(2)]
  show "date_ordinal y m d = day" using yk(1) k(3) by (simp add: date_ordinal_def)
  have "1 \<le> y" by (rule yk(4) [OF assms(2)])
  then show "date_valid y m d" using mk k(3) by (simp add: date_valid_def)
qed

lemma year_bound:
  assumes "ordinal_date day = (y, m, d)" "1 \<le> day" "day \<le> 3652059"
  shows "y \<le> 9999"
proof (rule ccontr)
  assume "\<not> y \<le> 9999"
  define x where "x = y - 1"
  then have x: "9999 \<le> x" using \<open>\<not> y \<le> 9999\<close> by simp
  have "2499 \<le> x div 4" using zdiv_mono1 [OF x, of 4] by simp
  moreover have "24 \<le> x div 400" using zdiv_mono1 [OF x, of 400] by simp
  moreover have "x div 100 \<le> 99 + (x - 9999)" using x by linarith
  ultimately have "3652059 \<le> days_before_year y" unfolding days_before_year_def Let_def x_def [symmetric] using x by linarith
  moreover obtain k where "year_of day = (y, k)"
    using assms(1) by (auto simp: ordinal_date_def Let_def split: prod.splits)
  ultimately show False using year_of_day(1,2) [of day y k] assms(3) by simp
qed

section \<open>Timestamps\<close>

text \<open>\<open>YYYY-MM-DDTHH:MM:SS[.ffffff]+00:00\<close>; time is seconds since the beginning of 1970.\<close>

definition iso_layout :: "bool \<Rightarrow> field list" where
  "iso_layout fraction = [Digits 4, Sep CHR ''-'', Digits 2, Sep CHR ''-'', Digits 2, Sep CHR ''T'',
     Digits 2, Sep CHR '':'', Digits 2, Sep CHR '':'', Digits 2]
     @ (if fraction then [Sep CHR ''.'', Digits 6] else [])
     @ [Sep CHR ''+'', Sep CHR ''0'', Sep CHR ''0'', Sep CHR '':'', Sep CHR ''0'', Sep CHR ''0'']"

definition EPOCH_DAY :: int where "EPOCH_DAY = 719163"

definition microseconds :: "time \<Rightarrow> int" where
  "microseconds t = \<lfloor>t * 1000000\<rfloor>"

text \<open>What a \<open>timestamptz\<close> column hands to \<open>datetime\<close>: whole microseconds in the years 1 to 9999.\<close>

definition datetime_ok :: "time \<Rightarrow> bool" where
  "datetime_ok t \<longleftrightarrow> t * 1000000 = of_int (microseconds t)
     \<and> 1 \<le> microseconds t div 86400000000 + EPOCH_DAY \<and> microseconds t div 86400000000 + EPOCH_DAY \<le> 3652059"

definition iso_fields :: "time \<Rightarrow> int list" where
  "iso_fields t =
     (let us = microseconds t; (y, m, d) = ordinal_date (us div 86400000000 + EPOCH_DAY); r = us mod 86400000000;
          s = r div 1000000; f = r mod 1000000
      in [y, m, d, s div 3600, s div 60 mod 60, s mod 60] @ (if f = 0 then [] else [f]))"

definition isoformat :: "time \<Rightarrow> string" where
  "isoformat t = print_fields (iso_layout (microseconds t mod 1000000 \<noteq> 0)) (iso_fields t)"

fun stamp_of :: "int list \<Rightarrow> time option" where
  "stamp_of [y, m, d, h, mi, s, f] =
     (if date_valid y m d \<and> h < 24 \<and> mi < 60 \<and> s < 60
      then Some (of_int ((date_ordinal y m d - EPOCH_DAY) * 86400 + h * 3600 + mi * 60 + s) + of_int f / 1000000)
      else None)"
| "stamp_of _ = None"

text \<open>\<open>fromisoformat\<close> reads other forms of ISO 8601 too: those are the parameter, None a \<open>ValueError\<close>.\<close>

definition fromisoformat :: "(string \<Rightarrow> time option) \<Rightarrow> string \<Rightarrow> time option" where
  "fromisoformat other s =
     (case (case parse_fields (iso_layout False) s of Some ns \<Rightarrow> stamp_of (ns @ [0])
            | None \<Rightarrow> (case parse_fields (iso_layout True) s of Some ns \<Rightarrow> stamp_of ns | None \<Rightarrow> None)) of
        Some t \<Rightarrow> Some t | None \<Rightarrow> other s)"

lemma month_length:
  assumes "1 \<le> m" "m \<le> 12"
  shows "month_starts leap ! nat m \<le> month_starts leap ! nat (m - 1) + 31"
proof -
  have "m \<in> {1, 2, 3, 4, 5, 6, 7, 8, 9, 10, 11, 12}" using assms by (simp, presburger)
  then show ?thesis by (elim insertE) (simp_all add: month_starts_def)
qed

lemma microseconds_split:
  defines "D \<equiv> (\<lambda>t. microseconds t div 86400000000)" and "R \<equiv> (\<lambda>t. microseconds t mod 86400000000)"
  shows "microseconds t mod 1000000 = R t mod 1000000"
    "0 \<le> R t div 1000000" "R t div 1000000 < 86400"
    "microseconds t = (D t * 86400 + R t div 1000000) * 1000000 + R t mod 1000000"
proof -
  have r: "0 \<le> R t" "R t < 86400000000" "microseconds t = D t * 86400000000 + R t"
    by (simp_all add: R_def D_def)
  show "0 \<le> R t div 1000000" using r(1) by (simp add: pos_imp_zdiv_nonneg_iff)
  show "R t div 1000000 < 86400" using r(2) by linarith
  show "microseconds t = (D t * 86400 + R t div 1000000) * 1000000 + R t mod 1000000"
    using r(3) div_mult_mod_eq [of "R t" 1000000] by simp
  show "microseconds t mod 1000000 = R t mod 1000000"
    by (simp add: R_def mod_mod_cancel)
qed

lemma iso_fields_ok:
  assumes "datetime_ok t"
  shows "fields_fit (iso_layout (microseconds t mod 1000000 \<noteq> 0)) (iso_fields t)"
    "stamp_of (iso_fields t @ (if microseconds t mod 1000000 = 0 then [0] else [])) = Some t"
proof -
  let ?D = "microseconds t div 86400000000" and ?r = "microseconds t mod 86400000000"
  define s f where "s = ?r div 1000000" and "f = ?r mod 1000000"
  obtain y m d where o: "ordinal_date (?D + EPOCH_DAY) = (y, m, d)" by (metis prod_cases3)
  have ok: "t * 1000000 = of_int (microseconds t)" "1 \<le> ?D + EPOCH_DAY" "?D + EPOCH_DAY \<le> 3652059"
    using assms by (simp_all add: datetime_ok_def)
  note date = ordinal_date_inverse [OF o ok(2)] year_bound [OF o ok(2,3)]
  note us = microseconds_split [of t, folded s_def f_def]
  have f: "0 \<le> f" "f < 1000000" by (simp_all add: f_def)
  have fields: "iso_fields t = [y, m, d, s div 3600, s div 60 mod 60, s mod 60] @ (if f = 0 then [] else [f])"
    unfolding iso_fields_def Let_def o prod.case s_def [symmetric] f_def [symmetric] by (rule refl)
  have "month_starts (leap_year y) ! nat m \<le> month_starts (leap_year y) ! nat (m - 1) + 31"
    using date(2) by (intro month_length) (simp_all add: date_valid_def)
  then have d: "1 \<le> y" "1 \<le> m" "m \<le> 12" "1 \<le> d" "d \<le> 31" using date(2) by (simp_all add: date_valid_def)
  have "s div 3600 = s div 60 div 60" using zdiv_zmult2_eq [of 60 s 60] by simp
  then have "s div 60 = s div 3600 * 60 + s div 60 mod 60" by simp
  then have "s = (s div 3600 * 60 + s div 60 mod 60) * 60 + s mod 60" by (metis div_mult_mod_eq)
  then have "s = (s div 3600) * 3600 + (s div 60 mod 60) * 60 + s mod 60" by simp
  moreover have "s div 3600 < 24" using us(3) by linarith
  moreover have "0 \<le> s div 3600" using us(2) by (simp add: pos_imp_zdiv_nonneg_iff)
  ultimately have hms: "s = (s div 3600) * 3600 + (s div 60 mod 60) * 60 + s mod 60" "0 \<le> s div 3600" "s div 3600 < 24"
    by blast+
  show "fields_fit (iso_layout (microseconds t mod 1000000 \<noteq> 0)) (iso_fields t)"
  proof -
    define h mi se where "h = s div 3600" and "mi = s div 60 mod 60" and "se = s mod 60"
    have "0 \<le> mi" "mi < 60" "0 \<le> se" "se < 60"
      unfolding mi_def se_def by (rule pos_mod_sign, simp, rule pos_mod_bound, simp)+
    moreover have "0 \<le> h" "h < 24" using hms(2,3) unfolding h_def by blast+
    moreover from this have "h < 100" by simp
    ultimately have "0 \<le> h" "h < 100" "0 \<le> mi" "mi < 60" "0 \<le> se" "se < 60" by blast+
    then show ?thesis
      using date(3) d f unfolding us(1) fields h_def [symmetric] mi_def [symmetric] se_def [symmetric]
      by (simp add: iso_layout_def)
  qed
  have "of_int ((date_ordinal y m d - EPOCH_DAY) * 86400 + (s div 3600) * 3600 + (s div 60 mod 60) * 60 + s mod 60)
      + of_int f / 1000000 = (of_int (microseconds t) / 1000000 :: rat)"
    using us(4) hms(1) date(1) by (simp add: add_divide_distrib)
  also have "\<dots> = t" using ok(1) by simp
  finally show "stamp_of (iso_fields t @ (if microseconds t mod 1000000 = 0 then [0] else [])) = Some t"
    using date(2) hms(3) by (simp add: us(1) fields)
qed

text \<open>\<open>datetime.fromisoformat(t.isoformat()) == t\<close>.\<close>

lemma isoformat_round_trip:
  assumes "datetime_ok t"
  shows "fromisoformat other (isoformat t) = Some t"
proof -
  note fit = iso_fields_ok [OF assms]
  note own = fields_read_back [OF fit(1)]
  show ?thesis
  proof (cases "microseconds t mod 1000000 = 0")
    case True
    then show ?thesis using own fit(2) by (simp add: fromisoformat_def isoformat_def)
  next
    case False
    have "length (isoformat t) = 32" using print_width [OF fit(1)] False by (simp add: isoformat_def iso_layout_def)
    moreover have "layout_width (iso_layout False) = 25" by (simp add: iso_layout_def)
    ultimately have "parse_fields (iso_layout False) (isoformat t) = None"
      using parse_width [of "iso_layout False" "isoformat t"] by (cases "parse_fields (iso_layout False) (isoformat t)") auto
    then show ?thesis using own fit(2) False by (simp add: fromisoformat_def isoformat_def)
  qed
qed

lemma print_chars: "c \<in> set (print_fields fs ns) \<Longrightarrow> Sep c \<in> set fs \<or> (\<exists>n. c = dec_digit n)"
proof (induction fs ns rule: print_fields.induct)
  case (4 w fs n ns)
  have "\<exists>n. c = dec_digit n" if "c \<in> set (dec_pad w n)" using that by (induction w) auto
  then show ?case using 4 by auto
qed auto

lemma isoformat_chars: "c \<in> set (isoformat t) \<Longrightarrow> (of_char c :: nat) < 128 \<and> c \<noteq> CHR ''|''"
proof -
  assume "c \<in> set (isoformat t)"
  then consider "Sep c \<in> set (iso_layout (microseconds t mod 1000000 \<noteq> 0))" | n where "c = dec_digit n"
    using print_chars unfolding isoformat_def by blast
  then show ?thesis
  proof cases
    case 1
    then show ?thesis by (auto simp: iso_layout_def split: if_splits)
  next
    case 2
    have "nat (n mod 10) \<le> 9" by (simp add: nat_le_iff)
    then have "(of_char c :: nat) = 48 + nat (n mod 10)" by (simp add: 2 dec_digit_def of_char_of)
    then show ?thesis using \<open>nat (n mod 10) \<le> 9\<close> by auto
  qed
qed

end
