(* ===== verification/Cursor.thy ===== *)
theory Cursor
  imports Tasks Tracing Calendar
begin

text \<open>
  The page cursor as the client sees it: \<open>_encode_cursor\<close> and \<open>_decode_cursor\<close> of
  \<open>db/queries/tasks.py\<close>, with the parts of Python they use (\<open>base64.urlsafe_b64encode\<close> and
  \<open>urlsafe_b64decode\<close>, UTF-8, \<open>UUID(..)\<close>), and \<open>list_tasks\<close> on such texts. A byte is a \<open>char\<close>; the
  text of a cursor is its UTF-8 encoding.
\<close>

section \<open>Base64\<close>

definition b64_char :: "nat \<Rightarrow> char" where
  "b64_char v = (if v < 26 then char_of (65 + v) else if v < 52 then char_of (71 + v)
     else if v < 62 then char_of (v - 4) else if v = 62 then CHR ''-'' else CHR ''_'')"

text \<open>\<open>urlsafe_b64decode\<close> maps \<open>-\<close> and \<open>_\<close> to \<open>+\<close> and \<open>/\<close>, and reads those as well.\<close>

definition b64_value :: "char \<Rightarrow> nat option" where
  "b64_value c = (let n = (of_char c :: nat) in
     if 65 \<le> n \<and> n \<le> 90 then Some (n - 65)
     else if 97 \<le> n \<and> n \<le> 122 then Some (n - 71)
     else if 48 \<le> n \<and> n \<le> 57 then Some (n + 4)
     else if c = CHR ''-'' \<or> c = CHR ''+'' then Some 62
     else if c = CHR ''_'' \<or> c = CHR ''/'' then Some 63
     else None)"

fun urlsafe_b64encode :: "string \<Rightarrow> string" where
  "urlsafe_b64encode [] = []"
| "urlsafe_b64encode [a] =
     (let n = (of_char a :: nat) in [b64_char (n div 4), b64_char (n mod 4 * 16), CHR ''='', CHR ''=''])"
| "urlsafe_b64encode [a, b] =
     (let n = (of_char a :: nat); m = of_char b in
      [b64_char (n div 4), b64_char (n mod 4 * 16 + m div 16), b64_char (m mod 16 * 4), CHR ''=''])"
| "urlsafe_b64encode (a # b # c # s) =
     (let n = (of_char a :: nat); m = of_char b; k = of_char c in
      [b64_char (n div 4), b64_char (n mod 4 * 16 + m div 16), b64_char (m mod 16 * 4 + k div 64), b64_char (k mod 64)]
      @ urlsafe_b64encode s)"

text \<open>
  \<open>binascii.a2b_base64\<close>, not strict: the position in the group of four, the bits left over, and the padding
  seen. Other characters are skipped, complete padding ends the text, and None is \<open>binascii.Error\<close>.
\<close>

fun a2b_base64 :: "nat \<Rightarrow> nat \<Rightarrow> nat \<Rightarrow> string \<Rightarrow> string option" where
  "a2b_base64 quad left pads [] = (if quad = 0 then Some [] else None)"
| "a2b_base64 quad left pads (c # s) =
     (if c = CHR ''='' then
        (if 2 \<le> quad then if 4 \<le> quad + Suc pads then Some [] else a2b_base64 quad left (Suc pads) s
         else a2b_base64 quad left pads s)
      else case b64_value c of
        None \<Rightarrow> a2b_base64 quad left pads s
      | Some v \<Rightarrow>
          if quad = 0 then a2b_base64 1 v 0 s
          else if quad = 1 then map_option ((#) (char_of (left * 4 + v div 16))) (a2b_base64 2 (v mod 16) 0 s)
          else if quad = 2 then map_option ((#) (char_of (left * 16 + v div 4))) (a2b_base64 3 (v mod 4) 0 s)
          else map_option ((#) (char_of (left * 64 + v))) (a2b_base64 0 0 0 s))"

definition urlsafe_b64decode :: "string \<Rightarrow> string option" where
  "urlsafe_b64decode s = a2b_base64 0 0 0 s"

section \<open>UTF-8\<close>

text \<open>The well-formed byte sequences.\<close>

definition in_range :: "nat \<Rightarrow> nat \<Rightarrow> nat \<Rightarrow> bool" where
  "in_range lo hi n \<longleftrightarrow> lo \<le> n \<and> n \<le> hi"

fun utf8_ok :: "nat list \<Rightarrow> bool" where
  "utf8_ok [] = True"
| "utf8_ok (a # s) =
     (if a < 128 then utf8_ok s
      else if in_range 194 223 a then (case s of b # s1 \<Rightarrow> in_range 128 191 b \<and> utf8_ok s1 | [] \<Rightarrow> False)
      else if in_range 224 239 a then
        (case s of b # c # s2 \<Rightarrow> in_range (if a = 224 then 160 else 128) (if a = 237 then 159 else 191) b
           \<and> in_range 128 191 c \<and> utf8_ok s2 | _ \<Rightarrow> False)
      else if in_range 240 244 a then
        (case s of b # c # e # s3 \<Rightarrow> in_range (if a = 240 then 144 else 128) (if a = 244 then 143 else 191) b
           \<and> in_range 128 191 c \<and> in_range 128 191 e \<and> utf8_ok s3 | _ \<Rightarrow> False)
      else False)"

definition ascii :: "string \<Rightarrow> bool" where
  "ascii s \<longleftrightarrow> list_all (\<lambda>c. (of_char c :: nat) < 128) s"

section \<open>UUIDs\<close>

text \<open>\<open>s.replace(p, '')\<close>: the characters of a match still to be dropped, and the rest.\<close>

fun remove_sub :: "string \<Rightarrow> nat \<Rightarrow> string \<Rightarrow> string" where
  "remove_sub p k [] = []"
| "remove_sub p (Suc k) (c # s) = remove_sub p k s"
| "remove_sub p 0 (c # s) = (if take (length p) (c # s) = p then remove_sub p (length p - 1) s else c # remove_sub p 0 s)"

definition is_brace :: "char \<Rightarrow> bool" where
  "is_brace c \<longleftrightarrow> c = CHR ''{'' \<or> c = CHR ''}''"

definition uuid_of_text :: "string \<Rightarrow> exn + uuid" where
  "uuid_of_text s =
     (let h = filter (\<lambda>c. c \<noteq> CHR ''-'')
            (rev (dropWhile is_brace (rev (dropWhile is_brace (remove_sub ''uuid:'' 0 (remove_sub ''urn:'' 0 s))))))
      in if length h \<noteq> 32 then Inl (ValueError ''badly formed hexadecimal UUID string'')
         else case py_int16 h of
           None \<Rightarrow> Inl (ValueError ''invalid literal for int() with base 16'')
         | Some n \<Rightarrow> if 0 \<le> n \<and> n < 2 ^ 128 then Inr (nat n)
             else Inl (ValueError ''int is out of range (need a 128-bit value)''))"

section \<open>Cursors\<close>

text \<open>What Python reads beyond the form it writes: other timestamps, and texts that are not ASCII.\<close>

record cursor_reader =
  rd_iso :: "string \<Rightarrow> time option"
  rd_unicode :: "string \<Rightarrow> (time \<times> uuid) option"

definition encode_cursor :: "time \<Rightarrow> uuid \<Rightarrow> string" where
  "encode_cursor created_at i = urlsafe_b64encode (isoformat created_at @ ''|'' @ uuid_str i)"

definition decode_cursor :: "cursor_reader \<Rightarrow> string \<Rightarrow> exn + (time \<times> uuid)" where
  "decode_cursor rd s =
     (case urlsafe_b64decode s of
        None \<Rightarrow> Inl (ValueError ''Incorrect padding'')
      | Some raw \<Rightarrow>
          if \<not> utf8_ok (map of_char raw) then Inl (ValueError ''invalid utf-8'')
          else if \<not> ascii raw then
            (case rd_unicode rd raw of None \<Rightarrow> Inl (ValueError raw) | Some x \<Rightarrow> Inr x)
          else case dropWhile (\<lambda>c. c \<noteq> CHR ''|'') raw of
            [] \<Rightarrow> Inl (ValueError ''not enough values to unpack'')
          | _ # tid \<Rightarrow>
              (case fromisoformat (rd_iso rd) (takeWhile (\<lambda>c. c \<noteq> CHR ''|'') raw) of
                 None \<Rightarrow> Inl (ValueError ''Invalid isoformat string'')
               | Some t \<Rightarrow> bindE (uuid_of_text tid) (\<lambda>i. Inr (t, i))))"

text \<open>\<open>list_tasks\<close>: an empty cursor is none.\<close>

definition list_tasks_text :: "cursor_reader \<Rightarrow> uuid option \<Rightarrow> state option \<Rightarrow> nat \<Rightarrow> string option \<Rightarrow> db
    \<Rightarrow> exn + (task list \<times> string option)" where
  "list_tasks_text rd tn st limit cursor d =
     bindE (case cursor of None \<Rightarrow> Inr None
            | Some s \<Rightarrow> if s = [] then Inr None else bindE (decode_cursor rd s) (\<lambda>k. Inr (Some k)))
       (\<lambda>k. let (rows, next) = list_tasks tn st limit k d
            in Inr (rows, map_option (\<lambda>(created_at, i). encode_cursor created_at i) next))"

section \<open>Codes\<close>

text \<open>A pair of a printer and a parser that reads back what the printer writes.\<close>

locale text_code =
  fixes enc :: "'a \<Rightarrow> string" and dec :: "string \<Rightarrow> 'a option" and good :: "'a \<Rightarrow> bool"
  assumes dec_enc: "good x \<Longrightarrow> dec (enc x) = Some x"
begin

lemma enc_inj: "good x \<Longrightarrow> good y \<Longrightarrow> enc x = enc y \<longleftrightarrow> x = y"
  using dec_enc by (metis option.inject)

lemma dec_unique: "good x \<Longrightarrow> dec (enc x) = Some y \<Longrightarrow> y = x"
  using dec_enc by simp

lemma dec_fails: "dec s = None \<Longrightarrow> good x \<Longrightarrow> s \<noteq> enc x"
  using dec_enc by auto

end

lemma b64_value_char:
  assumes "v < 64"
  shows "b64_value (b64_char v) = Some v" "b64_char v \<noteq> CHR ''=''"
proof -
  show v: "b64_value (b64_char v) = Some v"
    using assms by (auto simp: b64_char_def b64_value_def Let_def of_char_of)
  show "b64_char v \<noteq> CHR ''=''"
  proof
    assume "b64_char v = CHR ''=''"
    then show False using v by (simp add: b64_value_def)
  qed
qed

lemma a2b_step:
  assumes "v < 64"
  shows "a2b_base64 0 left pads (b64_char v # s) = a2b_base64 1 v 0 s"
    "a2b_base64 1 left pads (b64_char v # s) = map_option ((#) (char_of (left * 4 + v div 16))) (a2b_base64 2 (v mod 16) 0 s)"
    "a2b_base64 2 left pads (b64_char v # s) = map_option ((#) (char_of (left * 16 + v div 4))) (a2b_base64 3 (v mod 4) 0 s)"
    "a2b_base64 3 left pads (b64_char v # s) = map_option ((#) (char_of (left * 64 + v))) (a2b_base64 0 0 0 s)"
  using b64_value_char [OF assms] by simp_all

lemma a2b_padding: "a2b_base64 2 left pads (CHR ''='' # CHR ''='' # s) = Some []" "a2b_base64 3 left pads (CHR ''='' # s) = Some []"
  by simp_all

text \<open>The bits of three bytes, six by six.\<close>

lemma bits_of_bytes:
  fixes n m k :: nat
  assumes "n < 256" "m < 256" "k < 256"
  shows "n div 4 < 64" "n mod 4 * 16 < 64" "n mod 4 * 16 + m div 16 < 64" "m mod 16 * 4 < 64"
    "m mod 16 * 4 + k div 64 < 64" "k mod 64 < 64"
    "n div 4 * 4 + n mod 4 * 16 div 16 = n" "n div 4 * 4 + (n mod 4 * 16 + m div 16) div 16 = n"
    "(n mod 4 * 16 + m div 16) mod 16 * 16 + m mod 16 * 4 div 4 = m"
    "(n mod 4 * 16 + m div 16) mod 16 * 16 + (m mod 16 * 4 + k div 64) div 4 = m"
    "(m mod 16 * 4 + k div 64) mod 4 * 64 + k mod 64 = k"
proof -
  have d: "n div 4 < 64" "m div 16 < 16" "k div 64 < 4" using assms by (simp_all add: div_less_iff_less_mult)
  have m: "n mod 4 < 4" "m mod 16 < 16" "k mod 64 < 64" by simp_all
  show "n div 4 < 64" "n mod 4 * 16 < 64" "n mod 4 * 16 + m div 16 < 64" "m mod 16 * 4 < 64"
    "m mod 16 * 4 + k div 64 < 64" "k mod 64 < 64" using d m by linarith+
  show "n div 4 * 4 + n mod 4 * 16 div 16 = n" by simp
  show "n div 4 * 4 + (n mod 4 * 16 + m div 16) div 16 = n" using d(2) by simp
  show "(n mod 4 * 16 + m div 16) mod 16 * 16 + m mod 16 * 4 div 4 = m" using d(2) by simp
  show "(n mod 4 * 16 + m div 16) mod 16 * 16 + (m mod 16 * 4 + k div 64) div 4 = m" using d(2,3) by simp
  show "(m mod 16 * 4 + k div 64) mod 4 * 64 + k mod 64 = k" using d(3) by simp
qed

lemma a2b_b64encode: "a2b_base64 0 left pads (urlsafe_b64encode s) = Some s"
proof (induction s arbitrary: left pads rule: urlsafe_b64encode.induct)
  case (2 a)
  note b = bits_of_bytes [of "of_char a" "of_char a" "of_char a", OF nat_of_char_less_256 nat_of_char_less_256 nat_of_char_less_256]
  show ?case unfolding urlsafe_b64encode.simps Let_def a2b_step [OF b(1)] a2b_step [OF b(2)] a2b_padding b(7) by simp
next
  case (3 a b)
  note b = bits_of_bytes [of "of_char a" "of_char b" "of_char b", OF nat_of_char_less_256 nat_of_char_less_256 nat_of_char_less_256]
  show ?case
    unfolding urlsafe_b64encode.simps Let_def a2b_step [OF b(1)] a2b_step [OF b(3)] a2b_step [OF b(4)] a2b_padding b(8,9) by simp
next
  case (4 a b c s)
  note b = bits_of_bytes [of "of_char a" "of_char b" "of_char c", OF nat_of_char_less_256 nat_of_char_less_256 nat_of_char_less_256]
  show ?case
    unfolding urlsafe_b64encode.simps Let_def append.simps a2b_step [OF b(1)] a2b_step [OF b(3)] a2b_step [OF b(5)]
      a2b_step [OF b(6)] b(8,10,11) by (simp add: 4)
qed simp

interpretation base64: text_code urlsafe_b64encode urlsafe_b64decode "\<lambda>s. True"
  by unfold_locales (simp add: urlsafe_b64decode_def a2b_b64encode)

section \<open>UUIDs read back\<close>

lemma hex_pad_append: "hex_pad (a + b) n = hex_pad a (n div 16 ^ b) @ hex_pad b n"
proof (induction a)
  case (Suc a)
  have "n div 16 ^ b div 16 ^ a = n div 16 ^ (a + b)"
    using zdiv_zmult2_eq [of "16 ^ a" n "16 ^ b"] by (simp add: power_add mult.commute)
  then show ?case using Suc by (simp add: hex_pad_Suc)
qed simp

lemma remove_sub_keeps: "c \<in> set p \<Longrightarrow> c \<notin> set s \<Longrightarrow> remove_sub p 0 s = s"
proof (induction s)
  case (Cons x s)
  have "take (length p) (x # s) \<noteq> p" using Cons.prems by (metis in_set_takeD)
  then show ?case using Cons by simp
qed simp

lemma hex_pad_text:
  assumes "c \<in> set (hex_pad w n)"
  shows "c \<notin> {CHR ''-'', CHR '':'', CHR ''{'', CHR ''}''}" "(of_char c :: nat) < 128" "\<not> is_int_space c"
proof -
  obtain k where k: "k < 16" "c = hex_digit k" using hex_pad_chars [OF assms] by blast
  have v: "hex_value c \<noteq> None" using hex_digit_facts(1) [OF k(1)] k(2) by simp
  show "\<not> is_int_space c" using hex_digit_facts(2) [OF k(1)] k(2) by simp
  show "c \<notin> {CHR ''-'', CHR '':'', CHR ''{'', CHR ''}''}"
  proof
    assume "c \<in> {CHR ''-'', CHR '':'', CHR ''{'', CHR ''}''}"
    then have "hex_value c = None" by (auto simp: hex_value_def)
    then show False using v by simp
  qed
  show "(of_char c :: nat) < 128" using v by (auto simp: hex_value_def Let_def split: if_splits)
qed

lemma int16_pad:
  assumes "0 < w" "0 \<le> n" "n < 16 ^ w"
  shows "py_int16 (hex_pad w n) = Some n"
proof -
  obtain c cs where c: "hex_pad w n = c # cs" using assms(1) by (cases w) (simp_all add: hex_pad_Suc)
  then have "\<exists>k < 16. c = hex_digit k" using hex_pad_chars [of c w n] by simp
  then have "c \<noteq> CHR ''-''" "c \<noteq> CHR ''+''" using hex_digit_facts(3) by auto
  then have "signed_hex (hex_pad w n) = hex_body (drop_0x (hex_pad w n))" by (simp add: c)
  then show ?thesis
    using hex_body_pad [OF assms] no_blank_strip [of "hex_pad w n"] hex_pad_text(3) by (simp add: py_int16_def drop_0x_pad)
qed

lemma uuid_str_chars:
  "c \<in> set (uuid_str u) \<Longrightarrow> c \<noteq> CHR '':'' \<and> \<not> is_brace c \<and> (of_char c :: nat) < 128"
  using hex_pad_text by (auto simp: uuid_str_def Let_def is_brace_def)

lemma uuid_round_trip:
  assumes "u < 2 ^ 128"
  shows "uuid_of_text (uuid_str u) = Inr u"
proof -
  let ?n = "int u" and ?s = "uuid_str u"
  have keep: "remove_sub p 0 ?s = ?s" if "CHR '':'' \<in> set p" for p
    using that uuid_str_chars by (intro remove_sub_keeps) auto
  have strip: "dropWhile is_brace s = s" if "set s = set ?s" for s
    using that uuid_str_chars [of "hd s" u] by (cases s) auto
  have plain: "filter (\<lambda>c. c \<noteq> CHR ''-'') (hex_pad w m) = hex_pad w m" for w m
    using hex_pad_text(1) by (auto simp: filter_id_conv)
  have "filter (\<lambda>c. c \<noteq> CHR ''-'') ?s = hex_pad 8 (?n div 16 ^ 24) @ hex_pad 4 (?n div 16 ^ 20)
      @ hex_pad 4 (?n div 16 ^ 16) @ hex_pad 4 (?n div 16 ^ 12) @ hex_pad 12 ?n"
    by (simp add: uuid_str_def Let_def plain)
  also have "\<dots> = hex_pad 32 ?n"
    using hex_pad_append [of 8 24 ?n] hex_pad_append [of 4 20 ?n] hex_pad_append [of 4 16 ?n] hex_pad_append [of 4 12 ?n] by simp
  finally have h: "filter (\<lambda>c. c \<noteq> CHR ''-'') ?s = hex_pad 32 ?n" .
  have "?n < 2 ^ 128" using assms by (metis of_nat_less_iff of_nat_numeral of_nat_power)
  then have "py_int16 (hex_pad 32 ?n) = Some ?n" by (intro int16_pad) simp_all
  then show ?thesis
    using \<open>?n < 2 ^ 128\<close> by (simp add: uuid_of_text_def Let_def keep strip h)
qed

interpretation uuids: text_code uuid_str "\<lambda>s. (case uuid_of_text s of Inr u \<Rightarrow> Some u | Inl e \<Rightarrow> None)" "\<lambda>u. u < 2 ^ 128"
  by unfold_locales (simp add: uuid_round_trip)

interpretation stamps: text_code isoformat "fromisoformat other" datetime_ok for other
  by unfold_locales (rule isoformat_round_trip)

section \<open>Cursors read back\<close>

text \<open>A row whose columns are of their types: a timestamp and a 128-bit id.\<close>

definition storable :: "time \<times> uuid \<Rightarrow> bool" where
  "storable k \<longleftrightarrow> datetime_ok (fst k) \<and> snd k < 2 ^ 128"

lemma ascii_utf8: "ascii s \<Longrightarrow> utf8_ok (map of_char s)"
  by (induction s) (simp_all add: ascii_def)

lemma cursor_round_trip:
  assumes "storable (t, i)"
  shows "decode_cursor rd (encode_cursor t i) = Inr (t, i)"
proof -
  let ?raw = "isoformat t @ ''|'' @ uuid_str i"
  have t: "fromisoformat (rd_iso rd) (isoformat t) = Some t" and i: "uuid_of_text (uuid_str i) = Inr i"
    using assms uuid_round_trip isoformat_round_trip by (simp_all add: storable_def)
  have a: "ascii ?raw"
    using isoformat_chars [of _ t] uuid_str_chars [of _ i] by (auto simp: ascii_def list_all_iff)
  have "takeWhile (\<lambda>c. c \<noteq> CHR ''|'') ?raw = isoformat t" "dropWhile (\<lambda>c. c \<noteq> CHR ''|'') ?raw = ''|'' @ uuid_str i"
    using isoformat_chars by (subst takeWhile_append2 dropWhile_append2; auto)+
  then show ?thesis
    using a ascii_utf8 [OF a] t i by (simp add: decode_cursor_def encode_cursor_def base64.dec_enc)
qed

interpretation cursors: text_code "\<lambda>(t, i). encode_cursor t i"
  "\<lambda>s. (case decode_cursor rd s of Inr k \<Rightarrow> Some k | Inl e \<Rightarrow> None)" storable for rd
  by unfold_locales (auto simp: cursor_round_trip)

lemma encode_nonempty: "encode_cursor t i \<noteq> []"
proof
  assume "encode_cursor t i = []"
  then have "urlsafe_b64encode (isoformat t @ ''|'' @ uuid_str i) = urlsafe_b64encode []" by (simp add: encode_cursor_def)
  then show False unfolding base64.enc_inj [OF TrueI TrueI] by simp
qed

text \<open>A cursor cut short, as by a client that limits its length, is an error unless what is left are whole groups of four.\<close>

lemma a2b_length:
  assumes "list_all (\<lambda>c. b64_value c \<noteq> None) s" "quad < 4"
  shows "a2b_base64 quad left pads s = None \<longleftrightarrow> (quad + length s) mod 4 \<noteq> 0"
  using assms
proof (induction s arbitrary: quad left pads)
  case (Cons c s)
  then obtain v where v: "b64_value c = Some v" by auto
  then have c: "c \<noteq> CHR ''=''" by (auto simp: b64_value_def)
  have "quad \<in> {0, 1, 2, 3}" using Cons.prems(2) by auto
  then have "(a2b_base64 quad left pads (c # s) = None) = (a2b_base64 (if quad = 3 then 0 else quad + 1)
      (if quad = 0 then v else if quad = 1 then v mod 16 else if quad = 2 then v mod 4 else 0) 0 s = None)"
    using v c by (elim insertE) (simp_all add: numeral_2_eq_2 [symmetric])
  also have "\<dots> \<longleftrightarrow> ((if quad = 3 then 0 else quad + 1) + length s) mod 4 \<noteq> 0"
    using Cons.prems by (intro Cons.IH) auto
  also have "((if quad = 3 then 0 else quad + 1) + length s) mod 4 = (quad + length (c # s)) mod 4"
    by (simp add: add.commute [of 4])
  finally show ?case .
qed simp

lemma cut_cursor_fails:
  assumes "list_all (\<lambda>c. b64_value c \<noteq> None) s" "length s mod 4 \<noteq> 0"
  shows "decode_cursor rd s = Inl (ValueError ''Incorrect padding'')"
  using a2b_length [OF assms(1), of 0] assms(2) by (simp add: decode_cursor_def urlsafe_b64decode_def)

section \<open>Pages\<close>

text \<open>A client that hands each \<open>next_cursor\<close> back, for a number of requests.\<close>

fun text_pages :: "cursor_reader \<Rightarrow> nat \<Rightarrow> uuid option \<Rightarrow> state option \<Rightarrow> nat \<Rightarrow> string option \<Rightarrow> db \<Rightarrow> exn + task list" where
  "text_pages rd 0 tn st limit cursor d = Inr []"
| "text_pages rd (Suc n) tn st limit cursor d =
     bindE (list_tasks_text rd tn st limit cursor d) (\<lambda>(rows, next).
       case next of
         None \<Rightarrow> Inr rows
       | Some s \<Rightarrow> bindE (text_pages rd n tn st limit (Some s) d) (\<lambda>more. Inr (rows @ more)))"

lemma list_tasks_text_own:
  assumes "case k of None \<Rightarrow> True | Some c \<Rightarrow> storable c"
  shows "list_tasks_text rd tn st limit (map_option (\<lambda>(t, i). encode_cursor t i) k) d =
    Inr (fst (list_tasks tn st limit k d), map_option (\<lambda>(t, i). encode_cursor t i) (snd (list_tasks tn st limit k d)))"
  using assms by (cases k) (auto simp: list_tasks_text_def encode_nonempty cursor_round_trip Let_def split: prod.splits)

lemma page_cursor_storable:
  assumes "\<forall>t \<in> set (tasks d). storable (list_key t)" "0 < limit" "list_tasks tn st limit k d = (rows, Some c)"
  shows "storable c"
proof -
  let ?S = "take limit (listing tn st k d)"
  have c: "c = list_key (last ?S)" "limit < length (listing tn st k d)" using assms(3) by (auto simp: list_tasks_eq split: if_splits)
  then have "?S \<noteq> []" using assms(2) by auto
  then have "last ?S \<in> set (listing tn st k d)" by (meson in_set_takeD last_in_set)
  then have "last ?S \<in> set (tasks d)" by (simp add: listing_def)
  then show ?thesis using assms(1) c(1) by simp
qed

lemma text_pages_own:
  assumes "\<forall>t \<in> set (tasks d). storable (list_key t)" "0 < limit"
  shows "case k of None \<Rightarrow> True | Some c \<Rightarrow> storable c \<Longrightarrow>
    text_pages rd n tn st limit (map_option (\<lambda>(t, i). encode_cursor t i) k) d = Inr (all_pages n tn st limit k d)"
proof (induction n arbitrary: k)
  case (Suc n)
  obtain rows c where l: "list_tasks tn st limit k d = (rows, c)" by (cases "list_tasks tn st limit k d")
  have "case c of None \<Rightarrow> True | Some c \<Rightarrow> storable c" using page_cursor_storable [OF assms] l by (auto split: option.split)
  note next' = Suc.IH [OF this]
  show ?case using list_tasks_text_own [OF Suc.prems] l next' by (cases c) auto
qed simp

section \<open>Property\<close>

text \<open>
  C35. Keyset pagination over cursors as text. A client that hands back each \<open>next_cursor\<close> it is given,
  with any page size of at least one, is never refused; if it makes enough requests (one per task is
  enough) it gets exactly the tasks that match its filters, each once, newest first with ties broken by
  id: no text that a page ends with is misread, whatever else Python would read as a timestamp.
\<close>

theorem text_pagination_complete:
  assumes "ids_distinct d" and "0 < limit" and "length (tasks d) < n" and "\<forall>t \<in> set (tasks d). storable (list_key t)"
  shows "\<exists>rows. text_pages rd n tn st limit None d = Inr rows
    \<and> rows = rev (sort_key list_key (filter (list_filter tn st) (tasks d)))
    \<and> set rows = {t \<in> set (tasks d). list_filter tn st t} \<and> distinct (map t_id rows)"
  using text_pages_own [OF assms(4,2), of None rd n tn st] pages_complete [OF assms(1-3), of tn st] by auto

definition demo_reader :: cursor_reader where
  "demo_reader = \<lparr>rd_iso = (\<lambda>s. None), rd_unicode = (\<lambda>s. None)\<rparr>"

definition demo_three :: db where
  "demo_three = demo_db\<lparr>tasks := [demo_task, demo_task\<lparr>t_id := 8, t_created_at := 5\<rparr>,
     demo_task\<lparr>t_id := 9, t_created_at := 5\<rparr>]\<rparr>"

theorem text_pagination_complete_witness:
  "\<exists>rows. text_pages demo_reader 4 (Some 1) None 1 None demo_three = Inr rows \<and> map t_id rows = [9, 8, 7]"
proof -
  have "ids_distinct demo_three" "length (tasks demo_three) < 4"
    by (simp_all add: ids_distinct_def demo_three_def demo_task_def)
  moreover have "\<forall>t \<in> set (tasks demo_three). storable (list_key t)"
    by (simp add: demo_three_def demo_task_def list_key_def storable_def datetime_ok_def microseconds_def EPOCH_DAY_def)
  ultimately show ?thesis
    using text_pagination_complete [of demo_three 1 4 demo_reader "Some 1" None]
    by (simp add: demo_three_def list_filter_def demo_task_def list_key_def)
qed

lemma cursor_example:
  "encode_cursor (21 / 2) 7 = ''MTk3MC0wMS0wMVQwMDowMDoxMC41MDAwMDArMDA6MDB8MDAwMDAwMDAtMDAwMC0wMDAwLTAwMDAtMDAwMDAwMDAwMDA3''"
  by code_simp

end
