(* ===== verification/Registry.thy ===== *)
theory Registry
  imports Schema
begin

text \<open>
  \<open>db/queries/agents.py\<close> and the immutability trigger of migration 0006: agents, their numbered
  versions, activation, and the routing of a request type to a pinned version.
\<close>

section \<open>Statements on the registry's tables\<close>

datatype agent_assignment = SET_agent_status agent_status | SET_default_version_id "uuid option"
  | SET_agent_updated_at time

fun assign_agent1 :: "agent_assignment \<Rightarrow> agent \<Rightarrow> agent" where
  "assign_agent1 (SET_agent_status v) a = a\<lparr>ag_status := v\<rparr>"
| "assign_agent1 (SET_default_version_id v) a = a\<lparr>default_version_id := v\<rparr>"
| "assign_agent1 (SET_agent_updated_at v) a = a\<lparr>ag_updated_at := v\<rparr>"

definition assign_agent :: "agent_assignment list \<Rightarrow> agent \<Rightarrow> agent" where
  "assign_agent as a = fold assign_agent1 as a"

lemma assign_agent1_columns [simp]:
  "ag_id (assign_agent1 x a) = ag_id a" "ag_tenant_id (assign_agent1 x a) = ag_tenant_id a"
  "ag_name (assign_agent1 x a) = ag_name a"
  by (cases x; simp)+

lemma assign_agent_columns [simp]:
  "ag_id (assign_agent as a) = ag_id a" "ag_tenant_id (assign_agent as a) = ag_tenant_id a"
  "ag_name (assign_agent as a) = ag_name a"
  unfolding assign_agent_def by (induction as arbitrary: a; simp)+

interpretation agent_rows: keyed_table ag_id assign_agent
  by unfold_locales simp

text \<open>
  The trigger \<open>acp_agent_versions_immutable\<close> compares the old and the new row on every column but
  \<open>status\<close> (and \<open>id\<close>, \<open>created_at\<close>), and an \<open>UPDATE\<close> of \<open>agent_versions\<close> runs it on each row.
\<close>

definition version_content :: "agent_version \<Rightarrow>
    uuid \<times> int \<times> dict \<times> string list \<times> dict \<times> int \<times> int" where
  "version_content v = (av_agent_id v, av_version v, runtime_spec v, av_required_capabilities v,
     av_config v, av_max_attempts v, av_max_execution_time_s v)"

definition acp_agent_versions_immutable :: "agent_version \<Rightarrow> agent_version \<Rightarrow> exn option" where
  "acp_agent_versions_immutable old new =
     (if version_content new \<noteq> version_content old then Some (ImmutableVersion (av_id old)) else None)"

definition update_versions ::
  "(agent_version \<Rightarrow> bool) \<Rightarrow> (agent_version \<Rightarrow> agent_version) \<Rightarrow> db \<Rightarrow> exn + (agent_version list \<times> db)" where
  "update_versions p f d =
     (case List.map_filter (\<lambda>v. acp_agent_versions_immutable v (f v)) (filter p (agent_versions d)) of
        e # _ \<Rightarrow> Inl e
      | [] \<Rightarrow> Inr (sql_returning p f (agent_versions d),
                   d\<lparr>agent_versions := sql_update p f (agent_versions d)\<rparr>))"

definition set_status :: "version_status \<Rightarrow> agent_version \<Rightarrow> agent_version" where
  "set_status st v = v\<lparr>av_status := st\<rparr>"

interpretation version_rows: keyed_table av_id set_status
  by unfold_locales (simp add: set_status_def)

section \<open>Agents\<close>

definition create_agent :: "uuid \<Rightarrow> uuid \<Rightarrow> string \<Rightarrow> string option \<Rightarrow> db \<Rightarrow> exn + (agent \<times> db)" where
  "create_agent new_id tn nm desc d =
     (let a = \<lparr>ag_id = new_id, ag_tenant_id = tn, ag_name = nm, ag_description = desc,
               ag_status = AGENT_ACTIVE, default_version_id = None, ag_created_at = now d,
               ag_updated_at = now d\<rparr>
      in if new_id \<in> set (map ag_id (agents d)) then Inl (IntegrityError ''agents_pkey'')
         else if (tn, nm) \<in> set (map (\<lambda>a. (ag_tenant_id a, ag_name a)) (agents d))
           then Inl (IntegrityError ''uq_agents_tenant_name'')
         else if tn \<notin> set (map tn_id (tenants d)) then Inl (IntegrityError ''agents_tenant_id_fkey'')
         else Inr (a, d\<lparr>agents := agents d @ [a]\<rparr>))"

definition get_agent :: "db \<Rightarrow> uuid \<Rightarrow> agent option" where
  "get_agent d i = find_by ag_id i (agents d)"

definition list_agents :: "db \<Rightarrow> uuid option \<Rightarrow> agent list" where
  "list_agents d tn = sort_key (\<lambda>a. - ag_created_at a)
     (filter (\<lambda>a. case tn of None \<Rightarrow> True | Some i \<Rightarrow> ag_tenant_id a = i) (agents d))"

definition update_agents :: "(agent \<Rightarrow> bool) \<Rightarrow> agent_assignment list \<Rightarrow> db \<Rightarrow> agent list \<times> db" where
  "update_agents p as d = (sql_returning p (assign_agent as) (agents d),
     d\<lparr>agents := sql_update p (assign_agent as) (agents d)\<rparr>)"

definition first_row :: "'a list \<Rightarrow> 'a option" where
  "first_row xs = (case xs of [] \<Rightarrow> None | x # _ \<Rightarrow> Some x)"

definition set_agent_status :: "uuid \<Rightarrow> agent_status \<Rightarrow> db \<Rightarrow> agent option \<times> db" where
  "set_agent_status i st d =
     (let (rows, d1) = update_agents (\<lambda>a. ag_id a = i) [SET_agent_status st, SET_agent_updated_at (now d)] d
      in (first_row rows, d1))"

section \<open>Versions\<close>

definition get_version :: "db \<Rightarrow> uuid \<Rightarrow> agent_version option" where
  "get_version d i = find_by av_id i (agent_versions d)"

definition versions_of :: "db \<Rightarrow> uuid \<Rightarrow> agent_version list" where
  "versions_of d a = filter (\<lambda>v. av_agent_id v = a) (agent_versions d)"

definition list_versions :: "db \<Rightarrow> uuid \<Rightarrow> agent_version list" where
  "list_versions d a = sort_key av_version (versions_of d a)"

text \<open>\<open>coalesce(max(version), 0) + 1\<close>.\<close>

definition next_version :: "db \<Rightarrow> uuid \<Rightarrow> int" where
  "next_version d a = (case map av_version (versions_of d a) of [] \<Rightarrow> 0 | v # vs \<Rightarrow> fold max vs v) + 1"

record version_request =
  vr_runtime_spec :: dict
  vr_required_capabilities :: "string list"
  vr_config :: dict
  vr_max_attempts :: int
  vr_max_execution_time_s :: int
  vr_status :: version_status

definition create_version :: "uuid \<Rightarrow> uuid \<Rightarrow> version_request \<Rightarrow> db \<Rightarrow> exn + (agent_version \<times> db)" where
  "create_version new_id a req d =
     (if get_agent d a = None then Inl (AgentNotFound a)
      else let v = \<lparr>av_id = new_id, av_agent_id = a, av_version = next_version d a,
                    runtime_spec = vr_runtime_spec req,
                    av_required_capabilities = vr_required_capabilities req,
                    av_config = vr_config req, av_max_attempts = vr_max_attempts req,
                    av_max_execution_time_s = vr_max_execution_time_s req,
                    av_status = vr_status req, av_created_at = now d\<rparr>
        in if \<not> (av_version v \<ge> 1) then Inl (IntegrityError ''ck_agent_versions_version'')
           else if \<not> (av_max_attempts v \<ge> 1) then Inl (IntegrityError ''ck_agent_versions_max_attempts'')
           else if \<not> (av_max_execution_time_s v \<ge> 1)
             then Inl (IntegrityError ''ck_agent_versions_max_execution_time'')
           else if new_id \<in> set (map av_id (agent_versions d)) then Inl (IntegrityError ''agent_versions_pkey'')
           else if (a, av_version v) \<in> set (map (\<lambda>v. (av_agent_id v, av_version v)) (agent_versions d))
             then Inl (IntegrityError ''uq_agent_versions_agent_version'')
           else Inr (v, d\<lparr>agent_versions := agent_versions d @ [v]\<rparr>))"

definition set_version_status :: "uuid \<Rightarrow> version_status \<Rightarrow> db \<Rightarrow> exn + (agent_version option \<times> db)" where
  "set_version_status i st d =
     bindE (update_versions (\<lambda>v. av_id v = i) (set_status st) d) (\<lambda>(rows, d1). Inr (first_row rows, d1))"

record activation_result =
  act_applied :: bool
  act_agent :: "agent option"
  act_reason :: "string option"

definition not_activated :: "string \<Rightarrow> activation_result" where
  "not_activated why = \<lparr>act_applied = False, act_agent = None, act_reason = Some why\<rparr>"

definition activate_version ::
  "uuid \<Rightarrow> uuid \<Rightarrow> uuid option \<Rightarrow> bool \<Rightarrow> db \<Rightarrow> exn + (activation_result \<times> db)" where
  "activate_version a v expected require_expected d =
     (case get_version d v of
        None \<Rightarrow> Inr (not_activated ''version_not_found_for_agent'', d)
      | Some ver \<Rightarrow>
          if av_agent_id ver \<noteq> a then Inr (not_activated ''version_not_found_for_agent'', d)
          else if av_status ver = VERSION_DISABLED then Inr (not_activated ''version_disabled'', d)
          else
            let (rows, d1) = update_agents
                   (\<lambda>g. ag_id g = a \<and> (require_expected \<longrightarrow> default_version_id g = expected))
                   [SET_default_version_id (Some v), SET_agent_updated_at (now d)] d
            in case rows of
                 [] \<Rightarrow> Inr (not_activated ''default_version_changed_concurrently'', d1)
               | row # _ \<Rightarrow>
                   bindE (set_version_status v VERSION_ACTIVE d1) (\<lambda>(_, d2).
                     Inr (\<lparr>act_applied = True, act_agent = Some row, act_reason = None\<rparr>, d2)))"

section \<open>Routing\<close>

definition set_route :: "uuid \<Rightarrow> string \<Rightarrow> uuid \<Rightarrow> db \<Rightarrow> exn + db" where
  "set_route tn rt a d =
     (if a \<notin> set (map ag_id (agents d)) then Inl (IntegrityError ''agent_routes_agent_id_fkey'')
      else if list_ex (\<lambda>r. rt_tenant_id r = tn \<and> rt_request_type r = rt) (agent_routes d)
      then Inr (d\<lparr>agent_routes := sql_update (\<lambda>r. rt_tenant_id r = tn \<and> rt_request_type r = rt)
                    (\<lambda>r. r\<lparr>rt_agent_id := a\<rparr>) (agent_routes d)\<rparr>)
      else if tn \<notin> set (map tn_id (tenants d)) then Inl (IntegrityError ''agent_routes_tenant_id_fkey'')
      else Inr (d\<lparr>agent_routes := agent_routes d @
                    [\<lparr>rt_tenant_id = tn, rt_request_type = rt, rt_agent_id = a, rt_created_at = now d\<rparr>]\<rparr>))"

definition list_routes :: "db \<Rightarrow> uuid \<Rightarrow> agent_route list" where
  "list_routes d tn = sort_key rt_request_type (filter (\<lambda>r. rt_tenant_id r = tn) (agent_routes d))"

record resolution =
  rs_agent_id :: uuid
  rs_agent_name :: string
  rs_version_id :: uuid
  rs_version :: int
  rs_required_capabilities :: "string list"
  rs_max_attempts :: int
  rs_max_execution_time_s :: int
  rs_runtime_spec :: dict

fun agent_status_value :: "agent_status \<Rightarrow> string" where
  "agent_status_value AGENT_ACTIVE = ''ACTIVE''"
| "agent_status_value AGENT_DEPRECATED = ''DEPRECATED''"
| "agent_status_value AGENT_DISABLED = ''DISABLED''"

fun version_status_value :: "version_status \<Rightarrow> string" where
  "version_status_value VERSION_DRAFT = ''DRAFT''"
| "version_status_value VERSION_ACTIVE = ''ACTIVE''"
| "version_status_value VERSION_DEPRECATED = ''DEPRECATED''"
| "version_status_value VERSION_DISABLED = ''DISABLED''"

text \<open>The join \<open>agent_routes JOIN agents LEFT JOIN agent_versions\<close> for one route key.\<close>

definition routed :: "uuid \<Rightarrow> string \<Rightarrow> db \<Rightarrow> (agent \<times> agent_version option) list" where
  "routed tn rt d =
     List.map_filter (\<lambda>r. case get_agent d (rt_agent_id r) of
         None \<Rightarrow> None
       | Some a \<Rightarrow> Some (a, case default_version_id a of None \<Rightarrow> None | Some v \<Rightarrow> get_version d v))
       (filter (\<lambda>r. rt_tenant_id r = tn \<and> rt_request_type r = rt) (agent_routes d))"

definition resolve_route :: "uuid \<Rightarrow> string \<Rightarrow> db \<Rightarrow> exn + resolution" where
  "resolve_route tn rt d =
     (case routed tn rt d of
        [] \<Rightarrow> Inl (NoRoute (''no agent routed for request_type='' @ py_repr rt))
      | (a, vo) # _ \<Rightarrow>
          if ag_status a \<notin> set ROUTABLE_AGENT_STATUSES
          then Inl (NotRoutable (''agent '' @ py_repr (ag_name a) @ '' is '' @ agent_status_value (ag_status a)))
          else case vo of
            None \<Rightarrow> Inl (NotRoutable (''agent '' @ py_repr (ag_name a) @ '' has no released version''))
          | Some v \<Rightarrow>
              if av_status v \<notin> set ROUTABLE_VERSION_STATUSES
              then Inl (NotRoutable (''agent '' @ py_repr (ag_name a) @ '' default version ''
                     @ py_str_int (av_version v) @ '' is '' @ version_status_value (av_status v)))
              else Inr \<lparr>rs_agent_id = ag_id a, rs_agent_name = ag_name a, rs_version_id = av_id v,
                        rs_version = av_version v,
                        rs_required_capabilities = av_required_capabilities v,
                        rs_max_attempts = av_max_attempts v,
                        rs_max_execution_time_s = av_max_execution_time_s v,
                        rs_runtime_spec = runtime_spec v\<rparr>)"

section \<open>The registry's invariant\<close>

definition versions_dense :: "db \<Rightarrow> bool" where
  "versions_dense d \<longleftrightarrow> (\<forall>a. map av_version (versions_of d a) = [1..int (length (versions_of d a))])"

definition defaults_ok :: "db \<Rightarrow> bool" where
  "defaults_ok d \<longleftrightarrow> (\<forall>a \<in> set (agents d). \<forall>v. default_version_id a = Some v \<longrightarrow>
     (\<exists>x. get_version d v = Some x \<and> av_agent_id x = ag_id a))"

definition registry_inv :: "db \<Rightarrow> bool" where
  "registry_inv d \<longleftrightarrow> distinct (map ag_id (agents d)) \<and> distinct (map av_id (agent_versions d))
     \<and> versions_dense d \<and> defaults_ok d
     \<and> (\<forall>v \<in> set (agent_versions d). av_agent_id v \<in> ag_id ` set (agents d))"

lemma registry_default:
  "registry_inv d \<Longrightarrow> a \<in> set (agents d) \<Longrightarrow> default_version_id a = Some v \<Longrightarrow>
     \<exists>x. get_version d v = Some x \<and> av_agent_id x = ag_id a"
  by (simp add: registry_inv_def defaults_ok_def)

lemma registry_inv_empty: "registry_inv (empty_db t)"
  by (simp add: registry_inv_def empty_db_def versions_dense_def versions_of_def defaults_ok_def)

lemma max_upto:
  assumes "xs = [1..int n]"
  shows "(case xs of [] \<Rightarrow> 0 | v # vs \<Rightarrow> fold max vs v) = int n"
proof (cases xs)
  case Nil
  then show ?thesis using assms by (cases n) auto
next
  case (Cons v vs)
  have "fold max vs v = Max (set xs)" by (simp add: Cons flip: Max.set_eq_fold)
  also have "set xs = {1..int n}" by (simp only: assms set_upto)
  also have "1 \<le> int n" using assms Cons by (cases n) auto
  then have "Max {1..int n} = int n" by (intro Max_eqI) auto
  finally show ?thesis by (simp add: Cons)
qed

lemma next_version_dense: "versions_dense d \<Longrightarrow> next_version d a = int (length (versions_of d a)) + 1"
  unfolding next_version_def versions_dense_def by (simp add: max_upto)

lemma versions_dense_content:
  assumes "map version_content (agent_versions d') = map version_content (agent_versions d)" "versions_dense d"
  shows "versions_dense d'"
proof -
  have "map av_version (filter (\<lambda>v. av_agent_id v = a) vs) = map av_version (filter (\<lambda>v. av_agent_id v = a) ws)"
    if "map version_content vs = map version_content ws" for vs ws a
    using that
  proof (induction vs arbitrary: ws)
    case (Cons v vs)
    then show ?case by (cases ws) (auto simp: version_content_def)
  qed simp
  from this [OF assms(1)] have "map av_version (versions_of d' a) = map av_version (versions_of d a)" for a
    by (simp add: versions_of_def)
  then show ?thesis using assms(2) by (metis versions_dense_def length_map)
qed

section \<open>Versions are numbered densely and never change\<close>

lemma create_version_ok:
  assumes "registry_inv d" "get_agent d a \<noteq> None" "1 \<le> vr_max_attempts req"
    and "1 \<le> vr_max_execution_time_s req" "get_version d i = None"
  shows "\<exists>v. create_version i a req d = Inr (v, d\<lparr>agent_versions := agent_versions d @ [v]\<rparr>)
    \<and> av_id v = i \<and> av_agent_id v = a \<and> av_version v = int (length (versions_of d a)) + 1
    \<and> av_status v = vr_status req \<and> registry_inv (d\<lparr>agent_versions := agent_versions d @ [v]\<rparr>)"
proof -
  let ?n = "int (length (versions_of d a))"
  have dense: "versions_dense d" using assms(1) by (simp add: registry_inv_def)
  have n: "next_version d a = ?n + 1" by (rule next_version_dense [OF dense])
  define v where "v = \<lparr>av_id = i, av_agent_id = a, av_version = ?n + 1, runtime_spec = vr_runtime_spec req,
     av_required_capabilities = vr_required_capabilities req, av_config = vr_config req,
     av_max_attempts = vr_max_attempts req, av_max_execution_time_s = vr_max_execution_time_s req,
     av_status = vr_status req, av_created_at = now d\<rparr>"
  let ?d = "d\<lparr>agent_versions := agent_versions d @ [v]\<rparr>"
  have fresh: "i \<notin> av_id ` set (agent_versions d)"
    using assms(5) by (simp add: get_version_def find_by_None_iff)
  have num: "(a, ?n + 1) \<notin> (\<lambda>v. (av_agent_id v, av_version v)) ` set (agent_versions d)"
  proof
    assume "(a, ?n + 1) \<in> (\<lambda>v. (av_agent_id v, av_version v)) ` set (agent_versions d)"
    then obtain w where "w \<in> set (versions_of d a)" "av_version w = ?n + 1" by (auto simp: versions_of_def)
    then have "?n + 1 \<in> set (map av_version (versions_of d a))" by force
    then show False using dense by (simp only: versions_dense_def set_upto) simp
  qed
  have "create_version i a req d = Inr (v, ?d)"
    using assms(2-4) fresh num by (simp add: create_version_def n Let_def v_def)
  moreover have "versions_dense ?d"
  proof -
    have "[1..1 + ?n] = [1..?n] @ [?n + 1]" using upto_rec2 [of 1 "1 + ?n"] by simp
    then have "map av_version (versions_of ?d b) = [1..int (length (versions_of ?d b))]" for b
      using dense by (cases "b = a") (simp_all add: versions_dense_def versions_of_def v_def)
    then show ?thesis by (simp add: versions_dense_def)
  qed
  moreover have "defaults_ok ?d"
    unfolding defaults_ok_def
  proof (intro ballI allI impI)
    fix g w assume "g \<in> set (agents ?d)" "default_version_id g = Some w"
    then obtain x where "get_version d w = Some x" "av_agent_id x = ag_id g"
      using registry_default [OF assms(1), of g w] by auto
    then show "\<exists>x. get_version ?d w = Some x \<and> av_agent_id x = ag_id g"
      by (simp add: get_version_def find_by_append)
  qed
  moreover have "a \<in> ag_id ` set (agents d)"
    using assms(2) by (simp add: get_agent_def find_by_None_iff flip: not_None_eq)
  ultimately show ?thesis
    using assms(1) fresh by (intro exI [of _ v]) (simp add: registry_inv_def v_def)
qed

lemma map_filter_Nil_iff: "List.map_filter g xs = [] \<longleftrightarrow> (\<forall>x \<in> set xs. g x = None)"
  by (induction xs) (auto simp: map_filter_simps split: option.splits)

lemma update_versions_Inr:
  "update_versions p f d = Inr (rows, d') \<longleftrightarrow>
     (\<forall>v \<in> set (agent_versions d). p v \<longrightarrow> version_content (f v) = version_content v)
     \<and> rows = sql_returning p f (agent_versions d)
     \<and> d' = d\<lparr>agent_versions := sql_update p f (agent_versions d)\<rparr>"
proof -
  let ?e = "List.map_filter (\<lambda>v. acp_agent_versions_immutable v (f v)) (filter p (agent_versions d))"
  have "?e = [] \<longleftrightarrow> (\<forall>v \<in> set (agent_versions d). p v \<longrightarrow> version_content (f v) = version_content v)"
    by (auto simp: map_filter_Nil_iff acp_agent_versions_immutable_def)
  then show ?thesis by (cases ?e) (auto simp: update_versions_def)
qed

lemma content_set_status [simp]: "version_content (set_status st v) = version_content v"
  by (simp add: version_content_def set_status_def)

lemma set_version_status_eq:
  "set_version_status i st d =
     Inr (first_row (sql_returning (\<lambda>v. av_id v = i) (set_status st) (agent_versions d)),
          d\<lparr>agent_versions := sql_update (\<lambda>v. av_id v = i) (set_status st) (agent_versions d)\<rparr>)"
proof -
  have "update_versions (\<lambda>v. av_id v = i) (set_status st) d =
      Inr (sql_returning (\<lambda>v. av_id v = i) (set_status st) (agent_versions d),
          d\<lparr>agent_versions := sql_update (\<lambda>v. av_id v = i) (set_status st) (agent_versions d)\<rparr>)"
    by (simp add: update_versions_Inr)
  then show ?thesis by (simp add: set_version_status_def)
qed

lemma registry_inv_versions:
  assumes inv: "registry_inv d" and upd: "agent_versions d' = sql_update p (set_status st) (agent_versions d)"
    and ag: "agents d' = agents d"
  shows "registry_inv d'"
proof -
  have content: "map version_content (agent_versions d') = map version_content (agent_versions d)"
    by (simp add: upd sql_update_def)
  have get: "get_version d' i = map_option (\<lambda>v. if p v then set_status st v else v) (get_version d i)" for i
    by (simp add: get_version_def upd version_rows.find_update)
  have "defaults_ok d'"
    unfolding defaults_ok_def
  proof (intro ballI allI impI)
    fix a v assume "a \<in> set (agents d')" "default_version_id a = Some v"
    then obtain x where "get_version d v = Some x" "av_agent_id x = ag_id a"
      using registry_default [OF inv, of a v] by (auto simp: ag)
    with get show "\<exists>x. get_version d' v = Some x \<and> av_agent_id x = ag_id a"
      by (simp add: set_status_def)
  qed
  moreover have "versions_dense d'"
    using inv versions_dense_content [OF content] by (simp add: registry_inv_def)
  moreover have "distinct (map av_id (agent_versions d'))"
    using inv by (simp add: upd version_rows.distinct_update registry_inv_def)
  moreover have "\<forall>v \<in> set (agent_versions d'). av_agent_id v \<in> ag_id ` set (agents d')"
    using inv by (auto simp: registry_inv_def upd set_sql_update ag set_status_def)
  ultimately show ?thesis using inv by (simp add: registry_inv_def ag)
qed

text \<open>
  Version numbers. Under the registry's invariant, cutting a version of an existing agent with
  valid limits and a fresh id succeeds, no uniqueness constraint can fail, and the new version is
  numbered one more than the agent has versions; so the versions of every agent stay numbered
  1, 2, 3, .. in the order they were cut.
\<close>

theorem version_numbers_dense:
  assumes "registry_inv d" and "get_agent d a \<noteq> None" and "1 \<le> vr_max_attempts req"
    and "1 \<le> vr_max_execution_time_s req" and "get_version d i = None"
  shows "\<exists>v d'. create_version i a req d = Inr (v, d') \<and> registry_inv d'
    \<and> av_version v = int (length (versions_of d a)) + 1 \<and> get_version d' i = Some v
    \<and> (\<forall>b. map av_version (versions_of d' b) = [1..int (length (versions_of d' b))])
    \<and> (\<forall>j w. get_version d j = Some w \<longrightarrow> get_version d' j = Some w)"
proof -
  from create_version_ok [OF assms] obtain v where
    v: "create_version i a req d = Inr (v, d\<lparr>agent_versions := agent_versions d @ [v]\<rparr>)" "av_id v = i"
      "av_version v = int (length (versions_of d a)) + 1"
      "registry_inv (d\<lparr>agent_versions := agent_versions d @ [v]\<rparr>)"
    by blast
  let ?d = "d\<lparr>agent_versions := agent_versions d @ [v]\<rparr>"
  have "get_version ?d i = Some v" "\<And>j w. get_version d j = Some w \<Longrightarrow> get_version ?d j = Some w"
    using assms(5) v(2) by (simp_all add: get_version_def find_by_append)
  moreover have "\<forall>b. map av_version (versions_of ?d b) = [1..int (length (versions_of ?d b))]"
    using v(4) by (simp add: registry_inv_def versions_dense_def)
  ultimately show ?thesis using v(1,3,4) by blast
qed

text \<open>
  A version never changes. No \<open>UPDATE\<close> of \<open>agent_versions\<close> that alters the number, agent,
  runtime, capabilities, configuration or limits of any row it matches can succeed, and any one
  that succeeds leaves them as they were in every row; the status alone can always be set.
\<close>

theorem versions_immutable:
  assumes "\<forall>v. av_id (f v) = av_id v"
  shows "(\<forall>rows d'. update_versions p f d = Inr (rows, d') \<longrightarrow>
        (\<forall>i v. get_version d i = Some v \<longrightarrow>
           (\<exists>v'. get_version d' i = Some v' \<and> version_content v' = version_content v)))
    \<and> ((\<exists>v \<in> set (agent_versions d). p v \<and> version_content (f v) \<noteq> version_content v) \<longrightarrow>
        (\<exists>i. update_versions p f d = Inl (ImmutableVersion i)))
    \<and> (\<exists>r d'. set_version_status i st d = Inr (r, d'))"
proof (intro conjI allI impI)
  fix rows d' j v assume u: "update_versions p f d = Inr (rows, d')" and v: "get_version d j = Some v"
  have "find_by av_id j (sql_update p f vs) = map_option (\<lambda>v. if p v then f v else v) (find_by av_id j vs)" for vs
    using assms by (induction vs) auto
  then have "get_version d' j = Some (if p v then f v else v)"
    using u v by (simp add: update_versions_Inr get_version_def)
  moreover have "v \<in> set (agent_versions d)" using v by (auto simp: get_version_def dest: find_by_SomeD)
  ultimately show "\<exists>v'. get_version d' j = Some v' \<and> version_content v' = version_content v"
    using u by (auto simp: update_versions_Inr)
next
  let ?e = "List.map_filter (\<lambda>v. acp_agent_versions_immutable v (f v)) (filter p (agent_versions d))"
  assume "\<exists>v \<in> set (agent_versions d). p v \<and> version_content (f v) \<noteq> version_content v"
  then have "?e \<noteq> []" by (auto simp: map_filter_Nil_iff acp_agent_versions_immutable_def)
  then obtain e es where e: "?e = e # es" by (cases ?e) auto
  then have "e \<in> set ?e" by simp
  then obtain v where "acp_agent_versions_immutable v (f v) = Some e"
    by (auto simp: List.map_filter_def)
  then have "e = ImmutableVersion (av_id v)"
    by (simp add: acp_agent_versions_immutable_def split: if_splits)
  then show "\<exists>i. update_versions p f d = Inl (ImmutableVersion i)"
    by (simp add: update_versions_def e)
next
  show "\<exists>r d'. set_version_status i st d = Inr (r, d')" by (simp add: set_version_status_eq)
qed

section \<open>Activation\<close>

lemma assign_agent_cases:
  "assign_agent [SET_agent_status st, SET_agent_updated_at tn] a = a\<lparr>ag_status := st, ag_updated_at := tn\<rparr>"
  "assign_agent [SET_default_version_id v, SET_agent_updated_at tn] a =
     a\<lparr>default_version_id := v, ag_updated_at := tn\<rparr>"
  by (simp_all add: assign_agent_def)

lemma registry_inv_agents:
  assumes inv: "registry_inv d" and upd: "agents d' = sql_update p (assign_agent as) (agents d)"
    and ver: "agent_versions d' = agent_versions d"
    and dflt: "\<And>a v. a \<in> set (agents d) \<Longrightarrow> p a \<Longrightarrow> default_version_id (assign_agent as a) = Some v \<Longrightarrow>
      \<exists>x. get_version d v = Some x \<and> av_agent_id x = ag_id a"
  shows "registry_inv d'"
proof -
  have same: "get_version d' = get_version d" "versions_of d' = versions_of d"
    by (simp_all add: fun_eq_iff get_version_def versions_of_def ver)
  have "defaults_ok d'"
    unfolding defaults_ok_def same
  proof (intro ballI allI impI)
    fix a v assume "a \<in> set (agents d')" "default_version_id a = Some v"
    then obtain b where "b \<in> set (agents d)" "a = (if p b then assign_agent as b else b)"
      by (auto simp: upd set_sql_update)
    then show "\<exists>x. get_version d v = Some x \<and> av_agent_id x = ag_id a"
      using dflt [of b v] registry_default [OF inv, of b v] \<open>default_version_id a = Some v\<close>
      by (cases "p b") simp_all
  qed
  moreover have "versions_dense d'"
    using inv by (simp add: registry_inv_def versions_dense_def same)
  moreover have "ag_id ` set (agents d') = ag_id ` set (agents d)"
    by (simp add: upd agent_rows.keys_update)
  ultimately show ?thesis
    using inv by (simp add: registry_inv_def ver upd agent_rows.distinct_update)
qed

lemma find_agent_update:
  "get_agent (d\<lparr>agents := sql_update p (assign_agent as) (agents d)\<rparr>) i =
     map_option (\<lambda>a. if p a then assign_agent as a else a) (get_agent d i)"
  by (simp add: get_agent_def agent_rows.find_update)

lemma filter_agent:
  assumes "registry_inv d"
  shows "filter (\<lambda>g. ag_id g = a \<and> q g) (agents d) =
    (case get_agent d a of None \<Rightarrow> [] | Some g \<Rightarrow> if q g then [g] else [])"
  using filter_key_unique [of ag_id "agents d" a q] assms by (simp add: registry_inv_def get_agent_def)

text \<open>The database after an activation that applied.\<close>

definition activated_db :: "uuid \<Rightarrow> uuid \<Rightarrow> (agent \<Rightarrow> bool) \<Rightarrow> db \<Rightarrow> db" where
  "activated_db a v q d =
     d\<lparr>agents := sql_update (\<lambda>g. ag_id g = a \<and> q g)
                   (assign_agent [SET_default_version_id (Some v), SET_agent_updated_at (now d)]) (agents d),
       agent_versions := sql_update (\<lambda>w. av_id w = v) (set_status VERSION_ACTIVE) (agent_versions d)\<rparr>"

lemma activate_version_eq:
  assumes inv: "registry_inv d" and g: "get_agent d a = Some g" and ver: "get_version d v = Some w"
    and own: "av_agent_id w = a" and st: "av_status w \<noteq> VERSION_DISABLED"
  shows "activate_version a v e req d =
    (if req \<longrightarrow> default_version_id g = e
     then Inr (\<lparr>act_applied = True,
                act_agent = Some (g\<lparr>default_version_id := Some v, ag_updated_at := now d\<rparr>), act_reason = None\<rparr>,
               activated_db a v (\<lambda>g. req \<longrightarrow> default_version_id g = e) d)
     else Inr (not_activated ''default_version_changed_concurrently'', d))"
proof -
  let ?q = "\<lambda>g. req \<longrightarrow> default_version_id g = e"
  have flt: "filter (\<lambda>g. ag_id g = a \<and> ?q g) (agents d) = (if ?q g then [g] else [])"
    using filter_agent [OF inv, of a ?q] g by simp
  show ?thesis
  proof (cases "?q g")
    case True
    then show ?thesis
      using flt ver own st
      by (simp add: activate_version_def update_agents_def sql_returning_def set_version_status_eq
          activated_db_def assign_agent_cases Let_def)
  next
    case False
    then have "sql_update (\<lambda>g. ag_id g = a \<and> ?q g) f (agents d) = agents d" for f
      using flt by (intro sql_update_filter_empty) simp
    then show ?thesis
      using False flt ver own st
      by (simp add: activate_version_def update_agents_def sql_returning_def Let_def)
  qed
qed

lemma activated_db_inv:
  assumes inv: "registry_inv d" and ver: "get_version d v = Some w" "av_agent_id w = a"
  shows "registry_inv (activated_db a v q d)"
proof -
  let ?as = "[SET_default_version_id (Some v), SET_agent_updated_at (now d)]"
  let ?d1 = "d\<lparr>agents := sql_update (\<lambda>g. ag_id g = a \<and> q g) (assign_agent ?as) (agents d)\<rparr>"
  have "registry_inv ?d1"
    by (rule registry_inv_agents [OF inv, of _ "\<lambda>g. ag_id g = a \<and> q g" ?as])
      (use ver in \<open>auto simp: assign_agent_cases\<close>)
  then show ?thesis
    by (rule registry_inv_versions) (simp_all add: activated_db_def)
qed

lemma get_after_activation:
  assumes "get_agent d a = Some g" "q g" "get_version d v = Some w"
  shows "get_agent (activated_db a v q d) a = Some (g\<lparr>default_version_id := Some v, ag_updated_at := now d\<rparr>)"
    and "get_version (activated_db a v q d) u =
      (if u = v then Some (w\<lparr>av_status := VERSION_ACTIVE\<rparr>) else get_version d u)"
proof -
  have "ag_id g = a" using assms(1) find_by_SomeD by (fastforce simp: get_agent_def)
  then show "get_agent (activated_db a v q d) a = Some (g\<lparr>default_version_id := Some v, ag_updated_at := now d\<rparr>)"
    using assms(1,2) by (simp add: get_agent_def activated_db_def agent_rows.find_update assign_agent_cases)
  show "get_version (activated_db a v q d) u =
      (if u = v then Some (w\<lparr>av_status := VERSION_ACTIVE\<rparr>) else get_version d u)"
  proof (cases "get_version d u")
    case None
    then show ?thesis using assms(3) by (auto simp: get_version_def activated_db_def version_rows.find_update)
  next
    case (Some x)
    then have "av_id x = u" using find_by_SomeD [of av_id u "agent_versions d" x] by (simp add: get_version_def)
    then show ?thesis
      using assms(3) Some by (auto simp: get_version_def activated_db_def version_rows.find_update set_status_def)
  qed
qed

text \<open>
  Activation is a compare-and-set. When two operators who have both read the same current
  default release different versions with \<open>require_expected\<close>, the first is applied: the agent's
  default is its version, now active, and the invariant holds; the second, which would have
  overwritten it, is told that the default changed, and nothing is written. Without
  \<open>require_expected\<close> the second one wins.
\<close>

theorem activation_race:
  assumes "registry_inv d" and "get_agent d a = Some g"
    and "get_version d v1 = Some w1" and "av_agent_id w1 = a" and "av_status w1 \<noteq> VERSION_DISABLED"
    and "get_version d v2 = Some w2" and "av_agent_id w2 = a" and "av_status w2 \<noteq> VERSION_DISABLED"
    and "default_version_id g \<noteq> Some v1"
  shows "\<exists>r d1. activate_version a v1 (default_version_id g) True d = Inr (r, d1) \<and> act_applied r
    \<and> registry_inv d1
    \<and> (\<exists>g' w'. get_agent d1 a = Some g' \<and> default_version_id g' = Some v1
         \<and> get_version d1 v1 = Some w' \<and> av_status w' = VERSION_ACTIVE)
    \<and> activate_version a v2 (default_version_id g) True d1 =
        Inr (not_activated ''default_version_changed_concurrently'', d1)
    \<and> (\<exists>r2 d2. activate_version a v2 None False d1 = Inr (r2, d2) \<and> act_applied r2)"
proof -
  let ?q = "\<lambda>x. default_version_id x = default_version_id g"
  let ?d = "activated_db a v1 (\<lambda>x. True \<longrightarrow> ?q x) d"
  let ?g = "g\<lparr>default_version_id := Some v1, ag_updated_at := now d\<rparr>"
  have first: "activate_version a v1 (default_version_id g) True d =
      Inr (\<lparr>act_applied = True, act_agent = Some ?g, act_reason = None\<rparr>, ?d)"
    using activate_version_eq [OF assms(1-5), of "default_version_id g" True] by simp
  have inv: "registry_inv ?d" by (rule activated_db_inv [OF assms(1,3,4)])
  have ag: "get_agent ?d a = Some ?g" and v: "get_version ?d u =
      (if u = v1 then Some (w1\<lparr>av_status := VERSION_ACTIVE\<rparr>) else get_version d u)" for u
    using get_after_activation [OF assms(2) _ assms(3), of "\<lambda>x. True \<longrightarrow> ?q x"] by simp_all
  obtain w where w: "get_version ?d v2 = Some w" "av_agent_id w = a" "av_status w \<noteq> VERSION_DISABLED"
    using assms(4,6-8) v [of v2] by (cases "v2 = v1") auto
  note second = activate_version_eq [OF inv ag w]
  have "activate_version a v2 (default_version_id g) True ?d =
      Inr (not_activated ''default_version_changed_concurrently'', ?d)"
    using assms(9) second [of "default_version_id g" True] by auto
  moreover have "\<exists>r2 d2. activate_version a v2 None False ?d = Inr (r2, d2) \<and> act_applied r2"
    using second [of None False] by simp
  ultimately show ?thesis using first inv ag v [of v1] by simp
qed

section \<open>Resolution\<close>

lemma routed_SomeD:
  assumes "routed tn rt d = (a, vo) # rest"
  shows "\<exists>r \<in> set (agent_routes d). rt_tenant_id r = tn \<and> rt_request_type r = rt
    \<and> get_agent d (rt_agent_id r) = Some a
    \<and> vo = (case default_version_id a of None \<Rightarrow> None | Some v \<Rightarrow> get_version d v)"
proof -
  have "(a, vo) \<in> set (routed tn rt d)" by (simp add: assms)
  then show ?thesis
    by (auto simp: routed_def List.map_filter_def split: option.splits)
qed

lemma resolve_route_result:
  assumes "registry_inv d"
  shows "(\<forall>r. resolve_route tn rt d = Inr r \<longrightarrow>
      (\<exists>rt' \<in> set (agent_routes d). \<exists>a v. rt_tenant_id rt' = tn \<and> rt_request_type rt' = rt
         \<and> get_agent d (rt_agent_id rt') = Some a \<and> ag_status a = AGENT_ACTIVE
         \<and> default_version_id a = Some (rs_version_id r) \<and> get_version d (rs_version_id r) = Some v
         \<and> av_agent_id v = rs_agent_id r \<and> ag_id a = rs_agent_id r \<and> av_status v = VERSION_ACTIVE
         \<and> rs_required_capabilities r = av_required_capabilities v
         \<and> rs_max_attempts r = av_max_attempts v
         \<and> rs_max_execution_time_s r = av_max_execution_time_s v \<and> rs_runtime_spec r = runtime_spec v))
    \<and> ((\<forall>rt' \<in> set (agent_routes d). rt_tenant_id rt' = tn \<and> rt_request_type rt' = rt \<longrightarrow>
          (\<forall>a. get_agent d (rt_agent_id rt') = Some a \<longrightarrow> ag_status a \<noteq> AGENT_ACTIVE)) \<longrightarrow>
        (\<exists>e. resolve_route tn rt d = Inl e))"
proof (intro conjI allI impI)
  fix r assume r: "resolve_route tn rt d = Inr r"
  then obtain a vo rest where ro: "routed tn rt d = (a, vo) # rest"
    by (auto simp: resolve_route_def split: list.splits)
  obtain rt' where rt': "rt' \<in> set (agent_routes d)" "rt_tenant_id rt' = tn" "rt_request_type rt' = rt"
    "get_agent d (rt_agent_id rt') = Some a"
    "vo = (case default_version_id a of None \<Rightarrow> None | Some v \<Rightarrow> get_version d v)"
    using routed_SomeD [OF ro] by blast
  from r ro obtain v where v: "vo = Some v" "ag_status a = AGENT_ACTIVE" "av_status v = VERSION_ACTIVE"
    "r = \<lparr>rs_agent_id = ag_id a, rs_agent_name = ag_name a, rs_version_id = av_id v,
          rs_version = av_version v, rs_required_capabilities = av_required_capabilities v,
          rs_max_attempts = av_max_attempts v, rs_max_execution_time_s = av_max_execution_time_s v,
          rs_runtime_spec = runtime_spec v\<rparr>"
    by (auto simp: resolve_route_def ROUTABLE_AGENT_STATUSES_def ROUTABLE_VERSION_STATUSES_def
        split: if_splits option.splits)
  obtain i where i: "default_version_id a = Some i" "get_version d i = Some v"
    using rt'(5) v(1) by (auto split: option.splits)
  have "av_id v = i" using i(2) find_by_SomeD by (fastforce simp: get_version_def)
  moreover have "a \<in> set (agents d)" using rt'(4) find_by_SomeD by (fastforce simp: get_agent_def)
  then have "av_agent_id v = ag_id a" using registry_default [OF assms _ i(1)] i(2) by simp
  ultimately show "\<exists>rt' \<in> set (agent_routes d). \<exists>a v. rt_tenant_id rt' = tn \<and> rt_request_type rt' = rt
         \<and> get_agent d (rt_agent_id rt') = Some a \<and> ag_status a = AGENT_ACTIVE
         \<and> default_version_id a = Some (rs_version_id r) \<and> get_version d (rs_version_id r) = Some v
         \<and> av_agent_id v = rs_agent_id r \<and> ag_id a = rs_agent_id r \<and> av_status v = VERSION_ACTIVE
         \<and> rs_required_capabilities r = av_required_capabilities v
         \<and> rs_max_attempts r = av_max_attempts v
         \<and> rs_max_execution_time_s r = av_max_execution_time_s v \<and> rs_runtime_spec r = runtime_spec v"
    using rt' v i by (intro bexI [OF _ rt'(1)] exI [of _ a] exI [of _ v]) simp
next
  assume off: "\<forall>rt' \<in> set (agent_routes d). rt_tenant_id rt' = tn \<and> rt_request_type rt' = rt \<longrightarrow>
          (\<forall>a. get_agent d (rt_agent_id rt') = Some a \<longrightarrow> ag_status a \<noteq> AGENT_ACTIVE)"
  show "\<exists>e. resolve_route tn rt d = Inl e"
  proof (cases "routed tn rt d")
    case Nil
    then show ?thesis by (simp add: resolve_route_def)
  next
    case (Cons x rest)
    obtain a vo where x: "x = (a, vo)" by (cases x)
    have "ag_status a \<noteq> AGENT_ACTIVE" using routed_SomeD [OF Cons [unfolded x]] off by blast
    then show ?thesis by (simp add: resolve_route_def Cons x ROUTABLE_AGENT_STATUSES_def)
  qed
qed

text \<open>
  What a submission can be pinned to. A route resolves only to the released version of the
  agent it names: the agent is active, the version is that agent's default, active, and belongs to
  it, and its requirements, limits and runtime are copied as they stand. So once the agent, or
  its default version, has any other status, the request type does not resolve.
\<close>

theorem resolve_route_sound:
  assumes "registry_inv d"
  shows "(\<forall>r. resolve_route tn rt d = Inr r \<longrightarrow>
      (\<exists>rt' \<in> set (agent_routes d). \<exists>a v. rt_tenant_id rt' = tn \<and> rt_request_type rt' = rt
         \<and> get_agent d (rt_agent_id rt') = Some a \<and> ag_status a = AGENT_ACTIVE
         \<and> default_version_id a = Some (rs_version_id r) \<and> get_version d (rs_version_id r) = Some v
         \<and> av_agent_id v = rs_agent_id r \<and> ag_id a = rs_agent_id r \<and> av_status v = VERSION_ACTIVE
         \<and> rs_required_capabilities r = av_required_capabilities v
         \<and> rs_max_attempts r = av_max_attempts v
         \<and> rs_max_execution_time_s r = av_max_execution_time_s v \<and> rs_runtime_spec r = runtime_spec v))
    \<and> ((\<forall>rt' \<in> set (agent_routes d). rt_tenant_id rt' = tn \<and> rt_request_type rt' = rt \<longrightarrow>
          (\<forall>a. get_agent d (rt_agent_id rt') = Some a \<longrightarrow> ag_status a \<noteq> AGENT_ACTIVE)) \<longrightarrow>
        (\<exists>e. resolve_route tn rt d = Inl e))"
  by (rule resolve_route_result [OF assms])

section \<open>Witnesses\<close>

text \<open>One active agent with a released version, a draft of the next one, and a route to it.\<close>

definition demo_agent :: agent where
  "demo_agent = \<lparr>ag_id = 3, ag_tenant_id = 1, ag_name = ''scribe'', ag_description = None,
     ag_status = AGENT_ACTIVE, default_version_id = Some 4, ag_created_at = 0, ag_updated_at = 0\<rparr>"

definition demo_version :: "uuid \<Rightarrow> int \<Rightarrow> version_status \<Rightarrow> agent_version" where
  "demo_version i n st = \<lparr>av_id = i, av_agent_id = 3, av_version = n, runtime_spec = [],
     av_required_capabilities = [''gpu''], av_config = [], av_max_attempts = 3,
     av_max_execution_time_s = 300, av_status = st, av_created_at = 0\<rparr>"

definition demo_registry :: db where
  "demo_registry = (empty_db 10)\<lparr>agents := [demo_agent],
     agent_versions := [demo_version 4 1 VERSION_ACTIVE, demo_version 5 2 VERSION_DRAFT,
                        demo_version 6 3 VERSION_DRAFT],
     agent_routes := [\<lparr>rt_tenant_id = 1, rt_request_type = ''summarise'', rt_agent_id = 3,
                       rt_created_at = 0\<rparr>]\<rparr>"

lemmas demo_registry_defs = demo_registry_def demo_agent_def demo_version_def empty_db_def

lemma demo_registry_inv: "registry_inv demo_registry"
proof -
  have "map av_version (versions_of demo_registry a) = [1..int (length (versions_of demo_registry a))]" for a
    by (cases "a = 3") (simp_all add: versions_of_def demo_registry_defs upto.simps)
  then show ?thesis
    by (simp add: registry_inv_def versions_dense_def defaults_ok_def get_version_def)
       (simp add: demo_registry_defs)
qed

lemma demo_registry_rows:
  "get_agent demo_registry 3 = Some demo_agent"
  "get_version demo_registry 5 = Some (demo_version 5 2 VERSION_DRAFT)"
  "get_version demo_registry 6 = Some (demo_version 6 3 VERSION_DRAFT)"
  "get_version demo_registry 7 = None"
  by (simp_all add: get_agent_def get_version_def demo_registry_defs)

theorem version_numbers_dense_witness:
  "\<exists>v d'. create_version 7 3 \<lparr>vr_runtime_spec = [], vr_required_capabilities = [], vr_config = [],
      vr_max_attempts = 3, vr_max_execution_time_s = 60, vr_status = VERSION_DRAFT\<rparr> demo_registry = Inr (v, d')
    \<and> av_version v = 4"
proof -
  have "length (versions_of demo_registry 3) = 3" by (simp add: versions_of_def demo_registry_defs)
  then show ?thesis
    using version_numbers_dense [OF demo_registry_inv, of 3 "\<lparr>vr_runtime_spec = [],
        vr_required_capabilities = [], vr_config = [], vr_max_attempts = 3, vr_max_execution_time_s = 60,
        vr_status = VERSION_DRAFT\<rparr>" 7]
    by (auto simp: demo_registry_rows)
qed

theorem versions_immutable_witness:
  "\<exists>i. update_versions (\<lambda>v. av_id v = 4) (\<lambda>v. v\<lparr>av_max_attempts := 9\<rparr>) demo_registry = Inl (ImmutableVersion i)"
proof -
  have "\<exists>v \<in> set (agent_versions demo_registry). av_id v = 4 \<and>
      version_content (v\<lparr>av_max_attempts := 9\<rparr>) \<noteq> version_content v"
    by (simp add: demo_registry_defs version_content_def)
  then show ?thesis
    using versions_immutable [of "\<lambda>v. v\<lparr>av_max_attempts := 9\<rparr>" "\<lambda>v. av_id v = 4" demo_registry] by simp
qed

theorem activation_race_witness:
  "\<exists>r d1. activate_version 3 5 (Some 4) True demo_registry = Inr (r, d1) \<and> act_applied r
     \<and> activate_version 3 6 (Some 4) True d1 =
         Inr (not_activated ''default_version_changed_concurrently'', d1)"
proof -
  have "default_version_id demo_agent = Some 4" "av_agent_id (demo_version i n st) = 3"
    "av_status (demo_version i n st) = st" for i n st
    by (simp_all add: demo_agent_def demo_version_def)
  then show ?thesis
    using activation_race [OF demo_registry_inv demo_registry_rows(1,2) _ _ demo_registry_rows(3)] by auto
qed

theorem resolve_route_sound_witness:
  "\<exists>r. resolve_route 1 ''summarise'' demo_registry = Inr r \<and> rs_version_id r = 4
     \<and> (\<exists>v. get_version demo_registry 4 = Some v \<and> av_status v = VERSION_ACTIVE)"
proof -
  have "\<exists>r. resolve_route 1 ''summarise'' demo_registry = Inr r \<and> rs_version_id r = 4"
    by (simp add: resolve_route_def routed_def List.map_filter_def get_agent_def get_version_def
        ROUTABLE_AGENT_STATUSES_def ROUTABLE_VERSION_STATUSES_def demo_registry_defs)
  then obtain r where r: "resolve_route 1 ''summarise'' demo_registry = Inr r" "rs_version_id r = 4" by blast
  with resolve_route_sound [OF demo_registry_inv, of 1 "''summarise''"] show ?thesis by metis
qed

end
