(* ===== verification/Tools.thy ===== *)
theory Tools
  imports Registry
begin

text \<open>
  \<open>db/queries/tools.py\<close> and \<open>db/queries/audit.py\<close>: the tool registry, grants on versions, the policy
  snapshot taken at claim time, and the append-only audit log.
\<close>

section \<open>Tools\<close>

definition create_tool ::
  "uuid \<Rightarrow> uuid \<Rightarrow> string \<Rightarrow> tool_type \<Rightarrow> dict \<Rightarrow> string option \<Rightarrow> db \<Rightarrow> exn + (tool \<times> db)" where
  "create_tool new_id tn nm ty cfg desc d =
     (let t = \<lparr>tl_id = new_id, tl_tenant_id = tn, tl_name = nm, tl_description = desc, tl_tool_type = ty,
               tl_config = cfg, tl_status = TOOL_ACTIVE, tl_created_at = now d\<rparr>
      in if new_id \<in> set (map tl_id (tools d)) then Inl (IntegrityError ''tools_pkey'')
         else if (tn, nm) \<in> set (map (\<lambda>t. (tl_tenant_id t, tl_name t)) (tools d))
           then Inl (IntegrityError ''uq_tools_tenant_name'')
         else if tn \<notin> set (map tn_id (tenants d)) then Inl (IntegrityError ''tools_tenant_id_fkey'')
         else Inr (t, d\<lparr>tools := tools d @ [t]\<rparr>))"

definition get_tool :: "db \<Rightarrow> uuid \<Rightarrow> tool option" where
  "get_tool d i = find_by tl_id i (tools d)"

definition list_tools :: "db \<Rightarrow> uuid \<Rightarrow> tool list" where
  "list_tools d tn = sort_key tl_name (filter (\<lambda>t. tl_tenant_id t = tn) (tools d))"

definition assign_tool :: "tool_status \<Rightarrow> tool \<Rightarrow> tool" where
  "assign_tool st t = t\<lparr>tl_status := st\<rparr>"

interpretation tool_rows: keyed_table tl_id assign_tool
  by unfold_locales (simp add: assign_tool_def)

definition set_tool_status :: "uuid \<Rightarrow> tool_status \<Rightarrow> db \<Rightarrow> tool option \<times> db" where
  "set_tool_status i st d =
     (first_row (sql_returning (\<lambda>t. tl_id t = i) (assign_tool st) (tools d)),
      d\<lparr>tools := sql_update (\<lambda>t. tl_id t = i) (assign_tool st) (tools d)\<rparr>)"

section \<open>Grants\<close>

definition is_grant :: "uuid \<Rightarrow> uuid \<Rightarrow> tool_grant \<Rightarrow> bool" where
  "is_grant v t g = (gr_agent_version_id g = v \<and> gr_tool_id g = t)"

definition grant_tool :: "uuid \<Rightarrow> uuid \<Rightarrow> db \<Rightarrow> exn + db" where
  "grant_tool v t d =
     (if list_ex (is_grant v t) (agent_version_tool_grants d) then Inr d
      else if v \<notin> set (map av_id (agent_versions d))
        then Inl (IntegrityError ''agent_version_tool_grants_agent_version_id_fkey'')
      else if t \<notin> set (map tl_id (tools d))
        then Inl (IntegrityError ''agent_version_tool_grants_tool_id_fkey'')
      else Inr (d\<lparr>agent_version_tool_grants := agent_version_tool_grants d @
                    [\<lparr>gr_agent_version_id = v, gr_tool_id = t, gr_created_at = now d\<rparr>]\<rparr>))"

definition revoke_grant :: "uuid \<Rightarrow> uuid \<Rightarrow> db \<Rightarrow> bool \<times> db" where
  "revoke_grant v t d =
     (length (filter (is_grant v t) (agent_version_tool_grants d)) > 0,
      d\<lparr>agent_version_tool_grants := filter (\<lambda>g. \<not> is_grant v t g) (agent_version_tool_grants d)\<rparr>)"

definition list_grants :: "db \<Rightarrow> uuid \<Rightarrow> tool list" where
  "list_grants d v = sort_key tl_name
     (List.map_filter (\<lambda>g. get_tool d (gr_tool_id g))
        (filter (\<lambda>g. gr_agent_version_id g = v) (agent_version_tool_grants d)))"

section \<open>The policy snapshot\<close>

definition tool_ref_of :: "tool \<Rightarrow> tool_ref" where
  "tool_ref_of t = \<lparr>tr_id = tl_id t, tr_name = tl_name t, tr_tool_type = tl_tool_type t,
     tr_status = tl_status t, tr_config = tl_config t\<rparr>"

text \<open>A dict filled row by row: a later row with the same name replaces an earlier one.\<close>

definition tools_of_tenant :: "db \<Rightarrow> uuid \<Rightarrow> string \<Rightarrow> tool_ref option" where
  "tools_of_tenant d tn = map_of (rev (map (\<lambda>t. (tl_name t, tool_ref_of t))
     (filter (\<lambda>t. tl_tenant_id t = tn) (tools d))))"

definition granted_of :: "db \<Rightarrow> uuid \<Rightarrow> uuid list" where
  "granted_of d v = map gr_tool_id (filter (\<lambda>g. gr_agent_version_id g = v) (agent_version_tool_grants d))"

text \<open>The join of the versions with their agents: a version and its agent's tenant.\<close>

definition version_rows_of :: "uuid list \<Rightarrow> db \<Rightarrow> (agent_version \<times> uuid) list" where
  "version_rows_of ids d =
     List.map_filter (\<lambda>v. map_option (\<lambda>a. (v, ag_tenant_id a)) (get_agent d (av_agent_id v)))
       (filter (\<lambda>v. av_id v \<in> set ids) (agent_versions d))"

definition snapshot_policies :: "uuid option list \<Rightarrow> db \<Rightarrow> uuid \<rightharpoonup> tool_policy" where
  "snapshot_policies agent_version_ids d =
     (let unique_ids = remdups (List.map_filter (\<lambda>i. i) agent_version_ids);
          version_rows = version_rows_of unique_ids d
      in if unique_ids = [] then Map.empty
         else if version_rows = [] then Map.empty
         else map_of (rev (map (\<lambda>(v, tn). (av_id v,
                \<lparr>tp_agent_version_id = Some (av_id v), granted_tool_ids = granted_of d (av_id v),
                  tools_by_name = tools_of_tenant d tn,
                  version_disabled = (av_status v = VERSION_DISABLED)\<rparr>)) version_rows)))"

text \<open>\<open>policies.get(row["agent_version_id"], UNGOVERNED)\<close>.\<close>

definition policy_for :: "(uuid \<rightharpoonup> tool_policy) \<Rightarrow> uuid option \<Rightarrow> tool_policy" where
  "policy_for policies v =
     (case v of None \<Rightarrow> UNGOVERNED
      | Some i \<Rightarrow> (case policies i of None \<Rightarrow> UNGOVERNED | Some p \<Rightarrow> p))"

section \<open>Audit\<close>

record audit_record =
  ar_tenant_id :: uuid
  ar_action :: string
  ar_resource_type :: string
  ar_outcome :: string
  ar_resource_id :: "uuid option"
  ar_actor :: string
  ar_data :: dict

definition record_audit :: "audit_record \<Rightarrow> db \<Rightarrow> db" where
  "record_audit r d =
     d\<lparr>audit_events := audit_events d @
          [\<lparr>au_id = next_audit_id d, au_tenant_id = ar_tenant_id r, au_actor = ar_actor r,
            au_action = ar_action r, au_resource_type = ar_resource_type r,
            au_resource_id = ar_resource_id r, au_outcome = ar_outcome r, au_data = ar_data r,
            au_created_at = now d\<rparr>],
       next_audit_id := next_audit_id d + 1\<rparr>"

text \<open>A transaction of its own that commits at once: on the model's database, the same append.\<close>

definition record_audit_independently :: "audit_record \<Rightarrow> db \<Rightarrow> db" where
  "record_audit_independently r d = record_audit r d"

definition list_audit :: "uuid \<Rightarrow> string option \<Rightarrow> string option \<Rightarrow> nat \<Rightarrow> db \<Rightarrow> audit_event list" where
  "list_audit tn action out limit d =
     take limit (rev (sort_key au_id (filter (\<lambda>e. au_tenant_id e = tn
        \<and> (case action of None \<Rightarrow> True | Some a \<Rightarrow> au_action e = a)
        \<and> (case out of None \<Rightarrow> True | Some o1 \<Rightarrow> au_outcome e = o1)) (audit_events d))))"

section \<open>Lemmas\<close>

definition tools_inv :: "db \<Rightarrow> bool" where
  "tools_inv d \<longleftrightarrow> distinct (map tl_id (tools d)) \<and> distinct (map (\<lambda>t. (tl_tenant_id t, tl_name t)) (tools d))"

lemma distinct_names:
  assumes "tools_inv d"
  shows "distinct (map tl_name (filter (\<lambda>t. tl_tenant_id t = tn) (tools d)))"
proof -
  have "inj_on (\<lambda>t. (tl_tenant_id t, tl_name t)) (set (tools d))" "distinct (tools d)"
    using assms by (simp_all add: tools_inv_def distinct_map)
  then show ?thesis by (auto simp: distinct_map inj_on_def)
qed

lemma tools_of_tenant_iff:
  assumes "tools_inv d"
  shows "tools_of_tenant d tn n = Some r \<longleftrightarrow>
    (\<exists>t \<in> set (tools d). tl_tenant_id t = tn \<and> tl_name t = n \<and> r = tool_ref_of t)"
proof -
  let ?ts = "map (\<lambda>t. (tl_name t, tool_ref_of t)) (filter (\<lambda>t. tl_tenant_id t = tn) (tools d))"
  have "distinct (map fst (rev ?ts))"
    using distinct_names [OF assms, of tn] by (simp add: comp_def flip: rev_map)
  then have "map_of (rev ?ts) n = Some r \<longleftrightarrow> (n, r) \<in> set (rev ?ts)" by simp
  then show ?thesis by (auto simp: tools_of_tenant_def)
qed

lemma map_filter_pair:
  "map fst (List.map_filter (\<lambda>v. map_option (\<lambda>a. (v, g a)) (h v)) xs) = filter (\<lambda>v. h v \<noteq> None) xs"
  by (induction xs) (auto simp: map_filter_simps split: option.split)

lemma snapshot_Some:
  assumes "registry_inv d" "get_version d v = Some w" "get_agent d (av_agent_id w) = Some a"
    and "Some v \<in> set ids"
  shows "snapshot_policies ids d v =
    Some \<lparr>tp_agent_version_id = Some v, granted_tool_ids = granted_of d v,
      tools_by_name = tools_of_tenant d (ag_tenant_id a), version_disabled = (av_status w = VERSION_DISABLED)\<rparr>"
proof -
  let ?ids = "remdups (List.map_filter (\<lambda>i. i) ids)"
  let ?rows = "version_rows_of ?ids d"
  let ?pol = "\<lambda>(u, tn). (av_id u, \<lparr>tp_agent_version_id = Some (av_id u), granted_tool_ids = granted_of d (av_id u),
                  tools_by_name = tools_of_tenant d tn, version_disabled = (av_status u = VERSION_DISABLED)\<rparr>)"
  have w: "w \<in> set (agent_versions d)" "av_id w = v"
    using assms(2) find_by_SomeD by (fastforce simp: get_version_def)+
  have v: "v \<in> set ?ids" using assms(4) by (force simp: List.map_filter_def)
  have row: "(w, ag_tenant_id a) \<in> set ?rows"
    using w v assms(3) by (force simp: version_rows_of_def List.map_filter_def)
  have keys: "map fst (rev (map ?pol ?rows)) = rev (map av_id (map fst ?rows))"
    by (simp add: rev_map comp_def case_prod_beta)
  have "distinct (map av_id (map fst ?rows))"
  proof -
    have "map fst ?rows = filter (\<lambda>u. get_agent d (av_agent_id u) \<noteq> None) (filter (\<lambda>u. av_id u \<in> set ?ids) (agent_versions d))"
      unfolding version_rows_of_def by (rule map_filter_pair)
    then show ?thesis using assms(1) by (simp add: registry_inv_def distinct_map_filter)
  qed
  then have "distinct (map fst (rev (map ?pol ?rows)))" by (simp only: keys distinct_rev)
  moreover have "(v, snd (?pol (w, ag_tenant_id a))) \<in> set (rev (map ?pol ?rows))"
    using row w(2) by force
  ultimately have "map_of (rev (map ?pol ?rows)) v = Some (snd (?pol (w, ag_tenant_id a)))" by simp
  moreover have "?ids \<noteq> []" "?rows \<noteq> []" using v row by auto
  ultimately show ?thesis using w(2) by (simp add: snapshot_policies_def Let_def)
qed

lemma snapshot_tools:
  assumes "snapshot_policies ids d j = Some pol"
  shows "\<exists>tn. tools_by_name pol = tools_of_tenant d tn"
proof -
  let ?pol = "\<lambda>(u, tn). (av_id u, \<lparr>tp_agent_version_id = Some (av_id u), granted_tool_ids = granted_of d (av_id u),
                  tools_by_name = tools_of_tenant d tn, version_disabled = (av_status u = VERSION_DISABLED)\<rparr>)"
  have "map_of (rev (map ?pol (version_rows_of (remdups (List.map_filter (\<lambda>i. i) ids)) d))) j = Some pol"
    using assms by (simp add: snapshot_policies_def Let_def split: if_splits)
  then have "(j, pol) \<in> set (rev (map ?pol (version_rows_of (remdups (List.map_filter (\<lambda>i. i) ids)) d)))"
    by (rule map_of_SomeD)
  then show ?thesis by auto
qed

section \<open>Properties\<close>

text \<open>
  The snapshot decides as the registry stands. For a claimed task pinned to a version, the
  policy frozen at claim time allows a call by name exactly when the version is not disabled and
  the version's own tenant has an active tool of that name that is granted to that version; a
  task without a version may call nothing. So no grant of another version and no tool of another
  tenant is ever reachable.
\<close>

theorem snapshot_decides:
  assumes "registry_inv d" and "tools_inv d" and "get_version d v = Some w"
    and "get_agent d (av_agent_id w) = Some a" and "Some v \<in> set ids"
  shows "(allowed (authorize (policy_for (snapshot_policies ids d) (Some v)) n) \<longleftrightarrow>
      av_status w \<noteq> VERSION_DISABLED
      \<and> (\<exists>t \<in> set (tools d). tl_tenant_id t = ag_tenant_id a \<and> tl_name t = n \<and> tl_status t = TOOL_ACTIVE
           \<and> (\<exists>g \<in> set (agent_version_tool_grants d). is_grant v (tl_id t) g)))
    \<and> \<not> allowed (authorize (policy_for (snapshot_policies ids d) None) n)"
proof
  let ?p = "policy_for (snapshot_policies ids d) (Some v)"
  have p: "?p = \<lparr>tp_agent_version_id = Some v, granted_tool_ids = granted_of d v,
      tools_by_name = tools_of_tenant d (ag_tenant_id a), version_disabled = (av_status w = VERSION_DISABLED)\<rparr>"
    by (simp add: policy_for_def snapshot_Some [OF assms(1,3-5)])
  have granted: "i \<in> set (granted_of d v) \<longleftrightarrow> (\<exists>g \<in> set (agent_version_tool_grants d). is_grant v i g)" for i
    by (auto simp: granted_of_def is_grant_def)
  show "allowed (authorize ?p n) \<longleftrightarrow> av_status w \<noteq> VERSION_DISABLED
      \<and> (\<exists>t \<in> set (tools d). tl_tenant_id t = ag_tenant_id a \<and> tl_name t = n \<and> tl_status t = TOOL_ACTIVE
           \<and> (\<exists>g \<in> set (agent_version_tool_grants d). is_grant v (tl_id t) g))"
  proof -
    have "(\<exists>r. tools_of_tenant d (ag_tenant_id a) n = Some r \<and> tr_status r = TOOL_ACTIVE \<and> tr_id r \<in> set (granted_of d v))
      \<longleftrightarrow> (\<exists>t \<in> set (tools d). tl_tenant_id t = ag_tenant_id a \<and> tl_name t = n
           \<and> tr_status (tool_ref_of t) = TOOL_ACTIVE \<and> tr_id (tool_ref_of t) \<in> set (granted_of d v))"
      unfolding tools_of_tenant_iff [OF assms(2)] by blast
    then show ?thesis unfolding authorize_allowed_iff p by (simp add: granted) (simp add: tool_ref_of_def)
  qed
  show "\<not> allowed (authorize (policy_for (snapshot_policies ids d) None) n)"
    by (simp add: policy_for_def authorize_allowed_iff UNGOVERNED_def)
qed

lemma policy_tools:
  assumes "tools_by_name (policy_for (snapshot_policies ids d) v) n = Some r"
  obtains tn where "tools_of_tenant d tn n = Some r"
proof (cases v)
  case None
  with assms show thesis by (simp add: policy_for_def UNGOVERNED_def)
next
  case (Some j)
  show thesis
  proof (cases "snapshot_policies ids d j")
    case None
    with assms Some show thesis by (simp add: policy_for_def UNGOVERNED_def)
  next
    case (Some pol)
    from snapshot_tools [OF this] obtain tn where "tools_by_name pol = tools_of_tenant d tn" ..
    with assms \<open>v = Some j\<close> Some that show thesis by (simp add: policy_for_def)
  qed
qed

lemma disabled_tool_refused:
  assumes "tools_inv d" and "\<And>x. x \<in> set (tools d) \<Longrightarrow> tl_id x = i \<Longrightarrow> tl_status x = TOOL_DISABLED"
    and "decision_tool (authorize (policy_for (snapshot_policies ids d) v) n) = Some u" and "tr_id u = i"
  shows "\<not> allowed (authorize (policy_for (snapshot_policies ids d) v) n)"
proof
  assume al: "allowed (authorize (policy_for (snapshot_policies ids d) v) n)"
  from authorize_allowed_tool [OF al] assms(3)
  have u: "tools_by_name (policy_for (snapshot_policies ids d) v) n = Some u" by fastforce
  from policy_tools [OF u] obtain tn where "tools_of_tenant d tn n = Some u" .
  then obtain x where "x \<in> set (tools d)" "u = tool_ref_of x"
    unfolding tools_of_tenant_iff [OF assms(1)] by blast
  with assms(2) [of x] assms(4) have "tr_status u = TOOL_DISABLED" by (simp add: tool_ref_of_def)
  moreover have "tr_status u = TOOL_ACTIVE" using al u by (simp add: authorize_allowed_iff)
  ultimately show False by simp
qed

lemma tools_inv_status:
  assumes "tools_inv d"
  shows "tools_inv (snd (set_tool_status i st d))"
proof -
  have "map (\<lambda>t. (tl_tenant_id t, tl_name t)) (sql_update p (assign_tool st) ts) =
      map (\<lambda>t. (tl_tenant_id t, tl_name t)) ts" for p ts
    by (simp add: sql_update_def assign_tool_def)
  then show ?thesis
    using assms by (simp add: tools_inv_def set_tool_status_def tool_rows.distinct_update)
qed

text \<open>
  The kill switch. Once a tool is disabled, no policy snapshotted afterwards, for any version
  and whatever is granted, allows a call that would reach it, and enabling it again restores the
  decisions of before, its grants untouched; a disabled version may call nothing.
\<close>

theorem kill_switch:
  assumes "registry_inv d" and "tools_inv d" and "get_tool d i = Some t"
  shows "(\<forall>ids v n u. let dec = authorize (policy_for (snapshot_policies ids (snd (set_tool_status i TOOL_DISABLED d))) v) n in
        decision_tool dec = Some u \<and> tr_id u = i \<longrightarrow> \<not> allowed dec)
    \<and> (tl_status t = TOOL_ACTIVE \<longrightarrow>
        snd (set_tool_status i TOOL_ACTIVE (snd (set_tool_status i TOOL_DISABLED d))) = d)"
proof (intro conjI allI impI)
  fix ids v n u
  define d' where "d' = snd (set_tool_status i TOOL_DISABLED d)"
  have inv: "tools_inv d'" unfolding d'_def by (rule tools_inv_status [OF assms(2)])
  have off: "tl_status x = TOOL_DISABLED" if "x \<in> set (tools d')" "tl_id x = i" for x
  proof -
    have "tools d' = map (\<lambda>y. if tl_id y = i then assign_tool TOOL_DISABLED y else y) (tools d)"
      by (simp add: d'_def set_tool_status_def sql_update_def)
    with that(1) have "x \<in> (\<lambda>y. if tl_id y = i then assign_tool TOOL_DISABLED y else y) ` set (tools d)"
      by (simp only: set_map)
    then obtain y where y: "x = (if tl_id y = i then assign_tool TOOL_DISABLED y else y)"
      by (rule imageE)
    show ?thesis
    proof (cases "tl_id y = i")
      case True
      with y show ?thesis by (simp add: assign_tool_def)
    next
      case False
      with y that(2) show ?thesis by simp
    qed
  qed
  show "let dec = authorize (policy_for (snapshot_policies ids (snd (set_tool_status i TOOL_DISABLED d))) v) n in
      decision_tool dec = Some u \<and> tr_id u = i \<longrightarrow> \<not> allowed dec"
    unfolding d'_def [symmetric] Let_def using disabled_tool_refused [OF inv off] by blast
next
  assume act: "tl_status t = TOOL_ACTIVE"
  have "x = t" if "x \<in> set (tools d)" "tl_id x = i" for x
    using that assms(2,3) find_by_unique [of tl_id "tools d" i x] by (simp add: tools_inv_def get_tool_def)
  then have "map (\<lambda>x. if tl_id x = i then x\<lparr>tl_status := TOOL_ACTIVE\<rparr> else x) (tools d) = tools d"
    using act by (intro map_idI) auto
  then show "snd (set_tool_status i TOOL_ACTIVE (snd (set_tool_status i TOOL_DISABLED d))) = d"
    by (simp add: set_tool_status_def sql_update_def assign_tool_def comp_def if_distrib cong: if_cong)
qed

text \<open>
  Grants. Granting an existing tool to an existing version always succeeds and granting twice
  is granting once; revoking answers whether the grant was there and leaves exactly the other
  grants, so a grant that is revoked leaves the table as it was.
\<close>

theorem grant_revoke:
  assumes "v \<in> av_id ` set (agent_versions d)" and "t \<in> tl_id ` set (tools d)"
  shows "\<exists>d'. grant_tool v t d = Inr d' \<and> grant_tool v t d' = Inr d'
    \<and> fst (revoke_grant v t d')
    \<and> (\<exists>g \<in> set (agent_version_tool_grants d'). is_grant v t g)
    \<and> (\<forall>g. \<not> is_grant v t g \<longrightarrow>
         (g \<in> set (agent_version_tool_grants (snd (revoke_grant v t d'))) \<longleftrightarrow> g \<in> set (agent_version_tool_grants d)))
    \<and> \<not> fst (revoke_grant v t (snd (revoke_grant v t d')))
    \<and> (\<not> (\<exists>g \<in> set (agent_version_tool_grants d). is_grant v t g) \<longrightarrow> snd (revoke_grant v t d') = d)"
proof (cases "list_ex (is_grant v t) (agent_version_tool_grants d)")
  case True
  then show ?thesis
    by (auto simp: grant_tool_def revoke_grant_def list_ex_iff filter_empty_conv)
next
  case False
  let ?g = "\<lparr>gr_agent_version_id = v, gr_tool_id = t, gr_created_at = now d\<rparr>"
  let ?d = "d\<lparr>agent_version_tool_grants := agent_version_tool_grants d @ [?g]\<rparr>"
  have g: "is_grant v t ?g" by (simp add: is_grant_def)
  have none: "filter (\<lambda>g. \<not> is_grant v t g) (agent_version_tool_grants d) = agent_version_tool_grants d"
    using False by (simp add: list_ex_iff filter_id_conv)
  have "grant_tool v t d = Inr ?d" using False assms by (simp add: grant_tool_def)
  then show ?thesis using g none False
    by (intro exI [of _ ?d]) (auto simp: grant_tool_def revoke_grant_def list_ex_iff filter_empty_conv)
qed

section \<open>Witnesses\<close>

definition demo_tool :: tool where
  "demo_tool = \<lparr>tl_id = 11, tl_tenant_id = 1, tl_name = ''search'', tl_description = None,
     tl_tool_type = SIMULATED, tl_config = [], tl_status = TOOL_ACTIVE, tl_created_at = 0\<rparr>"

definition demo_tools :: db where
  "demo_tools = demo_registry\<lparr>tools := [demo_tool],
     agent_version_tool_grants := [\<lparr>gr_agent_version_id = 4, gr_tool_id = 11, gr_created_at = 0\<rparr>]\<rparr>"

lemma demo_tools_inv: "registry_inv demo_tools" "tools_inv demo_tools"
proof -
  have "agents demo_tools = agents demo_registry" "agent_versions demo_tools = agent_versions demo_registry"
    by (simp_all add: demo_tools_def)
  then show "registry_inv demo_tools"
    using demo_registry_inv
    by (simp add: registry_inv_def versions_dense_def versions_of_def defaults_ok_def get_version_def)
  show "tools_inv demo_tools" by (simp add: tools_inv_def demo_tools_def demo_tool_def)
qed

lemma demo_tools_rows:
  "get_version demo_tools 4 = Some (demo_version 4 1 VERSION_ACTIVE)" "get_agent demo_tools 3 = Some demo_agent"
  "get_tool demo_tools 11 = Some demo_tool" "tl_status demo_tool = TOOL_ACTIVE"
  by (simp_all add: get_agent_def get_version_def get_tool_def demo_tools_def demo_registry_defs demo_tool_def)

theorem snapshot_decides_witness:
  "allowed (authorize (policy_for (snapshot_policies [Some 4] demo_tools) (Some 4)) ''search'')"
proof -
  have "av_agent_id (demo_version 4 1 VERSION_ACTIVE) = 3" "av_status (demo_version 4 1 VERSION_ACTIVE) = VERSION_ACTIVE"
    by (simp_all add: demo_version_def)
  then show ?thesis
    using snapshot_decides [OF demo_tools_inv demo_tools_rows(1), of demo_agent "[Some 4]" "''search''"] demo_tools_rows(2)
    by (simp add: demo_tools_def demo_tool_def demo_agent_def is_grant_def)
qed

theorem kill_switch_witness:
  "snd (set_tool_status 11 TOOL_ACTIVE (snd (set_tool_status 11 TOOL_DISABLED demo_tools))) = demo_tools"
  using kill_switch [OF demo_tools_inv demo_tools_rows(3)] demo_tools_rows(4) by simp

theorem grant_revoke_witness:
  "\<exists>d'. grant_tool 5 11 demo_tools = Inr d' \<and> snd (revoke_grant 5 11 d') = demo_tools"
proof -
  have "5 \<in> av_id ` set (agent_versions demo_tools)" "11 \<in> tl_id ` set (tools demo_tools)"
    "\<not> (\<exists>g \<in> set (agent_version_tool_grants demo_tools). is_grant 5 11 g)"
    by (simp_all add: demo_tools_def demo_registry_defs demo_tool_def is_grant_def)
  then show ?thesis using grant_revoke [of 5 demo_tools 11] by auto
qed

end
