(* ===== verification/Scheduling.thy ===== *)
theory Scheduling
  imports Prelude
begin

text \<open>
  The pure parts of scheduling: admission control (\<open>scheduling/admission.py\<close>), the claim policy
  and its compiled \<open>ORDER BY\<close> (\<open>scheduling/policy.py\<close>), and the timing and capability settings
  (\<open>config.py\<close>).
\<close>

section \<open>Admission\<close>

datatype admission = ADMIT | REJECT_TENANT_BACKLOG | SHED_OVERLOADED

record verdict =
  decision :: admission
  reason :: string
  v_retry_after_s :: int

definition admitted :: "verdict \<Rightarrow> bool" where
  "admitted v = (decision v = ADMIT)"

definition admission_decide :: "int \<Rightarrow> int \<Rightarrow> int \<Rightarrow> int \<Rightarrow> verdict" where
  "admission_decide tenant_queued tenant_max_queued global_queued global_shed_threshold =
     (if tenant_queued \<ge> tenant_max_queued then
        \<lparr>decision = REJECT_TENANT_BACKLOG,
         reason = ''tenant has '' @ py_str_int tenant_queued @ '' queued tasks, at its limit of ''
           @ py_str_int tenant_max_queued @ ''; submissions are outpacing execution'',
         v_retry_after_s = 5\<rparr>
      else if global_shed_threshold > 0 \<and> global_queued \<ge> global_shed_threshold then
        \<lparr>decision = SHED_OVERLOADED,
         reason = ''system queue depth '' @ py_str_int global_queued
           @ '' is at or above the shed threshold '' @ py_str_int global_shed_threshold,
         v_retry_after_s = 30\<rparr>
      else \<lparr>decision = ADMIT, reason = '''', v_retry_after_s = 0\<rparr>)"

text \<open>
  A tenant at or over its own bound is always told so, whatever the system load; shedding is
  decided only for tenants within their bound and only when a threshold is set; every refusal
  names a positive \<open>Retry-After\<close> and an admission none; with no threshold the load is ignored; and
  admission is monotone: a shorter backlog, a larger bound or a lighter load never turns an
  admission into a refusal.
\<close>

theorem admission_order:
  "(decision (admission_decide q m g th) = REJECT_TENANT_BACKLOG \<longleftrightarrow> q \<ge> m)
   \<and> (decision (admission_decide q m g th) = SHED_OVERLOADED \<longleftrightarrow> q < m \<and> 0 < th \<and> th \<le> g)
   \<and> (admitted (admission_decide q m g th) \<longleftrightarrow> q < m \<and> (th \<le> 0 \<or> g < th))
   \<and> (admitted (admission_decide q m g th) \<longleftrightarrow> v_retry_after_s (admission_decide q m g th) = 0)
   \<and> v_retry_after_s (admission_decide q m g th) \<ge> 0
   \<and> decision (admission_decide q m g 0) = decision (admission_decide q m g' 0)
   \<and> (admitted (admission_decide q m g th) \<and> q' \<le> q \<and> m \<le> m' \<and> g' \<le> g \<longrightarrow>
        admitted (admission_decide q' m' g' th))"
  by (auto simp: admission_decide_def admitted_def)

theorem admission_order_witness:
  "admitted (admission_decide 4 10 50 60) \<and> admitted (admission_decide 3 11 40 60)"
proof -
  have "admitted (admission_decide 4 10 50 60)"
    by (simp add: admission_decide_def admitted_def)
  then show ?thesis using admission_order [of 4 10 50 60 40 3 11] by simp
qed

section \<open>Claim policy\<close>

datatype sort_key = PRIORITY | AVAILABLE_AT | CREATED_AT | SORT_ID

datatype direction = ASC | DESC

fun sort_key_value :: "sort_key \<Rightarrow> string" where
  "sort_key_value PRIORITY = ''priority''"
| "sort_key_value AVAILABLE_AT = ''available_at''"
| "sort_key_value CREATED_AT = ''created_at''"
| "sort_key_value SORT_ID = ''id''"

fun direction_value :: "direction \<Rightarrow> string" where
  "direction_value ASC = ''ASC''"
| "direction_value DESC = ''DESC''"

definition READY_INDEX_COLUMNS :: "string list" where
  "READY_INDEX_COLUMNS = [''priority'', ''available_at'', ''id'']"

record claim_policy =
  policy_name :: string
  order_by :: "(sort_key \<times> direction) list"

definition order_by_sql :: "claim_policy \<Rightarrow> string" where
  "order_by_sql p =
     py_join '', '' (map (\<lambda>(k, d). sort_key_value k @ '' '' @ direction_value d) (order_by p))"

definition is_index_servable :: "claim_policy \<Rightarrow> bool" where
  "is_index_servable p =
     (let columns = map (\<lambda>(k, d). sort_key_value k) (order_by p);
          directions = map snd (order_by p)
      in columns = take (length columns) READY_INDEX_COLUMNS
         \<and> columns = READY_INDEX_COLUMNS
         \<and> set directions = {ASC})"

definition PRIORITY_FIFO :: claim_policy where
  "PRIORITY_FIFO = \<lparr>policy_name = ''priority-fifo'',
     order_by = [(PRIORITY, ASC), (AVAILABLE_AT, ASC), (SORT_ID, ASC)]\<rparr>"

definition DEFAULT_POLICY :: claim_policy where
  "DEFAULT_POLICY = PRIORITY_FIFO"

lemma sort_key_value_inj [simp]: "sort_key_value a = sort_key_value b \<longleftrightarrow> a = b"
  by (cases a; cases b; simp)

lemma sort_key_value_iff:
  "sort_key_value k = ''priority'' \<longleftrightarrow> k = PRIORITY"
  "sort_key_value k = ''available_at'' \<longleftrightarrow> k = AVAILABLE_AT"
  "sort_key_value k = ''id'' \<longleftrightarrow> k = SORT_ID"
  by (cases k; simp)+

text \<open>
  The ready index can serve a policy without a sort exactly when the policy orders as the
  default one does, and the SQL the default policy compiles to is the order the keyed claim query
  has written out.
\<close>

theorem index_servable_iff:
  "(is_index_servable p \<longleftrightarrow> order_by p = order_by DEFAULT_POLICY)
   \<and> order_by_sql DEFAULT_POLICY = ''priority ASC, available_at ASC, id ASC''"
proof
  have "is_index_servable p \<Longrightarrow> order_by p = [(PRIORITY, ASC), (AVAILABLE_AT, ASC), (SORT_ID, ASC)]"
    by (auto simp: is_index_servable_def READY_INDEX_COLUMNS_def Let_def map_eq_Cons_conv
        sort_key_value_iff)
  then show "is_index_servable p \<longleftrightarrow> order_by p = order_by DEFAULT_POLICY"
    by (auto simp: is_index_servable_def READY_INDEX_COLUMNS_def Let_def DEFAULT_POLICY_def
        PRIORITY_FIFO_def)
  show "order_by_sql DEFAULT_POLICY = ''priority ASC, available_at ASC, id ASC''"
    by (simp add: order_by_sql_def DEFAULT_POLICY_def PRIORITY_FIFO_def)
qed

section \<open>Settings\<close>

record settings =
  lease_ttl_s :: int
  lease_renew_interval_s :: int
  heartbeat_interval_s :: int
  worker_dead_after_s :: int
  reaper_period_s :: int
  poll_interval_ms :: int
  claim_batch_size :: int
  worker_capabilities :: string
  global_queue_shed_threshold :: int
  drain_grace_s :: rat

definition default_settings :: settings where
  "default_settings = \<lparr>lease_ttl_s = 30, lease_renew_interval_s = 7, heartbeat_interval_s = 5,
     worker_dead_after_s = 15, reaper_period_s = 1, poll_interval_ms = 250, claim_batch_size = 5,
     worker_capabilities = '''', global_queue_shed_threshold = 0, drain_grace_s = 5\<rparr>"

definition settings_capabilities :: "settings \<Rightarrow> string list" where
  "settings_capabilities s =
     sorted_set (map (\<lambda>c. py_lower (py_strip c))
       (filter (\<lambda>c. py_strip c \<noteq> []) (py_split_char (CHR '','') (worker_capabilities s))))"

text \<open>\<open>validate_timing\<close> raises, or returns nothing; the error names the setting at fault.\<close>

datatype timing_error = LeaseTtlTooShort int int | DeadAfterTooShort int int

definition validate_timing :: "settings \<Rightarrow> timing_error + unit" where
  "validate_timing s =
     (if lease_ttl_s s \<le> 3 * lease_renew_interval_s s
      then Inl (LeaseTtlTooShort (lease_ttl_s s) (3 * lease_renew_interval_s s))
      else if worker_dead_after_s s \<le> 2 * heartbeat_interval_s s
      then Inl (DeadAfterTooShort (worker_dead_after_s s) (2 * heartbeat_interval_s s))
      else Inr ())"

lemma validate_timing_ok:
  "validate_timing s = Inr u \<longleftrightarrow>
     3 * lease_renew_interval_s s < lease_ttl_s s \<and> 2 * heartbeat_interval_s s < worker_dead_after_s s"
  by (auto simp: validate_timing_def)

lemma default_settings_valid: "validate_timing default_settings = Inr ()"
  by (simp add: validate_timing_def default_settings_def)

end
