(* ===== verification/Api.thy ===== *)
theory Api
  imports Tasks Cursor Registry Tools Scheduling Failures
begin

text \<open>
  \<open>api/\<close>: the error shape, the request schemas, and the handlers of the task, tenant, agent, route
  and tool endpoints; \<open>obs/gauges.py\<close>, whose cached depth admission reads. One transaction per
  request: a handler that raises leaves no write of its own.
\<close>

section \<open>Errors\<close>

datatype api_class = ApiError | NotFound | Conflict | QuotaExceeded | Overloaded

fun status_code :: "api_class \<Rightarrow> nat" where
  "status_code ApiError = 500"
| "status_code NotFound = 404"
| "status_code Conflict = 409"
| "status_code QuotaExceeded = 429"
| "status_code Overloaded = 503"

fun error_code :: "api_class \<Rightarrow> string" where
  "error_code ApiError = ''internal_error''"
| "error_code NotFound = ''not_found''"
| "error_code Conflict = ''conflict''"
| "error_code QuotaExceeded = ''quota_exceeded''"
| "error_code Overloaded = ''overloaded''"

record api_error =
  ae_class :: api_class
  ae_message :: string
  ae_details :: dict

definition raise_api :: "api_class \<Rightarrow> string \<Rightarrow> dict \<Rightarrow> api_error" where
  "raise_api c m details = \<lparr>ae_class = c, ae_message = m, ae_details = details\<rparr>"

text \<open>\<open>str()\<close> of the value a \<open>retry_after_s\<close> detail has here, always an integer.\<close>

definition retry_header :: "dict \<Rightarrow> string" where
  "retry_header details =
     (case map_of details ''retry_after_s'' of Some (JNum x) \<Rightarrow> py_str_int \<lfloor>x\<rfloor> | _ \<Rightarrow> ''5'')"

record json_response =
  response_status :: nat
  response_body :: json
  response_headers :: "(string \<times> string) list"

definition error_response :: "api_error \<Rightarrow> json_response" where
  "error_response e =
     \<lparr>response_status = status_code (ae_class e),
      response_body = JObj [(''error'', JObj ([(''code'', JStr (error_code (ae_class e))),
          (''message'', JStr (ae_message e))]
          @ (if ae_details e \<noteq> [] then [(''details'', JObj (ae_details e))] else [])))],
      response_headers = (if ae_class e = QuotaExceeded \<or> ae_class e = Overloaded
        then [(''Retry-After'', retry_header (ae_details e))] else [])\<rparr>"

text \<open>A request fails with an \<open>ApiError\<close>, or with an exception no handler catches (a 500).\<close>

datatype failure = Api api_error | Uncaught exn

definition api :: "api_class \<Rightarrow> string \<Rightarrow> dict \<Rightarrow> failure + 'a" where
  "api c m details = Inl (Api (raise_api c m details))"

definition unknown :: "string \<Rightarrow> string \<Rightarrow> uuid \<Rightarrow> failure + 'a" where
  "unknown what key i = api NotFound (''unknown '' @ what) [(key, JStr (uuid_str i))]"

text \<open>A query whose exceptions are not caught.\<close>

fun uncaught :: "exn + 'a \<Rightarrow> failure + 'a" where
  "uncaught (Inl e) = Inl (Uncaught e)"
| "uncaught (Inr x) = Inr x"

lemma uncaught_InrE: "uncaught m = Inr x \<Longrightarrow> (m = Inr x \<Longrightarrow> P) \<Longrightarrow> P"
  by (cases m) simp_all

text \<open>\<open>except IntegrityError\<close>.\<close>

fun on_integrity :: "api_error \<Rightarrow> exn + 'a \<Rightarrow> failure + 'a" where
  "on_integrity e (Inl (IntegrityError c)) = Inl (Api e)"
| "on_integrity e (Inl x) = Inl (Uncaught x)"
| "on_integrity e (Inr x) = Inr x"

section \<open>Schemas\<close>

definition between :: "int \<Rightarrow> int \<Rightarrow> int \<Rightarrow> bool" where
  "between lo hi x = (lo \<le> x \<and> x \<le> hi)"

definition length_between :: "nat \<Rightarrow> nat \<Rightarrow> string \<Rightarrow> bool" where
  "length_between lo hi s = (lo \<le> length s \<and> length s \<le> hi)"

definition opt_all :: "('a \<Rightarrow> bool) \<Rightarrow> 'a option \<Rightarrow> bool" where
  "opt_all p x = (case x of None \<Rightarrow> True | Some v \<Rightarrow> p v)"

definition MAX_PAYLOAD_BYTES :: nat where
  "MAX_PAYLOAD_BYTES = 64 * 1024"

record tenant_create =
  tc_name :: string
  tc_max_concurrent_tasks :: int
  tc_max_queued_tasks :: int

definition tenant_create_valid :: "tenant_create \<Rightarrow> bool" where
  "tenant_create_valid b = (length_between 1 64 (tc_name b) \<and> between 1 10000 (tc_max_concurrent_tasks b)
     \<and> between 1 1000000 (tc_max_queued_tasks b))"

record task_create =
  b_tenant_id :: uuid
  b_task_type :: "string option"
  b_request_type :: "string option"
  b_payload :: dict
  b_idempotency_key :: "string option"
  b_priority :: int
  b_max_attempts :: int
  b_max_execution_time_s :: int
  b_available_at :: "time option"

definition exactly_one_submission_mode :: "task_create \<Rightarrow> bool" where
  "exactly_one_submission_mode b = (py_or (b_task_type b) None = None \<longleftrightarrow> py_or (b_request_type b) None \<noteq> None)"

text \<open>\<open>json_bytes\<close> is \<open>len(json.dumps(v).encode())\<close>, the standard library's.\<close>

definition task_create_valid :: "(dict \<Rightarrow> nat) \<Rightarrow> task_create \<Rightarrow> bool" where
  "task_create_valid json_bytes b =
     (opt_all (length_between 1 128) (b_task_type b) \<and> opt_all (length_between 1 128) (b_request_type b)
      \<and> opt_all (length_between 1 255) (b_idempotency_key b) \<and> between 0 32767 (b_priority b)
      \<and> between 1 20 (b_max_attempts b) \<and> between 1 86400 (b_max_execution_time_s b)
      \<and> exactly_one_submission_mode b \<and> json_bytes (b_payload b) \<le> MAX_PAYLOAD_BYTES)"

record task_out =
  out_task :: task
  is_retrying :: bool

text \<open>\<open>clock\<close> is the API process's own clock, not the database's.\<close>

definition to_out :: "time \<Rightarrow> task \<Rightarrow> task_out" where
  "to_out clock t = \<lparr>out_task = t,
     is_retrying = (t_state t = QUEUED \<and> t_attempt t > 0 \<and> available_at t > clock)\<rparr>"

section \<open>Tasks\<close>

text \<open>
  What a submission meets outside its own statements: the id the database would generate, the
  cached global depth, the settings, the trace carrier, the text that the driver and the cast of a
  text parameter make of a JSON value that is not a string (None when they refuse it), and what
  other transactions commit between its statements (under \<open>READ COMMITTED\<close> every statement reads its
  own snapshot).
\<close>

record submit_env =
  generated_id :: uuid
  cached_global_queued :: int
  shed_threshold :: int
  trace_carrier :: "dict option"
  bound_text :: "json \<Rightarrow> string option"
  before_resolve :: "db \<Rightarrow> db"
  before_insert :: "db \<Rightarrow> db"

record pinning =
  pin_task_type :: json
  pin_max_attempts :: int
  pin_max_execution_time_s :: int
  pin_version :: "uuid option"
  pin_capabilities :: "string list"

definition resolve_submission :: "task_create \<Rightarrow> db \<Rightarrow> failure + pinning" where
  "resolve_submission b d =
     (case b_request_type b of
        None \<Rightarrow> Inr \<lparr>pin_task_type = (case b_task_type b of None \<Rightarrow> JNull | Some s \<Rightarrow> JStr s),
                     pin_max_attempts = b_max_attempts b,
                     pin_max_execution_time_s = b_max_execution_time_s b, pin_version = None,
                     pin_capabilities = []\<rparr>
      | Some rt \<Rightarrow>
          (case resolve_route (b_tenant_id b) rt d of
             Inl (NoRoute m) \<Rightarrow> api NotFound m [(''request_type'', JStr rt)]
           | Inl (NotRoutable m) \<Rightarrow> api Conflict m [(''request_type'', JStr rt)]
           | Inl e \<Rightarrow> Inl (Uncaught e)
           | Inr r \<Rightarrow> Inr \<lparr>pin_task_type = dict_get (rs_runtime_spec r) ''task_type'' (JStr (rs_agent_name r)),
                     pin_max_attempts = rs_max_attempts r,
                     pin_max_execution_time_s = rs_max_execution_time_s r,
                     pin_version = Some (rs_version_id r),
                     pin_capabilities = rs_required_capabilities r\<rparr>))"

text \<open>
  The insert's arguments. \<open>runtime_spec\<close> is any JSON, and so is the \<open>task_type\<close> in it: one that is not
  a string (a number, a truth value, \<open>null\<close>, an object) is cast to text or refused by the driver or
  the column, in an exception that nothing catches.
\<close>

definition task_type_text :: "submit_env \<Rightarrow> json \<Rightarrow> string option" where
  "task_type_text env v = (case v of JStr ty \<Rightarrow> Some ty | _ \<Rightarrow> bound_text env v)"

definition submission_of :: "submit_env \<Rightarrow> task_create \<Rightarrow> pinning \<Rightarrow> failure + submission" where
  "submission_of env b p =
     (case task_type_text env (pin_task_type p) of
        Some ty \<Rightarrow> Inr \<lparr>s_tenant_id = b_tenant_id b, s_task_type = ty,
          s_payload = (case trace_carrier env of None \<Rightarrow> b_payload b
                       | Some c \<Rightarrow> if c = [] then b_payload b else dict_set ''_trace'' (JObj c) (b_payload b)),
          s_idempotency_key = b_idempotency_key b, s_priority = b_priority b,
          s_max_attempts = pin_max_attempts p, s_max_execution_time_s = pin_max_execution_time_s p,
          s_available_at = b_available_at b, s_agent_version_id = pin_version p,
          s_required_capabilities = pin_capabilities p\<rparr>
      | None \<Rightarrow> Inl (Uncaught (IntegrityError ''tasks.task_type'')))"

definition insert_submission ::
  "submit_env \<Rightarrow> time \<Rightarrow> submission \<Rightarrow> db \<Rightarrow> failure + ((nat \<times> task_out) \<times> db)" where
  "insert_submission env clock s d =
     (case submit_task (generated_id env) s d of
        Inl (PayloadMismatch e) \<Rightarrow> api Conflict ''idempotency_key was reused with a different payload''
                                  [(''existing_task_id'', JStr (uuid_str e))]
      | Inl (LookupError m) \<Rightarrow> api Conflict m [(''retry_after_s'', JNum 1)]
      | Inl e \<Rightarrow> Inl (Uncaught e)
      | Inr (r, d1) \<Rightarrow> Inr ((if created r then 201 else 200, to_out clock (sub_task r)), d1))"

text \<open>\<open>_submit\<close>: the answer and the database it leaves; a refusal leaves what others committed.\<close>

definition submit ::
  "submit_env \<Rightarrow> time \<Rightarrow> task_create \<Rightarrow> db \<Rightarrow> (failure + (nat \<times> task_out)) \<times> db" where
  "submit env clock b d =
     (case get_tenant d (b_tenant_id b) of
        None \<Rightarrow> (unknown ''tenant'' ''tenant_id'' (b_tenant_id b), d)
      | Some tn \<Rightarrow>
          (let v = admission_decide (int (queued_count_for_tenant d (b_tenant_id b))) (max_queued_tasks tn)
                     (cached_global_queued env) (shed_threshold env);
               details = [(''retry_after_s'', JNum (of_int (v_retry_after_s v)))]
           in case decision v of
                REJECT_TENANT_BACKLOG \<Rightarrow> (api QuotaExceeded (reason v) details, d)
              | SHED_OVERLOADED \<Rightarrow> (api Overloaded (reason v) details, d)
              | ADMIT \<Rightarrow>
                  (let d1 = before_resolve env d in
                   case resolve_submission b d1 of
                     Inl e \<Rightarrow> (Inl e, d1)
                   | Inr p \<Rightarrow>
                       (let d2 = before_insert env d1 in
                        case bindE (submission_of env b p) (\<lambda>s. insert_submission env clock s d2) of
                          Inl e \<Rightarrow> (Inl e, d2)
                        | Inr (out, d3) \<Rightarrow> (Inr out, d3)))))"

definition list_tasks_page ::
  "time \<Rightarrow> cursor_reader \<Rightarrow> uuid option \<Rightarrow> state option \<Rightarrow> nat \<Rightarrow> string option \<Rightarrow> db
   \<Rightarrow> failure + (task_out list \<times> string option)" where
  "list_tasks_page clock rd tn st limit cursor d =
     bindE (uncaught (list_tasks_text rd tn st limit cursor d)) (\<lambda>(rows, next). Inr (map (to_out clock) rows, next))"

definition get_task_out :: "time \<Rightarrow> uuid \<Rightarrow> db \<Rightarrow> failure + task_out" where
  "get_task_out clock i d =
     (case get_task d i of None \<Rightarrow> unknown ''task'' ''task_id'' i | Some t \<Rightarrow> Inr (to_out clock t))"

definition get_events :: "uuid \<Rightarrow> db \<Rightarrow> failure + task_event list" where
  "get_events i d =
     (if get_task d i = None then unknown ''task'' ''task_id'' i else Inr (get_task_events d i 200))"

record cancel_out =
  cancel_state :: state
  cancel_flag :: bool
  cancel_detail :: string

fun state_value :: "state \<Rightarrow> string" where
  "state_value QUEUED = ''QUEUED''"
| "state_value RUNNING = ''RUNNING''"
| "state_value SUCCEEDED = ''SUCCEEDED''"
| "state_value FAILED = ''FAILED''"
| "state_value CANCELLED = ''CANCELLED''"

definition cancel_details :: "cancel_outcome \<Rightarrow> string" where
  "cancel_details o1 = (case o1 of
       CO_CANCELLED \<Rightarrow> ''cancelled before execution started''
     | CO_REQUESTED \<Rightarrow> ''task is running; worker will stop at its next lease renewal''
     | CO_ALREADY_REQUESTED \<Rightarrow> ''cancellation already requested''
     | CO_ALREADY_CANCELLED \<Rightarrow> ''task was already cancelled''
     | _ \<Rightarrow> '''')"

definition cancel :: "uuid \<Rightarrow> db \<Rightarrow> failure + ((nat \<times> cancel_out) \<times> db)" where
  "cancel i d =
     bindE (uncaught (cancel_task i d)) (\<lambda>(res, d1).
       if co_outcome res = CO_NOT_FOUND then unknown ''task'' ''task_id'' i
       else case co_task res of
         None \<Rightarrow> Inl (Uncaught (AssertionError ''result.task is None''))
       | Some t \<Rightarrow>
           if co_outcome res = CO_ALREADY_TERMINAL
           then api Conflict ''task already finished and cannot be cancelled'' [(''state'', JStr (state_value (t_state t)))]
           else Inr ((if co_outcome res = CO_REQUESTED \<or> co_outcome res = CO_ALREADY_REQUESTED then 202 else 200,
                      \<lparr>cancel_state = t_state t, cancel_flag = cancel_requested t,
                       cancel_detail = cancel_details (co_outcome res)\<rparr>), d1))"

section \<open>Tenants\<close>

definition create_tenant_request :: "uuid \<Rightarrow> tenant_create \<Rightarrow> db \<Rightarrow> failure + (tenant \<times> db)" where
  "create_tenant_request new_id b d =
     on_integrity (raise_api Conflict ''tenant name already exists'' [(''name'', JStr (tc_name b))])
       (create_tenant new_id (tc_name b) (tc_max_concurrent_tasks b) (tc_max_queued_tasks b) d)"

definition get_tenant_request :: "uuid \<Rightarrow> db \<Rightarrow> failure + tenant" where
  "get_tenant_request i d =
     (case get_tenant d i of None \<Rightarrow> unknown ''tenant'' ''tenant_id'' i | Some t \<Rightarrow> Inr t)"

section \<open>Agents\<close>

definition create_agent_request ::
  "uuid \<Rightarrow> uuid \<Rightarrow> string \<Rightarrow> string option \<Rightarrow> db \<Rightarrow> failure + (agent \<times> db)" where
  "create_agent_request new_id tn nm desc d =
     (if get_tenant d tn = None then unknown ''tenant'' ''tenant_id'' tn
      else on_integrity (raise_api Conflict ''agent name already exists for this tenant'' [(''name'', JStr nm)])
             (create_agent new_id tn nm desc d))"

definition get_agent_request :: "uuid \<Rightarrow> db \<Rightarrow> failure + agent" where
  "get_agent_request i d =
     (case get_agent d i of None \<Rightarrow> unknown ''agent'' ''agent_id'' i | Some a \<Rightarrow> Inr a)"

definition create_version_request ::
  "uuid \<Rightarrow> uuid \<Rightarrow> version_request \<Rightarrow> db \<Rightarrow> failure + (agent_version \<times> db)" where
  "create_version_request new_id a req d =
     (case create_version new_id a (req\<lparr>vr_status := VERSION_DRAFT\<rparr>) d of
        Inl (AgentNotFound i) \<Rightarrow> unknown ''agent'' ''agent_id'' a
      | Inl e \<Rightarrow> Inl (Uncaught e)
      | Inr r \<Rightarrow> Inr r)"

definition list_versions_request :: "uuid \<Rightarrow> db \<Rightarrow> failure + agent_version list" where
  "list_versions_request a d =
     (if get_agent d a = None then unknown ''agent'' ''agent_id'' a else Inr (list_versions d a))"

definition activate :: "uuid \<Rightarrow> uuid \<Rightarrow> uuid option \<Rightarrow> bool \<Rightarrow> db \<Rightarrow> failure + (agent option \<times> db)" where
  "activate a v expected require_expected d =
     bindE (uncaught (activate_version a v expected require_expected d)) (\<lambda>(res, d1).
       if \<not> act_applied res then
         (if act_reason res = Some ''version_not_found_for_agent''
          then api NotFound ''no such version for this agent'' [(''version_id'', JStr (uuid_str v))]
          else api Conflict ''activation rejected''
                 [(''reason'', case act_reason res of None \<Rightarrow> JNull | Some m \<Rightarrow> JStr m)])
       else Inr (act_agent res, d1))"

definition disable :: "uuid \<Rightarrow> db \<Rightarrow> failure + ((agent \<times> nat) \<times> db)" where
  "disable a d =
     (let (row, d1) = set_agent_status a AGENT_DISABLED d in
      case row of
        None \<Rightarrow> unknown ''agent'' ''agent_id'' a
      | Some g \<Rightarrow>
          (let versions = list_versions d1 a in
           bindE (uncaught (foldE (\<lambda>v x. bindE (set_version_status (av_id v) VERSION_DISABLED x) (\<lambda>(_, y). Inr y))
                    versions d1)) (\<lambda>d2.
           bindE (uncaught (cancel_agent_tasks (map av_id versions)
                    (''agent '' @ py_repr (ag_name g) @ '' disabled'') d2)) (\<lambda>(affected, d3).
             Inr ((g, affected), d3)))))"

definition set_route_request :: "uuid \<Rightarrow> string \<Rightarrow> uuid \<Rightarrow> db \<Rightarrow> failure + (unit \<times> db)" where
  "set_route_request tn rt a d =
     (case get_agent d a of
        None \<Rightarrow> unknown ''agent'' ''agent_id'' a
      | Some g \<Rightarrow>
          if ag_tenant_id g \<noteq> tn then api Conflict ''agent belongs to a different tenant'' []
          else bindE (uncaught (set_route tn rt a d)) (\<lambda>d1. Inr ((), d1)))"

section \<open>Tools, grants and audit\<close>

definition control_audit ::
  "uuid \<Rightarrow> string \<Rightarrow> string \<Rightarrow> uuid \<Rightarrow> dict \<Rightarrow> audit_record" where
  "control_audit tn action rtype rid data =
     \<lparr>ar_tenant_id = tn, ar_action = action, ar_resource_type = rtype, ar_outcome = ''OK'',
      ar_resource_id = Some rid, ar_actor = ''system'', ar_data = data\<rparr>"

definition create_tool_request ::
  "uuid \<Rightarrow> uuid \<Rightarrow> string \<Rightarrow> tool_type \<Rightarrow> dict \<Rightarrow> string option \<Rightarrow> db \<Rightarrow> failure + (tool \<times> db)" where
  "create_tool_request new_id tn nm ty cfg desc d =
     (if get_tenant d tn = None then unknown ''tenant'' ''tenant_id'' tn
      else on_integrity (raise_api Conflict ''tool name already exists for this tenant'' [(''name'', JStr nm)])
             (create_tool new_id tn nm ty cfg desc d))"

definition switch_tool :: "tool_status \<Rightarrow> string \<Rightarrow> uuid \<Rightarrow> db \<Rightarrow> failure + (tool \<times> db)" where
  "switch_tool st action i d =
     (let (row, d1) = set_tool_status i st d in
      case row of
        None \<Rightarrow> unknown ''tool'' ''tool_id'' i
      | Some t \<Rightarrow> Inr (t, record_audit (control_audit (tl_tenant_id t) action ''tool'' i
                              [(''name'', JStr (tl_name t))]) d1))"

definition disable_tool :: "uuid \<Rightarrow> db \<Rightarrow> failure + (tool \<times> db)" where
  "disable_tool i d = switch_tool TOOL_DISABLED ''TOOL_DISABLED'' i d"

definition enable_tool :: "uuid \<Rightarrow> db \<Rightarrow> failure + (tool \<times> db)" where
  "enable_tool i d = switch_tool TOOL_ACTIVE ''TOOL_ENABLED'' i d"

definition grant_data :: "tool \<Rightarrow> dict" where
  "grant_data t = [(''tool'', JStr (tl_name t)), (''tool_id'', JStr (uuid_str (tl_id t)))]"

text \<open>The lifecycle guard shared by granting and revoking.\<close>

definition changeable_version :: "uuid \<Rightarrow> db \<Rightarrow> failure + agent_version" where
  "changeable_version v d =
     (case get_version d v of
        None \<Rightarrow> unknown ''agent version'' ''version_id'' v
      | Some ver \<Rightarrow>
          if av_status ver = VERSION_ACTIVE
          then api Conflict ''cannot change grants on a released version; cut a new version instead''
                 [(''version_id'', JStr (uuid_str v)), (''status'', JStr (version_status_value (av_status ver)))]
          else Inr ver)"

definition grant :: "uuid \<Rightarrow> uuid \<Rightarrow> db \<Rightarrow> failure + (unit \<times> db)" where
  "grant v i d =
     bindE (changeable_version v d) (\<lambda>ver.
       case get_tool d i of
         None \<Rightarrow> unknown ''tool'' ''tool_id'' i
       | Some t \<Rightarrow>
           (case get_agent d (av_agent_id ver) of
              None \<Rightarrow> Inl (Uncaught (AssertionError ''agent is None''))
            | Some g \<Rightarrow>
                if ag_tenant_id g \<noteq> tl_tenant_id t then api Conflict ''tool belongs to a different tenant'' []
                else bindE (uncaught (grant_tool v i d)) (\<lambda>d1.
                  Inr ((), record_audit (control_audit (tl_tenant_id t) ''TOOL_GRANTED'' ''agent_version'' v
                             (grant_data t)) d1))))"

definition list_grants_request :: "uuid \<Rightarrow> db \<Rightarrow> failure + tool list" where
  "list_grants_request v d =
     (if get_version d v = None then unknown ''agent version'' ''version_id'' v else Inr (list_grants d v))"

definition revoke :: "uuid \<Rightarrow> uuid \<Rightarrow> db \<Rightarrow> failure + (unit \<times> db)" where
  "revoke v i d =
     bindE (changeable_version v d) (\<lambda>ver.
       case get_tool d i of
         None \<Rightarrow> unknown ''tool'' ''tool_id'' i
       | Some t \<Rightarrow>
           (let (removed, d1) = revoke_grant v i d in
            if \<not> removed
            then api NotFound ''grant does not exist''
                   [(''version_id'', JStr (uuid_str v)), (''tool_id'', JStr (uuid_str i))]
            else Inr ((), record_audit (control_audit (tl_tenant_id t) ''TOOL_GRANT_REVOKED'' ''agent_version'' v
                            (grant_data t)) d1)))"

section \<open>Gauges\<close>

record queue_row =
  qr_tenant :: string
  qr_runnable :: nat
  qr_running :: nat

text \<open>\<open>tenants LEFT JOIN tasks .. GROUP BY te.name\<close>, one row per tenant name.\<close>

definition queue_rows :: "db \<Rightarrow> queue_row list" where
  "queue_rows d =
     map (\<lambda>nm. let ts = [t. te \<leftarrow> tenants d, tn_name te = nm, t \<leftarrow> tasks d, t_tenant_id t = tn_id te] in
        \<lparr>qr_tenant = nm,
         qr_runnable = length (filter (\<lambda>t. t_state t = QUEUED \<and> available_at t \<le> now d) ts),
         qr_running = length (filter (\<lambda>t. t_state t = RUNNING) ts)\<rparr>)
       (remdups (map tn_name (tenants d)))"

record gauges =
  queue_depth :: "(string \<times> nat) list"
  tasks_running :: "(string \<times> nat) list"
  workers_by_status :: "(worker_status \<times> nat) list"
  global_queued :: nat
  tasks_backlogged :: nat
  leases_expired_pending :: nat

text \<open>
  A gauge with a label holds a value per label value: \<open>labels(..).set(..)\<close> sets one of them and leaves
  the others, \<open>clear()\<close> drops them all.
\<close>

definition set_gauge :: "'k \<Rightarrow> nat \<Rightarrow> ('k \<times> nat) list \<Rightarrow> ('k \<times> nat) list" where
  "set_gauge k v g =
     (if k \<in> fst ` set g then map (\<lambda>(k', v'). if k' = k then (k', v) else (k', v')) g else g @ [(k, v)])"

definition clear_gauges :: "gauges \<Rightarrow> gauges" where
  "clear_gauges g = g\<lparr>queue_depth := [], tasks_running := [], workers_by_status := []\<rparr>"

text \<open>\<open>SELECT status, count(*) .. GROUP BY status\<close>.\<close>

definition worker_rows :: "db \<Rightarrow> (worker_status \<times> nat) list" where
  "worker_rows d = map (\<lambda>s. (s, length (filter (\<lambda>w. w_status w = s) (workers d)))) (remdups (map w_status (workers d)))"

definition refresh_once :: "db \<Rightarrow> gauges \<Rightarrow> gauges" where
  "refresh_once d g =
     (let rows = queue_rows d;
          backlog = length (filter (\<lambda>t. t_state t = QUEUED \<and> available_at t > now d) (tasks d));
          pending = length (filter (\<lambda>t. t_state t = RUNNING
            \<and> (case lease_expires_at t of None \<Rightarrow> False | Some e \<Rightarrow> e < now d)) (tasks d));
          g1 = fold (\<lambda>r h. h\<lparr>queue_depth := set_gauge (qr_tenant r) (qr_runnable r) (queue_depth h),
                            tasks_running := set_gauge (qr_tenant r) (qr_running r) (tasks_running h)\<rparr>) rows (clear_gauges g);
          g2 = fold (\<lambda>(s, n) h. h\<lparr>workers_by_status := set_gauge s n (workers_by_status h)\<rparr>) (worker_rows d) g1
      in g2\<lparr>global_queued := sum_list (map qr_runnable rows), tasks_backlogged := backlog,
            leases_expired_pending := pending\<rparr>)"

text \<open>What a refresh leaves does not depend on the gauges before it, because it clears them first.\<close>

lemma set_gauges:
  assumes "distinct (map k xs)" "\<forall>x \<in> set xs. k x \<notin> fst ` set g"
  shows "fold (\<lambda>x. set_gauge (k x) (v x)) xs g = g @ map (\<lambda>x. (k x, v x)) xs"
  using assms
proof (induction xs arbitrary: g)
  case (Cons x xs)
  have "set_gauge (k x) (v x) g = g @ [(k x, v x)]" using Cons.prems(2) by (simp add: set_gauge_def)
  moreover have "k y \<noteq> k x" if "y \<in> set xs" for y using Cons.prems(1) that by (metis distinct.simps(2) imageI list.set_map list.simps(9))
  then have "\<forall>y \<in> set xs. k y \<notin> fst ` set (g @ [(k x, v x)])" using Cons.prems(2) by auto
  ultimately show ?case using Cons.IH [of "g @ [(k x, v x)]"] Cons.prems(1) by simp
qed simp

lemma set_queue_gauges:
  "fold (\<lambda>r h. h\<lparr>queue_depth := set_gauge (qr_tenant r) (qr_runnable r) (queue_depth h),
      tasks_running := set_gauge (qr_tenant r) (qr_running r) (tasks_running h)\<rparr>) rows h =
   h\<lparr>queue_depth := fold (\<lambda>r. set_gauge (qr_tenant r) (qr_runnable r)) rows (queue_depth h),
     tasks_running := fold (\<lambda>r. set_gauge (qr_tenant r) (qr_running r)) rows (tasks_running h)\<rparr>"
  by (induction rows arbitrary: h) simp_all

lemma set_worker_gauges:
  "fold (\<lambda>(s, n) h. h\<lparr>workers_by_status := set_gauge s n (workers_by_status h)\<rparr>) sns h =
   h\<lparr>workers_by_status := fold (\<lambda>x. set_gauge (fst x) (snd x)) sns (workers_by_status h)\<rparr>"
  by (induction sns arbitrary: h) (simp_all add: case_prod_beta)

lemma refresh_once_eq:
  "refresh_once d g =
     \<lparr>queue_depth = map (\<lambda>r. (qr_tenant r, qr_runnable r)) (queue_rows d),
      tasks_running = map (\<lambda>r. (qr_tenant r, qr_running r)) (queue_rows d),
      workers_by_status = worker_rows d,
      global_queued = sum_list (map qr_runnable (queue_rows d)),
      tasks_backlogged = length (filter (\<lambda>t. t_state t = QUEUED \<and> available_at t > now d) (tasks d)),
      leases_expired_pending = length (filter (\<lambda>t. t_state t = RUNNING
        \<and> (case lease_expires_at t of None \<Rightarrow> False | Some e \<Rightarrow> e < now d)) (tasks d))\<rparr>"
proof -
  have q: "distinct (map qr_tenant (queue_rows d))" by (simp add: queue_rows_def comp_def Let_def)
  have w: "distinct (map fst (worker_rows d))" by (simp add: worker_rows_def comp_def)
  show ?thesis
    by (simp add: refresh_once_def Let_def clear_gauges_def set_queue_gauges set_worker_gauges set_gauges [OF q]
        set_gauges [OF w])
qed

text \<open>\<open>obs/metrics.py\<close>: the closed vocabulary of the \<open>error_class\<close> label.\<close>

definition normalize_error_class :: "string option \<Rightarrow> string" where
  "normalize_error_class nm =
     (case py_or nm None of None \<Rightarrow> ''none''
      | Some s \<Rightarrow> if s \<in> failure_value ` set ALL_FAILURE_CLASSES then s else ''other'')"

end
