(* ===== verification/Candidates.thy ===== *)
theory Candidates
  imports Invariant Scheduling
begin

text \<open>
  The candidate selection of \<open>db/queries/claim.py\<close> (\<open>_fetch_candidates\<close>): the merge of one
  ordered, locked, limited index scan per satisfiable capability key, and the containment filter
  a worker with many capabilities falls back to. Both are one ordered scan of the queue, which is
  the contract \<open>ordered_candidates\<close>; the claim relies on the weaker \<open>candidates\<close>.

  \<open>FOR UPDATE SKIP LOCKED\<close> skips the rows other open transactions have locked: their ids are the
  parameter \<open>locked\<close>. A row this transaction has locked itself is in \<open>seen_ids\<close>.
\<close>

section \<open>The two strategies\<close>

definition claim_key :: "task \<Rightarrow> int \<times> rat \<times> uuid" where
  "claim_key t = (priority t, available_at t, t_id t)"

text \<open>One LATERAL branch: the scan for one key.\<close>

definition lateral_branch :: "nat \<Rightarrow> uuid list \<Rightarrow> uuid list \<Rightarrow> db \<Rightarrow> string \<Rightarrow> task list" where
  "lateral_branch need seen_ids locked d k =
     take need (sort_key claim_key (filter (\<lambda>t. t_state t = QUEUED \<and> available_at t \<le> now d
        \<and> t_capability_key t = k \<and> t_id t \<notin> set seen_ids \<and> t_id t \<notin> set locked) (tasks d)))"

definition keyed_candidates ::
  "string list \<Rightarrow> uuid list \<Rightarrow> nat \<Rightarrow> uuid list \<Rightarrow> db \<Rightarrow> task list" where
  "keyed_candidates normalised_caps locked need seen_ids d =
     (let rows = concat (map (lateral_branch need seen_ids locked d)
                           (satisfiable_capability_keys normalised_caps))
      in take need (sort_key claim_key rows))"

text \<open>The value of an \<open>ORDER BY\<close> list on a row; rows compare by the list of their values.\<close>

fun column_value :: "sort_key \<Rightarrow> task \<Rightarrow> rat" where
  "column_value PRIORITY t = of_int (priority t)"
| "column_value AVAILABLE_AT t = available_at t"
| "column_value CREATED_AT t = t_created_at t"
| "column_value SORT_ID t = of_nat (t_id t)"

fun directed :: "direction \<Rightarrow> rat \<Rightarrow> rat" where
  "directed ASC v = v"
| "directed DESC v = - v"

definition policy_key :: "claim_policy \<Rightarrow> task \<Rightarrow> rat list" where
  "policy_key p t = map (\<lambda>(k, dir). directed dir (column_value k t)) (order_by p)"

definition contained_by :: "string list \<Rightarrow> string list \<Rightarrow> bool" where
  "contained_by xs ys = list_all (\<lambda>x. x \<in> set ys) xs"

definition fallback_candidates ::
  "string list \<Rightarrow> claim_policy \<Rightarrow> uuid list \<Rightarrow> nat \<Rightarrow> uuid list \<Rightarrow> db \<Rightarrow> task list" where
  "fallback_candidates wc policy locked need seen_ids d =
     take need (sort_key (policy_key policy) (filter (\<lambda>t. t_state t = QUEUED \<and> available_at t \<le> now d
        \<and> contained_by (t_required_capabilities t) wc
        \<and> t_id t \<notin> set seen_ids \<and> t_id t \<notin> set locked) (tasks d)))"

definition fetch_candidates ::
  "string list \<Rightarrow> claim_policy \<Rightarrow> uuid list \<Rightarrow> nat \<Rightarrow> uuid list \<Rightarrow> db \<Rightarrow> task list" where
  "fetch_candidates wc policy locked need seen_ids d =
     (let normalised_caps = normalise_caps wc in
      if length normalised_caps \<le> MAX_KEYED_CLAIM_CAPABILITIES
      then keyed_candidates normalised_caps locked need seen_ids d
      else fallback_candidates wc policy locked need seen_ids d)"

section \<open>The reference: one ordered scan\<close>

definition eligible :: "(task \<Rightarrow> bool) \<Rightarrow> uuid list \<Rightarrow> db \<Rightarrow> task \<Rightarrow> bool" where
  "eligible ok seen_ids d t =
     (t_state t = QUEUED \<and> available_at t \<le> now d \<and> ok t \<and> t_id t \<notin> set seen_ids)"

definition ordered_scan ::
  "(task \<Rightarrow> 'k::linorder) \<Rightarrow> (task \<Rightarrow> bool) \<Rightarrow> nat \<Rightarrow> uuid list \<Rightarrow> db \<Rightarrow> task list" where
  "ordered_scan key ok need seen_ids d =
     take need (sort_key key (filter (eligible ok seen_ids d) (tasks d)))"

definition keyed_ok :: "string list \<Rightarrow> uuid list \<Rightarrow> task \<Rightarrow> bool" where
  "keyed_ok caps locked t =
     (t_capability_key t \<in> set (satisfiable_capability_keys caps) \<and> t_id t \<notin> set locked)"

definition fallback_ok :: "string list \<Rightarrow> uuid list \<Rightarrow> task \<Rightarrow> bool" where
  "fallback_ok caps locked t =
     (contained_by (t_required_capabilities t) caps \<and> t_id t \<notin> set locked)"

definition candidate_ok :: "string list \<Rightarrow> uuid list \<Rightarrow> task \<Rightarrow> bool" where
  "candidate_ok caps locked t =
     (if length (normalise_caps caps) \<le> MAX_KEYED_CLAIM_CAPABILITIES
      then keyed_ok (normalise_caps caps) locked t else fallback_ok caps locked t)"

section \<open>A merge of limited ordered scans is a limited ordered scan\<close>

lemma take_filter: "x \<in> set (take n xs) \<Longrightarrow> P x \<Longrightarrow> x \<in> set (take n (filter P xs))"
proof (induction xs arbitrary: n)
  case (Cons y ys)
  then obtain m where n: "n = Suc m" by (cases n) auto
  with Cons.prems have "x = y \<or> x \<in> set (take m ys)" by simp
  then show ?case
  proof
    assume "x \<in> set (take m ys)"
    then have "x \<in> set (take m (filter P ys))" using Cons by blast
    then have "x \<in> set (take (Suc m) (filter P ys))"
      using set_take_subset_set_take [of m "Suc m" "filter P ys"] by auto
    then show ?thesis using n \<open>x \<in> set (take m (filter P ys))\<close> by simp
  qed (use n Cons.prems in simp)
qed simp

lemma take_filter_superset:
  assumes "set (take n xs) \<subseteq> A"
  shows "take n (filter (\<lambda>x. x \<in> A) xs) = take n xs"
proof (cases "length xs \<le> n")
  case True
  then show ?thesis using assms by (simp add: filter_id_conv subset_code(1))
next
  case False
  have "filter (\<lambda>x. x \<in> A) xs = filter (\<lambda>x. x \<in> A) (take n xs) @ filter (\<lambda>x. x \<in> A) (drop n xs)"
    by (metis append_take_drop_id filter_append)
  also have "filter (\<lambda>x. x \<in> A) (take n xs) = take n xs"
    using assms by (simp add: filter_id_conv subset_code(1))
  finally show ?thesis using False by simp
qed

lemma sort_key_unique:
  assumes "distinct (map f xs)" "distinct (map f ys)" "set xs = set ys" "sorted (map f ys)"
  shows "sort_key f xs = ys"
proof (rule map_sorted_distinct_set_unique [where f = f])
  show "inj_on f (set (sort_key f xs) \<union> set ys)" using assms by (simp add: distinct_map)
  show "distinct (map f (sort_key f xs))" using assms by (simp add: distinct_map)
qed (use assms in auto)

lemma distinct_merge:
  assumes "distinct ks" "distinct xs"
  shows "distinct (concat (map (\<lambda>k. take n (sort_key f (filter (\<lambda>x. g x = k) xs))) ks))"
proof -
  define B where "B k = take n (sort_key f (filter (\<lambda>x. g x = k) xs))" for k
  have B: "distinct (B k)" "set (B k) \<subseteq> {x. g x = k}" for k
    using assms(2) by (auto simp: B_def dest: in_set_takeD)
  from assms(1) have "distinct (concat (map B ks))"
  proof (induction ks)
    case (Cons k ks)
    have "set (B k) \<inter> set (concat (map B ks)) = {}"
    proof -
      have "x \<notin> set (B k')" if "x \<in> set (B k)" "k' \<in> set ks" for x k'
        using that B(2) [of k] B(2) [of k'] Cons.prems by auto
      then show ?thesis by auto
    qed
    with Cons B(1) show ?case by simp
  qed simp
  then show ?thesis unfolding B_def [abs_def] .
qed

lemma merge_is_scan:
  fixes f :: "'a \<Rightarrow> 'k::linorder"
  assumes inj: "distinct (map f xs)" and "distinct ks"
  shows "take n (sort_key f (concat (map (\<lambda>k. take n (sort_key f (filter (\<lambda>x. g x = k) xs))) ks)))
    = take n (sort_key f (filter (\<lambda>x. g x \<in> set ks) xs))"
proof -
  define S where "S = sort_key f (filter (\<lambda>x. g x \<in> set ks) xs)"
  define M where "M = concat (map (\<lambda>k. take n (sort_key f (filter (\<lambda>x. g x = k) xs))) ks)"
  have branch: "sort_key f (filter (\<lambda>x. g x = k) xs) = filter (\<lambda>x. g x = k) S" if "k \<in> set ks" for k
    using that by (auto simp: S_def simp flip: filter_sort intro!: arg_cong [where f = "sort_key f"] filter_cong)
  have MS: "set M \<subseteq> set S"
    unfolding M_def using branch by (auto dest!: in_set_takeD)
  have SM: "set (take n S) \<subseteq> set M"
  proof
    fix x assume x: "x \<in> set (take n S)"
    then have "g x \<in> set ks" by (auto simp: S_def dest: in_set_takeD)
    moreover have "x \<in> set (take n (sort_key f (filter (\<lambda>y. g y = g x) xs)))"
      using take_filter [OF x, of "\<lambda>y. g y = g x"] branch [OF calculation] by simp
    ultimately show "x \<in> set M" by (auto simp: M_def)
  qed
  have dS: "distinct (map f S)" "sorted (map f S)"
    using inj by (auto simp: S_def distinct_map intro: inj_on_subset)
  have dM: "distinct (map f M)"
    using distinct_merge [OF assms(2), of xs n f g] inj MS dS(1)
    by (simp add: M_def distinct_map) (metis inj_on_subset)
  have "sort_key f M = filter (\<lambda>x. x \<in> set M) S"
  proof (rule sort_key_unique [OF dM])
    show "distinct (map f (filter (\<lambda>x. x \<in> set M) S))" by (rule distinct_map_filter [OF dS(1)])
    show "set M = set (filter (\<lambda>x. x \<in> set M) S)" using MS by auto
    show "sorted (map f (filter (\<lambda>x. x \<in> set M) S))" by (rule sorted_filter [OF dS(2)])
  qed
  then show ?thesis
    using take_filter_superset [OF SM] by (simp add: M_def S_def)
qed

section \<open>The contracts\<close>

text \<open>
  What the claim relies on: candidates are eligible rows of the table, no more than asked for, and
  no row twice.
\<close>

locale candidates =
  fixes fetch :: "nat \<Rightarrow> uuid list \<Rightarrow> db \<Rightarrow> task list" and ok :: "task \<Rightarrow> bool"
  assumes fetch_sound: "t \<in> set (fetch n seen d) \<Longrightarrow> t \<in> set (tasks d) \<and> eligible ok seen d t"
    and fetch_bound: "length (fetch n seen d) \<le> n"
    and fetch_distinct: "ids_distinct d \<Longrightarrow> distinct (map t_id (fetch n seen d))"

text \<open>The stronger contract: one ordered scan of the queue.\<close>

locale ordered_candidates =
  fixes fetch :: "nat \<Rightarrow> uuid list \<Rightarrow> db \<Rightarrow> task list" and ok :: "task \<Rightarrow> bool"
    and key :: "task \<Rightarrow> 'k::linorder"
  assumes fetch_scan: "ids_distinct d \<Longrightarrow> fetch n seen d = ordered_scan key ok n seen d"
    and fetch_eligible: "t \<in> set (fetch n seen d) \<Longrightarrow> t \<in> set (tasks d) \<and> eligible ok seen d t"
    and fetch_limit: "length (fetch n seen d) \<le> n"
begin

text \<open>No eligible row left out comes before one that was taken.\<close>

lemma fetch_priority:
  assumes "ids_distinct d" "t \<in> set (fetch n seen d)" "u \<in> set (tasks d)" "eligible ok seen d u"
    and "u \<notin> set (fetch n seen d)"
  shows "key t \<le> key u"
proof -
  define S where "S = sort_key key (filter (eligible ok seen d) (tasks d))"
  have f: "fetch n seen d = take n S"
    using fetch_scan [OF assms(1)] by (simp add: ordered_scan_def S_def)
  have "u \<in> set S" using assms(3,4) by (simp add: S_def)
  then have "u \<in> set (drop n S)"
    using assms(5) f by (metis append_take_drop_id Un_iff set_append)
  moreover have "sorted (map key (take n S @ drop n S))" by (simp add: S_def)
  ultimately show ?thesis
    using assms(2) unfolding f by (simp only: map_append sorted_append) auto
qed

end

sublocale ordered_candidates \<subseteq> candidates fetch ok
proof
  show "distinct (map t_id (fetch n seen d))" if "ids_distinct d" for n seen d
  proof -
    have "distinct (map t_id (sort_key key (filter (eligible ok seen d) (tasks d))))"
      using that by (auto simp: ids_distinct_def distinct_map intro: inj_on_subset)
    then show ?thesis
      by (simp add: fetch_scan [OF that] ordered_scan_def distinct_take flip: take_map)
  qed
qed (use fetch_eligible fetch_limit in auto)

lemma claim_key_distinct: "ids_distinct d \<Longrightarrow> distinct (map claim_key (tasks d))"
  by (auto simp: ids_distinct_def distinct_map inj_on_def claim_key_def)

lemma lateral_branch_eq:
  "lateral_branch need seen locked d k =
     take need (sort_key claim_key (filter (\<lambda>t. t_capability_key t = k)
       (filter (eligible (\<lambda>t. t_id t \<notin> set locked) seen d) (tasks d))))"
proof -
  have "filter (\<lambda>t. t_state t = QUEUED \<and> available_at t \<le> now d
        \<and> t_capability_key t = k \<and> t_id t \<notin> set seen \<and> t_id t \<notin> set locked) (tasks d) =
      filter (\<lambda>t. t_capability_key t = k) (filter (eligible (\<lambda>t. t_id t \<notin> set locked) seen d) (tasks d))"
    by (auto simp: eligible_def intro!: filter_cong)
  then show ?thesis by (simp only: lateral_branch_def)
qed

lemma keyed_candidates_scan:
  assumes "ids_distinct d"
  shows "keyed_candidates caps locked n seen d = ordered_scan claim_key (keyed_ok caps locked) n seen d"
proof -
  let ?xs = "filter (eligible (\<lambda>t. t_id t \<notin> set locked) seen d) (tasks d)"
  have "distinct (map claim_key ?xs)"
    by (rule distinct_map_filter [OF claim_key_distinct [OF assms]])
  moreover have "distinct (satisfiable_capability_keys caps)"
    by (simp add: satisfiable_capability_keys_def Let_def)
  moreover have "lateral_branch n seen locked d =
      (\<lambda>k. take n (sort_key claim_key (filter (\<lambda>t. t_capability_key t = k) ?xs)))"
    by (rule ext) (rule lateral_branch_eq)
  ultimately have "keyed_candidates caps locked n seen d = take n (sort_key claim_key
      (filter (\<lambda>t. t_capability_key t \<in> set (satisfiable_capability_keys caps)) ?xs))"
    by (simp only: keyed_candidates_def Let_def merge_is_scan)
  also have "filter (\<lambda>t. t_capability_key t \<in> set (satisfiable_capability_keys caps)) ?xs =
      filter (eligible (keyed_ok caps locked) seen d) (tasks d)"
    by (auto simp: eligible_def keyed_ok_def intro!: filter_cong)
  finally show ?thesis by (simp only: ordered_scan_def)
qed

lemma keyed_candidates_eligible:
  assumes "t \<in> set (keyed_candidates caps locked n seen d)"
  shows "t \<in> set (tasks d) \<and> eligible (keyed_ok caps locked) seen d t"
  using assms unfolding keyed_candidates_def Let_def
  by (auto simp: lateral_branch_def eligible_def keyed_ok_def dest!: in_set_takeD)

interpretation keyed: ordered_candidates "keyed_candidates caps locked" "keyed_ok caps locked" claim_key
  for caps locked
  by unfold_locales
    (simp_all add: keyed_candidates_scan keyed_candidates_eligible, simp add: keyed_candidates_def Let_def)

lemma fallback_candidates_scan:
  "fallback_candidates caps policy locked n seen d =
     ordered_scan (policy_key policy) (fallback_ok caps locked) n seen d"
proof -
  have "filter (\<lambda>t. t_state t = QUEUED \<and> available_at t \<le> now d
        \<and> contained_by (t_required_capabilities t) caps
        \<and> t_id t \<notin> set seen \<and> t_id t \<notin> set locked) (tasks d) =
      filter (eligible (fallback_ok caps locked) seen d) (tasks d)"
    by (auto simp: eligible_def fallback_ok_def intro!: filter_cong)
  then show ?thesis by (simp only: fallback_candidates_def ordered_scan_def)
qed

interpretation fallback: ordered_candidates "fallback_candidates caps policy locked"
    "fallback_ok caps locked" "policy_key policy" for caps policy locked
  by unfold_locales
    (auto simp: fallback_candidates_scan ordered_scan_def dest!: in_set_takeD)

interpretation fetched: candidates "fetch_candidates caps policy locked" "candidate_ok caps locked"
  for caps policy locked
proof (cases "length (normalise_caps caps) \<le> MAX_KEYED_CLAIM_CAPABILITIES")
  case True
  then have "fetch_candidates caps policy locked = keyed_candidates (normalise_caps caps) locked"
    "candidate_ok caps locked = keyed_ok (normalise_caps caps) locked"
    by (simp_all add: fun_eq_iff fetch_candidates_def candidate_ok_def)
  then show "candidates (fetch_candidates caps policy locked) (candidate_ok caps locked)"
    using keyed.candidates_axioms by simp
next
  case False
  then have "fetch_candidates caps policy locked = fallback_candidates caps policy locked"
    "candidate_ok caps locked = fallback_ok caps locked"
    by (simp_all add: fun_eq_iff fetch_candidates_def candidate_ok_def)
  then show "candidates (fetch_candidates caps policy locked) (candidate_ok caps locked)"
    using fallback.candidates_axioms by simp
qed


section \<open>Properties\<close>

text \<open>
  C23. The keyed merge is exact: for every worker, queue and bound, the union of one limited,
  ordered index range scan per satisfiable capability key, sorted again and cut, is the list one
  ordered scan of the whole queue would give over the rows whose key the worker can satisfy:
  nothing that scan would return is lost to the per-key limits, and the order is its order.
\<close>

theorem keyed_merge_is_single_scan:
  assumes "ids_distinct d"
  shows "keyed_candidates caps locked need seen d =
    take need (sort_key claim_key (filter (\<lambda>t. t_state t = QUEUED \<and> available_at t \<le> now d
      \<and> t_capability_key t \<in> set (satisfiable_capability_keys caps)
      \<and> t_id t \<notin> set seen \<and> t_id t \<notin> set locked) (tasks d)))"
proof -
  have "eligible (keyed_ok caps locked) seen d = (\<lambda>t. t_state t = QUEUED \<and> available_at t \<le> now d
      \<and> t_capability_key t \<in> set (satisfiable_capability_keys caps)
      \<and> t_id t \<notin> set seen \<and> t_id t \<notin> set locked)"
    by (auto simp: eligible_def keyed_ok_def)
  then show ?thesis by (simp add: keyed.fetch_scan [OF assms] ordered_scan_def)
qed

text \<open>A queue with one plain task, one that needs a GPU and one that needs the internet.\<close>

definition demo_queued :: "uuid \<Rightarrow> int \<Rightarrow> string list \<Rightarrow> task" where
  "demo_queued i p caps = demo_task\<lparr>t_id := i, idempotency_key := None, priority := p,
     t_state := QUEUED, t_attempt := 0, lease_worker_id := None, lease_expires_at := None,
     first_started_at := None, t_required_capabilities := caps,
     t_capability_key := capability_key caps\<rparr>"

definition demo_queue :: db where
  "demo_queue = demo_db\<lparr>tasks := [demo_queued 1 100 [], demo_queued 2 50 [''gpu''],
     demo_queued 3 10 [''internet'']], task_attempts := []\<rparr>"

lemma demo_queue_ids: "ids_distinct demo_queue"
  by (simp add: ids_distinct_def demo_queue_def demo_queued_def)

theorem keyed_merge_is_single_scan_witness:
  "map t_id (keyed_candidates [''gpu''] [] 5 [] demo_queue) = [2, 1]"
proof -
  have "satisfiable_capability_keys [''gpu''] = [[], ''gpu'']" by code_simp
  moreover have "tasks demo_queue = [demo_queued 1 100 [], demo_queued 2 50 [''gpu''], demo_queued 3 10 [''internet'']]"
    "now demo_queue = 10" by (simp_all add: demo_queue_def demo_db_def empty_db_def)
  moreover have "capability_key [] = []" "capability_key [''gpu''] = ''gpu''"
    "capability_key [''internet''] = ''internet''" by code_simp+
  ultimately show ?thesis
    using keyed_merge_is_single_scan [OF demo_queue_ids, of "[''gpu'']" "[]" 5 "[]"]
    by (simp add: demo_queued_def demo_task_def claim_key_def)
qed

text \<open>
  Which tasks a worker is offered. With at most \<open>MAX_KEYED_CLAIM_CAPABILITIES\<close> capabilities,
  and capability names without commas, a task whose key was computed at submission is a candidate
  for the scan exactly if it is queued, due, not yet seen, not locked by another claim and the
  worker has every capability it requires; with an ample bound all of them are returned.
\<close>

theorem candidates_are_satisfiable:
  assumes "ids_distinct d" and "t \<in> set (tasks d)"
    and "t_capability_key t = capability_key (t_required_capabilities t)"
    and "comma_free (t_required_capabilities t)" and "comma_free caps"
    and "length (normalise_caps caps) \<le> MAX_KEYED_CLAIM_CAPABILITIES"
    and "length (tasks d) \<le> need"
  shows "t \<in> set (fetch_candidates caps policy locked need seen d) \<longleftrightarrow>
    t_state t = QUEUED \<and> available_at t \<le> now d \<and> worker_satisfies (t_required_capabilities t) caps
    \<and> t_id t \<notin> set seen \<and> t_id t \<notin> set locked"
proof -
  have len: "length (sort_key claim_key (filter P (tasks d))) \<le> need" for P
    using assms(7) length_filter_le [of P "tasks d"] by (simp only: length_sort)
  have "fetch_candidates caps policy locked need seen d =
      ordered_scan claim_key (keyed_ok (normalise_caps caps) locked) need seen d"
    using assms(6) by (simp add: fetch_candidates_def keyed.fetch_scan [OF assms(1)])
  then have "t \<in> set (fetch_candidates caps policy locked need seen d) \<longleftrightarrow>
      eligible (keyed_ok (normalise_caps caps) locked) seen d t"
    using assms(2) by (simp only: ordered_scan_def take_all [OF len]) simp
  moreover have "t_capability_key t \<in> set (satisfiable_capability_keys (normalise_caps caps)) \<longleftrightarrow>
      worker_satisfies (t_required_capabilities t) caps"
  proof -
    have "satisfiable_capability_keys (normalise_caps caps) = satisfiable_capability_keys caps"
      by (simp add: satisfiable_capability_keys_def)
    then show ?thesis
      using key_satisfies [OF assms(4,5)] satisfies_key assms(3) by metis
  qed
  ultimately show ?thesis by (auto simp: eligible_def keyed_ok_def)
qed

theorem candidates_are_satisfiable_witness:
  "demo_queued 2 50 [''gpu''] \<in> set (fetch_candidates [''gpu''] DEFAULT_POLICY [] 5 [] demo_queue)"
proof -
  let ?t = "demo_queued 2 50 [''gpu'']"
  have t: "?t \<in> set (tasks demo_queue)" "length (tasks demo_queue) \<le> 5"
    "t_capability_key ?t = capability_key (t_required_capabilities ?t)"
    "t_state ?t = QUEUED" "available_at ?t \<le> now demo_queue" "t_required_capabilities ?t = [''gpu'']"
    by (simp_all add: demo_queue_def demo_queued_def demo_db_def demo_task_def empty_db_def)
  have c: "comma_free (t_required_capabilities ?t)" "comma_free [''gpu'']"
    "length (normalise_caps [''gpu'']) \<le> MAX_KEYED_CLAIM_CAPABILITIES"
    "worker_satisfies (t_required_capabilities ?t) [''gpu'']"
    unfolding t(6) by code_simp+
  show ?thesis
    using candidates_are_satisfiable [OF demo_queue_ids t(1,3) c(1-3) t(2), of DEFAULT_POLICY "[]" "[]"] t c
    by simp
qed

text \<open>
  The containment filter compares the raw lists, the keyed path the normalised ones: a worker
  that declares a sixth capability is no longer offered a task whose requirement differs from its
  own only by case.
\<close>

theorem fallback_compares_raw:
  "let caps = [''a'', ''b'', ''c'', ''d'', ''gpu''];
       d = demo_queue\<lparr>tasks := [demo_queued 2 50 [''GPU'']]\<rparr> in
   map t_id (fetch_candidates caps DEFAULT_POLICY [] 5 [] d) = [2]
   \<and> fetch_candidates (caps @ [''e'']) DEFAULT_POLICY [] 5 [] d = []
   \<and> worker_satisfies [''GPU''] (caps @ [''e''])"
  by code_simp

end
