(* ===== verification/Claim.thy ===== *)
theory Claim
  imports Candidates
begin

text \<open>
  \<open>claim_tasks\<close> of \<open>db/queries/claim.py\<close>: rounds of candidate selection with the tenants'
  concurrency slack spent row by row, then the one \<open>UPDATE\<close> that grants the leases and bumps the
  fencing tokens, the events and the attempt rows.
\<close>

section \<open>The operation\<close>

definition MAX_ROUNDS :: nat where
  "MAX_ROUNDS = 4"

record claim_state =
  claimed_ids :: "uuid list"
  seen_ids :: "uuid list"
  slack :: "uuid \<rightharpoonup> int"
  slack_known :: "uuid list"

definition claim_start :: claim_state where
  "claim_start = \<lparr>claimed_ids = [], seen_ids = [], slack = Map.empty, slack_known = []\<rparr>"

definition running_of :: "db \<Rightarrow> uuid \<Rightarrow> nat" where
  "running_of d i = length (filter (\<lambda>t. t_tenant_id t = i \<and> t_state t = RUNNING) (tasks d))"

text \<open>The slack of the tenants first seen in this batch is read once and remembered.\<close>

definition load_slack :: "db \<Rightarrow> task list \<Rightarrow> claim_state \<Rightarrow> claim_state" where
  "load_slack d batch st =
     (let new_tenant_ids = filter (\<lambda>i. i \<notin> set (slack_known st)) (remdups (map t_tenant_id batch)) in
      if new_tenant_ids = [] then st
      else st\<lparr>slack := slack st ++ map_of (map (\<lambda>tn. (tn_id tn, max_concurrent_tasks tn - int (running_of d (tn_id tn))))
                 (filter (\<lambda>tn. tn_id tn \<in> set new_tenant_ids) (tenants d))),
              slack_known := slack_known st @ new_tenant_ids\<rparr>)"

text \<open>The loop over a batch, with its \<open>break\<close> and \<open>continue\<close>.\<close>

fun spend :: "int \<Rightarrow> task list \<Rightarrow> claim_state \<Rightarrow> claim_state" where
  "spend limit [] st = st"
| "spend limit (row # batch) st =
     (if int (length (claimed_ids st)) \<ge> limit then st
      else let remaining = (case slack st (t_tenant_id row) of None \<Rightarrow> 0 | Some n \<Rightarrow> n) in
        if remaining \<le> 0 then spend limit batch st
        else spend limit batch (st\<lparr>slack := (slack st)(t_tenant_id row \<mapsto> remaining - 1),
                                   claimed_ids := claimed_ids st @ [t_id row]\<rparr>))"

text \<open>\<open>for _ in range(MAX_ROUNDS)\<close>: the rounds left, the limit and the candidate query.\<close>

fun claim_rounds ::
  "nat \<Rightarrow> int \<Rightarrow> (nat \<Rightarrow> uuid list \<Rightarrow> db \<Rightarrow> task list) \<Rightarrow> db \<Rightarrow> claim_state \<Rightarrow> claim_state" where
  "claim_rounds 0 limit fetch d st = st"
| "claim_rounds (Suc n) limit fetch d st =
     (let need = limit - int (length (claimed_ids st)) in
      if need \<le> 0 then st
      else let batch = fetch (nat need) (seen_ids st) d in
        if batch = [] then st
        else claim_rounds n limit fetch d
               (spend limit batch
                 (load_slack d batch (st\<lparr>seen_ids := seen_ids st @ map t_id batch\<rparr>))))"

definition claim_set :: "time \<Rightarrow> string \<Rightarrow> int \<Rightarrow> task \<Rightarrow> assignment list" where
  "claim_set tn w ttl t =
     [SET_state RUNNING, SET_attempt (t_attempt t + 1), SET_lease_worker_id (Some w),
      SET_lease_expires_at (Some (tn + seconds (of_int ttl))),
      SET_first_started_at (case first_started_at t of None \<Rightarrow> Some tn | Some s \<Rightarrow> Some s),
      SET_updated_at tn]"

text \<open>\<open>[by_id[i] for i in claimed_ids if i in by_id]\<close>.\<close>

definition in_order :: "uuid list \<Rightarrow> task list \<Rightarrow> task list" where
  "in_order ids rows = List.map_filter (\<lambda>i. find_by t_id i rows) ids"

definition grant_leases :: "uuid list \<Rightarrow> string \<Rightarrow> int \<Rightarrow> db \<Rightarrow> exn + (task list \<times> db)" where
  "grant_leases ids w ttl d =
     bindE (update_tasks (\<lambda>t. t_id t \<in> set ids) (claim_set (now d) w ttl) d) (\<lambda>(updated, d1).
       let rows = in_order ids updated in
       bindE (foldE (\<lambda>r. insert_event (t_id r) TASK_CLAIMED (Some (t_attempt r)) (Some w) []) rows d1) (\<lambda>d2.
       bindE (foldE (\<lambda>r. insert_attempt (t_id r) (t_attempt r) w) rows d2) (\<lambda>d3.
       Inr (rows, d3))))"

definition claim_tasks ::
  "string \<Rightarrow> int \<Rightarrow> int \<Rightarrow> claim_policy \<Rightarrow> string list \<Rightarrow> uuid list \<Rightarrow> db \<Rightarrow> exn + (task list \<times> db)" where
  "claim_tasks w limit ttl policy caps locked d =
     (let ids = claimed_ids (claim_rounds MAX_ROUNDS limit (fetch_candidates caps policy locked) d claim_start)
      in if ids = [] then Inr ([], d) else grant_leases ids w ttl d)"

section \<open>The rounds\<close>

text \<open>The claimed tasks of a tenant, counted over the ids chosen so far.\<close>

definition claimed_for :: "db \<Rightarrow> uuid list \<Rightarrow> uuid \<Rightarrow> nat" where
  "claimed_for d ids i = length (filter (\<lambda>j. map_option t_tenant_id (find_task d j) = Some i) ids)"

lemma claimed_for_Nil [simp]: "claimed_for d [] i = 0"
  by (simp add: claimed_for_def)

lemma claimed_for_snoc:
  "find_task d j = Some t \<Longrightarrow>
     claimed_for d (ids @ [j]) i = claimed_for d ids i + (if t_tenant_id t = i then 1 else 0)"
  by (simp add: claimed_for_def)

text \<open>
  The invariant of the rounds: what was chosen was seen, eligible and chosen once, at most \<open>limit\<close>
  rows; the recorded slack is the tenant's bound less what runs and what was chosen, and a tenant
  with something chosen was within its bound.
\<close>

definition chosen_ok :: "(task \<Rightarrow> bool) \<Rightarrow> int \<Rightarrow> db \<Rightarrow> claim_state \<Rightarrow> bool" where
  "chosen_ok ok limit d st \<longleftrightarrow> distinct (claimed_ids st) \<and> set (claimed_ids st) \<subseteq> set (seen_ids st)
     \<and> int (length (claimed_ids st)) \<le> max limit 0
     \<and> (\<forall>i \<in> set (claimed_ids st). \<exists>t. find_task d i = Some t \<and> eligible ok [] d t)"

definition slack_ok :: "db \<Rightarrow> claim_state \<Rightarrow> tenant \<Rightarrow> bool" where
  "slack_ok d st tn \<longleftrightarrow>
     (let n = max_concurrent_tasks tn - int (running_of d (tn_id tn)); c = claimed_for d (claimed_ids st) (tn_id tn) in
      (if tn_id tn \<in> set (slack_known st) then slack st (tn_id tn) = Some (n - int c)
       else slack st (tn_id tn) = None \<and> c = 0)
      \<and> (0 < c \<longrightarrow> int c \<le> n))"

definition slacks_ok :: "db \<Rightarrow> claim_state \<Rightarrow> bool" where
  "slacks_ok d st \<longleftrightarrow> (\<forall>tn \<in> set (tenants d). slack_ok d st tn)"

definition round_ok :: "(task \<Rightarrow> bool) \<Rightarrow> int \<Rightarrow> db \<Rightarrow> claim_state \<Rightarrow> bool" where
  "round_ok ok limit d st \<longleftrightarrow> chosen_ok ok limit d st \<and> slacks_ok d st"

lemma round_ok_start: "round_ok ok limit d claim_start"
  by (simp add: round_ok_def chosen_ok_def slacks_ok_def slack_ok_def claim_start_def)

lemma load_slack_ids [simp]:
  "claimed_ids (load_slack d batch st) = claimed_ids st" "seen_ids (load_slack d batch st) = seen_ids st"
  by (simp_all add: load_slack_def Let_def)

lemma slack_ok_seen [simp]: "slack_ok d (st\<lparr>seen_ids := xs\<rparr>) tn = slack_ok d st tn"
  by (simp add: slack_ok_def)

lemma load_slack_known:
  "set (slack_known (load_slack d batch st)) = set (slack_known st) \<union> t_tenant_id ` set batch"
  by (auto simp: load_slack_def Let_def filter_empty_conv)

lemma map_of_tenants:
  assumes "distinct (map tn_id tns)" "tn \<in> set tns"
  shows "map_of (map (\<lambda>tn. (tn_id tn, g tn)) (filter (\<lambda>tn. tn_id tn \<in> A) tns)) (tn_id tn) =
    (if tn_id tn \<in> A then Some (g tn) else None)"
  using assms
proof (induction tns)
  case (Cons t tns)
  have "map_of (map (\<lambda>tn. (tn_id tn, g tn)) (filter (\<lambda>tn. tn_id tn \<in> A) tns)) i = None"
    if "i \<notin> A" for i using that by (auto simp: map_of_eq_None_iff)
  with Cons show ?case by (auto simp: image_iff)
qed simp

lemma load_slack_ok:
  assumes "distinct (map tn_id (tenants d))" "slacks_ok d st"
  shows "slacks_ok d (load_slack d batch st)"
  unfolding slacks_ok_def
proof
  fix tn assume tn: "tn \<in> set (tenants d)"
  then have ok: "slack_ok d st tn" using assms(2) by (simp add: slacks_ok_def)
  define new where "new = filter (\<lambda>i. i \<notin> set (slack_known st)) (remdups (map t_tenant_id batch))"
  show "slack_ok d (load_slack d batch st) tn"
  proof (cases "new = []")
    case True
    then show ?thesis using ok by (simp add: load_slack_def new_def Let_def)
  next
    case False
    have st: "load_slack d batch st = st\<lparr>slack := slack st ++ map_of (map (\<lambda>tn. (tn_id tn, max_concurrent_tasks tn - int (running_of d (tn_id tn))))
                 (filter (\<lambda>tn. tn_id tn \<in> set new) (tenants d))), slack_known := slack_known st @ new\<rparr>"
      using False by (simp add: load_slack_def new_def Let_def)
    have "tn_id tn \<in> set new \<Longrightarrow> tn_id tn \<notin> set (slack_known st)" by (simp add: new_def)
    then show ?thesis
      using ok map_of_tenants [OF assms(1) tn, of "\<lambda>tn. max_concurrent_tasks tn - int (running_of d (tn_id tn))" "set new"]
      by (cases "tn_id tn \<in> set new")
        (simp_all add: slack_ok_def st Let_def map_add_def)
  qed
qed

text \<open>One batch.\<close>

lemma spend_ok:
  assumes "round_ok ok limit d st" "distinct (map tn_id (tenants d))" "0 < limit"
    and "\<And>t. t \<in> set batch \<Longrightarrow> find_task d (t_id t) = Some t \<and> eligible ok [] d t
          \<and> t_id t \<in> set (seen_ids st) \<and> t_id t \<notin> set (claimed_ids st)
          \<and> t_tenant_id t \<in> set (slack_known st) \<and> t_tenant_id t \<in> tn_id ` set (tenants d)"
    and "distinct (map t_id batch)"
  shows "round_ok ok limit d (spend limit batch st)
    \<and> seen_ids (spend limit batch st) = seen_ids st
    \<and> set (claimed_ids (spend limit batch st)) \<subseteq> set (claimed_ids st) \<union> t_id ` set batch"
  using assms
proof (induction batch arbitrary: st)
  case Nil
  then show ?case by simp
next
  case (Cons row batch)
  have row: "find_task d (t_id row) = Some row" "eligible ok [] d row" "t_id row \<in> set (seen_ids st)"
    "t_id row \<notin> set (claimed_ids st)" "t_tenant_id row \<in> set (slack_known st)"
    "t_tenant_id row \<in> tn_id ` set (tenants d)"
    using Cons.prems(4) [of row] by simp_all
  obtain tn where tn: "tn \<in> set (tenants d)" "tn_id tn = t_tenant_id row" using row(6) by auto
  have stn: "slack_ok d st tn" using Cons.prems(1) tn(1) by (simp add: round_ok_def slacks_ok_def)
  then obtain n where n: "slack st (t_tenant_id row) = Some n"
    "n = max_concurrent_tasks tn - int (running_of d (tn_id tn)) - int (claimed_for d (claimed_ids st) (tn_id tn))"
    using row(5) tn(2) by (simp add: slack_ok_def Let_def)
  show ?case
  proof (cases "int (length (claimed_ids st)) \<ge> limit")
    case True
    then show ?thesis using Cons.prems(1) by auto
  next
    case False
    note lim = this
    show ?thesis
    proof (cases "n \<le> 0")
      case True
      then have "spend limit (row # batch) st = spend limit batch st" using lim n(1) by simp
      moreover have "round_ok ok limit d (spend limit batch st)
        \<and> seen_ids (spend limit batch st) = seen_ids st
        \<and> set (claimed_ids (spend limit batch st)) \<subseteq> set (claimed_ids st) \<union> t_id ` set batch"
        by (rule Cons.IH) (use Cons.prems in auto)
      ultimately show ?thesis by auto
    next
      case False
      define st' where "st' = st\<lparr>slack := (slack st)(t_tenant_id row \<mapsto> n - 1),
        claimed_ids := claimed_ids st @ [t_id row]\<rparr>"
      have sel: "claimed_ids st' = claimed_ids st @ [t_id row]" "seen_ids st' = seen_ids st"
        "slack_known st' = slack_known st" "slack st' = (slack st)(t_tenant_id row \<mapsto> n - 1)"
        by (simp_all add: st'_def)
      have sp: "spend limit (row # batch) st = spend limit batch st'"
        using lim n(1) False by (simp add: st'_def Let_def)
      have "slack_ok d st' u" if u: "u \<in> set (tenants d)" for u
      proof (cases "tn_id u = t_tenant_id row")
        case True
        then have "u = tn"
          using u tn Cons.prems(2) by (metis distinct_map inj_onD)
        then show ?thesis
          using n False row(5) tn(2)
          by (simp add: slack_ok_def Let_def sel claimed_for_snoc [OF row(1)])
      next
        case other: False
        have "slack_ok d st u" using Cons.prems(1) u by (simp add: round_ok_def slacks_ok_def)
        then show ?thesis
          using other by (simp add: slack_ok_def Let_def sel claimed_for_snoc [OF row(1)])
      qed
      moreover have "chosen_ok ok limit d st'"
        using Cons.prems(1) row lim Cons.prems(3) by (auto simp: round_ok_def chosen_ok_def sel)
      ultimately have "round_ok ok limit d st'" by (simp add: round_ok_def slacks_ok_def)
      then have "round_ok ok limit d (spend limit batch st')
        \<and> seen_ids (spend limit batch st') = seen_ids st'
        \<and> set (claimed_ids (spend limit batch st')) \<subseteq> set (claimed_ids st') \<union> t_id ` set batch"
      proof (rule Cons.IH)
        fix t assume t: "t \<in> set batch"
        moreover have "t_id row \<notin> t_id ` set batch" using Cons.prems(5) by simp
        ultimately have "t_id t \<noteq> t_id row" by (metis imageI)
        then show "find_task d (t_id t) = Some t \<and> eligible ok [] d t
          \<and> t_id t \<in> set (seen_ids st') \<and> t_id t \<notin> set (claimed_ids st')
          \<and> t_tenant_id t \<in> set (slack_known st') \<and> t_tenant_id t \<in> tn_id ` set (tenants d)"
          using Cons.prems(4) [of t] t by (simp add: sel)
      qed (use Cons.prems in auto)
      then show ?thesis unfolding sp sel by auto
    qed
  qed
qed

context candidates
begin

text \<open>One round, and the rounds: they keep the invariant, whatever satisfies the contract of a candidate query.\<close>

lemma one_round_ok:
  assumes "db_inv d" "round_ok ok limit d st" "0 < limit" "batch = fetch n (seen_ids st) d"
    and "st1 = load_slack d batch (st\<lparr>seen_ids := seen_ids st @ map t_id batch\<rparr>)"
  shows "round_ok ok limit d st1" "round_ok ok limit d (spend limit batch st1)"
proof -
  have tn: "distinct (map tn_id (tenants d))" and ids: "ids_distinct d"
    using assms(1) by (simp_all add: db_inv_def)
  have sel: "claimed_ids st1 = claimed_ids st" "seen_ids st1 = seen_ids st @ map t_id batch"
    by (simp_all add: assms(5))
  have "slacks_ok d (st\<lparr>seen_ids := seen_ids st @ map t_id batch\<rparr>)"
    using assms(2) by (simp add: round_ok_def slacks_ok_def)
  then have "slacks_ok d st1" unfolding assms(5) by (rule load_slack_ok [OF tn])
  then show st1: "round_ok ok limit d st1"
    using assms(2) by (auto simp: round_ok_def chosen_ok_def sel)
  show "round_ok ok limit d (spend limit batch st1)"
  proof (rule spend_ok [OF st1 tn assms(3), THEN conjunct1])
    show "distinct (map t_id batch)" unfolding assms(4) by (rule fetch_distinct [OF ids])
    fix t assume t: "t \<in> set batch"
    have in_t: "t \<in> set (tasks d)" and el: "eligible ok (seen_ids st) d t"
      using fetch_sound [of t n "seen_ids st" d] t by (simp_all add: assms(4))
    have "find_task d (t_id t) = Some t"
      using in_t ids by (simp add: find_task_def ids_distinct_def find_by_in_set)
    moreover have "t_tenant_id t \<in> tn_id ` set (tenants d)"
      using assms(1) in_t by (simp add: db_inv_def tenant_refs_def)
    moreover have "t_id t \<notin> set (claimed_ids st)"
      using el assms(2) by (auto simp: eligible_def round_ok_def chosen_ok_def)
    moreover have "t_tenant_id t \<in> set (slack_known st1)"
      using t by (simp add: assms(5) load_slack_known)
    ultimately show "find_task d (t_id t) = Some t \<and> eligible ok [] d t
        \<and> t_id t \<in> set (seen_ids st1) \<and> t_id t \<notin> set (claimed_ids st1)
        \<and> t_tenant_id t \<in> set (slack_known st1) \<and> t_tenant_id t \<in> tn_id ` set (tenants d)"
      using t el by (simp add: sel eligible_def)
  qed
qed

lemma rounds_ok:
  assumes "db_inv d" "round_ok ok limit d st"
  shows "round_ok ok limit d (claim_rounds n limit fetch d st)"
  using assms(2)
proof (induction n arbitrary: st)
  case 0
  then show ?case by simp
next
  case (Suc n)
  define need where "need = limit - int (length (claimed_ids st))"
  define batch where "batch = fetch (nat need) (seen_ids st) d"
  show ?case
  proof (cases "need \<le> 0 \<or> batch = []")
    case True
    then show ?thesis using Suc.prems by (auto simp: need_def batch_def Let_def)
  next
    case False
    have "0 < limit" using False by (simp add: need_def)
    from Suc.IH [OF one_round_ok(2) [OF assms(1) Suc.prems this batch_def refl]] False
    show ?thesis by (simp add: Let_def need_def batch_def)
  qed
qed

lemma claimed_ok:
  assumes "db_inv d"
  shows "round_ok ok limit d (claim_rounds n limit fetch d claim_start)"
  by (rule rounds_ok [OF assms round_ok_start])

end

section \<open>The grant\<close>

definition new_attempt :: "time \<Rightarrow> string \<Rightarrow> task \<Rightarrow> task_attempt" where
  "new_attempt tn w r = \<lparr>ta_task_id = t_id r, ta_attempt = t_attempt r, ta_worker_id = w,
     started_at = tn, ta_finished_at = None, outcome = None, ta_error_class = None,
     ta_error_message = None\<rparr>"

lemma insert_attempts:
  assumes "\<And>r. r \<in> set rows \<Longrightarrow> find_task d (t_id r) \<noteq> None" "find_worker d w \<noteq> None"
    and "distinct (map t_id rows)"
    and "\<And>r x. r \<in> set rows \<Longrightarrow> x \<in> set (task_attempts d) \<Longrightarrow> \<not> (ta_task_id x = t_id r \<and> ta_attempt x = t_attempt r)"
  shows "foldE (\<lambda>r. insert_attempt (t_id r) (t_attempt r) w) rows d =
    Inr (d\<lparr>task_attempts := task_attempts d @ map (new_attempt (now d) w) rows\<rparr>)"
  using assms
proof (induction rows arbitrary: d)
  case Nil
  then show ?case by simp
next
  case (Cons r rows)
  define d1 where "d1 = d\<lparr>task_attempts := task_attempts d @ [new_attempt (now d) w r]\<rparr>"
  have "insert_attempt (t_id r) (t_attempt r) w d = Inr d1"
    unfolding insert_attempt_Inr using Cons.prems by (auto simp: d1_def new_attempt_def)
  moreover have "foldE (\<lambda>r. insert_attempt (t_id r) (t_attempt r) w) rows d1 =
      Inr (d1\<lparr>task_attempts := task_attempts d1 @ map (new_attempt (now d1) w) rows\<rparr>)"
  proof (rule Cons.IH)
    show "find_task d1 (t_id q) \<noteq> None" if "q \<in> set rows" for q
      using Cons.prems(1) [of q] that by (simp add: d1_def find_task_def)
    show "find_worker d1 w \<noteq> None" using Cons.prems(2) by (simp add: d1_def find_worker_def)
    show "\<not> (ta_task_id x = t_id q \<and> ta_attempt x = t_attempt q)"
      if "q \<in> set rows" "x \<in> set (task_attempts d1)" for q x
      using Cons.prems(3) Cons.prems(4) [of q x] that by (auto simp: d1_def new_attempt_def)
  qed (use Cons.prems in auto)
  ultimately show ?case by (simp add: d1_def)
qed

lemma insert_events:
  assumes "\<And>r. r \<in> set rows \<Longrightarrow> find_task d (t_id r) \<noteq> None"
  shows "\<exists>es. foldE (\<lambda>r. insert_event (t_id r) TASK_CLAIMED (Some (t_attempt r)) (Some w) []) rows d =
      Inr (d\<lparr>task_events := task_events d @ es, next_event_id := next_event_id d + length rows\<rparr>)
    \<and> map (\<lambda>e. (te_task_id e, te_attempt e, te_event_type e, te_worker_id e)) es =
      map (\<lambda>r. (t_id r, Some (t_attempt r), TASK_CLAIMED, Some w)) rows"
  using assms
proof (induction rows arbitrary: d)
  case Nil
  then show ?case by simp
next
  case (Cons r rows)
  define e where "e = \<lparr>te_id = next_event_id d, te_task_id = t_id r, te_attempt = Some (t_attempt r),
    te_event_type = TASK_CLAIMED, te_worker_id = Some w, te_data = [], te_created_at = now d\<rparr>"
  define d1 where "d1 = d\<lparr>task_events := task_events d @ [e], next_event_id := next_event_id d + 1\<rparr>"
  have "insert_event (t_id r) TASK_CLAIMED (Some (t_attempt r)) (Some w) [] d = Inr d1"
    unfolding insert_event_Inr using Cons.prems by (simp add: d1_def e_def)
  moreover obtain es where "foldE (\<lambda>r. insert_event (t_id r) TASK_CLAIMED (Some (t_attempt r)) (Some w) []) rows d1 =
      Inr (d1\<lparr>task_events := task_events d1 @ es, next_event_id := next_event_id d1 + length rows\<rparr>)"
    "map (\<lambda>e. (te_task_id e, te_attempt e, te_event_type e, te_worker_id e)) es =
      map (\<lambda>r. (t_id r, Some (t_attempt r), TASK_CLAIMED, Some w)) rows"
    using Cons.IH [of d1] Cons.prems by (auto simp: d1_def find_task_def)
  ultimately show ?case by (intro exI [of _ "e # es"]) (simp add: d1_def e_def)
qed

lemma set_row_claim:
  "set_row (claim_set tn w ttl) t = t\<lparr>t_state := RUNNING, t_attempt := t_attempt t + 1,
     lease_worker_id := Some w, lease_expires_at := Some (tn + of_int ttl),
     first_started_at := Some (case first_started_at t of None \<Rightarrow> tn | Some s \<Rightarrow> s), updated_at := tn\<rparr>"
  by (simp add: set_row_def claim_set_def split: option.split)

lemma claimed_row_wf:
  assumes "row_wf t" "t_state t = QUEUED"
  shows "row_wf (set_row (claim_set tn w ttl) t)"
  using assms by (simp add: set_row_claim row_wf_def lease_coherent_def)

lemma claimed_log:
  assumes "log_ok t as" "t_state t = QUEUED" "0 \<le> t_attempt t"
  shows "log_ok (set_row (claim_set tn w ttl) t) (as @ [new_attempt tn w (set_row (claim_set tn w ttl) t)])"
proof -
  have as: "map ta_attempt as = [1..t_attempt t]" "outcome r \<noteq> None" "outcome r \<noteq> Some OUT_SUCCEEDED"
    "ta_attempt r \<noteq> t_attempt t + 1" if "r \<in> set as" for r
  proof -
    show "map ta_attempt as = [1..t_attempt t]" using assms(1) by (simp add: log_ok_def)
    then have "ta_attempt r \<in> set [1..t_attempt t]" using that by (metis image_eqI list.set_map)
    then show "ta_attempt r \<noteq> t_attempt t + 1" by simp
    show "outcome r \<noteq> None" "outcome r \<noteq> Some OUT_SUCCEEDED"
      using that assms by (simp_all add: log_ok_def del: not_None_eq)
  qed
  have "map ta_attempt as = [1..t_attempt t]" using assms(1) by (simp add: log_ok_def)
  moreover have "[1..t_attempt t + 1] = [1..t_attempt t] @ [t_attempt t + 1]"
    using upto_rec2 [of 1 "t_attempt t + 1"] assms(3) by simp
  ultimately show ?thesis
    using as(2-4) by (simp add: log_ok_def set_row_claim new_attempt_def del: not_None_eq)
qed

text \<open>The tasks behind the chosen ids, and the rows returned for them.\<close>

definition claimable :: "db \<Rightarrow> uuid list \<Rightarrow> bool" where
  "claimable d ids \<longleftrightarrow> distinct ids \<and> (\<forall>i \<in> set ids. \<exists>t. find_task d i = Some t \<and> t_state t = QUEUED)"

definition claimed_rows :: "uuid list \<Rightarrow> string \<Rightarrow> int \<Rightarrow> db \<Rightarrow> task list" where
  "claimed_rows ids w ttl d = map (\<lambda>i. set_row (claim_set (now d) w ttl) (the (find_task d i))) ids"

lemma find_by_filter_map:
  assumes "\<And>x. key (g x) = key x" "p k"
  shows "find_by key k (map g (filter (\<lambda>x. p (key x)) xs)) = map_option g (find_by key k xs)"
  using assms by (induction xs) auto

lemma in_order_claimed:
  assumes "claimable d ids"
  shows "in_order ids (sql_returning (\<lambda>t. t_id t \<in> set ids) (set_row (claim_set (now d) w ttl)) (tasks d)) =
    claimed_rows ids w ttl d"
proof -
  have f: "find_by t_id i (sql_returning (\<lambda>t. t_id t \<in> set ids) (set_row (claim_set (now d) w ttl)) (tasks d)) =
      Some (set_row (claim_set (now d) w ttl) (the (find_task d i)))" if "i \<in> set ids" for i
    using that assms
      find_by_filter_map [of t_id "set_row (claim_set (now d) w ttl)" "\<lambda>i. i \<in> set ids" i "tasks d"]
    by (auto simp: sql_returning_def find_task_def claimable_def)
  have gen: "List.map_filter g xs = map h xs" if "\<And>x. x \<in> set xs \<Longrightarrow> g x = Some (h x)" for g h and xs :: "uuid list"
    using that by (induction xs) (auto simp: map_filter_simps)
  show ?thesis unfolding in_order_def claimed_rows_def by (rule gen) (rule f)
qed

lemma claimed_rows_facts:
  assumes "claimable d ids"
  shows "map t_id (claimed_rows ids w ttl d) = ids"
    "length (claimed_rows ids w ttl d) = length ids"
    "\<And>r. r \<in> set (claimed_rows ids w ttl d) \<Longrightarrow> \<exists>t. find_task d (t_id r) = Some t \<and> t_id r \<in> set ids
       \<and> t_state t = QUEUED \<and> r = set_row (claim_set (now d) w ttl) t"
proof -
  have "t_id (the (find_task d i)) = i" if "i \<in> set ids" for i
    using assms that find_task_SomeD by (fastforce simp: claimable_def)
  then show "map t_id (claimed_rows ids w ttl d) = ids"
    by (simp add: claimed_rows_def comp_def map_idI)
  show "length (claimed_rows ids w ttl d) = length ids" by (simp add: claimed_rows_def)
  fix r assume "r \<in> set (claimed_rows ids w ttl d)"
  then obtain i where i: "i \<in> set ids" "r = set_row (claim_set (now d) w ttl) (the (find_task d i))"
    by (auto simp: claimed_rows_def)
  then obtain t where "find_task d i = Some t" "t_state t = QUEUED" using assms by (auto simp: claimable_def)
  with i show "\<exists>t. find_task d (t_id r) = Some t \<and> t_id r \<in> set ids
       \<and> t_state t = QUEUED \<and> r = set_row (claim_set (now d) w ttl) t"
    using find_task_SomeD by fastforce
qed

text \<open>The database after a grant: the updated table, the events and the new attempt rows.\<close>

definition granted_db :: "uuid list \<Rightarrow> string \<Rightarrow> int \<Rightarrow> task_event list \<Rightarrow> db \<Rightarrow> db" where
  "granted_db ids w ttl es d =
     d\<lparr>tasks := sql_update (\<lambda>t. t_id t \<in> set ids) (set_row (claim_set (now d) w ttl)) (tasks d),
       task_events := task_events d @ es, next_event_id := next_event_id d + length ids,
       task_attempts := task_attempts d @ map (new_attempt (now d) w) (claimed_rows ids w ttl d)\<rparr>"

lemma filter_map_inj:
  assumes "distinct ids" "\<And>i. i \<in> set ids \<Longrightarrow> k (g i) = i"
  shows "filter (\<lambda>x. k x = j) (map g ids) = (if j \<in> set ids then [g j] else [])"
  using assms
proof (induction ids)
  case (Cons i ids)
  have "filter (\<lambda>x. k x = i) (map g ids) = []"
    using Cons.prems by (auto simp: filter_empty_conv)
  with Cons show ?case by auto
qed simp

lemma attempts_of_granted:
  assumes "claimable d ids"
  shows "attempts_of (granted_db ids w ttl es d) j = attempts_of d j @
    (if j \<in> set ids then [new_attempt (now d) w (set_row (claim_set (now d) w ttl) (the (find_task d j)))] else [])"
proof -
  let ?g = "\<lambda>i. new_attempt (now d) w (set_row (claim_set (now d) w ttl) (the (find_task d i)))"
  have "map (new_attempt (now d) w) (claimed_rows ids w ttl d) = map ?g ids"
    by (simp add: claimed_rows_def)
  moreover have "ta_task_id (?g i) = i" if "i \<in> set ids" for i
    using that assms find_task_SomeD by (fastforce simp: claimable_def new_attempt_def)
  ultimately have "filter (\<lambda>r. ta_task_id r = j) (map (new_attempt (now d) w) (claimed_rows ids w ttl d)) =
      (if j \<in> set ids then [?g j] else [])"
    using filter_map_inj [of ids ta_task_id ?g j] assms by (simp add: claimable_def)
  then show ?thesis by (simp add: attempts_of_def granted_db_def)
qed

lemma claimable_task:
  assumes "db_inv d" "claimable d ids" "t \<in> set (tasks d)" "t_id t \<in> set ids"
  shows "find_task d (t_id t) = Some t" "t_state t = QUEUED" "row_wf t" "log_ok t (attempts_of d (t_id t))"
    "0 \<le> t_attempt t"
proof -
  show f: "find_task d (t_id t) = Some t"
    using assms(1,3) by (simp add: find_task_def db_inv_def ids_distinct_def find_by_in_set)
  then show "t_state t = QUEUED" using assms(2,4) by (auto simp: claimable_def)
  show wf: "row_wf t" "log_ok t (attempts_of d (t_id t))" by (rule db_inv_task [OF assms(1) f])+
  show "0 \<le> t_attempt t" using wf(1) by (simp add: row_wf_def)
qed

lemma granted_ok:
  assumes inv: "db_inv d" and cl: "claimable d ids" and w: "find_worker d w \<noteq> None"
    and es: "map te_task_id es = ids"
  shows "db_inv (granted_db ids w ttl es d)" and "db_step_ok d (granted_db ids w ttl es d)"
proof -
  let ?d = "granted_db ids w ttl es d" and ?f = "claim_set (now d) w ttl"
  have tasks: "tasks ?d = sql_update (\<lambda>t. t_id t \<in> set ids) (set_row ?f) (tasks d)"
    by (simp add: granted_db_def)
  have in_ids: "i \<in> t_id ` set (tasks d)" if "i \<in> set ids" for i
    using that cl find_task_iff [of d i] by (auto simp: claimable_def)
  show "db_inv ?d"
  proof (rule db_inv_update [OF inv tasks])
    fix t assume "t \<in> set (tasks d)" "t_id t \<in> set ids"
    note t = claimable_task [OF inv cl this] this
    have "attempts_of ?d (t_id t) = attempts_of d (t_id t) @ [new_attempt (now d) w (set_row ?f t)]"
      by (simp add: attempts_of_granted [OF cl] t)
    then show "task_ok ?d (set_row ?f t)"
      using claimed_row_wf [OF t(3,2)] claimed_log [OF t(4,2,5)] by (simp add: task_ok_def)
  next
    fix r assume "r \<in> set (task_attempts ?d)"
    then consider "r \<in> set (task_attempts d)"
      | q where "q \<in> set (claimed_rows ids w ttl d)" "r = new_attempt (now d) w q"
      by (auto simp: granted_db_def)
    then show "ta_task_id r \<in> t_id ` set (tasks d) \<and> ta_worker_id r \<in> w_id ` set (workers d)"
    proof cases
      case 1
      then show ?thesis using inv by (simp add: db_inv_def attempt_refs_def)
    next
      case 2
      have "t_id q \<in> set ids" using claimed_rows_facts(3) [OF cl 2(1)] by blast
      then show ?thesis using in_ids w find_worker_iff [of d w] 2(2) by (simp add: new_attempt_def)
    qed
  next
    fix e assume "e \<in> set (task_events ?d)"
    then consider "e \<in> set (task_events d)" | "e \<in> set es" by (auto simp: granted_db_def)
    then show "te_task_id e \<in> t_id ` set (tasks d)"
    proof cases
      case 1
      then show ?thesis using inv by (simp add: db_inv_def event_refs_def)
    next
      case 2
      then show ?thesis using in_ids es by (metis image_eqI list.set_map)
    qed
  next
    fix t assume "t \<in> set (tasks d)" "t_id t \<notin> set ids"
    then show "attempts_of ?d (t_id t) = attempts_of d (t_id t)"
      by (simp add: attempts_of_granted [OF cl])
  qed (simp_all add: granted_db_def)
  show "db_step_ok d ?d"
  proof (rule db_step_ok_update [OF tasks])
    fix t assume "t \<in> set (tasks d)" "t_id t \<in> set ids"
    note t = claimable_task [OF inv cl this]
    show "row_step t (set_row ?f t)"
      unfolding row_step_def pinned_set_row using t(2) by (auto simp: set_row_claim)
  qed
qed

lemma grant_leases_eq:
  assumes inv: "db_inv d" and cl: "claimable d ids" and w: "find_worker d w \<noteq> None"
  shows "\<exists>es. grant_leases ids w ttl d = Inr (claimed_rows ids w ttl d, granted_db ids w ttl es d)
    \<and> map (\<lambda>e. (te_task_id e, te_attempt e, te_event_type e, te_worker_id e)) es =
      map (\<lambda>r. (t_id r, Some (t_attempt r), TASK_CLAIMED, Some w)) (claimed_rows ids w ttl d)"
proof -
  let ?f = "claim_set (now d) w ttl" and ?rows = "claimed_rows ids w ttl d"
  define d1 where "d1 = d\<lparr>tasks := sql_update (\<lambda>t. t_id t \<in> set ids) (set_row ?f) (tasks d)\<rparr>"
  have "task_violation (set_row ?f t) = None" if "t \<in> set (tasks d)" "t_id t \<in> set ids" for t
    using claimed_row_wf [of t] claimable_task [OF inv cl that]
    by (simp add: row_wf_def del: task_violation_None)
  then have upd: "update_tasks (\<lambda>t. t_id t \<in> set ids) ?f d =
      Inr (sql_returning (\<lambda>t. t_id t \<in> set ids) (set_row ?f) (tasks d), d1)"
    unfolding update_tasks_Inr by (simp add: d1_def del: task_violation_None)
  note rows = claimed_rows_facts [OF cl, where w = w and ttl = ttl]
  have d1: "find_task d1 (t_id r) \<noteq> None" if "r \<in> set ?rows" for r
    using rows(3) [OF that] by (auto simp: d1_def find_task_update)
  obtain es where es: "foldE (\<lambda>r. insert_event (t_id r) TASK_CLAIMED (Some (t_attempt r)) (Some w) []) ?rows d1 =
      Inr (d1\<lparr>task_events := task_events d1 @ es, next_event_id := next_event_id d1 + length ?rows\<rparr>)"
    "map (\<lambda>e. (te_task_id e, te_attempt e, te_event_type e, te_worker_id e)) es =
      map (\<lambda>r. (t_id r, Some (t_attempt r), TASK_CLAIMED, Some w)) ?rows"
    using insert_events [OF d1] by blast
  define d2 where "d2 = d1\<lparr>task_events := task_events d1 @ es, next_event_id := next_event_id d1 + length ?rows\<rparr>"
  have "foldE (\<lambda>r. insert_attempt (t_id r) (t_attempt r) w) ?rows d2 =
    Inr (d2\<lparr>task_attempts := task_attempts d2 @ map (new_attempt (now d2) w) ?rows\<rparr>)"
  proof (rule insert_attempts)
    show "find_task d2 (t_id r) \<noteq> None" if "r \<in> set ?rows" for r
      using d1 [OF that] by (simp add: d2_def find_task_def)
    show "find_worker d2 w \<noteq> None" using w by (simp add: d2_def d1_def find_worker_def)
    show "distinct (map t_id ?rows)" using rows(1) cl by (simp add: claimable_def)
    show "\<not> (ta_task_id x = t_id r \<and> ta_attempt x = t_attempt r)"
      if r: "r \<in> set ?rows" and x2: "x \<in> set (task_attempts d2)" for r x
    proof
      assume x: "ta_task_id x = t_id r \<and> ta_attempt x = t_attempt r"
      obtain t where t: "find_task d (t_id r) = Some t" "t_id r \<in> set ids" "r = set_row ?f t"
        using rows(3) [OF r] by blast
      have "x \<in> set (attempts_of d (t_id r))"
        using x2 x by (simp add: d2_def d1_def attempts_of_def)
      then have "t_attempt r \<in> set (map ta_attempt (attempts_of d (t_id r)))" using x by force
      also have "map ta_attempt (attempts_of d (t_id r)) = [1..t_attempt t]"
        using db_inv_task(2) [OF inv t(1)] by (simp add: log_ok_def)
      finally show False using t(3) by (simp add: set_row_claim)
    qed
  qed
  then show ?thesis
    using es rows(2) upd
    by (intro exI [of _ es])
      (simp add: grant_leases_def in_order_claimed [OF cl] Let_def d2_def d1_def granted_db_def)
qed

section \<open>The tenant's bound\<close>

lemma claimed_for_table:
  assumes "ids_distinct d" "distinct ids" "\<And>i. i \<in> set ids \<Longrightarrow> find_task d i \<noteq> None"
  shows "length (filter (\<lambda>t. t_id t \<in> set ids \<and> t_tenant_id t = i) (tasks d)) = claimed_for d ids i"
proof -
  let ?A = "{t \<in> set (tasks d). t_id t \<in> set ids \<and> t_tenant_id t = i}"
  let ?B = "{j \<in> set ids. map_option t_tenant_id (find_task d j) = Some i}"
  have find: "find_task d (t_id t) = Some t" if "t \<in> set (tasks d)" for t
    using that assms(1) by (simp add: find_task_def ids_distinct_def find_by_in_set)
  have "inj_on t_id ?A" using assms(1) by (auto simp: ids_distinct_def distinct_map intro: inj_on_subset)
  moreover have "t_id ` ?A = ?B"
  proof
    show "t_id ` ?A \<subseteq> ?B" using find by auto
    show "?B \<subseteq> t_id ` ?A"
    proof
      fix j assume "j \<in> ?B"
      then obtain t where t: "find_task d j = Some t" "t_tenant_id t = i" "j \<in> set ids" by auto
      then show "j \<in> t_id ` ?A" using find_task_SomeD [OF t(1)] by blast
    qed
  qed
  ultimately have "card ?A = card ?B" using card_image [of t_id ?A] by simp
  moreover have "distinct (tasks d)" using assms(1) by (simp add: ids_distinct_def distinct_map)
  ultimately show ?thesis
    using assms(2) by (simp add: claimed_for_def flip: distinct_card)
qed

lemma running_of_granted:
  assumes "db_inv d" "claimable d ids"
  shows "running_of (granted_db ids w ttl es d) i = running_of d i + claimed_for d ids i"
proof -
  let ?f = "claim_set (now d) w ttl"
  let ?P = "\<lambda>t. t_tenant_id t = i \<and> t_state t = RUNNING" and ?Q = "\<lambda>t. t_id t \<in> set ids \<and> t_tenant_id t = i"
  have "running_of (granted_db ids w ttl es d) i =
      length (filter (\<lambda>t. ?P (if t_id t \<in> set ids then set_row ?f t else t)) (tasks d))"
    by (simp add: running_of_def granted_db_def sql_update_def filter_map comp_def)
  also have "filter (\<lambda>t. ?P (if t_id t \<in> set ids then set_row ?f t else t)) (tasks d) =
      filter (\<lambda>t. ?P t \<or> ?Q t) (tasks d)"
    using claimable_task [OF assms] by (intro filter_cong) (auto simp: set_row_claim)
  also have "length \<dots> = length (filter ?P (tasks d)) + length (filter ?Q (tasks d))"
    using claimable_task [OF assms] by (intro length_filter_disj) auto
  also have "length (filter ?Q (tasks d)) = claimed_for d ids i"
    using assms by (intro claimed_for_table) (auto simp: claimable_def db_inv_def)
  finally show ?thesis by (simp add: running_of_def)
qed

section \<open>Properties\<close>

lemma chosen_claimable: "chosen_ok ok limit d st \<Longrightarrow> claimable d (claimed_ids st)"
  by (fastforce simp: chosen_ok_def claimable_def eligible_def)

text \<open>The ids a claim chooses, and what it then does.\<close>

definition chosen :: "int \<Rightarrow> claim_policy \<Rightarrow> string list \<Rightarrow> uuid list \<Rightarrow> db \<Rightarrow> uuid list" where
  "chosen limit policy caps locked d =
     claimed_ids (claim_rounds MAX_ROUNDS limit (fetch_candidates caps policy locked) d claim_start)"

lemma chosen_round:
  assumes "db_inv d"
  shows "\<exists>st. round_ok (candidate_ok caps locked) limit d st \<and> claimed_ids st = chosen limit policy caps locked d"
  unfolding chosen_def
  by (rule exI, rule conjI, rule fetched.claimed_ok [OF assms], rule refl)

lemma chosen_cl:
  assumes "db_inv d"
  shows "claimable d (chosen limit policy caps locked d)"
proof -
  obtain st where st: "round_ok (candidate_ok caps locked) limit d st" "claimed_ids st = chosen limit policy caps locked d"
    using chosen_round [OF assms] by blast
  from st(1) have "chosen_ok (candidate_ok caps locked) limit d st" by (simp add: round_ok_def)
  from chosen_claimable [OF this] st(2) show ?thesis by simp
qed

lemma claim_tasks_eq:
  assumes "db_inv d" "find_worker d w \<noteq> None"
  shows "\<exists>es. claim_tasks w limit ttl policy caps locked d =
      Inr (claimed_rows (chosen limit policy caps locked d) w ttl d,
           granted_db (chosen limit policy caps locked d) w ttl es d)
    \<and> map (\<lambda>e. (te_task_id e, te_attempt e, te_event_type e, te_worker_id e)) es =
      map (\<lambda>r. (t_id r, Some (t_attempt r), TASK_CLAIMED, Some w))
        (claimed_rows (chosen limit policy caps locked d) w ttl d)"
proof (cases "chosen limit policy caps locked d = []")
  case True
  then show ?thesis
    by (intro exI [of _ "[]"])
      (simp add: claim_tasks_def chosen_def claimed_rows_def granted_db_def sql_update_def)
next
  case False
  from grant_leases_eq [OF assms(1) chosen_cl [OF assms(1)] assms(2)] False show ?thesis
    by (simp add: claim_tasks_def chosen_def)
qed

lemma grant_leases_ok:
  assumes "db_inv d" "find_worker d w \<noteq> None" "claimable d ids" "grant_leases ids w ttl d = Inr (rows, d')"
  shows "db_inv d' \<and> db_step_ok d d'"
proof -
  obtain es where es: "rows = claimed_rows ids w ttl d" "d' = granted_db ids w ttl es d"
    "map (\<lambda>e. (te_task_id e, te_attempt e, te_event_type e, te_worker_id e)) es =
      map (\<lambda>r. (t_id r, Some (t_attempt r), TASK_CLAIMED, Some w)) rows"
    using grant_leases_eq [OF assms(1,3,2), of ttl] assms(4) by auto
  have "map te_task_id es = map fst (map (\<lambda>e. (te_task_id e, te_attempt e, te_event_type e, te_worker_id e)) es)"
    by (simp add: comp_def)
  also have "\<dots> = ids"
    unfolding es(3) by (simp add: comp_def es(1) claimed_rows_facts(1) [OF assms(3)])
  finally show ?thesis using granted_ok [OF assms(1,3,2)] es(2) by blast
qed

lemma claim_tasks_grants:
  "claim_tasks w limit ttl policy caps locked d =
     (if chosen limit policy caps locked d = [] then Inr ([], d)
      else grant_leases (chosen limit policy caps locked d) w ttl d)"
  by (simp add: claim_tasks_def chosen_def Let_def)

lemma claim_tasks_ok:
  assumes "db_inv d" "find_worker d w \<noteq> None" "claim_tasks w limit ttl policy caps locked d = Inr (rows, d')"
  shows "db_inv d' \<and> db_step_ok d d'"
proof (cases "chosen limit policy caps locked d = []")
  case True
  then show ?thesis using assms by (simp add: claim_tasks_grants)
next
  case False
  then show ?thesis
    using assms(3) grant_leases_ok [OF assms(1,2) chosen_cl [OF assms(1)]] by (simp add: claim_tasks_grants)
qed

lemma claim_tasks_result:
  assumes "db_inv d" and "find_worker d w \<noteq> None"
  shows "\<exists>rows d' es. claim_tasks w limit ttl policy caps locked d = Inr (rows, d') \<and> db_inv d'
    \<and> int (length rows) \<le> max limit 0 \<and> distinct (map t_id rows)
    \<and> (\<forall>r \<in> set rows. \<exists>t. find_task d (t_id r) = Some t \<and> eligible (candidate_ok caps locked) [] d t
          \<and> find_task d' (t_id r) = Some r \<and> pinned r = pinned t \<and> t_state r = RUNNING
          \<and> t_attempt r = t_attempt t + 1 \<and> lease_worker_id r = Some w
          \<and> lease_expires_at r = Some (now d + of_int ttl))
    \<and> (\<forall>j. j \<notin> t_id ` set rows \<longrightarrow> find_task d' j = find_task d j)
    \<and> task_attempts d' = task_attempts d @ map (new_attempt (now d) w) rows
    \<and> task_events d' = task_events d @ es
    \<and> map (\<lambda>e. (te_task_id e, te_event_type e)) es = map (\<lambda>r. (t_id r, TASK_CLAIMED)) rows"
proof -
  let ?ids = "chosen limit policy caps locked d"
  let ?rows = "claimed_rows ?ids w ttl d"
  obtain es where es: "claim_tasks w limit ttl policy caps locked d = Inr (?rows, granted_db ?ids w ttl es d)"
    "map (\<lambda>e. (te_task_id e, te_attempt e, te_event_type e, te_worker_id e)) es =
      map (\<lambda>r. (t_id r, Some (t_attempt r), TASK_CLAIMED, Some w)) ?rows"
    using claim_tasks_eq [OF assms] by blast
  obtain st where st: "round_ok (candidate_ok caps locked) limit d st" "claimed_ids st = ?ids"
    using chosen_round [OF assms(1)] by blast
  then have ch: "chosen_ok (candidate_ok caps locked) limit d st" by (simp add: round_ok_def)
  note cl = chosen_cl [OF assms(1), of limit policy caps locked]
  note rows = claimed_rows_facts [OF cl, where w = w and ttl = ttl]
  let ?d = "granted_db ?ids w ttl es d"
  have find: "find_task ?d j = map_option (\<lambda>t. if t_id t \<in> set ?ids then set_row (claim_set (now d) w ttl) t else t)
      (find_task d j)" for j
    by (simp add: granted_db_def find_task_def task_rows.find_update)
  have row: "\<exists>t. find_task d (t_id r) = Some t \<and> eligible (candidate_ok caps locked) [] d t
          \<and> find_task ?d (t_id r) = Some r \<and> pinned r = pinned t \<and> t_state r = RUNNING
          \<and> t_attempt r = t_attempt t + 1 \<and> lease_worker_id r = Some w
          \<and> lease_expires_at r = Some (now d + of_int ttl)" if r: "r \<in> set ?rows" for r
  proof -
    obtain t where t: "find_task d (t_id r) = Some t" "t_id r \<in> set ?ids"
      "r = set_row (claim_set (now d) w ttl) t" using rows(3) [OF r] by blast
    have "eligible (candidate_ok caps locked) [] d t"
      using ch t(1,2) by (auto simp: chosen_ok_def st(2))
    moreover have "find_task ?d (t_id r) = Some r"
    proof -
      have "t_id t \<in> set ?ids" using t(2) find_task_SomeD [OF t(1)] by simp
      then show ?thesis by (simp add: find t(1) t(3) [symmetric])
    qed
    moreover have "pinned r = pinned t" by (simp add: t(3))
    moreover have "t_state r = RUNNING" "t_attempt r = t_attempt t + 1" "lease_worker_id r = Some w"
      "lease_expires_at r = Some (now d + of_int ttl)"
      by (simp_all add: t(3) set_row_claim)
    ultimately show ?thesis using t(1) by blast
  qed
  have others: "find_task ?d j = find_task d j" if "j \<notin> t_id ` set ?rows" for j
  proof -
    have "set ?ids = t_id ` set ?rows" by (metis rows(1) list.set_map)
    then show ?thesis using that by (cases "find_task d j") (auto simp: find dest: find_task_SomeD)
  qed
  have "db_inv ?d" using claim_tasks_ok [OF assms es(1)] by simp
  moreover have "int (length ?rows) \<le> max limit 0" "distinct (map t_id ?rows)"
    using ch rows(1,2) by (simp_all add: chosen_ok_def st(2))
  moreover have "map (\<lambda>e. (te_task_id e, te_event_type e)) es = map (\<lambda>r. (t_id r, TASK_CLAIMED)) ?rows"
    using arg_cong [OF es(2), of "map (\<lambda>(i, a, t, w). (i, t))"] by (simp add: comp_def)
  ultimately show ?thesis
    using es(1) row others by (intro exI [of _ ?rows] exI [of _ ?d] exI [of _ es]) (simp add: granted_db_def)
qed

lemma claim_granted:
  assumes "db_inv d" and "find_worker d w \<noteq> None"
  shows "\<exists>rows d'. claim_tasks w limit ttl policy caps locked d = Inr (rows, d')
    \<and> int (length rows) \<le> max limit 0 \<and> distinct (map t_id rows)
    \<and> (\<forall>r \<in> set rows. find_task d' (t_id r) = Some r \<and> t_state r = RUNNING \<and> lease_worker_id r = Some w)"
  using claim_tasks_result [OF assms, of limit ttl policy caps locked] by (elim exE) (rule exI, rule exI, auto)

text \<open>
  C9. The claim. For a registered worker, under the invariant and whatever rows other transactions
  hold locked, a claim never raises: no key, CHECK or foreign key constraint can fail. It returns
  at most \<open>limit\<close> distinct tasks, each of which was queued, due, unlocked and within the worker's
  capabilities, each now running with this worker's lease, its fencing token one higher, granted
  in the same update; one open attempt row and one event are appended per task, in order; all
  other tasks are untouched and the invariant holds again.
\<close>

theorem claim_contract:
  assumes "db_inv d" and "find_worker d w \<noteq> None"
  shows "\<exists>rows d' es. claim_tasks w limit ttl policy caps locked d = Inr (rows, d') \<and> db_inv d'
    \<and> int (length rows) \<le> max limit 0 \<and> distinct (map t_id rows)
    \<and> (\<forall>r \<in> set rows. \<exists>t. find_task d (t_id r) = Some t \<and> eligible (candidate_ok caps locked) [] d t
          \<and> find_task d' (t_id r) = Some r \<and> pinned r = pinned t \<and> t_state r = RUNNING
          \<and> t_attempt r = t_attempt t + 1 \<and> lease_worker_id r = Some w
          \<and> lease_expires_at r = Some (now d + of_int ttl))
    \<and> (\<forall>j. j \<notin> t_id ` set rows \<longrightarrow> find_task d' j = find_task d j)
    \<and> task_attempts d' = task_attempts d @ map (new_attempt (now d) w) rows
    \<and> task_events d' = task_events d @ es
    \<and> map (\<lambda>e. (te_task_id e, te_event_type e)) es = map (\<lambda>r. (t_id r, TASK_CLAIMED)) rows"
  by (rule claim_tasks_result [OF assms])

text \<open>
  C10. A tenant's concurrency bound holds through any claim: afterwards it has no more running tasks
  than its bound allows, unless it already had more, and then no more than before; the bound is
  exact however many of its tasks were in one batch.
\<close>

theorem claim_respects_tenant_cap:
  assumes "db_inv d" and "find_worker d w \<noteq> None" and "tn \<in> set (tenants d)"
    and "claim_tasks w limit ttl policy caps locked d = Inr (rows, d')"
  shows "int (running_of d' (tn_id tn)) \<le> max (max_concurrent_tasks tn) (int (running_of d (tn_id tn)))"
proof -
  let ?ids = "chosen limit policy caps locked d"
  obtain es where d': "d' = granted_db ?ids w ttl es d"
    using claim_tasks_eq [OF assms(1,2), of limit ttl policy caps locked] assms(4) by auto
  obtain st where st: "round_ok (candidate_ok caps locked) limit d st" "claimed_ids st = ?ids"
    using chosen_round [OF assms(1)] by blast
  note cl = chosen_cl [OF assms(1), of limit policy caps locked]
  have "slack_ok d st tn"
    using st(1) assms(3) by (simp add: round_ok_def slacks_ok_def)
  then have "0 < claimed_for d ?ids (tn_id tn) \<Longrightarrow>
      int (claimed_for d ?ids (tn_id tn)) \<le> max_concurrent_tasks tn - int (running_of d (tn_id tn))"
    by (simp add: slack_ok_def st(2) Let_def)
  then show ?thesis
    by (cases "claimed_for d ?ids (tn_id tn) = 0")
      (simp_all add: d' running_of_granted [OF assms(1) cl])
qed

section \<open>Witnesses\<close>

definition demo_idle :: db where
  "demo_idle = demo_queue\<lparr>tasks := [demo_queued 1 100 [], demo_queued 2 50 [''gpu'']]\<rparr>"

lemma demo_idle_inv: "db_inv demo_idle"
proof -
  have "row_wf (demo_queued i 100 c)" "row_wf (demo_queued i 50 c)" for i c
    by (simp_all add: row_wf_def demo_queued_def demo_task_def lease_coherent_def)
  moreover have "log_ok (demo_queued i p c) []" for i p c
    by (simp add: log_ok_def demo_queued_def demo_task_def)
  ultimately show ?thesis
    by (simp add: demo_idle_def db_inv_def ids_distinct_def tasks_ok_def task_ok_def attempts_of_def
        keys_unique_def tenant_refs_def attempt_refs_def event_refs_def demo_queue_def demo_db_def empty_db_def)
       (simp add: demo_queued_def demo_task_def demo_worker_def demo_tenant_def same_key_def)
qed

lemma demo_idle_facts:
  "find_worker demo_idle ''w1'' \<noteq> None" "tenants demo_idle = [demo_tenant]"
  "max_concurrent_tasks demo_tenant = 10" "running_of demo_idle (tn_id demo_tenant) = 0"
  by (simp_all add: demo_idle_def demo_queue_def find_worker_def demo_db_def demo_worker_def demo_tenant_def
      running_of_def demo_queued_def)

theorem claim_contract_witness:
  "\<exists>rows d'. claim_tasks ''w1'' 5 30 DEFAULT_POLICY [''gpu''] [] demo_idle = Inr (rows, d') \<and> db_inv d'
     \<and> length rows \<le> 5"
  using claim_contract [OF demo_idle_inv demo_idle_facts(1), of 5 30 DEFAULT_POLICY "[''gpu'']" "[]"] by auto

theorem claim_respects_tenant_cap_witness:
  "\<exists>rows d'. claim_tasks ''w1'' 5 30 DEFAULT_POLICY [''gpu''] [] demo_idle = Inr (rows, d')
     \<and> int (running_of d' (tn_id demo_tenant)) \<le> 10"
proof -
  have t: "demo_tenant \<in> set (tenants demo_idle)" by (simp add: demo_idle_facts)
  obtain rows d' where c: "claim_tasks ''w1'' 5 30 DEFAULT_POLICY [''gpu''] [] demo_idle = Inr (rows, d')"
    using claim_tasks_eq [OF demo_idle_inv demo_idle_facts(1)] by blast
  have "int (running_of d' (tn_id demo_tenant)) \<le> 10"
    using claim_respects_tenant_cap [OF demo_idle_inv demo_idle_facts(1) t c] demo_idle_facts by simp
  with c show ?thesis by blast
qed

end
