(* ===== verification/Completion.thy ===== *)
theory Completion
  imports Invariant
begin

text \<open>
  \<open>db/queries/completion.py\<close>: the ways a worker's execution of an attempt ends. Each pairs a
  fenced transition out of \<open>RUNNING\<close> with the update of that attempt's history row. Their shared
  contract is the locale \<open>fenced_completion\<close>, over \<open>ends_attempt\<close>, which the reaper's recoveries
  share as well.
\<close>

section \<open>The operations\<close>

definition finish_row ::
  "time \<Rightarrow> attempt_outcome \<Rightarrow> string option \<Rightarrow> string option \<Rightarrow> task_attempt \<Rightarrow> task_attempt" where
  "finish_row tn out ec em r =
     r\<lparr>ta_finished_at := Some tn, outcome := Some out, ta_error_class := ec, ta_error_message := em\<rparr>"

definition finish_attempt ::
  "uuid \<Rightarrow> int \<Rightarrow> attempt_outcome \<Rightarrow> string option \<Rightarrow> string option \<Rightarrow> db \<Rightarrow> db" where
  "finish_attempt i a out ec em d =
     d\<lparr>task_attempts := sql_update (\<lambda>r. ta_task_id r = i \<and> ta_attempt r = a)
                          (finish_row (now d) out ec em) (task_attempts d)\<rparr>"

definition success_cas :: "int \<Rightarrow> string \<Rightarrow> dict \<Rightarrow> time \<Rightarrow> cas" where
  "success_cas a w res tn =
     \<lparr>expect_state = [RUNNING], to_state = SUCCEEDED, cas_event_type = TASK_SUCCEEDED,
      expect_attempt = Some a, expect_worker = Some w, expect_lease_expired = False,
      expect_execution_time_exceeded = False,
      set_fields = [SET_result (Some res), SET_finished_at (Some tn), SET_lease_worker_id None,
                    SET_lease_expires_at None],
      event_data = []\<rparr>"

definition complete_success ::
  "uuid \<Rightarrow> int \<Rightarrow> string \<Rightarrow> dict \<Rightarrow> db \<Rightarrow> exn + (transition_result \<times> db)" where
  "complete_success i a w res d =
     bindE (transition i (success_cas a w res (now d)) d) (\<lambda>(r, d1).
       Inr (r, if applied r then finish_attempt i a OUT_SUCCEEDED None None d1 else d1))"

definition retry_cas :: "int \<Rightarrow> string \<Rightarrow> string \<Rightarrow> string \<Rightarrow> rat \<Rightarrow> time \<Rightarrow> cas" where
  "retry_cas a w ec em backoff tn =
     \<lparr>expect_state = [RUNNING], to_state = QUEUED, cas_event_type = RETRY_SCHEDULED,
      expect_attempt = Some a, expect_worker = Some w, expect_lease_expired = False,
      expect_execution_time_exceeded = False,
      set_fields = [SET_available_at (tn + seconds backoff), SET_lease_worker_id None,
                    SET_lease_expires_at None, SET_error_class (Some ec), SET_error_message (Some em)],
      event_data = [(''error_class'', JStr ec)]\<rparr>"

definition complete_retry ::
  "uuid \<Rightarrow> int \<Rightarrow> string \<Rightarrow> string \<Rightarrow> string \<Rightarrow> rat \<Rightarrow> db \<Rightarrow> exn + (transition_result \<times> db)" where
  "complete_retry i a w ec em backoff d =
     bindE (transition i (retry_cas a w ec em backoff (now d)) d) (\<lambda>(r, d1).
       Inr (r, if applied r then finish_attempt i a OUT_FAILED (Some ec) (Some em) d1 else d1))"

definition failed_cas :: "int \<Rightarrow> string \<Rightarrow> string \<Rightarrow> string \<Rightarrow> time \<Rightarrow> cas" where
  "failed_cas a w ec em tn =
     \<lparr>expect_state = [RUNNING], to_state = FAILED, cas_event_type = TASK_FAILED,
      expect_attempt = Some a, expect_worker = Some w, expect_lease_expired = False,
      expect_execution_time_exceeded = False,
      set_fields = [SET_finished_at (Some tn), SET_error_class (Some ec), SET_error_message (Some em),
                    SET_lease_worker_id None, SET_lease_expires_at None],
      event_data = []\<rparr>"

definition complete_failed ::
  "uuid \<Rightarrow> int \<Rightarrow> string \<Rightarrow> string \<Rightarrow> string \<Rightarrow> db \<Rightarrow> exn + (transition_result \<times> db)" where
  "complete_failed i a w ec em d =
     bindE (transition i (failed_cas a w ec em (now d)) d) (\<lambda>(r, d1).
       Inr (r, if applied r then finish_attempt i a OUT_FAILED (Some ec) (Some em) d1 else d1))"

definition cancelled_cas :: "int \<Rightarrow> string \<Rightarrow> time \<Rightarrow> cas" where
  "cancelled_cas a w tn =
     \<lparr>expect_state = [RUNNING], to_state = CANCELLED, cas_event_type = TASK_CANCELLED,
      expect_attempt = Some a, expect_worker = Some w, expect_lease_expired = False,
      expect_execution_time_exceeded = False,
      set_fields = [SET_finished_at (Some tn), SET_lease_worker_id None, SET_lease_expires_at None],
      event_data = []\<rparr>"

definition complete_cancelled ::
  "uuid \<Rightarrow> int \<Rightarrow> string \<Rightarrow> db \<Rightarrow> exn + (transition_result \<times> db)" where
  "complete_cancelled i a w d =
     bindE (transition i (cancelled_cas a w (now d)) d) (\<lambda>(r, d1).
       Inr (r, if applied r then finish_attempt i a OUT_CANCELLED None None d1 else d1))"

definition abandoned_cas :: "int \<Rightarrow> string \<Rightarrow> string \<Rightarrow> time \<Rightarrow> cas" where
  "abandoned_cas a w why tn =
     \<lparr>expect_state = [RUNNING], to_state = QUEUED, cas_event_type = TASK_ABANDONED,
      expect_attempt = Some a, expect_worker = Some w, expect_lease_expired = False,
      expect_execution_time_exceeded = False,
      set_fields = [SET_available_at tn, SET_lease_worker_id None, SET_lease_expires_at None],
      event_data = [(''reason'', JStr why)]\<rparr>"

definition complete_abandoned ::
  "uuid \<Rightarrow> int \<Rightarrow> string \<Rightarrow> string \<Rightarrow> db \<Rightarrow> exn + (transition_result \<times> db)" where
  "complete_abandoned i a w why d =
     bindE (transition i (abandoned_cas a w why (now d)) d) (\<lambda>(r, d1).
       Inr (r, if applied r then finish_attempt i a OUT_ABANDONED (Some why) None d1 else d1))"

lemmas completion_cas_defs = success_cas_def retry_cas_def failed_cas_def cancelled_cas_def
  abandoned_cas_def

section \<open>Closing an attempt\<close>

lemma finish_attempt_tables [simp]:
  "now (finish_attempt i a out ec em d) = now d" "tasks (finish_attempt i a out ec em d) = tasks d"
  "tenants (finish_attempt i a out ec em d) = tenants d"
  "workers (finish_attempt i a out ec em d) = workers d"
  "task_events (finish_attempt i a out ec em d) = task_events d"
  by (simp_all add: finish_attempt_def)

lemma finish_row_simps [simp]:
  "ta_task_id (finish_row tn out ec em r) = ta_task_id r"
  "ta_attempt (finish_row tn out ec em r) = ta_attempt r"
  "ta_worker_id (finish_row tn out ec em r) = ta_worker_id r"
  "outcome (finish_row tn out ec em r) = Some out"
  by (simp_all add: finish_row_def)

lemma attempts_of_finish:
  "attempts_of (finish_attempt i a out ec em d) j =
     (if j = i then map (\<lambda>r. if ta_attempt r = a then finish_row (now d) out ec em r else r) (attempts_of d i)
      else attempts_of d j)"
proof -
  have "filter (\<lambda>r. ta_task_id r = j) (sql_update (\<lambda>r. ta_task_id r = i \<and> ta_attempt r = a) (finish_row tn out ec em) rs) =
      (if j = i then map (\<lambda>r. if ta_attempt r = a then finish_row tn out ec em r else r) (filter (\<lambda>r. ta_task_id r = i) rs)
       else filter (\<lambda>r. ta_task_id r = j) rs)" for tn rs
    by (induction rs) auto
  then show ?thesis by (simp add: attempts_of_def finish_attempt_def)
qed

lemma finish_attempt_rows:
  assumes "r \<in> set (task_attempts (finish_attempt i a out ec em d))"
  obtains r0 where "r0 \<in> set (task_attempts d)" "ta_task_id r0 = ta_task_id r" "ta_worker_id r0 = ta_worker_id r"
  using assms by (auto simp: finish_attempt_def set_sql_update)

text \<open>
  Closing the current attempt of a running task keeps its history in order, when the task leaves
  \<open>RUNNING\<close> with the same token and the outcome is a success exactly if the task succeeded.
\<close>

lemma log_ok_close:
  assumes log: "log_ok t as" and "t_state t = RUNNING"
    and same: "t_attempt t' = t_attempt t" and st: "t_state t' \<noteq> RUNNING"
    and out: "out = OUT_SUCCEEDED \<longleftrightarrow> t_state t' = SUCCEEDED"
  shows "log_ok t' (map (\<lambda>r. if ta_attempt r = t_attempt t then finish_row tn out ec em r else r) as)"
proof -
  define f where "f = (\<lambda>r. if ta_attempt r = t_attempt t then finish_row tn out ec em r else r)"
  have f: "ta_attempt (f r) = ta_attempt r"
    "outcome (f r) = (if ta_attempt r = t_attempt t then Some out else outcome r)" for r
    by (simp_all add: f_def)
  have old: "outcome r \<noteq> None" "outcome r \<noteq> Some OUT_SUCCEEDED" if "r \<in> set as" "ta_attempt r \<noteq> t_attempt t" for r
    using that log assms(2) by (simp_all add: log_ok_def del: not_None_eq)
  have "map ta_attempt (map f as) = [1..t_attempt t']"
    using log same by (simp add: log_ok_def comp_def f)
  moreover have "outcome (f r) \<noteq> None"
    "outcome (f r) = Some OUT_SUCCEEDED \<longleftrightarrow> t_state t' = SUCCEEDED \<and> ta_attempt (f r) = t_attempt t'"
    if "r \<in> set as" for r
    using old [OF that] out same by (simp_all add: f del: not_None_eq)
  ultimately have "log_ok t' (map f as)"
    using st by (simp add: log_ok_def del: not_None_eq)
  then show ?thesis by (simp only: f_def)
qed

section \<open>The contract of an operation that ends an attempt\<close>

locale ends_attempt =
  fixes c :: "time \<Rightarrow> cas" and out :: attempt_outcome
  assumes source: "expect_state (c tn) = [RUNNING]"
    and target: "to_state (c tn) \<noteq> RUNNING"
    and row: "row_wf t \<Longrightarrow> t_state t = RUNNING \<Longrightarrow> row_wf (set_row (cas_set tn (c tn)) t)"
    and state: "t_state (set_row (cas_set tn (c tn)) t) = to_state (c tn)"
    and token: "t_attempt (set_row (cas_set tn (c tn)) t) = t_attempt t"
    and flag: "cancel_requested (set_row (cas_set tn (c tn)) t) = cancel_requested t"
    and start: "first_started_at (set_row (cas_set tn (c tn)) t) = first_started_at t"
    and success: "out = OUT_SUCCEEDED \<longleftrightarrow> to_state (c tn) = SUCCEEDED"
begin

lemma legal: "cas_legal (c tn)"
  by (simp add: cas_legal_def source target)

lemma where_running: "cas_where tn' (c tn) i t \<Longrightarrow> t_state t = RUNNING"
  by (simp add: cas_where_def source)

text \<open>The transition never raises: the new row satisfies every CHECK constraint.\<close>

lemma transition_total:
  assumes "db_inv d"
  shows "transition i (c (now d)) d =
    (case find_task d i of
       Some t \<Rightarrow> if cas_where (now d) (c (now d)) i t
                then Inr (granted (set_row (cas_set (now d) (c (now d))) t), after_transition i (c (now d)) t d)
                else Inr (explain i (c (now d)) d, d)
     | None \<Rightarrow> Inr (explain i (c (now d)) d, d))"
proof -
  have ok: "task_violation (set_row (cas_set (now d) (c (now d))) t) = None"
    if "find_task d i = Some t" "cas_where (now d) (c (now d)) i t" for t
    using row [OF db_inv_task(1) [OF assms that(1)] where_running [OF that(2)]]
    by (simp add: row_wf_def del: task_violation_None)
  note eq = transition_cases [OF db_inv_ids [OF assms] legal, of i "now d"]
  show ?thesis
  proof (cases "find_task d i")
    case None
    then show ?thesis by (simp add: eq)
  next
    case (Some t)
    then show ?thesis
      by (cases "cas_where (now d) (c (now d)) i t")
        (simp_all add: eq ok [OF Some] del: task_violation_None)
  qed
qed

lemma end_inv:
  assumes inv: "db_inv d" and t: "find_task d i = Some t" "cas_where (now d) (c (now d)) i t"
    and same: "tasks d' = tasks (after_transition i (c (now d)) t d)" "workers d' = workers d"
      "tenants d' = tenants d" "task_attempts d' = task_attempts d" "now d' = now d"
    and ev: "\<And>e. e \<in> set (task_events d') \<Longrightarrow> te_task_id e \<in> t_id ` set (tasks d)"
  shows "db_inv (finish_attempt i (t_attempt t) out ec em d')"
    and "db_step_ok d (finish_attempt i (t_attempt t) out ec em d')"
proof -
  let ?f = "cas_set (now d) (c (now d))" and ?fin = "finish_attempt i (t_attempt t) out ec em d'"
  note ti = db_inv_task [OF inv t(1)] and run = where_running [OF t(2)]
  have tasks: "tasks ?fin = sql_update (\<lambda>u. t_id u = i) (set_row ?f) (tasks d)"
    by (simp add: same(1) after_transition_def Let_def)
  have only: "u = t" if "u \<in> set (tasks d)" "t_id u = i" for u
    using that find_by_unique [of t_id "tasks d" i u] t(1) db_inv_ids [OF inv]
    by (simp add: ids_distinct_def find_task_def)
  have att: "attempts_of d' j = attempts_of d j" for j
    by (simp add: attempts_of_def same(4))
  show "db_inv ?fin"
  proof (rule db_inv_update [OF inv tasks])
    fix u assume u: "u \<in> set (tasks d)" "t_id u = i"
    then have "u = t" by (rule only)
    moreover have "log_ok (set_row ?f t) (attempts_of ?fin i)"
      unfolding attempts_of_finish att
      using log_ok_close [OF ti(2) run token] state target success by simp
    ultimately show "task_ok ?fin (set_row ?f u)"
      using row [OF ti(1) run] ti(3) by (simp add: task_ok_def)
  next
    fix r assume "r \<in> set (task_attempts ?fin)"
    then obtain r0 where "r0 \<in> set (task_attempts d)" "ta_task_id r = ta_task_id r0"
      "ta_worker_id r = ta_worker_id r0"
      by (metis finish_attempt_rows same(4))
    then show "ta_task_id r \<in> t_id ` set (tasks d) \<and> ta_worker_id r \<in> w_id ` set (workers d)"
      using inv by (simp add: db_inv_def attempt_refs_def)
  qed (use ev same in \<open>simp_all add: attempts_of_finish att\<close>)
  show "db_step_ok d ?fin"
  proof (rule db_step_ok_update [OF tasks])
    fix u assume "u \<in> set (tasks d)" "t_id u = i"
    then have "u = t" by (rule only)
    then show "row_step u (set_row ?f u)"
      using run target [of "now d"] state [of "now d" t] token [of "now d" t] flag [of "now d" t]
        start [of "now d" t]
      by (simp add: row_step_def)
  qed
qed

end

text \<open>What an applied completion leaves in the row and in the history.\<close>

definition completed :: "state \<Rightarrow> attempt_outcome \<Rightarrow> db \<Rightarrow> uuid \<Rightarrow> int \<Rightarrow> db \<Rightarrow> bool" where
  "completed s out d i a d' \<longleftrightarrow> (\<exists>t t'. find_task d i = Some t \<and> find_task d' i = Some t'
     \<and> t_state t' = s \<and> lease_worker_id t' = None \<and> t_attempt t' = t_attempt t
     \<and> (\<exists>x \<in> set (attempts_of d' i). ta_attempt x = a \<and> outcome x = Some out))"

text \<open>
  A completion: the request carries the attempt number and the worker, and no other fence; when it
  applies, the attempt's row is closed.
\<close>

locale fenced_completion = ends_attempt c out
  for c :: "time \<Rightarrow> cas" and out :: attempt_outcome +
  fixes i :: uuid and a :: int and w :: string
    and complete :: "db \<Rightarrow> exn + (transition_result \<times> db)"
    and ec em :: "string option"
  assumes fence: "expect_attempt (c tn) = Some a" "expect_worker (c tn) = Some w"
      "\<not> expect_lease_expired (c tn)" "\<not> expect_execution_time_exceeded (c tn)"
    and complete_eq: "complete d = bindE (transition i (c (now d)) d) (\<lambda>(r, d1).
        Inr (r, if applied r then finish_attempt i a out ec em d1 else d1))"
begin

lemma where_owner:
  "cas_where tn' (c tn) i t \<longleftrightarrow>
     t_id t = i \<and> t_state t = RUNNING \<and> t_attempt t = a \<and> lease_worker_id t = Some w"
  by (auto simp: cas_where_def source fence attempt_ok_def worker_ok_def)

lemma complete_owner:
  assumes "db_inv d" "find_task d i = Some t" "t_state t = RUNNING" "t_attempt t = a"
    and "lease_worker_id t = Some w"
  shows "complete d = Inr (granted (set_row (cas_set (now d) (c (now d))) t),
    finish_attempt i a out ec em (after_transition i (c (now d)) t d))"
  using assms find_task_SomeD [OF assms(2)]
  by (simp add: complete_eq transition_total where_owner)

lemma fenced_refused:
  assumes "db_inv d"
    and "\<And>t. find_task d i = Some t \<Longrightarrow>
          \<not> (t_state t = RUNNING \<and> t_attempt t = a \<and> lease_worker_id t = Some w)"
  shows "complete d = Inr (explain i (c (now d)) d, d)"
proof (cases "find_task d i")
  case None
  then show ?thesis by (simp add: complete_eq transition_total [OF assms(1)])
next
  case (Some t)
  have "\<not> cas_where (now d) (c (now d)) i t"
    using assms(2) [OF Some] by (simp add: where_owner)
  then show ?thesis by (simp add: complete_eq transition_total [OF assms(1)] Some)
qed

lemma fenced_total:
  assumes "db_inv d"
  shows "\<exists>r d'. complete d = Inr (r, d') \<and> db_inv d' \<and> db_step_ok d d' \<and> (\<not> applied r \<longrightarrow> d' = d)"
proof (cases "\<exists>t. find_task d i = Some t \<and> t_state t = RUNNING \<and> t_attempt t = a \<and> lease_worker_id t = Some w")
  case True
  then obtain t where t: "find_task d i = Some t" "t_state t = RUNNING" "t_attempt t = a"
    "lease_worker_id t = Some w" by blast
  then have wh: "cas_where (now d) (c (now d)) i t"
    using find_task_SomeD [OF t(1)] by (simp add: where_owner)
  have ev: "te_task_id e \<in> t_id ` set (tasks d)"
    if "e \<in> set (task_events (after_transition i (c (now d)) t d))" for e
    using that assms find_task_iff [of d i] t(1)
    by (auto simp: after_transition_def Let_def db_inv_def event_refs_def)
  have "db_inv (finish_attempt i (t_attempt t) out ec em (after_transition i (c (now d)) t d))"
    "db_step_ok d (finish_attempt i (t_attempt t) out ec em (after_transition i (c (now d)) t d))"
    by (rule end_inv [OF assms t(1) wh]; use ev in simp)+
  then show ?thesis
    using complete_owner [OF assms t] t(3) by simp
next
  case False
  then show ?thesis using fenced_refused [OF assms] assms by simp
qed

lemma fenced_frame:
  assumes "db_inv d" "complete d = Inr (r, d')"
  shows "j \<noteq> i \<Longrightarrow> find_task d' j = find_task d j" "now d' = now d" "workers d' = workers d"
    "tenants d' = tenants d"
proof -
  have "(j \<noteq> i \<longrightarrow> find_task d' j = find_task d j) \<and> now d' = now d \<and> workers d' = workers d \<and> tenants d' = tenants d"
  proof (cases "\<exists>t. find_task d i = Some t \<and> t_state t = RUNNING \<and> t_attempt t = a \<and> lease_worker_id t = Some w")
    case False
    then show ?thesis using fenced_refused [OF assms(1)] assms(2) by simp
  next
    case True
    then obtain t where t: "find_task d i = Some t" "t_state t = RUNNING" "t_attempt t = a"
      "lease_worker_id t = Some w" by blast
    have "d' = finish_attempt i a out ec em (after_transition i (c (now d)) t d)"
      using assms(2) complete_owner [OF assms(1) t] by simp
    moreover have "find_task (finish_attempt i a out ec em x) j = find_task x j" for x
      by (simp add: find_task_def)
    ultimately show ?thesis
      using find_task_after_transition [of i "c (now d)" t d j] by (simp add: after_transition_def Let_def)
  qed
  then show "j \<noteq> i \<Longrightarrow> find_task d' j = find_task d j" "now d' = now d" "workers d' = workers d"
    "tenants d' = tenants d" by simp_all
qed

text \<open>What an applied completion leaves: target state, no lease, the attempt closed with its outcome.\<close>

lemma complete_result:
  assumes "db_inv d" "complete d = Inr (r, d')" "applied r"
  obtains t t' where "find_task d i = Some t" "t_state t = RUNNING" "t_attempt t = a"
    "lease_worker_id t = Some w" "t' = set_row (cas_set (now d) (c (now d))) t"
    "find_task d' i = Some t'" "t_state t' = to_state (c (now d))" "lease_worker_id t' = None"
    "t_attempt t' = t_attempt t"
    "\<exists>x \<in> set (attempts_of d' i). ta_attempt x = a \<and> outcome x = Some out"
proof -
  obtain t where t: "find_task d i = Some t" "t_state t = RUNNING" "t_attempt t = a" "lease_worker_id t = Some w"
    using assms fenced_refused [OF assms(1)] by fastforce
  let ?t = "set_row (cas_set (now d) (c (now d))) t"
  have d': "d' = finish_attempt i a out ec em (after_transition i (c (now d)) t d)"
    using assms(2) complete_owner [OF assms(1) t] by simp
  note ti = db_inv_task [OF assms(1) t(1)]
  have f: "find_task d' i = Some ?t"
    using t(1) find_task_after_transition [of i "c (now d)" t d i] by (simp add: d' find_task_def)
  have l: "lease_worker_id ?t = None"
    using row [OF ti(1) t(2)] target state by (simp add: row_wf_def)
  from ti(1) t(2,3) have "1 \<le> a" by (simp add: row_wf_def)
  then have "a \<in> set (map ta_attempt (attempts_of d i))"
    using ti(2) t(3) by (simp add: log_ok_def)
  then obtain x where "x \<in> set (attempts_of d i)" "ta_attempt x = a" by auto
  moreover have "attempts_of (after_transition i (c (now d)) t d) i = attempts_of d i"
    by (simp add: attempts_of_def)
  ultimately have "\<exists>x \<in> set (attempts_of d' i). ta_attempt x = a \<and> outcome x = Some out"
    by (auto simp: d' attempts_of_finish intro!: bexI [of _ "finish_row (now d) out ec em x"] image_eqI [of _ _ x])
  then show thesis using that [OF t refl f state l token] by blast
qed

lemma fenced_completed:
  assumes "db_inv d" "complete d = Inr (r, d')" "applied r" and "to_state (c (now d)) = s"
  shows "completed s out d i a d'"
  by (rule complete_result [OF assms(1-3)]) (use assms(4) in \<open>auto simp: completed_def\<close>)

end

lemma set_row_cas:
  "set_row (cas_set tn c) t = fold assign (set_fields c) (t\<lparr>t_state := to_state c, updated_at := tn\<rparr>)"
  by (simp add: set_row_def cas_set_def)

interpretation success: fenced_completion "success_cas a w res" OUT_SUCCEEDED i a w
    "complete_success i a w res" None None for a w res i
  by unfold_locales (auto simp: success_cas_def complete_success_def set_row_cas row_wf_def lease_coherent_def)

interpretation retry: fenced_completion "retry_cas a w e m b" OUT_FAILED i a w
    "complete_retry i a w e m b" "Some e" "Some m" for a w e m b i
  by unfold_locales (auto simp: retry_cas_def complete_retry_def set_row_cas row_wf_def lease_coherent_def)

interpretation failed: fenced_completion "failed_cas a w e m" OUT_FAILED i a w
    "complete_failed i a w e m" "Some e" "Some m" for a w e m i
  by unfold_locales (auto simp: failed_cas_def complete_failed_def set_row_cas row_wf_def lease_coherent_def)

interpretation cancelled: fenced_completion "cancelled_cas a w" OUT_CANCELLED i a w
    "complete_cancelled i a w" None None for a w i
  by unfold_locales (auto simp: cancelled_cas_def complete_cancelled_def set_row_cas row_wf_def lease_coherent_def)

interpretation abandoned: fenced_completion "abandoned_cas a w why" OUT_ABANDONED i a w
    "complete_abandoned i a w why" "Some why" None for a w why i
  by unfold_locales (auto simp: abandoned_cas_def complete_abandoned_def set_row_cas row_wf_def lease_coherent_def)

section \<open>The five completions together\<close>

text \<open>One value per completion function, with the arguments it has of its own.\<close>

datatype completion =
    Success dict
  | Retry string string rat
  | Failed string string
  | Cancelled
  | Abandoned string

fun complete :: "completion \<Rightarrow> uuid \<Rightarrow> int \<Rightarrow> string \<Rightarrow> db \<Rightarrow> exn + (transition_result \<times> db)" where
  "complete (Success res) i a w d = complete_success i a w res d"
| "complete (Retry ec em b) i a w d = complete_retry i a w ec em b d"
| "complete (Failed ec em) i a w d = complete_failed i a w ec em d"
| "complete Cancelled i a w d = complete_cancelled i a w d"
| "complete (Abandoned why) i a w d = complete_abandoned i a w why d"

text \<open>The state each leads to and the outcome each writes in the history.\<close>

fun completed_state :: "completion \<Rightarrow> state" where
  "completed_state (Success _) = SUCCEEDED"
| "completed_state (Retry _ _ _) = QUEUED"
| "completed_state (Failed _ _) = FAILED"
| "completed_state Cancelled = CANCELLED"
| "completed_state (Abandoned _) = QUEUED"

fun completed_outcome :: "completion \<Rightarrow> attempt_outcome" where
  "completed_outcome (Success _) = OUT_SUCCEEDED"
| "completed_outcome (Retry _ _ _) = OUT_FAILED"
| "completed_outcome (Failed _ _) = OUT_FAILED"
| "completed_outcome Cancelled = OUT_CANCELLED"
| "completed_outcome (Abandoned _) = OUT_ABANDONED"

text \<open>The worker that may complete an attempt: the holder of the lease under that token.\<close>

definition owns :: "db \<Rightarrow> uuid \<Rightarrow> int \<Rightarrow> string \<Rightarrow> bool" where
  "owns d i a w = (case find_task d i of None \<Rightarrow> False
     | Some t \<Rightarrow> t_state t = RUNNING \<and> t_attempt t = a \<and> lease_worker_id t = Some w)"

lemma owns_iff: "owns d i a w \<longleftrightarrow> (\<exists>t. find_task d i = Some t \<and> t_state t = RUNNING \<and> t_attempt t = a
    \<and> lease_worker_id t = Some w)"
  by (simp add: owns_def split: option.split)

lemma complete_total:
  assumes "db_inv d"
  shows "\<exists>r d'. complete k i a w d = Inr (r, d') \<and> db_inv d' \<and> db_step_ok d d' \<and> (\<not> applied r \<longrightarrow> d' = d)"
proof (cases k)
  case (Success res)
  show ?thesis unfolding Success complete.simps by (rule success.fenced_total [OF assms])
next
  case (Retry ec em b)
  show ?thesis unfolding Retry complete.simps by (rule retry.fenced_total [OF assms])
next
  case (Failed ec em)
  show ?thesis unfolding Failed complete.simps by (rule failed.fenced_total [OF assms])
next
  case Cancelled
  show ?thesis unfolding Cancelled complete.simps by (rule cancelled.fenced_total [OF assms])
next
  case (Abandoned why)
  show ?thesis unfolding Abandoned complete.simps by (rule abandoned.fenced_total [OF assms])
qed

lemma complete_not_owner:
  assumes "db_inv d" "\<not> owns d i a w" "complete k i a w d = Inr (r, d')"
  shows "\<not> applied r \<and> d' = d"
proof -
  have no: "\<not> (t_state t = RUNNING \<and> t_attempt t = a \<and> lease_worker_id t = Some w)"
    if "find_task d i = Some t" for t
    using assms(2) that by (auto simp: owns_iff)
  show ?thesis
    using assms(3) success.fenced_refused [OF assms(1) no] retry.fenced_refused [OF assms(1) no]
      failed.fenced_refused [OF assms(1) no] cancelled.fenced_refused [OF assms(1) no]
      abandoned.fenced_refused [OF assms(1) no]
    by (cases k) auto
qed

lemma complete_owner_applied:
  assumes "db_inv d" "owns d i a w" "complete k i a w d = Inr (r, d')"
  shows "applied r"
proof -
  obtain t where t: "find_task d i = Some t" "t_state t = RUNNING" "t_attempt t = a" "lease_worker_id t = Some w"
    using assms(2) by (auto simp: owns_iff)
  show ?thesis
    using assms(3) success.complete_owner [OF assms(1) t] retry.complete_owner [OF assms(1) t]
      failed.complete_owner [OF assms(1) t] cancelled.complete_owner [OF assms(1) t]
      abandoned.complete_owner [OF assms(1) t]
    by (cases k) auto
qed

lemma complete_completed:
  assumes "db_inv d" "complete k i a w d = Inr (r, d')" "applied r"
  shows "completed (completed_state k) (completed_outcome k) d i a d'"
proof (cases k)
  case (Success res)
  with assms show ?thesis by (auto intro: success.fenced_completed simp: success_cas_def)
next
  case (Retry ec em b)
  with assms show ?thesis by (auto intro: retry.fenced_completed simp: retry_cas_def)
next
  case (Failed ec em)
  with assms show ?thesis by (auto intro: failed.fenced_completed simp: failed_cas_def)
next
  case Cancelled
  with assms show ?thesis by (auto intro: cancelled.fenced_completed simp: cancelled_cas_def)
next
  case (Abandoned why)
  with assms show ?thesis by (auto intro: abandoned.fenced_completed simp: abandoned_cas_def)
qed

lemma complete_frame:
  assumes "db_inv d" "complete k i a w d = Inr (r, d')"
  shows "j \<noteq> i \<Longrightarrow> find_task d' j = find_task d j" "now d' = now d" "workers d' = workers d"
    "tenants d' = tenants d"
proof -
  have "(j \<noteq> i \<longrightarrow> find_task d' j = find_task d j) \<and> now d' = now d \<and> workers d' = workers d \<and> tenants d' = tenants d"
    using assms(2) success.fenced_frame [OF assms(1)] retry.fenced_frame [OF assms(1)]
      failed.fenced_frame [OF assms(1)] cancelled.fenced_frame [OF assms(1)]
      abandoned.fenced_frame [OF assms(1)]
    by (cases k) auto
  then show "j \<noteq> i \<Longrightarrow> find_task d' j = find_task d j" "now d' = now d" "workers d' = workers d"
    "tenants d' = tenants d" by simp_all
qed

text \<open>
  C8. Fenced completion. Between transactions (under the invariant) none of the five completion
  functions raises; each applies exactly when the caller holds the lease under the attempt number
  it presents. An applied completion leaves the task in its target state with no lease and the
  same token and closes that attempt with the matching outcome; a refused one (a stale worker)
  leaves the whole database as it was. The invariant is kept either way.
\<close>

theorem completion_contract:
  assumes "db_inv d"
  shows "\<exists>r d'. complete k i a w d = Inr (r, d') \<and> db_inv d' \<and> (applied r \<longleftrightarrow> owns d i a w)
     \<and> (applied r \<longrightarrow> completed (completed_state k) (completed_outcome k) d i a d')
     \<and> (\<not> applied r \<longrightarrow> d' = d)"
proof -
  obtain r d' where c: "complete k i a w d = Inr (r, d')" "db_inv d'" "\<not> applied r \<longrightarrow> d' = d"
    using complete_total [OF assms] by blast
  have "applied r \<longleftrightarrow> owns d i a w"
    using complete_owner_applied [OF assms _ c(1)] complete_not_owner [OF assms _ c(1)] by blast
  with c complete_completed [OF assms c(1)] show ?thesis by blast
qed

text \<open>A running database: the lease of task 7 is held by worker \<open>w1\<close> under token 1.\<close>

theorem completion_contract_witness:
  "\<exists>r d'. complete (Success []) 7 1 ''w1'' demo_db = Inr (r, d') \<and> applied r
     \<and> completed SUCCEEDED OUT_SUCCEEDED demo_db 7 1 d'
     \<and> (\<exists>r. complete (Success []) 7 1 ''w2'' demo_db = Inr (r, demo_db) \<and> \<not> applied r)"
proof -
  have "owns demo_db 7 1 ''w1''" "\<not> owns demo_db 7 1 ''w2''"
    by (simp_all add: owns_def find_task_def demo_db_def demo_task_def)
  then show ?thesis
    using completion_contract [OF demo_db_inv, of "Success []" 7 1 "''w1''"]
      completion_contract [OF demo_db_inv, of "Success []" 7 1 "''w2''"] by auto
qed

end
