(* ===== verification/Reap.thy ===== *)
theory Reap
  imports Completion
begin

text \<open>
  \<open>db/queries/reap.py\<close>: the recovery of running tasks whose lease has expired and of running tasks
  that have exceeded their execution time. The two passes share the locale \<open>recovery\<close> (one
  task, over \<open>ends_attempt\<close>) and the locale \<open>reap_pass\<close> (a batch).
\<close>

section \<open>One task\<close>

definition attempts_exhausted_data :: "string option \<Rightarrow> dict" where
  "attempts_exhausted_data lw =
     [(''lease_worker_id'', case lw of None \<Rightarrow> JNull | Some w \<Rightarrow> JStr w),
      (''reason'', JStr ''attempts_exhausted'')]"

definition recovered_data :: "string option \<Rightarrow> dict" where
  "recovered_data lw = [(''lease_worker_id'', case lw of None \<Rightarrow> JNull | Some w \<Rightarrow> JStr w)]"

definition lease_message :: "string option \<Rightarrow> string" where
  "lease_message lw = ''lease expired; worker '' @ py_repr_opt lw @ '' presumed dead''"

definition hung_message :: "string option \<Rightarrow> string" where
  "hung_message lw = ''execution time exceeded; worker '' @ py_repr_opt lw @ '' presumed stuck''"

definition reap_task_cas :: "int \<Rightarrow> int \<Rightarrow> string option \<Rightarrow> time \<Rightarrow> cas" where
  "reap_task_cas a max_a lw tn =
     (if a < max_a then
        \<lparr>expect_state = [RUNNING], to_state = QUEUED, cas_event_type = TASK_RECOVERED,
         expect_attempt = None, expect_worker = None, expect_lease_expired = True,
         expect_execution_time_exceeded = False,
         set_fields = [SET_available_at tn, SET_lease_worker_id None, SET_lease_expires_at None,
                       SET_error_class (Some ''LeaseExpired''),
                       SET_error_message (Some (lease_message lw))],
         event_data = recovered_data lw\<rparr>
      else
        \<lparr>expect_state = [RUNNING], to_state = FAILED, cas_event_type = TASK_FAILED,
         expect_attempt = None, expect_worker = None, expect_lease_expired = True,
         expect_execution_time_exceeded = False,
         set_fields = [SET_finished_at (Some tn), SET_lease_worker_id None, SET_lease_expires_at None,
                       SET_error_class (Some ''LeaseExpired''),
                       SET_error_message (Some (lease_message lw))],
         event_data = attempts_exhausted_data lw\<rparr>)"

definition reap_task :: "uuid \<Rightarrow> int \<Rightarrow> int \<Rightarrow> string option \<Rightarrow> db \<Rightarrow> exn + (bool \<times> db)" where
  "reap_task i a max_a lw d =
     bindE (transition i (reap_task_cas a max_a lw (now d)) d) (\<lambda>(res, d1).
       if \<not> applied res then Inr (False, d1)
       else bindE (record_event i WORKER_LOST (Some a) lw [] d1) (\<lambda>d2.
         Inr (True, finish_attempt i a OUT_LOST (Some ''LeaseExpired'') (Some (lease_message lw)) d2)))"

definition reap_hung_cas :: "int \<Rightarrow> int \<Rightarrow> string option \<Rightarrow> time \<Rightarrow> cas" where
  "reap_hung_cas a max_a lw tn =
     (if a < max_a then
        \<lparr>expect_state = [RUNNING], to_state = QUEUED, cas_event_type = TASK_RECOVERED,
         expect_attempt = None, expect_worker = None, expect_lease_expired = False,
         expect_execution_time_exceeded = True,
         set_fields = [SET_available_at tn, SET_lease_worker_id None, SET_lease_expires_at None,
                       SET_error_class (Some ''ExecutionTimeExceeded''),
                       SET_error_message (Some (hung_message lw))],
         event_data = recovered_data lw\<rparr>
      else
        \<lparr>expect_state = [RUNNING], to_state = FAILED, cas_event_type = TASK_FAILED,
         expect_attempt = None, expect_worker = None, expect_lease_expired = False,
         expect_execution_time_exceeded = True,
         set_fields = [SET_finished_at (Some tn), SET_lease_worker_id None, SET_lease_expires_at None,
                       SET_error_class (Some ''ExecutionTimeExceeded''),
                       SET_error_message (Some (hung_message lw))],
         event_data = attempts_exhausted_data lw\<rparr>)"

definition reap_hung_task :: "uuid \<Rightarrow> int \<Rightarrow> int \<Rightarrow> string option \<Rightarrow> db \<Rightarrow> exn + (bool \<times> db)" where
  "reap_hung_task i a max_a lw d =
     bindE (transition i (reap_hung_cas a max_a lw (now d)) d) (\<lambda>(res, d1).
       if \<not> applied res then Inr (False, d1)
       else bindE (record_event i WORKER_LOST (Some a) lw
                     [(''reason'', JStr ''execution_time_exceeded'')] d1) (\<lambda>d2.
         Inr (True, finish_attempt i a OUT_LOST (Some ''ExecutionTimeExceeded'')
                      (Some (hung_message lw)) d2)))"

section \<open>The candidates and the batch\<close>

record reap_row =
  rr_id :: uuid
  rr_attempt :: int
  rr_max_attempts :: int
  rr_lease_worker_id :: "string option"
  rr_overdue_s :: rat

definition lease_end :: "task \<Rightarrow> time" where
  "lease_end t = (case lease_expires_at t of None \<Rightarrow> 0 | Some e \<Rightarrow> e)"

definition execution_start :: "task \<Rightarrow> time" where
  "execution_start t = (case first_started_at t of None \<Rightarrow> 0 | Some s \<Rightarrow> s)"

definition expired_rows :: "nat \<Rightarrow> uuid list \<Rightarrow> db \<Rightarrow> task list" where
  "expired_rows limit locked d =
     take limit (sort_key lease_end (filter (\<lambda>t. t_state t = RUNNING \<and> lease_expired (now d) t
       \<and> t_id t \<notin> set locked) (tasks d)))"

definition find_expired_leases :: "nat \<Rightarrow> uuid list \<Rightarrow> db \<Rightarrow> reap_row list" where
  "find_expired_leases limit locked d =
     map (\<lambda>t. \<lparr>rr_id = t_id t, rr_attempt = t_attempt t, rr_max_attempts = t_max_attempts t,
               rr_lease_worker_id = lease_worker_id t, rr_overdue_s = now d - lease_end t\<rparr>)
       (expired_rows limit locked d)"

definition hung_rows :: "nat \<Rightarrow> uuid list \<Rightarrow> db \<Rightarrow> task list" where
  "hung_rows limit locked d =
     take limit (sort_key execution_start (filter (\<lambda>t. t_state t = RUNNING
       \<and> execution_time_exceeded (now d) t \<and> t_id t \<notin> set locked) (tasks d)))"

definition find_hung_tasks :: "nat \<Rightarrow> uuid list \<Rightarrow> db \<Rightarrow> reap_row list" where
  "find_hung_tasks limit locked d =
     map (\<lambda>t. \<lparr>rr_id = t_id t, rr_attempt = t_attempt t, rr_max_attempts = t_max_attempts t,
               rr_lease_worker_id = lease_worker_id t,
               rr_overdue_s = now d - execution_start t - seconds (of_int (t_max_execution_time_s t))\<rparr>)
       (hung_rows limit locked d)"

record reap_result =
  requeued :: nat
  failed_exhausted :: nat
  overdue_s :: "rat list"

definition no_result :: reap_result where
  "no_result = \<lparr>requeued = 0, failed_exhausted = 0, overdue_s = []\<rparr>"

definition reaped :: "reap_result \<Rightarrow> nat" where
  "reaped r = requeued r + failed_exhausted r"

text \<open>The loop over the candidates, the same in both passes.\<close>

definition count_reaped :: "reap_row \<Rightarrow> bool \<Rightarrow> reap_result \<Rightarrow> reap_result" where
  "count_reaped row done res =
     (if done then
        (let exhausted = rr_attempt row \<ge> rr_max_attempts row;
             r = (if exhausted then res\<lparr>failed_exhausted := failed_exhausted res + 1\<rparr>
                  else res\<lparr>requeued := requeued res + 1\<rparr>)
         in r\<lparr>overdue_s := overdue_s r @ [rr_overdue_s row]\<rparr>)
      else res)"

fun reap_rows :: "(uuid \<Rightarrow> int \<Rightarrow> int \<Rightarrow> string option \<Rightarrow> db \<Rightarrow> exn + (bool \<times> db)) \<Rightarrow>
    reap_row list \<Rightarrow> reap_result \<Rightarrow> db \<Rightarrow> exn + (reap_result \<times> db)" where
  "reap_rows reap [] res d = Inr (res, d)"
| "reap_rows reap (row # rows) res d =
     bindE (reap (rr_id row) (rr_attempt row) (rr_max_attempts row) (rr_lease_worker_id row) d)
       (\<lambda>(done, d1). reap_rows reap rows (count_reaped row done res) d1)"

definition reap_expired_leases :: "nat \<Rightarrow> uuid list \<Rightarrow> db \<Rightarrow> exn + (reap_result \<times> db)" where
  "reap_expired_leases limit locked d =
     reap_rows reap_task (find_expired_leases limit locked d) no_result d"

definition reap_hung_tasks :: "nat \<Rightarrow> uuid list \<Rightarrow> db \<Rightarrow> exn + (reap_result \<times> db)" where
  "reap_hung_tasks limit locked d =
     reap_rows reap_hung_task (find_hung_tasks limit locked d) no_result d"

section \<open>What a recovery does to a task\<close>

definition recovered_row :: "time \<Rightarrow> task \<Rightarrow> task \<Rightarrow> bool" where
  "recovered_row tn t t' \<longleftrightarrow>
     t_state t' = (if t_attempt t < t_max_attempts t then QUEUED else FAILED)
     \<and> t_attempt t' = t_attempt t \<and> lease_worker_id t' = None
     \<and> (t_attempt t < t_max_attempts t \<longrightarrow> available_at t' = tn)
     \<and> cancel_requested t' = cancel_requested t \<and> row_step t t'"

definition recovered :: "db \<Rightarrow> uuid \<Rightarrow> db \<Rightarrow> bool" where
  "recovered d i d' \<longleftrightarrow> db_inv d' \<and> now d' = now d \<and> workers d' = workers d \<and> tenants d' = tenants d
     \<and> (\<exists>t t'. find_task d i = Some t \<and> find_task d' i = Some t' \<and> recovered_row (now d) t t'
          \<and> (\<exists>x \<in> set (attempts_of d' i). ta_attempt x = t_attempt t \<and> outcome x = Some OUT_LOST))
     \<and> (\<forall>j. j \<noteq> i \<longrightarrow> find_task d' j = find_task d j \<and> attempts_of d' j = attempts_of d j)"

locale recovery = ends_attempt c OUT_LOST
  for c :: "time \<Rightarrow> cas" +
  fixes i :: uuid and a max_a :: int and lw :: "string option"
    and fence :: "time \<Rightarrow> task \<Rightarrow> bool"
    and reap :: "db \<Rightarrow> exn + (bool \<times> db)"
    and ec em :: "string option" and data :: dict
  assumes fenced: "cas_where tn (c tn) i t \<longleftrightarrow> t_id t = i \<and> t_state t = RUNNING \<and> fence tn t"
    and branch: "to_state (c tn) = (if a < max_a then QUEUED else FAILED)"
    and due: "a < max_a \<Longrightarrow> available_at (set_row (cas_set tn (c tn)) t) = tn"
    and reap_eq: "reap d = bindE (transition i (c (now d)) d) (\<lambda>(res, d1).
       if \<not> applied res then Inr (False, d1)
       else bindE (record_event i WORKER_LOST (Some a) lw data d1) (\<lambda>d2.
         Inr (True, finish_attempt i a OUT_LOST ec em d2)))"
begin

lemma reap_refused:
  assumes "db_inv d" "\<And>t. find_task d i = Some t \<Longrightarrow> \<not> (t_state t = RUNNING \<and> fence (now d) t)"
  shows "reap d = Inr (False, d)"
proof (cases "find_task d i")
  case None
  then show ?thesis by (simp add: reap_eq transition_total [OF assms(1)])
next
  case (Some t)
  have "\<not> cas_where (now d) (c (now d)) i t" using assms(2) [OF Some] by (simp add: fenced)
  then show ?thesis by (simp add: reap_eq transition_total [OF assms(1)] Some)
qed

lemma reap_applies:
  assumes "db_inv d" "find_task d i = Some t" "t_state t = RUNNING" "fence (now d) t"
    and "t_attempt t = a" "t_max_attempts t = max_a"
  shows "\<exists>d'. reap d = Inr (True, d') \<and> recovered d i d'"
proof -
  let ?c = "c (now d)" and ?t = "set_row (cas_set (now d) (c (now d))) t"
  have wh: "cas_where (now d) ?c i t" using assms find_task_SomeD [OF assms(2)] by (simp add: fenced)
  define d1 where "d1 = after_transition i ?c t d"
  have f1: "find_task d1 i = Some ?t"
    using assms(2) by (simp add: d1_def find_task_after_transition)
  obtain d2 where d2: "insert_event i WORKER_LOST (Some a) lw data d1 = Inr d2"
    using f1 by (auto simp: insert_event_Inr)
  define d' where "d' = finish_attempt i a OUT_LOST ec em d2"
  have eq: "reap d = Inr (True, d')"
    using d2 by (simp add: reap_eq transition_total [OF assms(1)] assms(2) wh record_event_def
        d1_def [symmetric] d'_def)
  have d2s: "tasks d2 = tasks d1" "workers d2 = workers d" "tenants d2 = tenants d"
    "task_attempts d2 = task_attempts d" "now d2 = now d"
    using insert_event_frame [OF d2] by (simp_all add: d1_def)
  have ev: "te_task_id e \<in> t_id ` set (tasks d)" if "e \<in> set (task_events d2)" for e
  proof -
    have "i \<in> t_id ` set (tasks d)" using assms(2) find_task_iff [of d i] by simp
    then show ?thesis
      using that d2 assms(1)
      by (auto simp: insert_event_Inr d1_def after_transition_def Let_def db_inv_def event_refs_def)
  qed
  have inv: "db_inv d'" and step: "db_step_ok d d'"
    unfolding d'_def assms(5) [symmetric]
    by (rule end_inv [OF assms(1,2) wh]; simp add: d2s d1_def ev)+
  have f': "find_task d' j = find_task d1 j" for j
    by (simp add: d'_def find_task_def d2s)
  have att: "attempts_of d' j = (if j = i then map (\<lambda>r. if ta_attempt r = a then finish_row (now d) OUT_LOST ec em r else r) (attempts_of d i)
      else attempts_of d j)" for j
    unfolding d'_def attempts_of_finish by (simp add: d2s attempts_of_def)
  note ti = db_inv_task [OF assms(1,2)]
  have "recovered_row (now d) t ?t"
  proof -
    have "row_step t ?t" using db_step_okD [OF step assms(2)] f1 f' by simp
    moreover have "lease_worker_id ?t = None"
      using row [OF ti(1) assms(3)] target state by (simp add: row_wf_def)
    ultimately show ?thesis
      using due [of "now d" t] assms(5,6) by (simp add: recovered_row_def state token flag branch)
  qed
  moreover have "\<exists>x \<in> set (attempts_of d' i). ta_attempt x = t_attempt t \<and> outcome x = Some OUT_LOST"
  proof -
    have "1 \<le> t_attempt t" using ti(1) assms(3) by (simp add: row_wf_def)
    then have "t_attempt t \<in> set (map ta_attempt (attempts_of d i))" using ti(2) by (simp add: log_ok_def)
    then obtain x where "x \<in> set (attempts_of d i)" "ta_attempt x = t_attempt t" by auto
    then have "finish_row (now d) OUT_LOST ec em x \<in> set (attempts_of d' i)"
      unfolding att using assms(5) by (auto intro!: image_eqI [of _ _ x])
    then show ?thesis using \<open>ta_attempt x = t_attempt t\<close> by (metis finish_row_simps(2,4))
  qed
  moreover have "find_task d' j = find_task d j \<and> attempts_of d' j = attempts_of d j" if "j \<noteq> i" for j
    using that by (simp add: f' att d1_def find_task_after_transition)
  ultimately have "recovered d i d'"
    using inv assms(2) f1 f' by (simp add: recovered_def d'_def d2s)
  with eq show ?thesis by blast
qed

end

interpretation lease_reap: recovery "reap_task_cas a max_a lw" i a max_a lw lease_expired
    "reap_task i a max_a lw" "Some ''LeaseExpired''" "Some (lease_message lw)" "[]" for a max_a lw i
  by unfold_locales
    (auto simp: reap_task_cas_def reap_task_def set_row_cas row_wf_def lease_coherent_def cas_where_def
      attempt_ok_def worker_ok_def)

interpretation hung_reap: recovery "reap_hung_cas a max_a lw" i a max_a lw execution_time_exceeded
    "reap_hung_task i a max_a lw" "Some ''ExecutionTimeExceeded''" "Some (hung_message lw)"
    "[(''reason'', JStr ''execution_time_exceeded'')]" for a max_a lw i
  by unfold_locales
    (auto simp: reap_hung_cas_def reap_hung_task_def set_row_cas row_wf_def lease_coherent_def cas_where_def
      attempt_ok_def worker_ok_def)

section \<open>A batch\<close>

text \<open>
  What one pass relies on: recovering one task whose fence holds applies, whatever the rest of the
  database is.
\<close>

locale reap_pass =
  fixes reap :: "uuid \<Rightarrow> int \<Rightarrow> int \<Rightarrow> string option \<Rightarrow> db \<Rightarrow> exn + (bool \<times> db)"
    and fence :: "time \<Rightarrow> task \<Rightarrow> bool"
  assumes reap_one: "db_inv d \<Longrightarrow> find_task d (t_id t) = Some t \<Longrightarrow> t_state t = RUNNING \<Longrightarrow> fence (now d) t \<Longrightarrow>
      \<exists>d'. reap (t_id t) (t_attempt t) (t_max_attempts t) (lease_worker_id t) d = Inr (True, d')
        \<and> recovered d (t_id t) d'"
begin

definition row_of :: "(task \<Rightarrow> rat) \<Rightarrow> task \<Rightarrow> reap_row" where
  "row_of late t = \<lparr>rr_id = t_id t, rr_attempt = t_attempt t, rr_max_attempts = t_max_attempts t,
     rr_lease_worker_id = lease_worker_id t, rr_overdue_s = late t\<rparr>"

lemma pass_ok:
  assumes "db_inv d" "distinct (map t_id ts)"
    and "\<And>t. t \<in> set ts \<Longrightarrow> find_task d (t_id t) = Some t \<and> t_state t = RUNNING \<and> fence (now d) t"
  shows "\<exists>d'. reap_rows reap (map (row_of late) ts) res d = Inr
      (\<lparr>requeued = requeued res + length (filter (\<lambda>t. t_attempt t < t_max_attempts t) ts),
        failed_exhausted = failed_exhausted res + length (filter (\<lambda>t. \<not> t_attempt t < t_max_attempts t) ts),
        overdue_s = overdue_s res @ map late ts\<rparr>, d')
    \<and> db_inv d' \<and> now d' = now d \<and> workers d' = workers d \<and> tenants d' = tenants d
    \<and> (\<forall>t \<in> set ts. \<exists>t'. find_task d' (t_id t) = Some t' \<and> recovered_row (now d) t t'
         \<and> (\<exists>x \<in> set (attempts_of d' (t_id t)). ta_attempt x = t_attempt t \<and> outcome x = Some OUT_LOST))
    \<and> (\<forall>j. j \<notin> t_id ` set ts \<longrightarrow> find_task d' j = find_task d j \<and> attempts_of d' j = attempts_of d j)"
  using assms
proof (induction ts arbitrary: d res)
  case Nil
  then show ?case by simp
next
  case (Cons t ts)
  have t: "find_task d (t_id t) = Some t" "t_state t = RUNNING" "fence (now d) t"
    using Cons.prems(3) [of t] by simp_all
  obtain d1 where d1: "reap (t_id t) (t_attempt t) (t_max_attempts t) (lease_worker_id t) d = Inr (True, d1)"
    "recovered d (t_id t) d1"
    using reap_one [OF Cons.prems(1) t] by blast
  have other: "t_id u \<noteq> t_id t" if "u \<in> set ts" for u
    using Cons.prems(2) that by (metis distinct.simps(2) image_eqI list.simps(9) list.set_map)
  let ?res = "count_reaped (row_of late t) True res"
  obtain d' where d': "reap_rows reap (map (row_of late) ts) ?res d1 = Inr
      (\<lparr>requeued = requeued ?res + length (filter (\<lambda>t. t_attempt t < t_max_attempts t) ts),
        failed_exhausted = failed_exhausted ?res + length (filter (\<lambda>t. \<not> t_attempt t < t_max_attempts t) ts),
        overdue_s = overdue_s ?res @ map late ts\<rparr>, d')"
    "db_inv d'" "now d' = now d" "workers d' = workers d" "tenants d' = tenants d"
    and rows: "\<forall>t \<in> set ts. \<exists>t'. find_task d' (t_id t) = Some t' \<and> recovered_row (now d) t t'
         \<and> (\<exists>x \<in> set (attempts_of d' (t_id t)). ta_attempt x = t_attempt t \<and> outcome x = Some OUT_LOST)"
    and rest: "\<forall>j. j \<notin> t_id ` set ts \<longrightarrow> find_task d' j = find_task d1 j \<and> attempts_of d' j = attempts_of d1 j"
  proof -
    have inv1: "db_inv d1" and same: "now d1 = now d" "workers d1 = workers d" "tenants d1 = tenants d"
      using d1(2) by (simp_all add: recovered_def)
    have "find_task d1 (t_id u) = Some u \<and> t_state u = RUNNING \<and> fence (now d1) u" if "u \<in> set ts" for u
      using Cons.prems(3) [of u] d1(2) other [OF that] that by (simp add: recovered_def)
    from Cons.IH [OF inv1 _ this, of ?res] Cons.prems(2) that show ?thesis
      unfolding same by auto
  qed
  have counts: "requeued ?res = requeued res + (if t_attempt t < t_max_attempts t then 1 else 0)"
    "failed_exhausted ?res = failed_exhausted res + (if t_attempt t < t_max_attempts t then 0 else 1)"
    "overdue_s ?res = overdue_s res @ [late t]"
    by (simp_all add: count_reaped_def row_of_def Let_def)
  have "\<exists>t'. find_task d' (t_id t) = Some t' \<and> recovered_row (now d) t t'
         \<and> (\<exists>x \<in> set (attempts_of d' (t_id t)). ta_attempt x = t_attempt t \<and> outcome x = Some OUT_LOST)"
  proof -
    have "t_id t \<notin> t_id ` set ts" using other by (metis imageE)
    then show ?thesis using rest d1(2) t(1) by (auto simp: recovered_def)
  qed
  then have all: "\<forall>t \<in> set (t # ts). \<exists>t'. find_task d' (t_id t) = Some t' \<and> recovered_row (now d) t t'
         \<and> (\<exists>x \<in> set (attempts_of d' (t_id t)). ta_attempt x = t_attempt t \<and> outcome x = Some OUT_LOST)"
    using rows by simp
  have frame: "\<forall>j. j \<notin> t_id ` set (t # ts) \<longrightarrow> find_task d' j = find_task d j \<and> attempts_of d' j = attempts_of d j"
    using rest d1(2) by (simp add: recovered_def)
  have "reap_rows reap (map (row_of late) (t # ts)) res d = reap_rows reap (map (row_of late) ts) ?res d1"
    using d1(1) by (simp add: row_of_def)
  also have "\<dots> = Inr
      (\<lparr>requeued = requeued res + length (filter (\<lambda>t. t_attempt t < t_max_attempts t) (t # ts)),
        failed_exhausted = failed_exhausted res + length (filter (\<lambda>t. \<not> t_attempt t < t_max_attempts t) (t # ts)),
        overdue_s = overdue_s res @ map late (t # ts)\<rparr>, d')"
    unfolding d'(1) counts by simp
  finally show ?case using d'(2-5) all frame by blast
qed

end

interpretation lease_pass: reap_pass reap_task lease_expired
  by unfold_locales (rule lease_reap.reap_applies; simp)

interpretation hung_pass: reap_pass reap_hung_task execution_time_exceeded
  by unfold_locales (rule hung_reap.reap_applies; simp)

section \<open>Properties\<close>

lemma scan_facts:
  assumes "db_inv d" "t \<in> set (take n (sort_key f (filter P (tasks d))))"
  shows "find_task d (t_id t) = Some t" "P t"
proof -
  have t: "t \<in> set (tasks d)" "P t" using assms(2) by (auto dest: in_set_takeD)
  then show "find_task d (t_id t) = Some t" "P t"
    using assms(1) by (simp_all add: find_task_def db_inv_def ids_distinct_def find_by_in_set)
qed

lemma scan_distinct:
  assumes "db_inv d"
  shows "distinct (map t_id (take n (sort_key f (filter P (tasks d)))))"
proof -
  have "distinct (map t_id (sort_key f (filter P (tasks d))))"
    using db_inv_ids [OF assms] by (auto simp: ids_distinct_def distinct_map intro: inj_on_subset)
  then show ?thesis by (simp add: distinct_take flip: take_map)
qed

lemma find_expired_leases_eq:
  "find_expired_leases limit locked d =
     map (lease_pass.row_of (\<lambda>t. now d - lease_end t)) (expired_rows limit locked d)"
  by (simp add: find_expired_leases_def lease_pass.row_of_def)

lemma find_hung_tasks_eq:
  "find_hung_tasks limit locked d =
     map (hung_pass.row_of (\<lambda>t. now d - execution_start t - of_int (t_max_execution_time_s t)))
       (hung_rows limit locked d)"
  by (simp add: find_hung_tasks_def hung_pass.row_of_def)

lemma length_split: "length (filter P xs) + length (filter (\<lambda>x. \<not> P x) xs) = length xs"
  by (induction xs) auto

lemma step_from_rows:
  assumes "\<forall>t \<in> set ts. \<exists>t'. find_task d' (t_id t) = Some t' \<and> recovered_row (now d) t t' \<and> Q t"
    and "\<forall>j. j \<notin> t_id ` set ts \<longrightarrow> find_task d' j = find_task d j"
    and "\<And>t. t \<in> set ts \<Longrightarrow> find_task d (t_id t) = Some t"
  shows "db_step_ok d d'"
  unfolding db_step_ok_def
proof (intro allI impI)
  fix i t assume t: "find_task d i = Some t"
  show "\<exists>t'. find_task d' i = Some t' \<and> row_step t t'"
  proof (cases "i \<in> t_id ` set ts")
    case True
    then have "t \<in> set ts" "t_id t = i" using assms(3) t by force+
    then show ?thesis using assms(1) by (auto simp: recovered_row_def)
  next
    case False
    then show ?thesis using assms(2) t by simp
  qed
qed

text \<open>The recovered tasks, their lost attempts, and everything else as it was.\<close>

definition recovered_all :: "task list \<Rightarrow> db \<Rightarrow> db \<Rightarrow> bool" where
  "recovered_all ts d d' \<longleftrightarrow>
     (\<forall>t \<in> set ts. \<exists>t'. find_task d' (t_id t) = Some t' \<and> recovered_row (now d) t t'
         \<and> (\<exists>x \<in> set (attempts_of d' (t_id t)). ta_attempt x = t_attempt t \<and> outcome x = Some OUT_LOST))
     \<and> (\<forall>j. j \<notin> t_id ` set ts \<longrightarrow> find_task d' j = find_task d j \<and> attempts_of d' j = attempts_of d j)"

lemma recovered_all_step:
  assumes "recovered_all ts d d'" "\<And>t. t \<in> set ts \<Longrightarrow> find_task d (t_id t) = Some t"
  shows "db_step_ok d d'"
  by (rule step_from_rows [of ts d' d "\<lambda>t. \<exists>x \<in> set (attempts_of d' (t_id t)). ta_attempt x = t_attempt t \<and> outcome x = Some OUT_LOST"])
    (use assms in \<open>simp_all add: recovered_all_def\<close>)

lemma reap_expired_ok:
  assumes "db_inv d"
  shows "\<exists>res d'. reap_expired_leases limit locked d = Inr (res, d') \<and> db_inv d' \<and> db_step_ok d d'
    \<and> now d' = now d \<and> reaped res = length (expired_rows limit locked d)
    \<and> recovered_all (expired_rows limit locked d) d d'"
proof -
  let ?ts = "expired_rows limit locked d" and ?late = "\<lambda>t. now d - lease_end t"
  have ts: "find_task d (t_id t) = Some t \<and> t_state t = RUNNING \<and> lease_expired (now d) t" if "t \<in> set ?ts" for t
    using scan_facts [OF assms that [unfolded expired_rows_def]] by simp
  have dist: "distinct (map t_id ?ts)" unfolding expired_rows_def by (rule scan_distinct [OF assms])
  from lease_pass.pass_ok [OF assms dist ts, of ?late no_result]
  obtain d' where d': "reap_rows reap_task (map (lease_pass.row_of ?late) ?ts) no_result d = Inr
      (\<lparr>requeued = requeued no_result + length (filter (\<lambda>t. t_attempt t < t_max_attempts t) ?ts),
        failed_exhausted = failed_exhausted no_result + length (filter (\<lambda>t. \<not> t_attempt t < t_max_attempts t) ?ts),
        overdue_s = overdue_s no_result @ map ?late ?ts\<rparr>, d')"
    "db_inv d'" "now d' = now d" "recovered_all ?ts d d'"
    unfolding recovered_all_def by blast
  have "db_step_ok d d'" by (rule recovered_all_step [OF d'(4)]) (simp add: ts)
  with d' show ?thesis
    unfolding reap_expired_leases_def find_expired_leases_eq
    by (simp add: reaped_def no_result_def length_split del: not_less)
qed

lemma reap_hung_ok:
  assumes "db_inv d"
  shows "\<exists>res d'. reap_hung_tasks limit locked d = Inr (res, d') \<and> db_inv d' \<and> db_step_ok d d'
    \<and> now d' = now d \<and> reaped res = length (hung_rows limit locked d)
    \<and> recovered_all (hung_rows limit locked d) d d'"
proof -
  let ?ts = "hung_rows limit locked d"
  let ?late = "\<lambda>t. now d - execution_start t - of_int (t_max_execution_time_s t)"
  have ts: "find_task d (t_id t) = Some t \<and> t_state t = RUNNING \<and> execution_time_exceeded (now d) t"
    if "t \<in> set ?ts" for t
    using scan_facts [OF assms that [unfolded hung_rows_def]] by simp
  have dist: "distinct (map t_id ?ts)" unfolding hung_rows_def by (rule scan_distinct [OF assms])
  from hung_pass.pass_ok [OF assms dist ts, of ?late no_result]
  obtain d' where d': "reap_rows reap_hung_task (map (hung_pass.row_of ?late) ?ts) no_result d = Inr
      (\<lparr>requeued = requeued no_result + length (filter (\<lambda>t. t_attempt t < t_max_attempts t) ?ts),
        failed_exhausted = failed_exhausted no_result + length (filter (\<lambda>t. \<not> t_attempt t < t_max_attempts t) ?ts),
        overdue_s = overdue_s no_result @ map ?late ?ts\<rparr>, d')"
    "db_inv d'" "now d' = now d" "recovered_all ?ts d d'"
    unfolding recovered_all_def by blast
  have "db_step_ok d d'" by (rule recovered_all_step [OF d'(4)]) (simp add: ts)
  with d' show ?thesis
    unfolding reap_hung_tasks_def find_hung_tasks_eq
    by (simp add: reaped_def no_result_def length_split del: not_less)
qed

lemma expired_rows_all:
  assumes "length (tasks d) \<le> limit"
  shows "set (expired_rows limit locked d) = {t \<in> set (tasks d). t_state t = RUNNING
    \<and> lease_expired (now d) t \<and> t_id t \<notin> set locked}"
proof -
  have "length (sort_key lease_end (filter P (tasks d))) \<le> limit" for P
    using assms length_filter_le [of P "tasks d"] by (simp only: length_sort)
  then show ?thesis by (auto simp: expired_rows_def)
qed

text \<open>
  C14. Recovery of expired leases. Under the invariant a pass never raises and keeps the invariant.
  It recovers exactly the unlocked running tasks with an expired lease, the longest expired first,
  up to its limit: back to \<open>QUEUED\<close> and due at once while attempts are left, \<open>FAILED\<close> otherwise,
  never with a new fencing token; the lost attempt is closed as \<open>LOST\<close>; no other task or attempt
  changes; and the count it reports is the number of tasks recovered.
\<close>

theorem reap_expired_contract:
  assumes "db_inv d"
  shows "\<exists>res d'. reap_expired_leases limit locked d = Inr (res, d') \<and> db_inv d'
    \<and> reaped res = length (expired_rows limit locked d)
    \<and> recovered_all (expired_rows limit locked d) d d'
    \<and> (length (tasks d) \<le> limit \<longrightarrow>
         (\<forall>t \<in> set (tasks d). t_state t = RUNNING \<and> lease_expired (now d) t \<and> t_id t \<notin> set locked
            \<longrightarrow> (\<exists>t'. find_task d' (t_id t) = Some t' \<and> recovered_row (now d) t t')))"
proof -
  obtain res d' where r: "reap_expired_leases limit locked d = Inr (res, d')" "db_inv d'"
    "reaped res = length (expired_rows limit locked d)" "recovered_all (expired_rows limit locked d) d d'"
    using reap_expired_ok [OF assms] by blast
  have "\<exists>t'. find_task d' (t_id t) = Some t' \<and> recovered_row (now d) t t'"
    if "length (tasks d) \<le> limit" "t \<in> set (tasks d)" "t_state t = RUNNING" "lease_expired (now d) t"
      "t_id t \<notin> set locked" for t
    using r(4) that expired_rows_all [OF that(1), of locked] by (auto simp: recovered_all_def)
  with r show ?thesis by blast
qed

definition demo_late :: db where
  "demo_late = demo_db\<lparr>now := 400\<rparr>"

lemma demo_late_inv: "db_inv demo_late"
  by (rule db_inv_frame [OF demo_db_inv]) (simp_all add: demo_late_def, simp add: demo_defs)

lemma demo_late_rows: "expired_rows 5 [] demo_late = [demo_task]" "hung_rows 5 [] demo_late = [demo_task]"
  by (simp_all add: expired_rows_def hung_rows_def demo_late_def demo_db_def)
     (simp_all add: demo_task_def lease_expired_def execution_time_exceeded_def)

theorem reap_expired_contract_witness:
  "\<exists>res d'. reap_expired_leases 5 [] demo_late = Inr (res, d') \<and> reaped res = 1
     \<and> (\<exists>t'. find_task d' 7 = Some t' \<and> t_state t' = QUEUED)"
proof -
  have "t_id demo_task = 7" "t_attempt demo_task < t_max_attempts demo_task" by (simp_all add: demo_task_def)
  then show ?thesis
    using reap_expired_contract [OF demo_late_inv, of 5 "[]"]
    by (auto simp: demo_late_rows recovered_all_def recovered_row_def)
qed

text \<open>
  Recovery of hung tasks: the same contract for the running tasks past their execution-time cap,
  whether or not their lease is still valid.
\<close>

theorem reap_hung_contract:
  assumes "db_inv d"
  shows "\<exists>res d'. reap_hung_tasks limit locked d = Inr (res, d') \<and> db_inv d'
    \<and> reaped res = length (hung_rows limit locked d)
    \<and> recovered_all (hung_rows limit locked d) d d'
    \<and> (\<forall>t \<in> set (hung_rows limit locked d). t_state t = RUNNING \<and> execution_time_exceeded (now d) t)"
proof -
  have "t_state t = RUNNING \<and> execution_time_exceeded (now d) t" if "t \<in> set (hung_rows limit locked d)" for t
    using scan_facts(2) [OF assms that [unfolded hung_rows_def]] by simp
  then show ?thesis using reap_hung_ok [OF assms, of limit locked] by blast
qed

theorem reap_hung_contract_witness:
  "\<exists>res d'. reap_hung_tasks 5 [] demo_late = Inr (res, d') \<and> reaped res = 1
     \<and> (\<exists>t'. find_task d' 7 = Some t' \<and> t_state t' = QUEUED)"
proof -
  have "t_id demo_task = 7" "t_attempt demo_task < t_max_attempts demo_task" by (simp_all add: demo_task_def)
  then show ?thesis
    using reap_hung_contract [OF demo_late_inv, of 5 "[]"]
    by (auto simp: demo_late_rows recovered_all_def recovered_row_def)
qed

end
