(* ===== verification/Workers.thy ===== *)
theory Workers
  imports Invariant Scheduling
begin

text \<open>
  The worker registry (\<open>db/queries/workers.py\<close>) and the renewal of a lease
  (\<open>db/queries/lease.py\<close>), with the properties that tie the renewal protocol to the validated
  settings.
\<close>

section \<open>The registry\<close>

definition register_worker ::
  "string \<Rightarrow> string \<Rightarrow> int \<Rightarrow> int \<Rightarrow> string list \<Rightarrow> db \<Rightarrow> exn + (worker \<times> db)" where
  "register_worker i host p cap caps d =
     (let w = \<lparr>w_id = i, hostname = host, pid = p, capacity = cap, w_capabilities = caps,
               w_status = ALIVE, registered_at = now d, last_heartbeat_at = now d\<rparr>
      in if \<not> (cap \<ge> 1) then Inl (IntegrityError ''ck_workers_capacity'')
         else if find_worker d i \<noteq> None then Inl (IntegrityError ''workers_pkey'')
         else Inr (w, d\<lparr>workers := workers d @ [w]\<rparr>))"

definition heartbeat :: "string \<Rightarrow> db \<Rightarrow> bool \<times> db" where
  "heartbeat i d =
     (let p = (\<lambda>w. w_id w = i \<and> w_status w \<noteq> DEAD) in
      (length (filter p (workers d)) = 1,
       d\<lparr>workers := sql_update p (assign_worker (SET_last_heartbeat_at (now d))) (workers d)\<rparr>))"

definition set_worker_status :: "string \<Rightarrow> worker_status \<Rightarrow> db \<Rightarrow> db" where
  "set_worker_status i st d =
     d\<lparr>workers := sql_update (\<lambda>w. w_id w = i) (assign_worker (SET_worker_status st)) (workers d)\<rparr>"

definition stale_worker :: "time \<Rightarrow> int \<Rightarrow> worker \<Rightarrow> bool" where
  "stale_worker tn dead_after_s w =
     (w_status w \<noteq> DEAD \<and> last_heartbeat_at w < tn - seconds (of_int dead_after_s))"

definition mark_dead_workers :: "int \<Rightarrow> db \<Rightarrow> string list \<times> db" where
  "mark_dead_workers dead_after_s d =
     (let p = stale_worker (now d) dead_after_s in
      (map w_id (sql_returning p (assign_worker (SET_worker_status DEAD)) (workers d)),
       d\<lparr>workers := sql_update p (assign_worker (SET_worker_status DEAD)) (workers d)\<rparr>))"

section \<open>Lease renewal\<close>

definition lease_live :: "time \<Rightarrow> task \<Rightarrow> bool" where
  "lease_live tn t = (case lease_expires_at t of None \<Rightarrow> False | Some e \<Rightarrow> e > tn)"

definition renew_where :: "time \<Rightarrow> uuid \<Rightarrow> string \<Rightarrow> int \<Rightarrow> task \<Rightarrow> bool" where
  "renew_where tn i w a t =
     (t_id t = i \<and> t_state t = RUNNING \<and> t_attempt t = a \<and> lease_worker_id t = Some w
      \<and> lease_live tn t)"

definition renew_set :: "time \<Rightarrow> int \<Rightarrow> task \<Rightarrow> assignment list" where
  "renew_set tn ttl t =
     [SET_lease_expires_at (Some (tn + seconds (of_int ttl))), SET_updated_at tn]"

text \<open>The columns the statement returns: \<open>cancel_requested\<close> and \<open>lease_expires_at\<close>.\<close>

definition renew_lease ::
  "uuid \<Rightarrow> string \<Rightarrow> int \<Rightarrow> int \<Rightarrow> db \<Rightarrow> exn + ((bool \<times> time option) option \<times> db)" where
  "renew_lease i worker_id a ttl d =
     bindE (update_tasks (renew_where (now d) i worker_id a)
              (renew_set (now d) ttl) d) (\<lambda>(rows, d1).
       case rows of
         [] \<Rightarrow> Inr (None, d1)
       | row # _ \<Rightarrow> Inr (Some (cancel_requested row, lease_expires_at row), d1))"

section \<open>Lemmas\<close>

lemma find_worker_update:
  "find_worker (d\<lparr>workers := sql_update p (assign_worker a) (workers d)\<rparr>) i =
     map_option (\<lambda>w. if p w then assign_worker a w else w) (find_worker d i)"
  by (simp add: find_worker_def worker_rows.find_update)

lemma find_worker_SomeD: "find_worker d i = Some w \<Longrightarrow> w \<in> set (workers d) \<and> w_id w = i"
  unfolding find_worker_def by (rule find_by_SomeD)

lemma db_inv_workers:
  assumes "db_inv d" "map w_id (workers d') = map w_id (workers d)" "tasks d' = tasks d"
    and "task_attempts d' = task_attempts d" "tenants d' = tenants d" "task_events d' = task_events d"
  shows "db_inv d'"
  by (rule db_inv_frame [OF assms(1)]) (use assms in \<open>auto simp: db_inv_def event_refs_def\<close>)

lemma heartbeat_inv: "db_inv d \<Longrightarrow> db_inv (snd (heartbeat i d))"
  by (erule db_inv_workers) (simp_all add: heartbeat_def Let_def worker_rows.map_key_update)

lemma set_worker_status_inv: "db_inv d \<Longrightarrow> db_inv (set_worker_status i st d)"
  by (erule db_inv_workers) (simp_all add: set_worker_status_def worker_rows.map_key_update)

lemma mark_dead_workers_inv: "db_inv d \<Longrightarrow> db_inv (snd (mark_dead_workers n d))"
  by (erule db_inv_workers) (simp_all add: mark_dead_workers_def Let_def worker_rows.map_key_update)

lemma marked_dead_iff:
  assumes "distinct (map w_id (workers d))" and "find_worker d i = Some w"
  shows "i \<in> set (fst (mark_dead_workers n d)) \<longleftrightarrow> stale_worker (now d) n w"
proof -
  have "i \<in> set (fst (mark_dead_workers n d)) \<longleftrightarrow>
      (\<exists>u \<in> set (workers d). w_id u = i \<and> stale_worker (now d) n u)"
    by (auto simp: mark_dead_workers_def Let_def sql_returning_def)
  moreover have "u = w" if "u \<in> set (workers d)" "w_id u = i" for u
    using that find_by_unique [OF assms(1), of i u] assms(2) by (simp add: find_worker_def)
  ultimately show ?thesis using find_worker_SomeD [OF assms(2)] by blast
qed

lemma register_worker_inv:
  assumes "db_inv d" "register_worker i host p cap caps d = Inr (w, d')"
  shows "db_inv d'" and "tasks d' = tasks d"
proof -
  have d': "d' = d\<lparr>workers := workers d @ [w]\<rparr>" "w_id w = i" "find_worker d i = None"
    using assms(2) by (auto simp: register_worker_def Let_def split: if_splits)
  then have new: "i \<notin> w_id ` set (workers d)"
    using find_worker_iff [of d i] by blast
  have *: "ids_distinct d' = ids_distinct d" "tasks_ok d' = tasks_ok d" "keys_unique d' = keys_unique d"
    "tenant_refs d' = tenant_refs d" "event_refs d' = event_refs d" "tenants d' = tenants d"
    "map w_id (workers d') = map w_id (workers d) @ [i]"
    by (simp_all add: d' ids_distinct_def tasks_ok_def keys_unique_def tenant_refs_def event_refs_def
        task_ok_def attempts_of_def)
  have "attempt_refs d \<Longrightarrow> attempt_refs d'"
    by (auto simp: attempt_refs_def d')
  then show "db_inv d'"
    using assms(1) new by (simp add: db_inv_def *)
  show "tasks d' = tasks d" by (simp add: d')
qed

lemma filter_renew:
  assumes "ids_distinct d"
  shows "filter (renew_where tn i w a) (tasks d) =
     (case find_task d i of None \<Rightarrow> [] | Some t \<Rightarrow> if renew_where tn i w a t then [t] else [])"
proof -
  have "filter (renew_where tn i w a) (tasks d) = filter (\<lambda>t. t_id t = i \<and> renew_where tn i w a t) (tasks d)"
    by (rule filter_cong) (auto simp: renew_where_def)
  then show ?thesis
    using filter_key_unique [of t_id "tasks d" i "renew_where tn i w a"] assms
    by (simp add: ids_distinct_def find_task_def)
qed

text \<open>The database after a renewal.\<close>

definition after_renewal :: "uuid \<Rightarrow> string \<Rightarrow> int \<Rightarrow> int \<Rightarrow> db \<Rightarrow> db" where
  "after_renewal i w a ttl d =
     d\<lparr>tasks := sql_update (renew_where (now d) i w a) (set_row (renew_set (now d) ttl)) (tasks d)\<rparr>"

lemma set_row_renew: "set_row (renew_set tn ttl) t =
    t\<lparr>lease_expires_at := Some (tn + of_int ttl), updated_at := tn\<rparr>"
  by (simp add: set_row_def renew_set_def)

lemma renewed_row:
  assumes "row_wf t" "t_state t = RUNNING"
  shows "row_wf (set_row (renew_set tn ttl) t)"
  using assms by (simp add: set_row_renew row_wf_def lease_coherent_def)

lemma renew_lease_eq:
  assumes "db_inv d"
  shows "renew_lease i w a ttl d =
    (case find_task d i of
       None \<Rightarrow> Inr (None, d)
     | Some t \<Rightarrow> if renew_where (now d) i w a t
         then Inr (Some (cancel_requested t, Some (now d + of_int ttl)), after_renewal i w a ttl d)
         else Inr (None, d))"
proof -
  let ?p = "renew_where (now d) i w a" and ?f = "renew_set (now d) ttl"
  note flt = filter_renew [OF db_inv_ids [OF assms], of "now d" i w a]
  have noupd: "sql_update ?p (set_row ?f) (tasks d) = tasks d" if "filter ?p (tasks d) = []"
    using that by (rule sql_update_filter_empty)
  show ?thesis
  proof (cases "find_task d i")
    case None
    then show ?thesis using flt noupd by (simp add: renew_lease_def update_tasks_def sql_returning_def)
  next
    case (Some t)
    show ?thesis
    proof (cases "?p t")
      case False
      then show ?thesis using flt noupd Some by (simp add: renew_lease_def update_tasks_def sql_returning_def)
    next
      case True
      then have "task_violation (set_row ?f t) = None"
        using renewed_row [OF db_inv_task(1) [OF assms Some], where tn = "now d" and ttl = ttl]
        by (simp add: renew_where_def row_wf_def del: task_violation_None)
      with flt Some True show ?thesis
        by (simp add: renew_lease_def update_tasks_def sql_returning_def after_renewal_def set_row_renew
            del: task_violation_None)
    qed
  qed
qed

lemma after_renewal_ok:
  assumes "db_inv d"
  shows "db_inv (after_renewal i w a ttl d)" and "db_step_ok d (after_renewal i w a ttl d)"
proof -
  let ?d = "after_renewal i w a ttl d"
  have tasks: "tasks ?d = sql_update (renew_where (now d) i w a) (set_row (renew_set (now d) ttl)) (tasks d)"
    by (simp add: after_renewal_def)
  have att: "attempts_of ?d j = attempts_of d j" for j
    by (simp add: attempts_of_def after_renewal_def)
  show "db_inv ?d"
  proof (rule db_inv_update [OF assms tasks])
    fix t assume t: "t \<in> set (tasks d)" "renew_where (now d) i w a t"
    then have "row_wf t" "log_ok t (attempts_of d (t_id t))" "t_state t = RUNNING"
      using db_inv_task_ok [OF assms] by (auto simp: task_ok_def renew_where_def)
    then show "task_ok ?d (set_row (renew_set (now d) ttl) t)"
      using renewed_row [of t "now d" ttl]
      by (simp add: task_ok_def att) (simp add: log_ok_def set_row_renew)
  qed (use assms in \<open>simp_all add: att, auto simp: after_renewal_def db_inv_def attempt_refs_def event_refs_def\<close>)
  show "db_step_ok d ?d"
  proof (rule db_step_ok_update [OF tasks])
    fix t assume "renew_where (now d) i w a t"
    then show "row_step t (set_row (renew_set (now d) ttl) t)"
      unfolding row_step_def pinned_set_row by (simp add: set_row_renew renew_where_def)
  qed
qed

lemma find_after_renewal:
  assumes "db_inv d" "find_task d i = Some t" "renew_where (now d) i w a t"
  shows "find_task (after_renewal i w a ttl d) i = Some (set_row (renew_set (now d) ttl) t)"
    and "j \<noteq> i \<Longrightarrow> find_task (after_renewal i w a ttl d) j = find_task d j"
proof -
  show "find_task (after_renewal i w a ttl d) i = Some (set_row (renew_set (now d) ttl) t)"
    using assms by (simp add: after_renewal_def find_task_update)
  show "find_task (after_renewal i w a ttl d) j = find_task d j" if "j \<noteq> i"
    using that by (auto simp: after_renewal_def find_task_update renew_where_def option.map_ident
        map_option_case dest: find_task_SomeD split: option.split)
qed

section \<open>Properties\<close>

lemma renew_lease_result:
  assumes "db_inv d"
  shows "\<exists>res d'. renew_lease i w a ttl d = Inr (res, d') \<and> db_inv d'
    \<and> (res \<noteq> None \<longleftrightarrow> (\<exists>t e. find_task d i = Some t \<and> t_state t = RUNNING \<and> t_attempt t = a
          \<and> lease_worker_id t = Some w \<and> lease_expires_at t = Some e \<and> now d < e))
    \<and> (res = None \<longrightarrow> d' = d)
    \<and> (\<forall>c e. res = Some (c, e) \<longrightarrow> (\<exists>t. find_task d i = Some t \<and> c = cancel_requested t
          \<and> e = Some (now d + of_int ttl)
          \<and> find_task d' i = Some (t\<lparr>lease_expires_at := e, updated_at := now d\<rparr>)
          \<and> (\<forall>j. j \<noteq> i \<longrightarrow> find_task d' j = find_task d j)
          \<and> \<not> lease_expired (now d) t))"
proof (cases "\<exists>t. find_task d i = Some t \<and> renew_where (now d) i w a t")
  case True
  then obtain t where t: "find_task d i = Some t" "renew_where (now d) i w a t" by blast
  then have "renew_lease i w a ttl d =
      Inr (Some (cancel_requested t, Some (now d + of_int ttl)), after_renewal i w a ttl d)"
    by (simp add: renew_lease_eq [OF assms])
  moreover obtain e where "t_state t = RUNNING" "t_attempt t = a" "lease_worker_id t = Some w"
    "lease_expires_at t = Some e" "now d < e"
    using t(2) by (auto simp: renew_where_def lease_live_def split: option.splits)
  ultimately show ?thesis
    using t after_renewal_ok(1) [OF assms] find_after_renewal [OF assms t]
    by (simp add: set_row_renew lease_expired_def)
next
  case False
  then have "renew_lease i w a ttl d = Inr (None, d)"
    by (simp add: renew_lease_eq [OF assms] split: option.split)
  moreover have "\<not> (\<exists>t e. find_task d i = Some t \<and> t_state t = RUNNING \<and> t_attempt t = a
          \<and> lease_worker_id t = Some w \<and> lease_expires_at t = Some e \<and> now d < e)"
    using False by (auto simp: renew_where_def lease_live_def dest: find_task_SomeD)
  ultimately show ?thesis using assms by simp
qed

text \<open>
  C16. Renewal. Under the invariant it never raises. It extends a lease exactly when the caller is
  the worker that holds it, under the same token, and it has not expired (at the very instant of
  expiry it is already lost); then only that row's lease and \<open>updated_at\<close> change and the answer
  carries the cancellation flag. Otherwise nothing changes. At no moment can the reaper's fence
  and the renewal's fence both hold of one row.
\<close>

theorem renew_lease_contract:
  assumes "db_inv d"
  shows "\<exists>res d'. renew_lease i w a ttl d = Inr (res, d') \<and> db_inv d'
    \<and> (res \<noteq> None \<longleftrightarrow> (\<exists>t e. find_task d i = Some t \<and> t_state t = RUNNING \<and> t_attempt t = a
          \<and> lease_worker_id t = Some w \<and> lease_expires_at t = Some e \<and> now d < e))
    \<and> (res = None \<longrightarrow> d' = d)
    \<and> (\<forall>c e. res = Some (c, e) \<longrightarrow> (\<exists>t. find_task d i = Some t \<and> c = cancel_requested t
          \<and> e = Some (now d + of_int ttl)
          \<and> find_task d' i = Some (t\<lparr>lease_expires_at := e, updated_at := now d\<rparr>)
          \<and> (\<forall>j. j \<noteq> i \<longrightarrow> find_task d' j = find_task d j)
          \<and> \<not> lease_expired (now d) t))"
  by (rule renew_lease_result [OF assms])

theorem renew_lease_contract_witness:
  "\<exists>d'. renew_lease 7 ''w1'' 1 30 demo_db = Inr (Some (False, Some 40), d') \<and> db_inv d'"
proof -
  have f: "find_task demo_db 7 = Some demo_task" "now demo_db = 10"
    by (simp_all add: demo_defs find_task_def)
  have "t_state demo_task = RUNNING" "t_attempt demo_task = 1" "lease_worker_id demo_task = Some ''w1''"
    "lease_expires_at demo_task = Some 40" "cancel_requested demo_task = False"
    by (simp_all add: demo_task_def)
  then show ?thesis
    using renew_lease_contract [OF demo_db_inv, of 7 "''w1''" 1 30] f by auto
qed

text \<open>
  The timing the settings are validated for. A worker that has renewed its lease and then
  fails to renew it two times in a row still owns the task when the third attempt comes: with
  settings \<open>validate_timing\<close> accepts, at any moment up to three renewal intervals later the lease
  has not expired and the renewal is granted, whatever else has not changed.
\<close>

theorem lease_survives_missed_renewals:
  assumes "validate_timing s = Inr ()" and "db_inv d"
    and "renew_lease i w a (lease_ttl_s s) d = Inr (Some r, d1)"
    and "0 \<le> dt" "dt \<le> 3 * of_int (lease_renew_interval_s s)"
  shows "\<exists>t. find_task d1 i = Some t \<and> \<not> lease_expired (now d + dt) t
    \<and> (\<exists>r' d2. renew_lease i w a (lease_ttl_s s) (d1\<lparr>now := now d + dt\<rparr>) = Inr (Some r', d2))"
proof -
  have ttl: "dt < of_int (lease_ttl_s s)"
    using assms(1,5) of_int_less_iff [where 'a = rat, of "3 * lease_renew_interval_s s" "lease_ttl_s s"]
    by (simp add: validate_timing_ok)
  obtain t where t: "find_task d i = Some t" "renew_where (now d) i w a t"
    and d1: "d1 = after_renewal i w a (lease_ttl_s s) d"
    using assms(3) by (auto simp: renew_lease_eq [OF assms(2)] split: option.splits if_splits)
  let ?t = "set_row (renew_set (now d) (lease_ttl_s s)) t" and ?d = "d1\<lparr>now := now d + dt\<rparr>"
  have f: "find_task d1 i = Some ?t"
    unfolding d1 by (rule find_after_renewal [OF assms(2) t])
  have "db_inv ?d"
    by (rule db_inv_workers [OF after_renewal_ok(1) [OF assms(2), of i w a "lease_ttl_s s"]])
       (simp_all add: d1)
  moreover have "find_task ?d i = Some ?t" using f by (simp add: find_task_def)
  moreover have "renew_where (now d + dt) i w a ?t"
    using t(2) ttl by (simp add: renew_where_def set_row_renew lease_live_def)
  ultimately have "\<exists>r' d2. renew_lease i w a (lease_ttl_s s) ?d = Inr (Some r', d2)"
    by (simp add: renew_lease_eq)
  moreover have "\<not> lease_expired (now d + dt) ?t"
    using ttl by (simp add: set_row_renew lease_expired_def)
  ultimately show ?thesis using f by blast
qed

theorem lease_survives_missed_renewals_witness:
  "\<exists>d1 t. renew_lease 7 ''w1'' 1 30 demo_db = Inr (Some (False, Some 40), d1)
     \<and> find_task d1 7 = Some t \<and> \<not> lease_expired 31 t"
proof -
  have "renew_lease 7 ''w1'' 1 (lease_ttl_s default_settings) demo_db =
      Inr (Some (False, Some 40), after_renewal 7 ''w1'' 1 30 demo_db)"
    by (simp add: renew_lease_eq [OF demo_db_inv] default_settings_def)
       (simp add: demo_defs find_task_def renew_where_def lease_live_def)
  moreover have "now demo_db = 10" by (simp add: demo_defs)
  ultimately show ?thesis
    using lease_survives_missed_renewals [OF default_settings_valid demo_db_inv, of 7 "''w1''" 1 _ _ 21]
    by (simp add: default_settings_def) blast
qed

text \<open>
  Liveness of the registry. A registered worker that is \<open>DEAD\<close> stays so under heartbeats and
  under the reaper's pass, and its heartbeat answers False and changes nothing, so it learns that
  it has been fenced; a worker that is not \<open>DEAD\<close> gets True and is fresh, so the reaper's pass
  at that moment does not mark it; the pass marks exactly the stale ones and returns their ids.
\<close>

theorem worker_liveness:
  assumes "distinct (map w_id (workers d))" and "find_worker d i = Some w" and "0 \<le> n"
  shows "(w_status w = DEAD \<longrightarrow> heartbeat i d = (False, d))
    \<and> (w_status w \<noteq> DEAD \<longrightarrow> (\<exists>d'. heartbeat i d = (True, d')
          \<and> find_worker d' i = Some (w\<lparr>last_heartbeat_at := now d\<rparr>)
          \<and> i \<notin> set (fst (mark_dead_workers n d'))))
    \<and> (i \<in> set (fst (mark_dead_workers n d)) \<longleftrightarrow> stale_worker (now d) n w)
    \<and> (\<exists>w'. find_worker (snd (mark_dead_workers n d)) i = Some w'
          \<and> (w_status w' = DEAD \<longleftrightarrow> w_status w = DEAD \<or> stale_worker (now d) n w))"
proof -
  have w: "w \<in> set (workers d)" "w_id w = i" using find_worker_SomeD [OF assms(2)] by auto
  have flt: "filter (\<lambda>u. w_id u = i \<and> w_status u \<noteq> DEAD) (workers d) = (if w_status w \<noteq> DEAD then [w] else [])"
    using filter_key_unique [OF assms(1), of i "\<lambda>u. w_status u \<noteq> DEAD"] assms(2)
    by (simp add: find_worker_def)
  have dead: "heartbeat i d = (False, d)" if "w_status w = DEAD"
    using that flt sql_update_filter_empty [of _ "workers d"] by (simp add: heartbeat_def Let_def)
  have alive: "\<exists>d'. heartbeat i d = (True, d') \<and> find_worker d' i = Some (w\<lparr>last_heartbeat_at := now d\<rparr>)
      \<and> i \<notin> set (fst (mark_dead_workers n d'))" if "w_status w \<noteq> DEAD"
  proof -
    let ?d = "snd (heartbeat i d)"
    have h: "heartbeat i d = (True, ?d)" using that flt by (simp add: heartbeat_def Let_def)
    have f: "find_worker ?d i = Some (w\<lparr>last_heartbeat_at := now d\<rparr>)"
      using that w assms(2) by (simp add: heartbeat_def Let_def find_worker_update)
    have ids: "distinct (map w_id (workers ?d))" and tn: "now ?d = now d"
      using assms(1) by (simp_all add: heartbeat_def Let_def worker_rows.distinct_update)
    have "\<not> stale_worker (now d) n (w\<lparr>last_heartbeat_at := now d\<rparr>)"
      using assms(3) by (simp add: stale_worker_def)
    then have "i \<notin> set (fst (mark_dead_workers n ?d))"
      unfolding marked_dead_iff [OF ids f] tn .
    with h f show ?thesis by blast
  qed
  have "i \<in> set (fst (mark_dead_workers n d)) \<longleftrightarrow> stale_worker (now d) n w"
    by (rule marked_dead_iff [OF assms(1,2)])
  moreover have "\<exists>w'. find_worker (snd (mark_dead_workers n d)) i = Some w'
      \<and> (w_status w' = DEAD \<longleftrightarrow> w_status w = DEAD \<or> stale_worker (now d) n w)"
    using assms(2) by (simp add: mark_dead_workers_def Let_def find_worker_update)
  ultimately show ?thesis using dead alive by blast
qed

theorem worker_liveness_witness:
  "\<exists>d'. heartbeat ''w1'' demo_db = (True, d') \<and> ''w1'' \<notin> set (fst (mark_dead_workers 15 d'))"
proof -
  have "find_worker demo_db ''w1'' = Some demo_worker" "distinct (map w_id (workers demo_db))"
    "w_status demo_worker \<noteq> DEAD"
    by (simp_all add: demo_defs find_worker_def)
  then show ?thesis using worker_liveness [of demo_db "''w1''" demo_worker 15] by auto
qed

text \<open>
  A status written by a draining worker is not guarded: \<open>set_worker_status\<close> takes a worker the
  reaper has declared \<open>DEAD\<close> back to \<open>DRAINING\<close>, after which its heartbeat answers True again. Death
  is one-way only for workers that do not drain.
\<close>

theorem drain_revives_dead_worker:
  assumes "distinct (map w_id (workers d))" and "find_worker d i = Some w" and "w_status w = DEAD"
  shows "fst (heartbeat i d) = False \<and> fst (heartbeat i (set_worker_status i DRAINING d)) = True"
proof -
  let ?d = "set_worker_status i DRAINING d"
  have ids: "distinct (map w_id (workers ?d))"
    using assms(1) by (simp add: set_worker_status_def worker_rows.distinct_update)
  have "find_worker ?d i = Some (w\<lparr>w_status := DRAINING\<rparr>)"
    using assms(2) find_worker_SomeD [OF assms(2)] by (simp add: set_worker_status_def find_worker_update)
  then have "filter (\<lambda>u. w_id u = i \<and> w_status u \<noteq> DEAD) (workers ?d) = [w\<lparr>w_status := DRAINING\<rparr>]"
    using filter_key_unique [OF ids, of i "\<lambda>u. w_status u \<noteq> DEAD"] by (simp add: find_worker_def)
  moreover have "filter (\<lambda>u. w_id u = i \<and> w_status u \<noteq> DEAD) (workers d) = []"
    using filter_key_unique [OF assms(1), of i "\<lambda>u. w_status u \<noteq> DEAD"] assms(2,3)
    by (simp add: find_worker_def)
  ultimately show ?thesis by (simp add: heartbeat_def Let_def)
qed

theorem drain_revives_dead_worker_witness:
  "\<exists>d. fst (heartbeat ''w1'' d) = False \<and> fst (heartbeat ''w1'' (set_worker_status ''w1'' DRAINING d)) = True"
proof -
  let ?d = "demo_db\<lparr>workers := [demo_worker\<lparr>w_status := DEAD\<rparr>]\<rparr>"
  have "find_worker ?d ''w1'' = Some (demo_worker\<lparr>w_status := DEAD\<rparr>)"
    by (simp add: find_worker_def demo_worker_def)
  then show ?thesis using drain_revives_dead_worker [of ?d "''w1''"] by (intro exI [of _ ?d]) simp
qed

end
