(* ===== verification/Frames.thy ===== *)
theory Frames
  imports Claim Reap Tasks Workers
begin

text \<open>
  The frame of the task side. A view of the database that the statements on task rows, attempts and
  events leave alone is left alone by every operation built from them; the facts are proved once in
  the locale \<open>task_view\<close>, which \<open>db_view\<close> extends by the statements on workers, and used for four views:
  the table of workers, the control tables (tenants, agents, versions, routes, tools, grants), the
  ids of the tasks, and the clock.
\<close>

section \<open>The control tables\<close>

definition control ::
  "db \<Rightarrow> tenant list \<times> agent list \<times> agent_version list \<times> agent_route list \<times> tool list \<times> tool_grant list" where
  "control d = (tenants d, agents d, agent_versions d, agent_routes d, tools d, agent_version_tool_grants d)"

lemma control_upd [simp]:
  "control (d\<lparr>tasks := ts\<rparr>) = control d" "control (d\<lparr>task_events := es\<rparr>) = control d"
  "control (d\<lparr>next_event_id := n\<rparr>) = control d" "control (d\<lparr>workers := ws\<rparr>) = control d"
  "control (d\<lparr>task_attempts := as\<rparr>) = control d" "control (d\<lparr>audit_events := aus\<rparr>) = control d"
  "control (d\<lparr>next_audit_id := m\<rparr>) = control d" "control (d\<lparr>now := t\<rparr>) = control d"
  by (simp_all add: control_def)

lemma controlD:
  assumes "control d' = control d"
  shows "tenants d' = tenants d" "agents d' = agents d" "agent_versions d' = agent_versions d"
    "agent_routes d' = agent_routes d" "tools d' = tools d"
    "agent_version_tool_grants d' = agent_version_tool_grants d"
  using assms by (simp_all add: control_def)

section \<open>Views\<close>

locale task_view =
  fixes view :: "db \<Rightarrow> 'v"
  assumes view_rows: "view (d\<lparr>tasks := sql_update p (set_row f) (tasks d)\<rparr>) = view d"
    and view_events: "view (d\<lparr>task_events := es, next_event_id := n\<rparr>) = view d"
    and view_attempts: "view (d\<lparr>task_attempts := as\<rparr>) = view d"
begin

section \<open>Statements\<close>

lemma update_tasks_view: "update_tasks p f d = Inr (rows, d') \<Longrightarrow> view d' = view d"
  by (simp add: update_tasks_Inr view_rows)

lemma insert_event_view: "insert_event i et a w data d = Inr d' \<Longrightarrow> view d' = view d"
  by (simp add: insert_event_Inr view_events)

lemma insert_attempt_view: "insert_attempt i a w d = Inr d' \<Longrightarrow> view d' = view d"
  by (simp add: insert_attempt_Inr view_attempts)

lemma record_event_view: "record_event i et a w data d = Inr d' \<Longrightarrow> view d' = view d"
  by (simp add: record_event_def insert_event_Inr view_events)

lemma finish_attempt_view [simp]: "view (finish_attempt i a out ec em d) = view d"
  by (simp add: finish_attempt_def view_attempts)

lemma foldE_view:
  assumes "\<And>x s s'. f x s = Inr s' \<Longrightarrow> view s' = view s" and "foldE f xs d = Inr d'"
  shows "view d' = view d"
  by (rule foldE_preserves [where P = "\<lambda>s. view s = view d", OF _ _ assms(2)]) (use assms(1) in auto)

section \<open>Operations\<close>

lemma transition_view: "transition i c d = Inr (r, d') \<Longrightarrow> view d' = view d"
  by (auto simp: transition_def bindE_Inr_iff update_tasks_Inr insert_event_Inr view_rows view_events
      split: if_splits list.splits)

lemma complete_view: "complete k i a w d = Inr (r, d') \<Longrightarrow> view d' = view d"
  by (cases k) (auto simp: complete_success_def complete_retry_def complete_failed_def complete_cancelled_def
      complete_abandoned_def bindE_Inr_iff dest: transition_view)

lemma renew_lease_view:
  assumes "renew_lease i w a ttl d = Inr (r, d')"
  shows "view d' = view d"
proof -
  obtain rows d1 where u: "update_tasks (renew_where (now d) i w a) (renew_set (now d) ttl) d = Inr (rows, d1)"
    "(case rows of [] \<Rightarrow> Inr (None, d1) | row # _ \<Rightarrow> Inr (Some (cancel_requested row, lease_expires_at row), d1))
       = (Inr (r, d') :: exn + _)"
    using assms by (auto simp: renew_lease_def)
  then show ?thesis using update_tasks_view [OF u(1)] by (cases rows) auto
qed

lemma grant_leases_view:
  assumes "grant_leases ids w ttl d = Inr (rows, d')"
  shows "view d' = view d"
proof -
  obtain d1 d2 updated where s: "update_tasks (\<lambda>t. t_id t \<in> set ids) (claim_set (now d) w ttl) d = Inr (updated, d1)"
    "foldE (\<lambda>r. insert_event (t_id r) TASK_CLAIMED (Some (t_attempt r)) (Some w) []) (in_order ids updated) d1 = Inr d2"
    "foldE (\<lambda>r. insert_attempt (t_id r) (t_attempt r) w) (in_order ids updated) d2 = Inr d'"
    using assms by (auto simp: grant_leases_def bindE_Inr_iff Let_def)
  have "view d2 = view d1" by (rule foldE_view [OF _ s(2)]) (rule insert_event_view)
  moreover have "view d' = view d2" by (rule foldE_view [OF _ s(3)]) (rule insert_attempt_view)
  ultimately show ?thesis using update_tasks_view [OF s(1)] by simp
qed

lemma claim_tasks_view:
  "claim_tasks w limit ttl policy caps locked d = Inr (rows, d') \<Longrightarrow> view d' = view d"
  by (auto simp: claim_tasks_grants dest: grant_leases_view split: if_splits)

lemma reap_rows_view:
  assumes "\<And>i a m lw s b s'. reap i a m lw s = Inr (b, s') \<Longrightarrow> view s' = view s"
    and "reap_rows reap rows res d = Inr (r, d')"
  shows "view d' = view d"
  using assms(2)
proof (induction rows arbitrary: res d)
  case (Cons row rows)
  then obtain b d1 where s: "reap (rr_id row) (rr_attempt row) (rr_max_attempts row) (rr_lease_worker_id row) d = Inr (b, d1)"
    "reap_rows reap rows (count_reaped row b res) d1 = Inr (r, d')"
    by (auto simp: bindE_Inr_iff)
  then show ?case using Cons.IH [OF s(2)] assms(1) [OF s(1)] by simp
qed simp

lemma reap_view:
  "reap_task i a m lw d = Inr (b, d') \<Longrightarrow> view d' = view d"
  "reap_hung_task i a m lw d = Inr (b, d') \<Longrightarrow> view d' = view d"
  by (auto simp: reap_task_def reap_hung_task_def bindE_Inr_iff split: if_splits
      dest!: transition_view record_event_view)

lemma reap_pass_view:
  "reap_expired_leases n locked d = Inr (r, d') \<Longrightarrow> view d' = view d"
  "reap_hung_tasks n locked d = Inr (r, d') \<Longrightarrow> view d' = view d"
  unfolding reap_expired_leases_def reap_hung_tasks_def
  by (erule reap_rows_view [rotated], erule reap_view)+

lemma cancel_task_view:
  assumes "cancel_task i d = Inr (r, d')"
  shows "view d' = view d"
proof (cases "find_task d i")
  case None
  then show ?thesis using assms by (simp add: cancel_task_def)
next
  case (Some row)
  consider (same) "d' = d"
    | (cancelled) res where "transition i (cancel_queued_cas (now d)) d = Inr (res, d')"
    | (flagged) rows d1 where "update_tasks (\<lambda>t. t_id t = i) (request_cancel_set (now d)) d = Inr (rows, d1)"
        "record_event i CANCEL_REQUESTED (Some (t_attempt row)) None [(''source'', JStr ''api'')] d1 = Inr d'"
    using assms Some by (auto simp: cancel_task_def split: if_splits)
  then show ?thesis
  proof cases
    case same
    then show ?thesis by simp
  next
    case cancelled
    then show ?thesis by (rule transition_view)
  next
    case flagged
    then show ?thesis using update_tasks_view record_event_view by metis
  qed
qed

lemma cancel_agent_tasks_view:
  assumes "cancel_agent_tasks vs why d = Inr (n, d')"
  shows "view d' = view d"
proof (cases "vs = []")
  case False
  then obtain q d1 r d2 d3 where s: "update_tasks (\<lambda>t. in_versions vs t \<and> t_state t = QUEUED) (sweep_queued_set why (now d)) d = Inr (q, d1)"
    "update_tasks (\<lambda>t. in_versions vs t \<and> t_state t = RUNNING \<and> \<not> cancel_requested t) (request_cancel_set (now d)) d1 = Inr (r, d2)"
    "foldE (\<lambda>r. record_event (t_id r) TASK_CANCELLED (Some (t_attempt r)) None [(''reason'', JStr why)]) q d2 = Inr d3"
    "foldE (\<lambda>r. record_event (t_id r) CANCEL_REQUESTED (Some (t_attempt r)) None
       [(''reason'', JStr why), (''source'', JStr ''agent_disabled'')]) r d3 = Inr d'"
    using assms by (auto simp: cancel_agent_tasks_def bindE_Inr_iff)
  have "view d3 = view d2" by (rule foldE_view [OF _ s(3)]) (rule record_event_view)
  moreover have "view d' = view d3" by (rule foldE_view [OF _ s(4)]) (rule record_event_view)
  ultimately show ?thesis using update_tasks_view [OF s(1)] update_tasks_view [OF s(2)] by simp
qed (use assms in \<open>simp add: cancel_agent_tasks_def\<close>)

end

section \<open>Views of more than the workers\<close>

locale db_view = task_view view
  for view :: "db \<Rightarrow> 'v" +
  assumes view_workers: "view (d\<lparr>workers := ws\<rparr>) = view d"
begin

lemma worker_view [simp]:
  "view (snd (heartbeat w d)) = view d" "view (set_worker_status w st d) = view d"
  "view (snd (mark_dead_workers n d)) = view d"
  by (simp_all add: heartbeat_def set_worker_status_def mark_dead_workers_def Let_def view_workers)

lemma register_worker_view: "register_worker w h p c cs d = Inr (r, d') \<Longrightarrow> view d' = view d"
  by (auto simp: register_worker_def Let_def view_workers split: if_splits)

end

section \<open>The views\<close>

interpretation roster: task_view workers
  by unfold_locales simp_all

interpretation ctl: db_view control
  by unfold_locales (simp_all add: control_def)

interpretation ids: db_view "\<lambda>d. map t_id (tasks d)"
  by unfold_locales (simp_all add: task_rows.map_key_update)

interpretation clock: db_view now
  by unfold_locales simp_all

lemmas cancel_agent_tasks_control = ctl.cancel_agent_tasks_view

text \<open>A submission adds a task and leaves the control tables and the clock alone.\<close>

lemma insert_task_control: "insert_task t d = Inr (row, d') \<Longrightarrow> control d' = control d"
  by (cases "task_violation t") (auto simp: insert_task_def split: if_splits)

lemma submit_task_control:
  assumes "submit_task i s d = Inr (r, d')"
  shows "control d' = control d"
proof -
  obtain row d1 where i: "insert_task (new_task i s (now d)) d = Inr (row, d1)"
    using assms unfolding submit_task_def by (cases "insert_task (new_task i s (now d)) d") auto
  have "d' = d1 \<or> (\<exists>j. record_event j TASK_CREATED (Some 0) None
      [(''task_type'', JStr (s_task_type s)), (''priority'', JNum (of_int (s_priority s)))] d1 = Inr d')"
    using assms unfolding submit_task_def i by (auto split: option.splits if_splits)
  then show ?thesis using insert_task_control [OF i] ctl.record_event_view by metis
qed

end
