(* ===== verification/Requests.thy ===== *)
theory Requests
  imports Api Frames
begin

text \<open>
  What the API's handlers promise: the status codes of cancellation, the safety of grants, the
  disabling of an agent, admission and pinning of a submission, and the gauges.
\<close>

section \<open>Cancellation\<close>

text \<open>
  Status codes of a cancellation. Under the invariant the handler never ends in an uncaught
  exception. It answers 200 exactly when the task is cancelled for good, 202 exactly when the task
  is still running and is now asked to stop, 409 exactly when it had already succeeded or failed
  and 404 exactly when there is no such task; a refusal changes nothing.
\<close>

theorem cancel_status:
  assumes "db_inv d"
  shows "case cancel i d of
      Inl (Uncaught e) \<Rightarrow> False
    | Inl (Api e) \<Rightarrow> (case find_task d i of None \<Rightarrow> ae_class e = NotFound
        | Some t \<Rightarrow> ae_class e = Conflict \<and> (t_state t = SUCCEEDED \<or> t_state t = FAILED))
    | Inr ((code, body), d') \<Rightarrow> db_inv d' \<and> (\<exists>t'. find_task d' i = Some t' \<and> cancel_state body = t_state t'
        \<and> cancel_flag body = cancel_requested t'
        \<and> (code = 200 \<longleftrightarrow> t_state t' = CANCELLED) \<and> (code = 202 \<longleftrightarrow> t_state t' = RUNNING \<and> cancel_requested t')
        \<and> (code = 200 \<or> code = 202))"
proof (cases "find_task d i")
  case None
  then show ?thesis by (simp add: cancel_def cancel_task_def unknown_def api_def raise_api_def)
next
  case (Some t)
  show ?thesis
  proof (cases "t_state t")
    case QUEUED
    let ?d = "after_transition i (cancel_queued_cas (now d)) t d"
    note q = cancel_queued [OF assms Some QUEUED]
    have "find_task ?d i = Some (set_row (cas_set (now d) (cancel_queued_cas (now d))) t)"
      by (simp add: find_task_after_transition Some)
    then show ?thesis
      using q Some QUEUED by (simp add: cancel_def cancel_task_def TERMINAL_def set_row_cancel)
  next
    case RUNNING
    show ?thesis
    proof (cases "cancel_requested t")
      case True
      then show ?thesis
        using RUNNING Some assms by (simp add: cancel_def cancel_task_def TERMINAL_def get_task_def)
    next
      case False
      obtain d' where "cancel_task i d = Inr (\<lparr>co_outcome = CO_REQUESTED,
          co_task = Some (t\<lparr>cancel_requested := True, updated_at := now d\<rparr>)\<rparr>, d')" "db_inv d'"
        "find_task d' i = Some (t\<lparr>cancel_requested := True, updated_at := now d\<rparr>)"
        using request_cancel [OF assms Some RUNNING False] by auto
      then show ?thesis using RUNNING by (simp add: cancel_def)
    qed
  qed (use Some assms in \<open>simp_all add: cancel_def cancel_task_def TERMINAL_def get_task_def api_def raise_api_def\<close>)
qed

theorem cancel_status_witness:
  "\<exists>body d'. cancel 7 demo_db = Inr ((202, body), d') \<and> cancel_flag body \<and> db_inv d'"
proof -
  have f: "find_task demo_db 7 = Some demo_task" "t_state demo_task = RUNNING" "\<not> cancel_requested demo_task"
    by (simp_all add: find_task_def demo_db_def demo_task_def)
  obtain d' where "cancel_task 7 demo_db = Inr (\<lparr>co_outcome = CO_REQUESTED,
      co_task = Some (demo_task\<lparr>cancel_requested := True, updated_at := now demo_db\<rparr>)\<rparr>, d')"
    using request_cancel [OF demo_db_inv f] by auto
  then obtain body where "cancel 7 demo_db = Inr ((202, body), d')" by (simp add: cancel_def)
  then show ?thesis using cancel_status [OF demo_db_inv, of 7] by auto
qed

section \<open>Submission\<close>

text \<open>The CHECK constraints on the limits of a version, kept by \<open>create_version\<close>.\<close>

definition limits_ok :: "db \<Rightarrow> bool" where
  "limits_ok d \<longleftrightarrow> (\<forall>v \<in> set (agent_versions d). 1 \<le> av_max_attempts v \<and> 1 \<le> av_max_execution_time_s v)"

text \<open>A submission that no other transaction interleaves with.\<close>

definition quiet_env :: "submit_env \<Rightarrow> bool" where
  "quiet_env env \<longleftrightarrow> before_resolve env = (\<lambda>d. d) \<and> before_insert env = (\<lambda>d. d)"

definition pin_ok :: "task_create \<Rightarrow> db \<Rightarrow> pinning \<Rightarrow> bool" where
  "pin_ok b d p \<longleftrightarrow> 1 \<le> pin_max_attempts p \<and> 1 \<le> pin_max_execution_time_s p
     \<and> (\<forall>v. pin_version p = Some v \<longrightarrow> (\<exists>x. get_version d v = Some x \<and> av_status x = VERSION_ACTIVE))
     \<and> (b_request_type b = None \<longrightarrow> pin_version p = None \<and> (\<exists>s. pin_task_type p = JStr s))
     \<and> (b_request_type b \<noteq> None \<longrightarrow> pin_version p \<noteq> None)"

lemma resolve_route_errors: "resolve_route tn rt d = Inl e \<Longrightarrow> (\<exists>m. e = NoRoute m) \<or> (\<exists>m. e = NotRoutable m)"
  by (auto simp: resolve_route_def split: list.splits if_splits option.splits)

lemma py_or_None: "py_or x None = None \<longleftrightarrow> x = None \<or> x = Some []"
  by (cases "(x, None::string option)" rule: py_or.cases) auto

lemma resolve_submission_cases:
  assumes "registry_inv d" "limits_ok d" "task_create_valid jb b"
  shows "(\<exists>e. resolve_submission b d = Inl (Api e) \<and> (ae_class e = NotFound \<or> ae_class e = Conflict)
       \<and> b_request_type b \<noteq> None)
    \<or> (\<exists>p. resolve_submission b d = Inr p \<and> pin_ok b d p)"
proof (cases "b_request_type b")
  case None
  then obtain s where "b_task_type b = Some s"
    using assms(3) by (auto simp: task_create_valid_def exactly_one_submission_mode_def py_or_None)
  then show ?thesis
    using None assms(3) by (simp add: resolve_submission_def pin_ok_def task_create_valid_def between_def)
next
  case (Some rt)
  show ?thesis
  proof (cases "resolve_route (b_tenant_id b) rt d")
    case (Inl e)
    then show ?thesis using Some resolve_route_errors [OF Inl]
      by (auto simp: resolve_submission_def api_def raise_api_def)
  next
    case (Inr r)
    obtain v where v: "get_version d (rs_version_id r) = Some v" "av_status v = VERSION_ACTIVE"
      "rs_max_attempts r = av_max_attempts v" "rs_max_execution_time_s r = av_max_execution_time_s v"
      using resolve_route_result [OF assms(1), of "b_tenant_id b" rt] Inr by blast
    have "v \<in> set (agent_versions d)" using v(1) find_by_SomeD by (fastforce simp: get_version_def)
    then show ?thesis using Some Inr v assms(2) by (simp add: resolve_submission_def pin_ok_def limits_ok_def)
  qed
qed

text \<open>The pinned version of a submission, when it has one, is an active one of the database.\<close>

lemma pinned_ref: "pin_ok b d p \<Longrightarrow> pin_version p = Some v \<Longrightarrow> v \<in> av_id ` set (agent_versions d)"
proof -
  assume "pin_ok b d p" "pin_version p = Some v"
  then obtain x where "get_version d v = Some x" by (auto simp: pin_ok_def)
  then have "x \<in> set (agent_versions d)" "av_id x = v" using find_by_SomeD by (fastforce simp: get_version_def)+
  then show ?thesis by blast
qed

lemma submission_of_Inr:
  assumes "submission_of env b p = Inr s" "task_create_valid jb b" "pin_ok b d p"
    and "b_tenant_id b \<in> tn_id ` set (tenants d)"
  shows "submission_ok s" "refs_ok s d" "s_tenant_id s = b_tenant_id b" "s_agent_version_id s = pin_version p"
    "s_idempotency_key s = b_idempotency_key b"
proof -
  have s: "s_max_attempts s = pin_max_attempts p" "s_max_execution_time_s s = pin_max_execution_time_s p"
    "s_priority s = b_priority b" "s_tenant_id s = b_tenant_id b" "s_agent_version_id s = pin_version p"
    "s_idempotency_key s = b_idempotency_key b"
    using assms(1) by (auto simp: submission_of_def split: option.splits)
  show "submission_ok s" using s assms(2,3) by (simp add: submission_ok_def pin_ok_def task_create_valid_def between_def)
  show "refs_ok s d" using s assms(3,4) pinned_ref [OF assms(3)] by (simp add: refs_ok_def)
  show "s_tenant_id s = b_tenant_id b" "s_agent_version_id s = pin_version p"
    "s_idempotency_key s = b_idempotency_key b" using s by simp_all
qed

text \<open>What an accepted submission leaves: the task it answered with, created now or found.\<close>

definition accepted :: "task_create \<Rightarrow> nat \<Rightarrow> task_out \<Rightarrow> db \<Rightarrow> db \<Rightarrow> bool" where
  "accepted b code out d d' \<longleftrightarrow> db_inv d' \<and> db_step_ok d d'
     \<and> t_tenant_id (out_task out) = b_tenant_id b \<and> idempotency_key (out_task out) = b_idempotency_key b
     \<and> out_task out \<in> set (tasks d')
     \<and> (code = 200 \<and> d' = d \<and> b_idempotency_key b \<noteq> None
        \<or> code = 201 \<and> tasks d' = tasks d @ [out_task out] \<and> t_state (out_task out) = QUEUED
          \<and> t_attempt (out_task out) = 0 \<and> \<not> cancel_requested (out_task out)
          \<and> (case t_agent_version_id (out_task out) of None \<Rightarrow> b_request_type b = None
             | Some v \<Rightarrow> \<exists>x. get_version d' v = Some x \<and> av_status x = VERSION_ACTIVE))"

lemma insert_submission_cases:
  assumes "db_inv d" "submission_ok s" "refs_ok s d" "find_task d (generated_id env) = None"
  shows "(\<exists>e. insert_submission env clock s d = Inl (Api e) \<and> ae_class e = Conflict \<and> holder s d \<noteq> None)
    \<or> (\<exists>t. insert_submission env clock s d = Inr ((200, to_out clock t), d) \<and> holder s d = Some t)
    \<or> (\<exists>d'. insert_submission env clock s d =
          Inr ((201, to_out clock (new_task (generated_id env) s (now d))), d')
        \<and> d' = with_task (new_task (generated_id env) s (now d)) (created_data s) d \<and> db_inv d' \<and> db_step_ok d d')"
proof (cases "holder s d")
  case None
  have n: "submit_task (generated_id env) s d = Inr (\<lparr>created = True, sub_task = new_task (generated_id env) s (now d)\<rparr>,
      with_task (new_task (generated_id env) s (now d)) (created_data s) d)"
    by (rule submit_new [OF assms(2-4) None])
  with submit_total [OF assms] None show ?thesis by (simp add: insert_submission_def)
next
  case (Some t)
  then show ?thesis
    by (simp add: insert_submission_def submit_dup [OF assms(2) Some] api_def raise_api_def)
qed

lemma queued_count_with_task:
  "t_state t = QUEUED \<Longrightarrow> queued_count_for_tenant (with_task t data d) i =
     queued_count_for_tenant d i + (if t_tenant_id t = i then 1 else 0)"
  by (simp add: queued_count_for_tenant_def with_task_def)

lemma submission_of_Inl:
  assumes "submission_of env b p = Inl e" "resolve_submission b d = Inr p" "pin_ok b d p"
  shows "\<exists>u rt r. e = Uncaught u \<and> b_request_type b = Some rt \<and> resolve_route (b_tenant_id b) rt d = Inr r
    \<and> task_type_text env (dict_get (rs_runtime_spec r) ''task_type'' (JStr (rs_agent_name r))) = None"
proof (cases "b_request_type b")
  case None
  then show ?thesis using assms by (auto simp: pin_ok_def submission_of_def task_type_text_def)
next
  case (Some rt)
  obtain r where r: "resolve_route (b_tenant_id b) rt d = Inr r"
    "pin_task_type p = dict_get (rs_runtime_spec r) ''task_type'' (JStr (rs_agent_name r))"
    using assms(2) Some by (auto simp: resolve_submission_def api_def split: sum.splits exn.splits)
  have "task_type_text env (pin_task_type p) = None" "\<exists>u. e = Uncaught u"
    using assms(1) by (auto simp: submission_of_def split: option.splits)
  then show ?thesis using Some r by auto
qed

lemma accepted_new:
  assumes "db_inv d'" "db_step_ok d d'" "submission_of env b p = Inr s" "task_create_valid jb b" "pin_ok b d p"
    and "b_tenant_id b \<in> tn_id ` set (tenants d)" and "d' = with_task (new_task i s tn) data d"
  shows "accepted b 201 (to_out clock (new_task i s tn)) d d'"
proof -
  note s = submission_of_Inr [OF assms(3-6)]
  have gv: "get_version d' = get_version d" by (simp add: fun_eq_iff assms(7) with_task_def get_version_def)
  have tk: "tasks d' = tasks d @ [new_task i s tn]" by (simp add: assms(7) with_task_def)
  have nc: "\<not> cancel_requested (new_task i s tn)" by (simp add: new_task_def)
  have "case pin_version p of None \<Rightarrow> b_request_type b = None
      | Some v \<Rightarrow> \<exists>x. get_version d' v = Some x \<and> av_status x = VERSION_ACTIVE"
    using assms(5) by (auto simp: pin_ok_def gv split: option.split)
  with assms(1,2) s(3-5) tk nc show ?thesis by (simp add: accepted_def to_out_def)
qed

lemma submit_result:
  assumes "db_inv d" "registry_inv d" "limits_ok d" "task_create_valid jb b" "quiet_env env"
    and "find_task d (generated_id env) = None"
  shows "case submit env clock b d of
      (Inl (Api e), d') \<Rightarrow> d' = d \<and> ae_class e \<in> {NotFound, Conflict, QuotaExceeded, Overloaded}
        \<and> (ae_class e = QuotaExceeded \<longleftrightarrow> (\<exists>tn. get_tenant d (b_tenant_id b) = Some tn
             \<and> max_queued_tasks tn \<le> int (queued_count_for_tenant d (b_tenant_id b))))
    | (Inl (Uncaught u), d') \<Rightarrow> d' = d \<and> (\<exists>rt r. b_request_type b = Some rt
        \<and> resolve_route (b_tenant_id b) rt d = Inr r
        \<and> task_type_text env (dict_get (rs_runtime_spec r) ''task_type'' (JStr (rs_agent_name r))) = None)
    | (Inr (code, out), d') \<Rightarrow> accepted b code out d d' \<and> (\<exists>tn. get_tenant d (b_tenant_id b) = Some tn
        \<and> int (queued_count_for_tenant d' (b_tenant_id b)) \<le> max_queued_tasks tn)
        \<and> (0 < shed_threshold env \<longrightarrow> cached_global_queued env < shed_threshold env)"
proof (cases "get_tenant d (b_tenant_id b)")
  case None
  then show ?thesis by (simp add: submit_def unknown_def api_def raise_api_def)
next
  case (Some tn)
  let ?q = "int (queued_count_for_tenant d (b_tenant_id b))"
  define v where "v = admission_decide ?q (max_queued_tasks tn) (cached_global_queued env) (shed_threshold env)"
  have env: "before_resolve env = (\<lambda>d. d)" "before_insert env = (\<lambda>d. d)" using assms(5) by (simp_all add: quiet_env_def)
  have ten: "b_tenant_id b \<in> tn_id ` set (tenants d)"
    using find_by_SomeD [of tn_id _ "tenants d"] Some by (force simp: get_tenant_def)
  have adm: "decision v = REJECT_TENANT_BACKLOG \<longleftrightarrow> max_queued_tasks tn \<le> ?q"
    "decision v = ADMIT \<Longrightarrow> ?q < max_queued_tasks tn \<and> (0 < shed_threshold env \<longrightarrow> cached_global_queued env < shed_threshold env)"
    by (auto simp: v_def admission_decide_def split: if_splits)
  show ?thesis
  proof (cases "decision v")
    case ADMIT
    note low = adm(2) [OF ADMIT]
    have run: "submit env clock b d = (case resolve_submission b d of Inl e \<Rightarrow> (Inl e, d)
        | Inr p \<Rightarrow> (case bindE (submission_of env b p) (\<lambda>s. insert_submission env clock s d) of
            Inl e \<Rightarrow> (Inl e, d) | Inr (out, d3) \<Rightarrow> (Inr out, d3)))"
      using Some ADMIT by (simp add: submit_def Let_def env cong: sum.case_cong flip: v_def)
    from resolve_submission_cases [OF assms(2-4)] show ?thesis
    proof (elim disjE exE conjE)
      fix e assume "resolve_submission b d = Inl (Api e)" "ae_class e = NotFound"
      then show ?thesis using Some low by (simp add: run)
    next
      fix e assume "resolve_submission b d = Inl (Api e)" "ae_class e = Conflict"
      then show ?thesis using Some low by (simp add: run)
    next
      fix p assume p: "resolve_submission b d = Inr p" "pin_ok b d p"
      show ?thesis
      proof (cases "submission_of env b p")
        case (Inl e)
        then show ?thesis using submission_of_Inl [OF Inl p] by (auto simp: run p(1))
      next
        case (Inr s)
        note s = submission_of_Inr [OF Inr assms(4) p(2) ten]
        from insert_submission_cases [OF assms(1) s(1,2) assms(6), of clock] show ?thesis
        proof (elim disjE exE conjE)
          fix e assume "insert_submission env clock s d = Inl (Api e)" "ae_class e = Conflict"
          then show ?thesis using Some low by (simp add: run p(1) Inr)
        next
          fix t assume t: "insert_submission env clock s d = Inr ((200, to_out clock t), d)" "holder s d = Some t"
          have "accepted b 200 (to_out clock t) d d"
            using holder_Some [OF t(2)] s(3,5) assms(1) by (simp add: accepted_def to_out_def)
          then show ?thesis using t(1) Some low by (simp add: run p(1) Inr)
        next
          fix d' assume i: "insert_submission env clock s d =
              Inr ((201, to_out clock (new_task (generated_id env) s (now d))), d')"
            "d' = with_task (new_task (generated_id env) s (now d)) (created_data s) d" "db_inv d'" "db_step_ok d d'"
          have "accepted b 201 (to_out clock (new_task (generated_id env) s (now d))) d d'"
            by (rule accepted_new [OF i(3,4) Inr assms(4) p(2) ten i(2)])
          moreover have "int (queued_count_for_tenant d' (b_tenant_id b)) \<le> max_queued_tasks tn"
            using low s(3) by (simp add: i(2) queued_count_with_task)
          ultimately show ?thesis using i(1) Some low by (simp add: run p(1) Inr)
        qed
      qed
    qed
  qed (use Some adm in \<open>simp_all add: submit_def Let_def api_def raise_api_def flip: v_def\<close>)
qed

text \<open>
  C29. Submission, undisturbed. For a request the schema accepts, under the invariants, with a fresh
  id and no interleaved transaction: a refusal is a 404, 409, 429 or 503 and writes nothing (429
  exactly when the tenant is at its bound); the only uncaught exception comes from a released
  version whose \<open>runtime_spec\<close> names a task type that is not a string and has no text; an acceptance answers 201 with
  one new queued task of the tenant under its key, pinned to an active version if it was routed, or
  200 with the task that already has the key and no write at all; the tenant's backlog is within
  its bound afterwards, and no load at or above the shed threshold was accepted.
\<close>

theorem submit_contract:
  assumes "db_inv d" "registry_inv d" "limits_ok d" "task_create_valid jb b" "quiet_env env"
    and "find_task d (generated_id env) = None"
  shows "case submit env clock b d of
      (Inl (Api e), d') \<Rightarrow> d' = d \<and> ae_class e \<in> {NotFound, Conflict, QuotaExceeded, Overloaded}
        \<and> (ae_class e = QuotaExceeded \<longleftrightarrow> (\<exists>tn. get_tenant d (b_tenant_id b) = Some tn
             \<and> max_queued_tasks tn \<le> int (queued_count_for_tenant d (b_tenant_id b))))
    | (Inl (Uncaught u), d') \<Rightarrow> d' = d \<and> (\<exists>rt r. b_request_type b = Some rt
        \<and> resolve_route (b_tenant_id b) rt d = Inr r
        \<and> task_type_text env (dict_get (rs_runtime_spec r) ''task_type'' (JStr (rs_agent_name r))) = None)
    | (Inr (code, out), d') \<Rightarrow> accepted b code out d d' \<and> (\<exists>tn. get_tenant d (b_tenant_id b) = Some tn
        \<and> int (queued_count_for_tenant d' (b_tenant_id b)) \<le> max_queued_tasks tn)
        \<and> (0 < shed_threshold env \<longrightarrow> cached_global_queued env < shed_threshold env)"
  by (rule submit_result [OF assms])

section \<open>Disabling an agent\<close>

text \<open>The sweep over the versions of \<open>disable\<close>, statement by statement.\<close>

definition disable_versions :: "uuid list \<Rightarrow> agent_version list \<Rightarrow> agent_version list" where
  "disable_versions ids vs = sql_update (\<lambda>v. av_id v \<in> set ids) (set_status VERSION_DISABLED) vs"

lemma set_status_twice [simp]: "set_status st (set_status st v) = set_status st v"
  by (simp add: set_status_def)

lemma set_status_columns [simp]: "av_id (set_status st v) = av_id v" "av_agent_id (set_status st v) = av_agent_id v"
  "av_status (set_status st v) = st"
  by (simp_all add: set_status_def)

lemma disable_each:
  "foldE (\<lambda>v x. bindE (set_version_status (av_id v) VERSION_DISABLED x) (\<lambda>(_, y). Inr y)) vs d =
     Inr (d\<lparr>agent_versions := disable_versions (map av_id vs) (agent_versions d)\<rparr>)"
proof (induction vs arbitrary: d)
  case Nil
  then show ?case by (simp add: disable_versions_def sql_update_def)
next
  case (Cons v vs)
  have "disable_versions (map av_id vs) (sql_update (\<lambda>w. av_id w = av_id v) (set_status VERSION_DISABLED) xs) =
      disable_versions (map av_id (v # vs)) xs" for xs
    by (simp add: disable_versions_def sql_update_def)
  with Cons show ?case by (simp add: set_version_status_eq)
qed

lemma list_versions_ids: "set (map av_id (list_versions d a)) = av_id ` {v \<in> set (agent_versions d). av_agent_id v = a}"
  by (simp add: list_versions_def versions_of_def)

lemma disabled_all:
  assumes "v \<in> set (disable_versions (map av_id (list_versions d a)) (agent_versions d))" "av_agent_id v = a"
  shows "av_status v = VERSION_DISABLED"
proof -
  obtain w where w: "w \<in> set (agent_versions d)"
    "v = (if av_id w \<in> set (map av_id (list_versions d a)) then set_status VERSION_DISABLED w else w)"
    using assms(1) by (auto simp: disable_versions_def set_sql_update)
  then have "av_agent_id w = a" using assms(2) by (simp split: if_splits)
  then have "av_id w \<in> set (map av_id (list_versions d a))" using w(1) unfolding list_versions_ids by blast
  then show ?thesis using w(2) by simp
qed

lemma set_agent_status_eq:
  assumes "registry_inv d" "get_agent d a = Some g"
  shows "set_agent_status a st d = (Some (g\<lparr>ag_status := st, ag_updated_at := now d\<rparr>),
    d\<lparr>agents := sql_update (\<lambda>x. ag_id x = a) (assign_agent [SET_agent_status st, SET_agent_updated_at (now d)]) (agents d)\<rparr>)"
  using filter_agent [OF assms(1), of a "\<lambda>_. True"] assms(2)
  by (simp add: set_agent_status_def update_agents_def sql_returning_def first_row_def assign_agent_cases)

lemma disable_result:
  assumes "db_inv d" "registry_inv d" "get_agent d a = Some g"
  shows "\<exists>g' n d'. disable a d = Inr ((g', n), d') \<and> db_inv d' \<and> registry_inv d' \<and> db_step_ok d d'
    \<and> get_agent d' a = Some g' \<and> ag_status g' = AGENT_DISABLED
    \<and> agent_versions d' = disable_versions (map av_id (list_versions d a)) (agent_versions d)
    \<and> (\<forall>v \<in> set (agent_versions d'). av_agent_id v = a \<longrightarrow> av_status v = VERSION_DISABLED)
    \<and> tenants d' = tenants d \<and> (\<forall>i. find_task d i = None \<longrightarrow> find_task d' i = None)
    \<and> (\<forall>t \<in> set (tasks d'). in_versions (map av_id (list_versions d a)) t \<longrightarrow>
         t_state t \<noteq> QUEUED \<and> (t_state t = RUNNING \<longrightarrow> cancel_requested t))
    \<and> (\<forall>i t. find_task d i = Some t \<and> \<not> in_versions (map av_id (list_versions d a)) t \<longrightarrow> find_task d' i = Some t)
    \<and> (\<forall>tn rt. (\<forall>r \<in> set (agent_routes d). rt_tenant_id r = tn \<and> rt_request_type r = rt \<longrightarrow> rt_agent_id r = a)
         \<longrightarrow> (\<exists>e. resolve_route tn rt d' = Inl e))
    \<and> n = length (filter (\<lambda>t. in_versions (map av_id (list_versions d a)) t \<and> (t_state t = QUEUED
          \<or> t_state t = RUNNING \<and> \<not> cancel_requested t)) (tasks d))"
proof -
  define vs where "vs = map av_id (list_versions d a)"
  define g' where "g' = g\<lparr>ag_status := AGENT_DISABLED, ag_updated_at := now d\<rparr>"
  define d1 where "d1 = d\<lparr>agents := sql_update (\<lambda>x. ag_id x = a)
      (assign_agent [SET_agent_status AGENT_DISABLED, SET_agent_updated_at (now d)]) (agents d)\<rparr>"
  define d2 where "d2 = d1\<lparr>agent_versions := disable_versions vs (agent_versions d1)\<rparr>"
  define why where "why = ''agent '' @ py_repr (ag_name g) @ '' disabled''"
  have tabs: "tasks d2 = tasks d" "now d2 = now d" "agent_routes d2 = agent_routes d"
    "agent_versions d2 = disable_versions vs (agent_versions d)" "agents d2 = agents d1"
    "list_versions d1 a = list_versions d a"
    by (simp_all add: d2_def d1_def list_versions_def versions_of_def)
  have "db_inv d2"
    by (rule db_inv_frame [OF assms(1)]) (use assms(1) in \<open>auto simp: d2_def d1_def db_inv_def event_refs_def\<close>)
  then obtain n d' where c: "cancel_agent_tasks vs why d2 = Inr (n, d')" "db_inv d'" "db_step_ok d2 d'"
    "\<And>i. find_task d' i = map_option (swept vs why (now d2)) (find_task d2 i)"
    "\<forall>t \<in> set (tasks d'). in_versions vs t \<longrightarrow> t_state t \<noteq> QUEUED \<and> (t_state t = RUNNING \<longrightarrow> cancel_requested t)"
    "n = length (filter (\<lambda>t. in_versions vs t \<and> (t_state t = QUEUED
          \<or> t_state t = RUNNING \<and> \<not> cancel_requested t)) (tasks d2))"
    using cancel_agent_tasks_result [of d2 vs why] by blast
  note same = controlD [OF cancel_agent_tasks_control [OF c(1)]]
  have find2: "find_task d2 = find_task d" by (simp add: fun_eq_iff find_task_def tabs)
  have run: "disable a d = Inr ((g', n), d')"
    unfolding disable_def set_agent_status_eq [OF assms(2,3)] d1_def [symmetric]
    using c(1) by (simp add: disable_each tabs(6) g'_def d2_def why_def vs_def)
  have "registry_inv d1"
    by (rule registry_inv_agents [OF assms(2), where d' = d1 and p = "\<lambda>x. ag_id x = a"
          and as = "[SET_agent_status AGENT_DISABLED, SET_agent_updated_at (now d)]"])
       (auto simp: d1_def assign_agent_cases dest: registry_default [OF assms(2)])
  then have "registry_inv d2"
    by (rule registry_inv_versions [where p = "\<lambda>v. av_id v \<in> set vs" and st = VERSION_DISABLED])
       (simp_all add: d2_def disable_versions_def)
  then have reg: "registry_inv d'"
    using same by (simp add: registry_inv_def versions_dense_def versions_of_def defaults_ok_def get_version_def)
  have ag: "get_agent d' x = map_option (\<lambda>g. if ag_id g = a
      then g\<lparr>ag_status := AGENT_DISABLED, ag_updated_at := now d\<rparr> else g) (get_agent d x)" for x
  proof -
    have "get_agent d' x = get_agent d1 x" by (simp add: get_agent_def same(2) tabs(5))
    then show ?thesis
      by (cases "get_agent d x") (simp_all add: d1_def find_agent_update assign_agent_cases)
  qed
  have id: "ag_id x = i" if "get_agent d i = Some x" for i x
    using that find_by_SomeD [of ag_id i "agents d" x] by (simp add: get_agent_def)
  have off: "ag_status x \<noteq> AGENT_ACTIVE" if "get_agent d' a = Some x" for x
    using that assms(3) id [OF assms(3)] by (auto simp: ag)
  have "\<exists>e. resolve_route tn rt d' = Inl e"
    if "\<forall>r \<in> set (agent_routes d). rt_tenant_id r = tn \<and> rt_request_type r = rt \<longrightarrow> rt_agent_id r = a" for tn rt
  proof -
    have "\<forall>r \<in> set (agent_routes d'). rt_tenant_id r = tn \<and> rt_request_type r = rt \<longrightarrow>
        (\<forall>x. get_agent d' (rt_agent_id r) = Some x \<longrightarrow> ag_status x \<noteq> AGENT_ACTIVE)"
      using that off unfolding same(4) tabs(3) by metis
    then show ?thesis using resolve_route_result [OF reg, of tn rt] by blast
  qed
  moreover have "find_task d' i = Some t" if "find_task d i = Some t" "\<not> in_versions vs t" for i t
    using that by (simp add: c(4) find2 swept_def)
  moreover have "av_status v = VERSION_DISABLED" if "v \<in> set (agent_versions d')" "av_agent_id v = a" for v
    using disabled_all [of v d a] that by (simp add: same(3) tabs(4) vs_def)
  moreover have "get_agent d' a = Some g'" "ag_status g' = AGENT_DISABLED"
    using assms(3) id [OF assms(3)] by (simp_all add: ag g'_def)
  moreover have "db_step_ok d d'" using c(3) by (simp add: db_step_ok_def find2)
  moreover have "\<forall>i. find_task d i = None \<longrightarrow> find_task d' i = None" by (simp add: c(4) find2)
  moreover have "tenants d' = tenants d" "agent_versions d' = disable_versions vs (agent_versions d)"
    using same(1) by (simp_all add: d2_def d1_def same(3))
  ultimately show ?thesis
    unfolding vs_def [symmetric]
    by (intro exI [of _ g'] exI [of _ n] exI [of _ d'] conjI)
       (use run c(2,5,6) reg tabs(1) in \<open>simp_all\<close>)
qed

text \<open>
  Disabling an agent. Under the invariants it succeeds for every existing agent and keeps them.
  In one transaction the agent and all its versions become \<open>DISABLED\<close>; no task of any of its
  versions is left in the queue, each running one carries the cancellation flag, and every other
  task is as it was; and no request type routed to it alone resolves any more. The count in the
  answer is the number of tasks cancelled or newly asked to stop.
\<close>

theorem disable_contract:
  assumes "db_inv d" "registry_inv d" "get_agent d a = Some g"
  shows "\<exists>g' n d'. disable a d = Inr ((g', n), d') \<and> db_inv d' \<and> registry_inv d' \<and> db_step_ok d d'
    \<and> get_agent d' a = Some g' \<and> ag_status g' = AGENT_DISABLED
    \<and> agent_versions d' = disable_versions (map av_id (list_versions d a)) (agent_versions d)
    \<and> (\<forall>v \<in> set (agent_versions d'). av_agent_id v = a \<longrightarrow> av_status v = VERSION_DISABLED)
    \<and> tenants d' = tenants d \<and> (\<forall>i. find_task d i = None \<longrightarrow> find_task d' i = None)
    \<and> (\<forall>t \<in> set (tasks d'). in_versions (map av_id (list_versions d a)) t \<longrightarrow>
         t_state t \<noteq> QUEUED \<and> (t_state t = RUNNING \<longrightarrow> cancel_requested t))
    \<and> (\<forall>i t. find_task d i = Some t \<and> \<not> in_versions (map av_id (list_versions d a)) t \<longrightarrow> find_task d' i = Some t)
    \<and> (\<forall>tn rt. (\<forall>r \<in> set (agent_routes d). rt_tenant_id r = tn \<and> rt_request_type r = rt \<longrightarrow> rt_agent_id r = a)
         \<longrightarrow> (\<exists>e. resolve_route tn rt d' = Inl e))
    \<and> n = length (filter (\<lambda>t. in_versions (map av_id (list_versions d a)) t \<and> (t_state t = QUEUED
          \<or> t_state t = RUNNING \<and> \<not> cancel_requested t)) (tasks d))"
  by (rule disable_result [OF assms])

text \<open>
  A submission can slip past a disable. The route is resolved by one statement and the task
  inserted by a later one, each with a snapshot of its own: if the agent is disabled in between,
  the submission is accepted all the same, and the new task is queued, not asked to stop, and
  pinned to a version that is \<open>DISABLED\<close>; the sweep of the disable, which committed before the
  insert, has missed it.
\<close>

theorem submission_races_disable:
  assumes "db_inv d" "registry_inv d" "limits_ok d" "task_create_valid jb b" "find_task d (generated_id env) = None"
    and "get_tenant d (b_tenant_id b) = Some tn"
    and "int (queued_count_for_tenant d (b_tenant_id b)) < max_queued_tasks tn" "shed_threshold env \<le> 0"
    and "b_request_type b = Some rt" "b_idempotency_key b = None"
    and "resolve_route (b_tenant_id b) rt d = Inr r"
    and "dict_get (rs_runtime_spec r) ''task_type'' (JStr (rs_agent_name r)) = JStr ty"
    and "before_resolve env = (\<lambda>d. d)"
    and "before_insert env = (\<lambda>d. case disable (rs_agent_id r) d of Inl _ \<Rightarrow> d | Inr (_, d') \<Rightarrow> d')"
  shows "\<exists>out d' v. submit env clock b d = (Inr (201, out), d') \<and> db_inv d'
    \<and> find_task d' (generated_id env) = Some (out_task out)
    \<and> t_state (out_task out) = QUEUED \<and> \<not> cancel_requested (out_task out)
    \<and> t_agent_version_id (out_task out) = Some (rs_version_id r)
    \<and> get_version d' (rs_version_id r) = Some v \<and> av_status v = VERSION_DISABLED"
proof -
  let ?a = "rs_agent_id r"
  obtain g v where gv: "get_agent d ?a = Some g" "get_version d (rs_version_id r) = Some v" "av_agent_id v = ?a"
  proof -
    obtain x v where "get_agent d x \<noteq> None" "get_version d (rs_version_id r) = Some v" "av_agent_id v = ?a"
      "\<And>g. get_agent d x = Some g \<Longrightarrow> ag_id g = ?a"
      using resolve_route_result [OF assms(2), of "b_tenant_id b" rt] assms(11) by fastforce
    moreover have "ag_id g = x" if "get_agent d x = Some g" for g
      using that find_by_SomeD [of ag_id x "agents d" g] by (simp add: get_agent_def)
    ultimately show thesis using that by fastforce
  qed
  obtain g' n d2 where dis: "disable ?a d = Inr ((g', n), d2)" "db_inv d2"
    "agent_versions d2 = disable_versions (map av_id (list_versions d ?a)) (agent_versions d)"
    "\<forall>v \<in> set (agent_versions d2). av_agent_id v = ?a \<longrightarrow> av_status v = VERSION_DISABLED"
    "tenants d2 = tenants d" "find_task d2 (generated_id env) = None"
    using disable_result [OF assms(1,2) gv(1)] assms(5) by blast
  obtain p where p: "resolve_submission b d = Inr p" "pin_ok b d p" "pin_version p = Some (rs_version_id r)"
    "pin_task_type p = JStr ty"
    using resolve_submission_cases [OF assms(2-4)] assms(9,11,12) by (auto simp: resolve_submission_def)
  obtain s where s: "submission_of env b p = Inr s" using p(4) by (simp add: submission_of_def task_type_text_def)
  have ten: "b_tenant_id b \<in> tn_id ` set (tenants d)"
    using find_by_SomeD [of tn_id _ "tenants d"] assms(6) by (force simp: get_tenant_def)
  note so = submission_of_Inr [OF s assms(4) p(2) ten]
  have "refs_ok s d2"
    using so(2) by (simp add: refs_ok_def dis(3,5) disable_versions_def version_rows.keys_update)
  moreover have "holder s d2 = None"
    using so(5) assms(10) by (auto simp: holder_None list_ex_iff key_taken_def)
  ultimately obtain d' where i: "insert_submission env clock s d2 =
      Inr ((201, to_out clock (new_task (generated_id env) s (now d2))), d')"
    "d' = with_task (new_task (generated_id env) s (now d2)) (created_data s) d2" "db_inv d'"
    using insert_submission_cases [OF dis(2) so(1) _ dis(6), of clock] by auto
  have adm: "decision (admission_decide (int (queued_count_for_tenant d (b_tenant_id b))) (max_queued_tasks tn)
      (cached_global_queued env) (shed_threshold env)) = ADMIT"
    using assms(7,8) by (simp add: admission_decide_def)
  have "submit env clock b d = (Inr (201, to_out clock (new_task (generated_id env) s (now d2))), d')"
    using assms(6) adm p(1) s i(1) by (simp add: submit_def Let_def assms(13,14) dis(1))
  moreover have "find_task d' (generated_id env) = Some (new_task (generated_id env) s (now d2))"
    using dis(6) by (simp add: i(2) with_task_def find_task_def find_by_append)
  moreover have "\<exists>x. get_version d' (rs_version_id r) = Some x \<and> av_status x = VERSION_DISABLED"
  proof -
    have "get_version d' (rs_version_id r) = get_version d2 (rs_version_id r)"
      by (simp add: get_version_def i(2) with_task_def)
    moreover obtain x where x: "get_version d2 (rs_version_id r) = Some x" "av_agent_id x = ?a"
      using gv(2,3) by (simp add: get_version_def dis(3) disable_versions_def version_rows.find_update)
    moreover have "x \<in> set (agent_versions d2)"
      using x(1) find_by_SomeD [of av_id _ "agent_versions d2" x] by (simp add: get_version_def)
    ultimately show ?thesis using dis(4) by auto
  qed
  moreover have "\<not> cancel_requested (new_task (generated_id env) s (now d2))" by (simp add: new_task_def)
  ultimately show ?thesis using i(3) so(4) p(3) by (auto simp: to_out_def)
qed

section \<open>Grants\<close>

text \<open>Every grant joins a version and a tool of the same tenant.\<close>

definition grants_ok :: "db \<Rightarrow> bool" where
  "grants_ok d \<longleftrightarrow> (\<forall>g \<in> set (agent_version_tool_grants d). \<exists>v a t. get_version d (gr_agent_version_id g) = Some v
     \<and> get_agent d (av_agent_id v) = Some a \<and> get_tool d (gr_tool_id g) = Some t \<and> ag_tenant_id a = tl_tenant_id t)"

lemma audit_registry [simp]:
  "get_version (record_audit r d) = get_version d" "get_agent (record_audit r d) = get_agent d"
  "get_tool (record_audit r d) = get_tool d" "agents (record_audit r d) = agents d"
  "agent_versions (record_audit r d) = agent_versions d"
  "agent_version_tool_grants (record_audit r d) = agent_version_tool_grants d"
  by (simp_all add: fun_eq_iff record_audit_def get_version_def get_agent_def get_tool_def)

lemma with_grants [simp]:
  "get_version (d\<lparr>agent_version_tool_grants := gs\<rparr>) = get_version d"
  "get_agent (d\<lparr>agent_version_tool_grants := gs\<rparr>) = get_agent d"
  "get_tool (d\<lparr>agent_version_tool_grants := gs\<rparr>) = get_tool d"
  by (simp_all add: fun_eq_iff get_version_def get_agent_def get_tool_def)

lemma grant_Inr:
  assumes "grant v i d = Inr (u, d')"
  obtains ver g t d1 where "get_version d v = Some ver" "av_status ver \<noteq> VERSION_ACTIVE" "get_tool d i = Some t"
    "get_agent d (av_agent_id ver) = Some g" "ag_tenant_id g = tl_tenant_id t" "grant_tool v i d = Inr d1"
    "d' = record_audit (control_audit (tl_tenant_id t) ''TOOL_GRANTED'' ''agent_version'' v (grant_data t)) d1"
proof -
  obtain ver where ver: "get_version d v = Some ver" "av_status ver \<noteq> VERSION_ACTIVE"
    using assms by (auto simp: grant_def changeable_version_def unknown_def api_def split: option.splits if_splits)
  obtain t where t: "get_tool d i = Some t"
    using assms ver by (auto simp: grant_def changeable_version_def unknown_def api_def split: option.splits)
  obtain g where g: "get_agent d (av_agent_id ver) = Some g" "ag_tenant_id g = tl_tenant_id t"
    using assms ver t by (auto simp: grant_def changeable_version_def api_def split: option.splits if_splits)
  obtain d1 where "grant_tool v i d = Inr d1"
    using assms ver t g by (cases "grant_tool v i d") (auto simp: grant_def changeable_version_def)
  with assms ver t g show thesis
    by (intro that) (auto simp: grant_def changeable_version_def)
qed

lemma revoke_Inr:
  assumes "revoke v i d = Inr (u, d')"
  obtains ver t where "get_version d v = Some ver" "av_status ver \<noteq> VERSION_ACTIVE" "get_tool d i = Some t"
    "fst (revoke_grant v i d)"
    "d' = record_audit (control_audit (tl_tenant_id t) ''TOOL_GRANT_REVOKED'' ''agent_version'' v (grant_data t))
       (snd (revoke_grant v i d))"
proof -
  obtain ver where ver: "get_version d v = Some ver" "av_status ver \<noteq> VERSION_ACTIVE"
    using assms by (auto simp: revoke_def changeable_version_def unknown_def api_def split: option.splits if_splits)
  obtain t where t: "get_tool d i = Some t"
    using assms ver by (auto simp: revoke_def changeable_version_def unknown_def api_def split: option.splits)
  with assms ver show thesis
    by (intro that) (auto simp: revoke_def changeable_version_def api_def case_prod_beta Let_def split: if_splits)
qed

lemma grants_result:
  assumes "grants_ok d" and "grant v i d = Inr (u, d') \<or> revoke v i d = Inr (u, d')"
  shows "grants_ok d'
    \<and> (\<forall>w ver. get_version d w = Some ver \<and> av_status ver = VERSION_ACTIVE \<longrightarrow> granted_of d' w = granted_of d w)
    \<and> (\<exists>t e. get_tool d i = Some t \<and> audit_events d' = audit_events d @ [e]
         \<and> au_tenant_id e = tl_tenant_id t \<and> au_resource_id e = Some v)"
  using assms(2)
proof
  assume "grant v i d = Inr (u, d')"
  then obtain ver g t d1 where f: "get_version d v = Some ver" "av_status ver \<noteq> VERSION_ACTIVE" "get_tool d i = Some t"
    "get_agent d (av_agent_id ver) = Some g" "ag_tenant_id g = tl_tenant_id t" "grant_tool v i d = Inr d1"
    and d': "d' = record_audit (control_audit (tl_tenant_id t) ''TOOL_GRANTED'' ''agent_version'' v (grant_data t)) d1"
    by (rule grant_Inr)
  obtain gs where d1: "d1 = d\<lparr>agent_version_tool_grants := agent_version_tool_grants d @ gs\<rparr>"
    and gs: "\<And>x. x \<in> set gs \<Longrightarrow> gr_agent_version_id x = v \<and> gr_tool_id x = i"
  proof (cases "list_ex (is_grant v i) (agent_version_tool_grants d)")
    case True
    then show thesis using f(6) that [of "[]"] by (simp add: grant_tool_def)
  next
    case False
    then show thesis
      using f(6) that [of "[\<lparr>gr_agent_version_id = v, gr_tool_id = i, gr_created_at = now d\<rparr>]"]
      by (simp add: grant_tool_def split: if_splits)
  qed
  have "grants_ok d'"
    using assms(1) gs f by (auto simp: grants_ok_def d' d1)
  moreover have "granted_of d' w = granted_of d w" if "get_version d w = Some x" "av_status x = VERSION_ACTIVE" for w x
  proof -
    have "w \<noteq> v" using that f(1,2) by auto
    then have "filter (\<lambda>g. gr_agent_version_id g = w) gs = []" using gs by (auto simp: filter_empty_conv)
    then show ?thesis by (simp add: granted_of_def d' d1)
  qed
  ultimately show ?thesis using f(3) by (auto simp: d' d1 record_audit_def control_audit_def)
next
  assume "revoke v i d = Inr (u, d')"
  then obtain ver t where f: "get_version d v = Some ver" "av_status ver \<noteq> VERSION_ACTIVE" "get_tool d i = Some t"
    and d': "d' = record_audit (control_audit (tl_tenant_id t) ''TOOL_GRANT_REVOKED'' ''agent_version'' v (grant_data t))
       (snd (revoke_grant v i d))"
    by (rule revoke_Inr)
  let ?gs = "filter (\<lambda>g. \<not> is_grant v i g) (agent_version_tool_grants d)"
  have d1: "snd (revoke_grant v i d) = d\<lparr>agent_version_tool_grants := ?gs\<rparr>" by (simp add: revoke_grant_def)
  have "grants_ok d'" using assms(1) by (auto simp: grants_ok_def d' d1)
  moreover have "granted_of d' w = granted_of d w" if "get_version d w = Some x" "av_status x = VERSION_ACTIVE" for w x
  proof -
    have "w \<noteq> v" using that f(1,2) by auto
    then have "filter (\<lambda>g. gr_agent_version_id g = w) ?gs = filter (\<lambda>g. gr_agent_version_id g = w) (agent_version_tool_grants d)"
      by (auto simp: is_grant_def intro!: filter_cong)
    then show ?thesis by (simp only: granted_of_def d' d1 audit_registry) simp
  qed
  ultimately show ?thesis using f(3) by (auto simp: d' d1 record_audit_def control_audit_def)
qed

text \<open>
  C30. Grants are frozen on a released version and never cross tenants. No grant or revocation that
  succeeds touches the grants of any active version; each keeps the invariant that a version is
  granted tools of its own tenant only; and each adds exactly one audit record, of that tenant.
\<close>

theorem grants_frozen_and_isolated:
  assumes "grants_ok d" and "grant v i d = Inr (u, d') \<or> revoke v i d = Inr (u, d')"
  shows "grants_ok d'
    \<and> (\<forall>w ver. get_version d w = Some ver \<and> av_status ver = VERSION_ACTIVE \<longrightarrow> granted_of d' w = granted_of d w)
    \<and> (\<exists>t e. get_tool d i = Some t \<and> audit_events d' = audit_events d @ [e]
         \<and> au_tenant_id e = tl_tenant_id t \<and> au_resource_id e = Some v)"
  by (rule grants_result [OF assms])

lemma demo_tools_grants: "grants_ok demo_tools"
  using demo_tools_rows by (auto simp: grants_ok_def demo_tools_def demo_version_def demo_agent_def demo_tool_def)

lemma demo_tools_draft: "get_version demo_tools 5 = Some (demo_version 5 2 VERSION_DRAFT)"
  by (simp add: get_version_def demo_tools_def demo_registry_defs)

theorem grants_frozen_and_isolated_witness:
  "\<exists>u d'. grant 5 11 demo_tools = Inr (u, d') \<and> grants_ok d' \<and> granted_of d' 4 = granted_of demo_tools 4"
proof -
  have cols: "av_status (demo_version i n st) = st" "av_agent_id (demo_version i n st) = 3"
    "ag_tenant_id demo_agent = 1" "tl_tenant_id demo_tool = 1" for i n st
    by (simp_all add: demo_version_def demo_agent_def demo_tool_def)
  have "5 \<in> av_id ` set (agent_versions demo_tools)" "11 \<in> tl_id ` set (tools demo_tools)"
    by (simp_all add: demo_tools_def demo_registry_defs demo_tool_def)
  then have "\<exists>d1. grant_tool 5 11 demo_tools = Inr d1" by (simp add: grant_tool_def)
  then obtain d1 where "grant_tool 5 11 demo_tools = Inr d1" by blast
  then obtain u d' where "grant 5 11 demo_tools = Inr (u, d')"
    by (simp add: grant_def changeable_version_def demo_tools_draft demo_tools_rows cols)
  then show ?thesis
    using grants_frozen_and_isolated [OF demo_tools_grants, of 5 11 u d'] demo_tools_rows(1) cols(1) by blast
qed

section \<open>Gauges\<close>

lemma sum_by_name:
  fixes f :: "'a \<Rightarrow> nat"
  assumes "distinct xs"
  shows "sum_list (map (\<lambda>nm. sum_list (map f (filter (\<lambda>x. name x = nm) xs))) (remdups (map name xs))) = sum_list (map f xs)"
proof -
  have "sum_list (map f (filter (\<lambda>x. name x = nm) xs)) = (\<Sum>x \<in> set xs. if name x = nm then f x else 0)" for nm
  proof -
    have "sum_list (map f (filter (\<lambda>x. name x = nm) xs)) = (\<Sum>x \<in> {x \<in> set xs. name x = nm}. f x)"
      using assms by (simp add: sum_list_distinct_conv_sum_set)
    then show ?thesis by (simp add: sum.inter_filter)
  qed
  then have "sum_list (map (\<lambda>nm. sum_list (map f (filter (\<lambda>x. name x = nm) xs))) (remdups (map name xs))) =
      (\<Sum>nm \<in> name ` set xs. \<Sum>x \<in> set xs. if name x = nm then f x else 0)"
    by (simp add: sum_list_distinct_conv_sum_set)
  also have "\<dots> = (\<Sum>x \<in> set xs. \<Sum>nm \<in> name ` set xs. if name x = nm then f x else 0)"
    by (rule sum.swap)
  also have "\<dots> = (\<Sum>x \<in> set xs. f x)" by (rule sum.cong) simp_all
  also have "\<dots> = sum_list (map f xs)" using assms by (simp add: sum_list_distinct_conv_sum_set)
  finally show ?thesis .
qed

lemma sum_by_owner:
  assumes "distinct (map key xs)" and "\<And>t. t \<in> set ts \<Longrightarrow> owner t \<in> key ` set xs"
  shows "sum_list (map (\<lambda>x. length (filter (\<lambda>t. P t \<and> owner t = key x) ts)) xs) = length (filter P ts)"
  using assms(2)
proof (induction ts)
  case Nil
  then show ?case by simp
next
  case (Cons t ts)
  have one: "sum_list (map (\<lambda>x. if owner t = key x then 1 else 0) xs) = (1::nat)"
  proof -
    have "sum_list (map (\<lambda>x. if owner t = key x then 1 else 0) xs) = length (filter (\<lambda>x. key x = owner t) xs)"
      by (induction xs) auto
    also have "\<dots> = 1"
      using filter_key_unique [OF assms(1), of "owner t" "\<lambda>_. True"] Cons.prems [of t]
      by (cases "find_by key (owner t) xs") (auto simp: find_by_None_iff)
    finally show ?thesis .
  qed
  have "sum_list (map (\<lambda>x. length (filter (\<lambda>t. P t \<and> owner t = key x) (t # ts))) xs) =
      (if P t then sum_list (map (\<lambda>x. if owner t = key x then 1 else 0) xs) else 0)
      + sum_list (map (\<lambda>x. length (filter (\<lambda>t. P t \<and> owner t = key x) ts)) xs)"
    by (induction xs) auto
  with one Cons show ?case by simp
qed

text \<open>
  The gauges add up. Under the invariant the depth that admission reads is the number of
  runnable tasks of the whole table, although it is summed from rows grouped by tenant name; and
  so are the running tasks. A task is counted once even if two tenants had the same name.
\<close>

theorem gauges_add_up:
  assumes "db_inv d"
  shows "global_queued (refresh_once d g) =
      length (filter (\<lambda>t. t_state t = QUEUED \<and> available_at t \<le> now d) (tasks d))
    \<and> sum_list (map snd (tasks_running (refresh_once d g))) = length (filter (\<lambda>t. t_state t = RUNNING) (tasks d))"
proof -
  have ids: "distinct (map tn_id (tenants d))" and refs: "\<And>t. t \<in> set (tasks d) \<Longrightarrow> t_tenant_id t \<in> tn_id ` set (tenants d)"
    using assms by (simp_all add: db_inv_def tenant_refs_def)
  have dist: "distinct (tenants d)" using ids by (simp add: distinct_map)
  let ?c = "\<lambda>P te. length (filter (\<lambda>t. P t \<and> t_tenant_id t = tn_id te) (tasks d))"
  have inner: "length (filter P [t. te \<leftarrow> ts, tn_name te = nm, t \<leftarrow> tasks d, t_tenant_id t = tn_id te]) =
      sum_list (map (?c P) (filter (\<lambda>te. tn_name te = nm) ts))" for P nm ts
  proof (induction ts)
    case (Cons te ts)
    have "length (filter P (concat (map (\<lambda>t. if t_tenant_id t = tn_id te then [t] else []) us))) =
        length (filter (\<lambda>t. P t \<and> t_tenant_id t = tn_id te) us)" for us by (induction us) auto
    with Cons show ?case by simp
  qed simp
  have total: "sum_list (map (\<lambda>nm. length (filter P [t. te \<leftarrow> tenants d, tn_name te = nm, t \<leftarrow> tasks d, t_tenant_id t = tn_id te]))
      (remdups (map tn_name (tenants d)))) = length (filter P (tasks d))" for P
    unfolding inner sum_by_name [OF dist] by (rule sum_by_owner [OF ids refs])
  show ?thesis
    using total [of "\<lambda>t. t_state t = QUEUED \<and> available_at t \<le> now d"] total [of "\<lambda>t. t_state t = RUNNING"]
    by (simp add: refresh_once_eq queue_rows_def Let_def comp_def)
qed

theorem gauges_add_up_witness:
  "sum_list (map snd (tasks_running (refresh_once demo_db (refresh_once demo_idle g)))) = 1"
proof -
  have "length (filter (\<lambda>t. t_state t = RUNNING) (tasks demo_db)) = 1" by (simp add: demo_db_def demo_task_def)
  then show ?thesis using gauges_add_up [OF demo_db_inv] by simp
qed

section \<open>Witnesses\<close>

text \<open>The tenant of \<open>demo_db\<close> with the agent, versions and route of \<open>demo_registry\<close>.\<close>

definition demo_platform :: db where
  "demo_platform = demo_db\<lparr>agents := agents demo_registry, agent_versions := agent_versions demo_registry,
     agent_routes := agent_routes demo_registry\<rparr>"

definition demo_request :: task_create where
  "demo_request = \<lparr>b_tenant_id = 1, b_task_type = None, b_request_type = Some ''summarise'', b_payload = [],
     b_idempotency_key = None, b_priority = 100, b_max_attempts = 3, b_max_execution_time_s = 300,
     b_available_at = None\<rparr>"

definition demo_env :: "(db \<Rightarrow> db) \<Rightarrow> submit_env" where
  "demo_env f = \<lparr>generated_id = 20, cached_global_queued = 0, shed_threshold = 0, trace_carrier = None,
     bound_text = (\<lambda>_. None), before_resolve = (\<lambda>d. d), before_insert = f\<rparr>"

lemma demo_platform_inv: "db_inv demo_platform" "registry_inv demo_platform" "limits_ok demo_platform"
proof -
  show "db_inv demo_platform"
    by (rule db_inv_frame [OF demo_db_inv])
       (use demo_db_inv in \<open>auto simp: demo_platform_def db_inv_def event_refs_def\<close>)
  show "registry_inv demo_platform"
    using demo_registry_inv by (simp add: registry_inv_def versions_dense_def versions_of_def defaults_ok_def
        get_version_def demo_platform_def)
  show "limits_ok demo_platform" by (simp add: limits_ok_def demo_platform_def demo_registry_def demo_version_def)
qed

lemma demo_platform_facts:
  "find_task demo_platform 20 = None" "get_tenant demo_platform 1 = Some demo_tenant"
  "queued_count_for_tenant demo_platform 1 = 0" "max_queued_tasks demo_tenant = 100"
  "task_create_valid (\<lambda>_. 2) demo_request" "get_agent demo_platform 3 = Some demo_agent"
  by (simp_all add: demo_platform_def demo_db_def demo_task_def demo_tenant_def find_task_def get_tenant_def
      queued_count_for_tenant_def demo_request_def task_create_valid_def opt_all_def between_def
      length_between_def exactly_one_submission_mode_def MAX_PAYLOAD_BYTES_def get_agent_def demo_registry_def
      demo_agent_def)

lemma demo_route:
  "resolve_route 1 ''summarise'' demo_platform = Inr \<lparr>rs_agent_id = 3, rs_agent_name = ''scribe'',
     rs_version_id = 4, rs_version = 1, rs_required_capabilities = [''gpu''], rs_max_attempts = 3,
     rs_max_execution_time_s = 300, rs_runtime_spec = []\<rparr>"
  by (simp add: resolve_route_def routed_def List.map_filter_def get_agent_def get_version_def demo_platform_def
      ROUTABLE_AGENT_STATUSES_def ROUTABLE_VERSION_STATUSES_def demo_registry_def demo_agent_def demo_version_def)

theorem submit_contract_witness:
  "\<exists>out d'. submit (demo_env (\<lambda>d. d)) 10 demo_request demo_platform = (Inr (201, out), d')
     \<and> accepted demo_request 201 out demo_platform d' \<and> queued_count_for_tenant d' 1 \<le> 100"
proof -
  have "case fst (submit (demo_env (\<lambda>d. d)) 10 demo_request demo_platform) of Inl _ \<Rightarrow> False | Inr (c, _) \<Rightarrow> c = 201"
    by code_simp
  then obtain out d' where r: "submit (demo_env (\<lambda>d. d)) 10 demo_request demo_platform = (Inr (201, out), d')"
    by (cases "submit (demo_env (\<lambda>d. d)) 10 demo_request demo_platform") (auto split: sum.splits)
  have "quiet_env (demo_env (\<lambda>d. d))" "generated_id (demo_env (\<lambda>d. d)) = 20" "b_tenant_id demo_request = 1"
    by (simp_all add: quiet_env_def demo_env_def demo_request_def)
  then show ?thesis
    using submit_contract [OF demo_platform_inv demo_platform_facts(5), of "demo_env (\<lambda>d. d)" 10]
      demo_platform_facts(1,2,4) r by simp
qed

theorem disable_contract_witness:
  "\<exists>g' n d'. disable 3 demo_platform = Inr ((g', n), d') \<and> db_inv d' \<and> ag_status g' = AGENT_DISABLED
     \<and> (\<exists>e. resolve_route 1 ''summarise'' d' = Inl e)"
proof -
  have "\<forall>r \<in> set (agent_routes demo_platform). rt_agent_id r = 3"
    by (simp add: demo_platform_def demo_registry_def)
  then show ?thesis
    using disable_contract [OF demo_platform_inv(1,2) demo_platform_facts(6)] by blast
qed

theorem submission_races_disable_witness:
  "\<exists>env out d' v. submit env 10 demo_request demo_platform = (Inr (201, out), d')
     \<and> t_state (out_task out) = QUEUED \<and> get_version d' 4 = Some v \<and> av_status v = VERSION_DISABLED"
proof -
  let ?env = "demo_env (\<lambda>d. case disable 3 d of Inl _ \<Rightarrow> d | Inr (_, d') \<Rightarrow> d')"
  have e: "generated_id ?env = 20" "shed_threshold ?env \<le> 0" "before_resolve ?env = (\<lambda>d. d)"
    "before_insert ?env = (\<lambda>d. case disable 3 d of Inl _ \<Rightarrow> d | Inr (_, d') \<Rightarrow> d')"
    by (simp_all add: demo_env_def)
  have b: "b_tenant_id demo_request = 1" "b_request_type demo_request = Some ''summarise''"
    "b_idempotency_key demo_request = None" by (simp_all add: demo_request_def)
  show ?thesis
    using submission_races_disable [OF demo_platform_inv demo_platform_facts(5), of ?env demo_tenant "''summarise''" _ "''scribe''" 10]
      demo_platform_facts(1-4) e b demo_route
    by (auto simp: dict_get_def)
qed

end
