(* ===== verification/ControlInv.thy ===== *)
theory ControlInv
  imports Requests
begin

text \<open>
  The invariant of the control tables and what every request on them keeps: rows are never deleted,
  a version's content and the owner of an agent or a tool never change, grants and routes stay
  within one tenant.
\<close>

section \<open>The invariant\<close>

definition routes_ok :: "db \<Rightarrow> bool" where
  "routes_ok d \<longleftrightarrow> (\<forall>r \<in> set (agent_routes d). \<exists>a. get_agent d (rt_agent_id r) = Some a \<and> ag_tenant_id a = rt_tenant_id r)"

definition agents_owned :: "db \<Rightarrow> bool" where
  "agents_owned d \<longleftrightarrow> ag_tenant_id ` set (agents d) \<subseteq> tn_id ` set (tenants d)"

definition control_inv :: "db \<Rightarrow> bool" where
  "control_inv d \<longleftrightarrow> registry_inv d \<and> limits_ok d \<and> tools_inv d \<and> grants_ok d \<and> routes_ok d \<and> agents_owned d"

text \<open>What of one state is found again in every later one.\<close>

definition persists :: "(db \<Rightarrow> uuid \<Rightarrow> 'a option) \<Rightarrow> ('a \<Rightarrow> 'b) \<Rightarrow> db \<Rightarrow> db \<Rightarrow> bool" where
  "persists get f d d' \<longleftrightarrow> (\<forall>i x. get d i = Some x \<longrightarrow> (\<exists>x'. get d' i = Some x' \<and> f x' = f x))"

lemma persistsD: "persists get f d d' \<Longrightarrow> get d i = Some x \<Longrightarrow> \<exists>x'. get d' i = Some x' \<and> f x' = f x"
  by (simp add: persists_def)

lemma persists_refl [simp]: "persists get f d d"
  by (simp add: persists_def)

lemma persists_trans: "persists get f d d1 \<Longrightarrow> persists get f d1 d2 \<Longrightarrow> persists get f d d2"
  unfolding persists_def by metis

definition kept :: "db \<Rightarrow> db \<Rightarrow> bool" where
  "kept d d' \<longleftrightarrow> persists get_version version_content d d' \<and> persists get_agent ag_tenant_id d d'
     \<and> persists get_tool tl_tenant_id d d' \<and> tn_id ` set (tenants d) \<subseteq> tn_id ` set (tenants d')"

lemma kept_refl [simp]: "kept d d"
  by (simp add: kept_def)

lemma kept_trans: "kept d d1 \<Longrightarrow> kept d1 d2 \<Longrightarrow> kept d d2"
  unfolding kept_def by (meson persists_trans subset_trans)

lemma keptD:
  assumes "kept d d'"
  shows "get_version d i = Some v \<Longrightarrow> \<exists>v'. get_version d' i = Some v' \<and> version_content v' = version_content v"
    and "get_agent d i = Some a \<Longrightarrow> \<exists>a'. get_agent d' i = Some a' \<and> ag_tenant_id a' = ag_tenant_id a"
    and "get_tool d i = Some t \<Longrightarrow> \<exists>t'. get_tool d' i = Some t' \<and> tl_tenant_id t' = tl_tenant_id t"
    and "tn \<in> tn_id ` set (tenants d) \<Longrightarrow> tn \<in> tn_id ` set (tenants d')"
  using assms by (auto simp: kept_def persists_def)

lemma kept_control:
  assumes "control d' = control d"
  shows "kept d d'"
  using controlD [OF assms] by (simp add: kept_def persists_def get_version_def get_agent_def get_tool_def)

lemma control_inv_same:
  assumes "agents d' = agents d" "agent_versions d' = agent_versions d" "agent_routes d' = agent_routes d"
    and "tools d' = tools d" "agent_version_tool_grants d' = agent_version_tool_grants d"
    and "tn_id ` set (tenants d) \<subseteq> tn_id ` set (tenants d')" "control_inv d"
  shows "control_inv d'"
proof -
  have "get_version d' = get_version d" "get_agent d' = get_agent d" "get_tool d' = get_tool d" "versions_of d' = versions_of d"
    using assms by (simp_all add: fun_eq_iff get_version_def get_agent_def get_tool_def versions_of_def)
  then show ?thesis
    using assms(1-5,7) subset_trans [OF _ assms(6), of "ag_tenant_id ` set (agents d)"]
    by (simp add: control_inv_def registry_inv_def versions_dense_def defaults_ok_def
        limits_ok_def tools_inv_def grants_ok_def routes_ok_def agents_owned_def)
qed

lemma control_inv_unchanged:
  assumes "control d' = control d" "control_inv d"
  shows "control_inv d'"
  by (rule control_inv_same [of d' d]) (simp_all add: controlD [OF assms(1)] assms(2))

lemma control_inv_control:
  assumes "control d' = control d"
  shows "control_inv d' = control_inv d"
  using control_inv_unchanged [OF assms] control_inv_unchanged [OF assms [symmetric]] by blast

lemma kept_version_agent:
  "kept d d' \<Longrightarrow> get_version d i = Some v \<Longrightarrow> \<exists>v'. get_version d' i = Some v' \<and> av_agent_id v' = av_agent_id v"
  using keptD(1) [of d d' i v] by (auto simp: version_content_def)

lemma grants_kept:
  assumes "grants_ok d" "kept d d'" "agent_version_tool_grants d' = agent_version_tool_grants d"
  shows "grants_ok d'"
  unfolding grants_ok_def
proof
  fix g assume "g \<in> set (agent_version_tool_grants d')"
  then obtain v a t where f: "get_version d (gr_agent_version_id g) = Some v" "get_agent d (av_agent_id v) = Some a"
    "get_tool d (gr_tool_id g) = Some t" "ag_tenant_id a = tl_tenant_id t"
    using assms(1,3) unfolding grants_ok_def by auto
  obtain v' where v': "get_version d' (gr_agent_version_id g) = Some v'" "av_agent_id v' = av_agent_id v"
    using kept_version_agent [OF assms(2) f(1)] by blast
  obtain a' t' where "get_agent d' (av_agent_id v) = Some a'" "ag_tenant_id a' = ag_tenant_id a"
    "get_tool d' (gr_tool_id g) = Some t'" "tl_tenant_id t' = tl_tenant_id t"
    using keptD(2) [OF assms(2) f(2)] keptD(3) [OF assms(2) f(3)] by blast
  with v' f(4) show "\<exists>v a t. get_version d' (gr_agent_version_id g) = Some v \<and> get_agent d' (av_agent_id v) = Some a
      \<and> get_tool d' (gr_tool_id g) = Some t \<and> ag_tenant_id a = tl_tenant_id t" by auto
qed

lemma routes_kept:
  assumes "routes_ok d" "kept d d'" "agent_routes d' = agent_routes d"
  shows "routes_ok d'"
  using assms unfolding routes_ok_def kept_def persists_def by metis

section \<open>The requests\<close>

text \<open>
  The tables the task invariant speaks of, as one value: of the requests below, only \<open>disable\<close> and
  the creation of a tenant write to them.
\<close>

definition work :: "db \<Rightarrow> time \<times> tenant list \<times> task list \<times> task_event list \<times> worker list \<times> task_attempt list" where
  "work d = (now d, tenants d, tasks d, task_events d, workers d, task_attempts d)"

lemma workD:
  assumes "work d' = work d"
  shows "now d' = now d" "tenants d' = tenants d" "tasks d' = tasks d" "task_events d' = task_events d"
    "workers d' = workers d" "task_attempts d' = task_attempts d"
  using assms by (simp_all add: work_def)

lemma db_inv_work:
  assumes "work d' = work d" "db_inv d"
  shows "db_inv d'"
  by (rule db_inv_frame [OF assms(2)])
     (use assms(2) in \<open>simp_all add: workD [OF assms(1)] db_inv_def event_refs_def\<close>)

definition control_step :: "db \<Rightarrow> db \<Rightarrow> bool" where
  "control_step d d' \<longleftrightarrow> control_inv d' \<and> kept d d' \<and> work d' = work d"

lemma control_stepI:
  assumes "control_inv d" "registry_inv d'" "limits_ok d'" "tools_inv d'" "kept d d'"
    and "agent_version_tool_grants d' = agent_version_tool_grants d" "agent_routes d' = agent_routes d"
    and "work d' = work d" "agents_owned d'"
  shows "control_step d d'"
  using assms(1-4,8,9) assms(5) grants_kept [OF _ assms(5,6)] routes_kept [OF _ assms(5,7)]
  by (simp add: control_step_def control_inv_def)

lemma create_tenant_step:
  assumes "create_tenant i nm mc mq d = Inr (tn, d')" "control_inv d"
  shows "control_inv d'" "kept d d'" "tasks d' = tasks d"
proof -
  have d': "d' = d\<lparr>tenants := tenants d @ [tn]\<rparr>" using assms(1) by (auto simp: create_tenant_def Let_def split: if_splits)
  show "kept d d'" by (auto simp: d' kept_def persists_def get_version_def get_agent_def get_tool_def)
  show "control_inv d'" using assms(2) by (intro control_inv_same [of d' d]) (auto simp: d')
  show "tasks d' = tasks d" by (simp add: d')
qed

lemma create_agent_step:
  assumes "create_agent i tn nm desc d = Inr (a, d')" "control_inv d"
  shows "control_step d d'"
proof -
  have d': "d' = d\<lparr>agents := agents d @ [a]\<rparr>" "i \<notin> ag_id ` set (agents d)" "ag_id a = i" "default_version_id a = None"
    "ag_tenant_id a \<in> tn_id ` set (tenants d)"
    using assms(1) by (auto simp: create_agent_def Let_def split: if_splits)
  have "registry_inv d" using assms(2) by (simp add: control_inv_def)
  then have "registry_inv d'"
    using d'(2-4) by (auto simp: d'(1) registry_inv_def versions_dense_def versions_of_def defaults_ok_def get_version_def)
  moreover have "kept d d'"
    by (auto simp: d'(1) kept_def persists_def get_version_def get_agent_def get_tool_def find_by_append)
  ultimately show ?thesis
    by (intro control_stepI [OF assms(2)]) (use assms(2) d'(5) in \<open>simp_all add: d'(1) control_inv_def limits_ok_def tools_inv_def work_def agents_owned_def\<close>)
qed

lemma create_version_step:
  assumes "create_version i a req d = Inr (v, d')" "control_inv d"
  shows "control_step d d'"
proof -
  have c: "get_agent d a \<noteq> None" "1 \<le> vr_max_attempts req" "1 \<le> vr_max_execution_time_s req" "i \<notin> av_id ` set (agent_versions d)"
    using assms(1) by (auto simp: create_version_def Let_def split: if_splits)
  have "get_version d i = None" using c(4) by (simp add: get_version_def find_by_None_iff)
  moreover have reg: "registry_inv d" using assms(2) by (simp add: control_inv_def)
  ultimately have d': "d' = d\<lparr>agent_versions := agent_versions d @ [v]\<rparr>" "registry_inv d'"
    using create_version_ok [OF reg c(1-3), of i] assms(1) by auto
  have lim: "1 \<le> av_max_attempts v" "1 \<le> av_max_execution_time_s v"
    using assms(1) by (auto simp: create_version_def Let_def split: if_splits)
  have "kept d d'"
    by (auto simp: d'(1) kept_def persists_def get_version_def get_agent_def get_tool_def find_by_append)
  moreover have "limits_ok d'" using assms(2) lim by (auto simp: d'(1) control_inv_def limits_ok_def)
  ultimately show ?thesis
    by (intro control_stepI [OF assms(2) d'(2)]) (use assms(2) in \<open>simp_all add: d'(1) control_inv_def tools_inv_def work_def agents_owned_def\<close>)
qed

text \<open>Statements that only rewrite statuses and defaults of agents and statuses of versions.\<close>

lemma restatus_step:
  assumes "control_inv d" "registry_inv d'"
    and "agents d' = sql_update p (assign_agent as) (agents d)"
    and "agent_versions d' = sql_update q (set_status st) (agent_versions d)"
    and "tools d' = tools d" "agent_version_tool_grants d' = agent_version_tool_grants d"
    and "agent_routes d' = agent_routes d" "tenants d' = tenants d"
  shows "control_inv d'" "kept d d'"
proof -
  show k: "kept d d'"
    using assms(3-8) by (auto simp: kept_def persists_def get_version_def get_agent_def get_tool_def version_rows.find_update
        agent_rows.find_update)
  have "limits_ok d'"
    using assms(1,4) by (auto simp: control_inv_def limits_ok_def set_sql_update set_status_def)
  moreover have "agents_owned d'"
    using assms(1,3,8) by (auto simp: control_inv_def agents_owned_def set_sql_update)
  ultimately show "control_inv d'"
    using assms(1,2,5) grants_kept [OF _ k assms(6)] routes_kept [OF _ k assms(7)]
    by (simp add: control_inv_def tools_inv_def)
qed

text \<open>Disabling writes to both sides; its frame is that of the sweep it ends with.\<close>

lemma disable_step:
  assumes "disable a d = Inr ((g, n), d')" "control_inv d" "db_inv d"
  shows "control_inv d'" "kept d d'" "db_inv d'" "db_step_ok d d'"
proof -
  have reg: "registry_inv d" using assms(2) by (simp add: control_inv_def)
  obtain g0 where g0: "get_agent d a = Some g0"
    using assms(1) filter_agent [OF reg, of a "\<lambda>_. True"]
    by (cases "get_agent d a") (auto simp: disable_def set_agent_status_def update_agents_def sql_returning_def
        first_row_def unknown_def api_def)
  have r: "db_inv d'" "registry_inv d'" "db_step_ok d d'"
    using disable_result [OF assms(3) reg g0] assms(1) by auto
  then show "db_inv d'" "db_step_ok d d'" by simp_all
  define d1 where "d1 = d\<lparr>agents := sql_update (\<lambda>x. ag_id x = a)
      (assign_agent [SET_agent_status AGENT_DISABLED, SET_agent_updated_at (now d)]) (agents d)\<rparr>"
  define vs where "vs = map av_id (list_versions d1 a)"
  define d2 where "d2 = d1\<lparr>agent_versions := disable_versions vs (agent_versions d1)\<rparr>"
  have "\<exists>why n. cancel_agent_tasks vs why d2 = Inr (n, d')"
    using assms(1) unfolding disable_def set_agent_status_eq [OF reg g0] d1_def [symmetric]
    by (auto simp: disable_each vs_def d2_def Let_def elim!: uncaught_InrE)
  then have c: "control d' = control d2" using cancel_agent_tasks_control by blast
  note same = controlD [OF c]
  have rows: "agents d' = sql_update (\<lambda>x. ag_id x = a)
      (assign_agent [SET_agent_status AGENT_DISABLED, SET_agent_updated_at (now d)]) (agents d)"
    "agent_versions d' = sql_update (\<lambda>v. av_id v \<in> set vs) (set_status VERSION_DISABLED) (agent_versions d)"
    "tools d' = tools d" "agent_version_tool_grants d' = agent_version_tool_grants d"
    "agent_routes d' = agent_routes d" "tenants d' = tenants d"
    by (simp_all add: same d2_def d1_def disable_versions_def)
  show "control_inv d'" "kept d d'" by (rule restatus_step [OF assms(2) r(2) rows])+
qed

lemma activate_step:
  assumes "activate a v e req d = Inr (g, d')" "control_inv d"
  shows "control_step d d'"
proof -
  have reg: "registry_inv d" using assms(2) by (simp add: control_inv_def)
  obtain res where r: "activate_version a v e req d = Inr (res, d')" "act_applied res"
    using assms(1) by (auto simp: activate_def api_def elim!: uncaught_InrE split: if_splits)
  obtain w where w: "get_version d v = Some w" "av_agent_id w = a" "av_status w \<noteq> VERSION_DISABLED"
    using r by (auto simp: activate_version_def not_activated_def split: option.splits if_splits)
  have "a \<in> ag_id ` set (agents d)"
    using reg w(1,2) find_by_SomeD [of av_id v "agent_versions d" w] by (auto simp: registry_inv_def get_version_def)
  then obtain g0 where g0: "get_agent d a = Some g0"
    by (cases "get_agent d a") (auto simp: get_agent_def find_by_None_iff)
  define q :: "agent \<Rightarrow> bool" where "q = (\<lambda>g. req \<longrightarrow> default_version_id g = e)"
  have d': "d' = activated_db a v q d"
    using activate_version_eq [OF reg g0 w, of e req] r by (auto simp: not_activated_def q_def split: if_splits)
  have "registry_inv d'" unfolding d' by (rule activated_db_inv [OF reg w(1,2)])
  moreover have "work d' = work d" by (simp add: d' activated_db_def work_def)
  ultimately show ?thesis
    using restatus_step [OF assms(2), of d' "\<lambda>g. ag_id g = a \<and> q g"
        "[SET_default_version_id (Some v), SET_agent_updated_at (now d)]" "\<lambda>w. av_id w = v" VERSION_ACTIVE]
    by (simp add: control_step_def d' activated_db_def)
qed

lemma set_route_step:
  assumes "set_route_request tn rt a d = Inr (u, d')" "control_inv d"
  shows "control_step d d'"
proof -
  obtain g where g: "get_agent d a = Some g" "ag_tenant_id g = tn" "set_route tn rt a d = Inr d'"
    using assms(1) by (auto simp: set_route_request_def unknown_def api_def elim!: uncaught_InrE
        split: option.splits if_splits)
  obtain rs where d': "d' = d\<lparr>agent_routes := rs\<rparr>"
    and rs: "\<And>r. r \<in> set rs \<Longrightarrow> r \<in> set (agent_routes d) \<or> rt_agent_id r = a \<and> rt_tenant_id r = tn"
  proof (cases "list_ex (\<lambda>r. rt_tenant_id r = tn \<and> rt_request_type r = rt) (agent_routes d)")
    case True
    then have "d' = d\<lparr>agent_routes := sql_update (\<lambda>r. rt_tenant_id r = tn \<and> rt_request_type r = rt)
        (\<lambda>r. r\<lparr>rt_agent_id := a\<rparr>) (agent_routes d)\<rparr>"
      using g(3) by (simp add: set_route_def split: if_splits)
    then show thesis by (rule that) (auto simp: set_sql_update)
  next
    case False
    then have "d' = d\<lparr>agent_routes := agent_routes d @
        [\<lparr>rt_tenant_id = tn, rt_request_type = rt, rt_agent_id = a, rt_created_at = now d\<rparr>]\<rparr>"
      using g(3) by (simp add: set_route_def split: if_splits)
    then show thesis by (rule that) auto
  qed
  have "\<exists>x. get_agent d (rt_agent_id r) = Some x \<and> ag_tenant_id x = rt_tenant_id r" if "r \<in> set rs" for r
    using rs [OF that] g(1,2) assms(2) by (auto simp: control_inv_def routes_ok_def)
  then have "routes_ok d'" by (simp add: d' routes_ok_def get_agent_def)
  then have "control_inv d'"
    using assms(2)
    by (simp add: d' agents_owned_def control_inv_def registry_inv_def versions_dense_def versions_of_def defaults_ok_def
        get_version_def limits_ok_def tools_inv_def grants_ok_def get_agent_def get_tool_def)
  moreover have "kept d d'" by (auto simp: d' kept_def persists_def get_version_def get_agent_def get_tool_def)
  ultimately show ?thesis by (simp add: control_step_def work_def d')
qed

section \<open>Tools and grants\<close>

lemma record_audit_step: "control_inv d \<Longrightarrow> control_step d (record_audit r d)"
proof -
  assume "control_inv d"
  moreover have "control (record_audit r d) = control d" "work (record_audit r d) = work d"
    by (simp_all add: record_audit_def work_def)
  ultimately show ?thesis
    using kept_control [of "record_audit r d" d] control_inv_control [of "record_audit r d" d]
    by (simp only: control_step_def)
qed

lemma control_step_trans: "control_step d d1 \<Longrightarrow> control_step d1 d2 \<Longrightarrow> control_step d d2"
  using kept_trans by (auto simp: control_step_def)

lemma create_tool_step:
  assumes "create_tool i tn nm ty cfg desc d = Inr (t, d')" "control_inv d"
  shows "control_step d d'"
proof -
  have d': "d' = d\<lparr>tools := tools d @ [t]\<rparr>" "i \<notin> tl_id ` set (tools d)" "tl_id t = i" "tl_tenant_id t = tn" "tl_name t = nm"
    "(tn, nm) \<notin> (\<lambda>t. (tl_tenant_id t, tl_name t)) ` set (tools d)"
    using assms(1) by (auto simp: create_tool_def Let_def split: if_splits)
  have "tools_inv d'" using assms(2) d'(2-6) by (simp add: d'(1) control_inv_def tools_inv_def)
  moreover have "kept d d'"
    by (auto simp: d'(1) kept_def persists_def get_version_def get_agent_def get_tool_def find_by_append)
  moreover have "registry_inv d'" using assms(2)
    by (simp add: d'(1) control_inv_def registry_inv_def versions_dense_def versions_of_def defaults_ok_def get_version_def)
  ultimately show ?thesis
    by (intro control_stepI [OF assms(2)]) (use assms(2) in \<open>simp_all add: d'(1) control_inv_def limits_ok_def work_def agents_owned_def\<close>)
qed

lemma set_tool_status_step:
  assumes "control_inv d"
  shows "control_step d (snd (set_tool_status i st d))"
proof -
  let ?d = "snd (set_tool_status i st d)"
  have d': "?d = d\<lparr>tools := sql_update (\<lambda>t. tl_id t = i) (assign_tool st) (tools d)\<rparr>" by (simp add: set_tool_status_def)
  have "tl_tenant_id (assign_tool st t) = tl_tenant_id t" for t by (simp add: assign_tool_def)
  then have "kept d ?d"
    by (auto simp: d' kept_def persists_def get_version_def get_agent_def get_tool_def tool_rows.find_update)
  moreover have "tools_inv ?d" using assms tools_inv_status by (simp add: control_inv_def)
  moreover have "registry_inv ?d" using assms
    by (simp add: d' control_inv_def registry_inv_def versions_dense_def versions_of_def defaults_ok_def get_version_def)
  ultimately show ?thesis
    by (intro control_stepI [OF assms]) (use assms in \<open>simp_all add: d' control_inv_def limits_ok_def work_def agents_owned_def\<close>)
qed

lemma switch_tool_step:
  assumes "switch_tool st action i d = Inr (t, d')" "control_inv d"
  shows "control_step d d'"
proof -
  obtain r where "d' = record_audit r (snd (set_tool_status i st d))"
    using assms(1) by (cases "set_tool_status i st d") (auto simp: switch_tool_def unknown_def api_def split: option.splits)
  then show ?thesis
    using control_step_trans [OF set_tool_status_step record_audit_step] set_tool_status_step [OF assms(2)] assms(2)
    by (auto simp: control_step_def)
qed

lemma grant_tables:
  assumes "grant v i d = Inr (u, d') \<or> revoke v i d = Inr (u, d')"
  shows "registry_inv d' = registry_inv d" "limits_ok d' = limits_ok d" "tools_inv d' = tools_inv d"
    "routes_ok d' = routes_ok d" "kept d d'" "work d' = work d" "agents_owned d' = agents_owned d"
proof -
  obtain gs r where d': "d' = record_audit r (d\<lparr>agent_version_tool_grants := gs\<rparr>)"
    using assms
  proof
    assume "grant v i d = Inr (u, d')"
    then obtain t d1 where g: "grant_tool v i d = Inr d1"
      "d' = record_audit (control_audit (tl_tenant_id t) ''TOOL_GRANTED'' ''agent_version'' v (grant_data t)) d1"
      by (rule grant_Inr)
    have "\<exists>gs. d1 = d\<lparr>agent_version_tool_grants := gs\<rparr>"
    proof (cases "list_ex (is_grant v i) (agent_version_tool_grants d)")
      case True
      then show ?thesis using g(1) by (intro exI [of _ "agent_version_tool_grants d"]) (simp add: grant_tool_def)
    next
      case False
      then show ?thesis using g(1) unfolding grant_tool_def by (auto split: if_splits)
    qed
    then show thesis using g(2) that by blast
  next
    assume "revoke v i d = Inr (u, d')"
    then obtain t where "d' = record_audit (control_audit (tl_tenant_id t) ''TOOL_GRANT_REVOKED'' ''agent_version'' v
        (grant_data t)) (snd (revoke_grant v i d))" by (rule revoke_Inr)
    then show thesis using that by (simp add: revoke_grant_def)
  qed
  have tabs: "agents d' = agents d" "agent_versions d' = agent_versions d" "agent_routes d' = agent_routes d"
    "tools d' = tools d" "tenants d' = tenants d" "work d' = work d"
    by (simp_all add: d' record_audit_def work_def)
  have get: "get_version d' = get_version d" "get_agent d' = get_agent d" "get_tool d' = get_tool d"
    by (simp_all add: fun_eq_iff get_version_def get_agent_def get_tool_def tabs)
  show "registry_inv d' = registry_inv d" "limits_ok d' = limits_ok d" "tools_inv d' = tools_inv d"
    "routes_ok d' = routes_ok d" "kept d d'" "work d' = work d" "agents_owned d' = agents_owned d"
    using tabs by (simp_all add: registry_inv_def versions_dense_def versions_of_def defaults_ok_def limits_ok_def
        tools_inv_def routes_ok_def kept_def persists_def get agents_owned_def)
qed

lemma grant_step:
  assumes "grant v i d = Inr (u, d') \<or> revoke v i d = Inr (u, d')" "control_inv d"
  shows "control_step d d'"
proof -
  have "grants_ok d" using assms(2) by (simp add: control_inv_def)
  then have "grants_ok d'" using grants_result [OF _ assms(1)] by blast
  then show ?thesis using grant_tables [OF assms(1)] assms(2) by (simp add: control_step_def control_inv_def)
qed

end
