(* ===== verification/System.thy ===== *)
theory System
  imports ControlInv
begin

text \<open>
  The platform as one state machine: every transaction that the API, a worker or the reaper can
  commit is a step, in any order, with any arguments, interleaved with the clock and with
  submissions that are between their reads and their insert. What holds in every reachable state,
  and between a state and any later one, holds whatever the processes do.
\<close>

section \<open>Steps\<close>

text \<open>
  One committed transaction. A claim presupposes that the worker has registered; everything else
  is called with arbitrary arguments, so a worker may present any token for any task. A claim locks
  its candidates in its first statement and may then wait for the lock of a tenant while others
  commit; what it grants in the end was chosen, and counted, on an older state, of which all that
  is left is that the rows it holds locked are still queued (\<open>c_claim_late\<close>). The relation may have
  more steps than the code, never fewer: it carries what holds of every step; what
  says that a state can be reached names the transactions that lead to it.
\<close>

inductive commit :: "db \<Rightarrow> db \<Rightarrow> bool" where
  c_tick: "now d \<le> t \<Longrightarrow> commit d (d\<lparr>now := t\<rparr>)"
| c_register: "register_worker w h p c cs d = Inr (x, d') \<Longrightarrow> commit d d'"
| c_heartbeat: "commit d (snd (heartbeat w d))"
| c_status: "commit d (set_worker_status w st d)"
| c_claim: "find_worker d w \<noteq> None \<Longrightarrow> claim_tasks w limit ttl policy caps locked d = Inr (rows, d') \<Longrightarrow> commit d d'"
| c_claim_late: "find_worker d w \<noteq> None \<Longrightarrow> claimable d ids \<Longrightarrow> grant_leases ids w ttl d = Inr (rows, d') \<Longrightarrow> commit d d'"
| c_renew: "renew_lease i w a ttl d = Inr (res, d') \<Longrightarrow> commit d d'"
| c_complete: "complete k i a w d = Inr (r, d') \<Longrightarrow> commit d d'"
| c_event: "record_event i et att w data d = Inr d' \<Longrightarrow> commit d d'"
| c_audit: "commit d (record_audit ar d)"
| c_mark_dead: "commit d (snd (mark_dead_workers n d))"
| c_reap_expired: "reap_expired_leases limit' locked d = Inr (rr, d') \<Longrightarrow> commit d d'"
| c_reap_hung: "reap_hung_tasks limit' locked d = Inr (rr, d') \<Longrightarrow> commit d d'"
| c_cancel: "cancel i d = Inr (co, d') \<Longrightarrow> commit d d'"
| c_create_tenant: "create_tenant_request i tb d = Inr (tn, d') \<Longrightarrow> commit d d'"
| c_create_agent: "create_agent_request i ti nm desc d = Inr (ag, d') \<Longrightarrow> commit d d'"
| c_create_version: "create_version_request i a' req d = Inr (v, d') \<Longrightarrow> commit d d'"
| c_activate: "activate a' vi e re d = Inr (ao, d') \<Longrightarrow> commit d d'"
| c_disable: "disable a' d = Inr (gn, d') \<Longrightarrow> commit d d'"
| c_set_route: "set_route_request ti rt a' d = Inr (u, d') \<Longrightarrow> commit d d'"
| c_create_tool: "create_tool_request i ti nm ty cfg desc d = Inr (tool1, d') \<Longrightarrow> commit d d'"
| c_disable_tool: "disable_tool i d = Inr (tool1, d') \<Longrightarrow> commit d d'"
| c_enable_tool: "enable_tool i d = Inr (tool1, d') \<Longrightarrow> commit d d'"
| c_grant: "grant vi i d = Inr (u, d') \<Longrightarrow> commit d d'"
| c_revoke: "revoke vi i d = Inr (u, d') \<Longrightarrow> commit d d'"

text \<open>
  A submission resolves its route in one statement and inserts in a later one; in between it is in
  flight. Admission is not required here: it only narrows which submissions go on.
\<close>

record system =
  sys_db :: db
  in_flight :: "submission list"

inductive sys_step :: "system \<Rightarrow> system \<Rightarrow> bool" where
  s_commit: "commit (sys_db S) d' \<Longrightarrow> sys_step S (S\<lparr>sys_db := d'\<rparr>)"
| s_resolve: "task_create_valid jb b \<Longrightarrow> get_tenant (sys_db S) (b_tenant_id b) \<noteq> None \<Longrightarrow>
    resolve_submission b (sys_db S) = Inr p \<Longrightarrow> submission_of env b p = Inr s \<Longrightarrow>
    sys_step S (S\<lparr>in_flight := s # in_flight S\<rparr>)"
| s_insert: "s \<in> set (in_flight S) \<Longrightarrow> submit_task i s (sys_db S) = Inr (r, d') \<Longrightarrow>
    sys_step S (S\<lparr>sys_db := d', in_flight := remove1 s (in_flight S)\<rparr>)"
| s_drop: "sys_step S (S\<lparr>in_flight := remove1 s (in_flight S)\<rparr>)"

inductive_cases sys_stepE: "sys_step S S'"

definition start :: "time \<Rightarrow> system" where
  "start t = \<lparr>sys_db = empty_db t, in_flight = []\<rparr>"

definition reachable :: "system \<Rightarrow> bool" where
  "reachable S \<longleftrightarrow> (\<exists>t. sys_step\<^sup>*\<^sup>* (start t) S)"

section \<open>The invariant\<close>

text \<open>A pinned version exists and its agent belongs to the tenant.\<close>

definition owned_version :: "db \<Rightarrow> uuid \<Rightarrow> uuid option \<Rightarrow> bool" where
  "owned_version d tn vo \<longleftrightarrow> (\<forall>v. vo = Some v \<longrightarrow> (\<exists>x a. get_version d v = Some x
     \<and> get_agent d (av_agent_id x) = Some a \<and> ag_tenant_id a = tn))"

definition pins_ok :: "db \<Rightarrow> bool" where
  "pins_ok d \<longleftrightarrow> (\<forall>t \<in> set (tasks d). owned_version d (t_tenant_id t) (t_agent_version_id t))"

definition flight_ok :: "db \<Rightarrow> submission \<Rightarrow> bool" where
  "flight_ok d s \<longleftrightarrow> submission_ok s \<and> s_tenant_id s \<in> tn_id ` set (tenants d)
     \<and> owned_version d (s_tenant_id s) (s_agent_version_id s)"

definition sys_inv :: "system \<Rightarrow> bool" where
  "sys_inv S \<longleftrightarrow> db_inv (sys_db S) \<and> control_inv (sys_db S) \<and> pins_ok (sys_db S)
     \<and> (\<forall>s \<in> set (in_flight S). flight_ok (sys_db S) s)"

lemma owned_version_kept:
  assumes "owned_version d tn vo" "kept d d'"
  shows "owned_version d' tn vo"
  unfolding owned_version_def
proof (intro allI impI)
  fix v assume "vo = Some v"
  then obtain x a where f: "get_version d v = Some x" "get_agent d (av_agent_id x) = Some a" "ag_tenant_id a = tn"
    using assms(1) by (auto simp: owned_version_def)
  obtain x' where x': "get_version d' v = Some x'" "av_agent_id x' = av_agent_id x"
    using kept_version_agent [OF assms(2) f(1)] by blast
  obtain a' where a': "get_agent d' (av_agent_id x) = Some a'" "ag_tenant_id a' = ag_tenant_id a"
    using keptD(2) [OF assms(2) f(2)] by blast
  show "\<exists>x a. get_version d' v = Some x \<and> get_agent d' (av_agent_id x) = Some a \<and> ag_tenant_id a = tn"
    using x' a' f(3) by (intro exI [of _ x'] exI [of _ a']) simp
qed

lemma flight_ok_kept: "flight_ok d s \<Longrightarrow> kept d d' \<Longrightarrow> flight_ok d' s"
  unfolding flight_ok_def by (blast intro: owned_version_kept keptD(4))

section \<open>Every transaction keeps it\<close>

text \<open>What a transaction other than a submission does to the database.\<close>

definition good_step :: "db \<Rightarrow> db \<Rightarrow> bool" where
  "good_step d d' \<longleftrightarrow> db_inv d' \<and> control_inv d' \<and> kept d d' \<and> db_step_ok d d'
     \<and> map t_id (tasks d') = map t_id (tasks d)"

lemma good_work:
  assumes "db_inv d'" "db_step_ok d d'" "control d' = control d" "map t_id (tasks d') = map t_id (tasks d)" "control_inv d"
  shows "good_step d d'"
  using assms(1,2,4,5) kept_control [OF assms(3)] control_inv_control [OF assms(3)] by (simp add: good_step_def)

lemma good_same_tasks:
  assumes "db_inv d'" "tasks d' = tasks d" "control d' = control d" "control_inv d"
  shows "good_step d d'"
  by (rule good_work [OF assms(1) db_step_ok_same [OF assms(2)] assms(3) _ assms(4)]) (simp add: assms(2))

lemma good_control:
  assumes "control_step d d'" "db_inv d"
  shows "good_step d d'"
proof -
  have w: "work d' = work d" and k: "control_inv d'" "kept d d'"
    using assms(1) by (simp_all add: control_step_def)
  then show ?thesis
    using db_inv_work [OF w assms(2)] workD(3) [OF w] db_step_ok_same [of d' d] by (simp add: good_step_def)
qed

lemma create_tenant_good:
  assumes "create_tenant i nm mc mq d = Inr (tn, d')" "db_inv d" "control_inv d"
  shows "good_step d d'"
proof -
  have d': "d' = d\<lparr>tenants := tenants d @ [tn]\<rparr>" "i \<notin> tn_id ` set (tenants d)" "tn_id tn = i"
    using assms(1) by (auto simp: create_tenant_def Let_def split: if_splits)
  have "db_inv d'"
    using assms(2) d'(2,3) by (auto simp: d'(1) db_inv_def ids_distinct_def tasks_ok_def task_ok_def attempts_of_def
        keys_unique_def tenant_refs_def attempt_refs_def event_refs_def)
  moreover have "tasks d' = tasks d" by (simp add: d'(1))
  ultimately show ?thesis
    using create_tenant_step [OF assms(1,3)] db_step_ok_same [of d' d] by (simp add: good_step_def)
qed

text \<open>The handlers, as the queries they wrap.\<close>

lemma on_integrity_Inr: "on_integrity e m = Inr x \<longleftrightarrow> m = Inr x"
  by (cases "(e, m)" rule: on_integrity.cases) auto

lemma handler_Inr:
  "create_tenant_request i tb d = Inr (tn, d') \<Longrightarrow>
     create_tenant i (tc_name tb) (tc_max_concurrent_tasks tb) (tc_max_queued_tasks tb) d = Inr (tn, d')"
  "create_agent_request i ti nm desc d = Inr (ag, d') \<Longrightarrow> create_agent i ti nm desc d = Inr (ag, d')"
  "create_version_request i a req d = Inr (v, d') \<Longrightarrow> create_version i a (req\<lparr>vr_status := VERSION_DRAFT\<rparr>) d = Inr (v, d')"
  "create_tool_request i ti nm ty cfg desc d = Inr (tool1, d') \<Longrightarrow> create_tool i ti nm ty cfg desc d = Inr (tool1, d')"
  by (auto simp: create_tenant_request_def create_agent_request_def create_version_request_def
      create_tool_request_def on_integrity_Inr unknown_def api_def split: if_splits sum.splits exn.splits)

lemma cancel_Inr: "cancel i d = Inr (x, d') \<Longrightarrow> \<exists>r. cancel_task i d = Inr (r, d')"
  by (auto simp: cancel_def unknown_def api_def elim!: uncaught_InrE split: if_splits option.splits)

lemma disable_ids:
  assumes "disable a d = Inr ((g, n), d')"
  shows "map t_id (tasks d') = map t_id (tasks d)"
proof -
  obtain d1 d2 vs why m where d: "set_agent_status a AGENT_DISABLED d = (Some g, d1)"
    "foldE (\<lambda>v x. bindE (set_version_status (av_id v) VERSION_DISABLED x) (\<lambda>(_, y). Inr y)) (list_versions d1 a) d1 = Inr d2"
    "cancel_agent_tasks vs why d2 = Inr (m, d')"
    using assms by (auto simp: disable_def Let_def unknown_def api_def elim!: uncaught_InrE split: prod.splits option.splits)
  have "tasks d2 = tasks d1" using d(2) by (auto simp: disable_each)
  moreover have "tasks d1 = tasks d" using d(1) by (auto simp: set_agent_status_def update_agents_def)
  ultimately show ?thesis using ids.cancel_agent_tasks_view [OF d(3)] by simp
qed

text \<open>One lemma per kind of transaction, gathered by the rule induction below.\<close>

lemma commit_good:
  assumes "commit d d'" "db_inv d" "control_inv d"
  shows "good_step d d'"
  using assms
proof (induction rule: commit.induct)
  case (c_tick d t)
  have "db_inv (d\<lparr>now := t\<rparr>)"
    by (rule db_inv_frame [OF c_tick(2)]) (use c_tick(2) in \<open>auto simp: db_inv_def event_refs_def\<close>)
  then show ?case using c_tick(3) by (intro good_same_tasks) simp_all
next
  case (c_register w h p c cs d x d')
  then show ?case
    using register_worker_inv [OF c_register(2,1)] ctl.register_worker_view [OF c_register(1)] by (intro good_same_tasks)
next
  case (c_heartbeat d w)
  then show ?case
    by (intro good_same_tasks heartbeat_inv ctl.worker_view) (simp_all add: heartbeat_def Let_def)
next
  case (c_status d w st)
  then show ?case
    by (intro good_same_tasks set_worker_status_inv ctl.worker_view) (simp_all add: set_worker_status_def)
next
  case (c_mark_dead d n)
  then show ?case
    by (intro good_same_tasks mark_dead_workers_inv ctl.worker_view) (simp_all add: mark_dead_workers_def Let_def)
next
  case (c_claim d w limit ttl policy caps locked rows d')
  then show ?case
    using claim_tasks_ok [OF c_claim(3,1,2)] ctl.claim_tasks_view [OF c_claim(2)] ids.claim_tasks_view [OF c_claim(2)]
    by (intro good_work) simp_all
next
  case (c_claim_late d w ids' ttl rows d')
  then show ?case
    using grant_leases_ok [OF c_claim_late(4,1-3)] ctl.grant_leases_view [OF c_claim_late(3)]
      ids.grant_leases_view [OF c_claim_late(3)]
    by (intro good_work) simp_all
next
  case (c_renew i w a ttl d res d')
  have "db_inv d' \<and> db_step_ok d d'"
    using renew_lease_eq [OF c_renew(2), of i w a ttl] c_renew(1,2) after_renewal_ok [OF c_renew(2)]
    by (auto split: option.splits if_splits)
  then show ?case
    using ctl.renew_lease_view [OF c_renew(1)] ids.renew_lease_view [OF c_renew(1)] c_renew(3)
    by (intro good_work) simp_all
next
  case (c_complete k i a w d r d')
  then show ?case
    using complete_total [OF c_complete(2), of k i a w] ctl.complete_view [OF c_complete(1)]
      ids.complete_view [OF c_complete(1)]
    by (intro good_work) auto
next
  case (c_event i et att w data d d')
  then have i: "insert_event i et att w data d = Inr d'" by (simp add: record_event_def)
  show ?case
    by (rule good_same_tasks [OF db_inv_event [OF c_event(2) i] _ ctl.insert_event_view [OF i] c_event(3)])
       (use insert_event_frame [OF i] in simp)
next
  case (c_audit d ar)
  then show ?case by (intro good_control record_audit_step)
next
  case (c_reap_expired limit' locked d rr d')
  then show ?case
    using reap_expired_ok [OF c_reap_expired(2), of limit' locked] ctl.reap_pass_view(1) [OF c_reap_expired(1)]
      ids.reap_pass_view(1) [OF c_reap_expired(1)]
    by (intro good_work) auto
next
  case (c_reap_hung limit' locked d rr d')
  then show ?case
    using reap_hung_ok [OF c_reap_hung(2), of limit' locked] ctl.reap_pass_view(2) [OF c_reap_hung(1)]
      ids.reap_pass_view(2) [OF c_reap_hung(1)]
    by (intro good_work) auto
next
  case (c_cancel i d co d')
  then obtain r where r: "cancel_task i d = Inr (r, d')" using cancel_Inr by blast
  show ?case
    using cancel_task_result [OF c_cancel(2), of i] r ctl.cancel_task_view [OF r] ids.cancel_task_view [OF r] c_cancel(3)
    by (intro good_work) auto
next
  case (c_create_tenant i tb d tn d')
  then show ?case by (intro create_tenant_good [OF handler_Inr(1)])
next
  case (c_create_agent i ti nm desc d ag d')
  then show ?case by (intro good_control create_agent_step [OF handler_Inr(2)])
next
  case (c_create_version i a' req d v d')
  then show ?case by (intro good_control create_version_step [OF handler_Inr(3)])
next
  case (c_activate a' vi e re d ao d')
  then show ?case by (intro good_control activate_step)
next
  case (c_disable a' d gn d')
  obtain g n where gn: "gn = (g, n)" by (cases gn)
  note ds = disable_step [OF c_disable(1) [unfolded gn] c_disable(3,2)]
  show ?case using ds disable_ids [OF c_disable(1) [unfolded gn]] by (simp add: good_step_def)
next
  case (c_set_route ti rt a' d u d')
  then show ?case by (intro good_control set_route_step)
next
  case (c_create_tool i ti nm ty cfg desc d tool1 d')
  then show ?case by (intro good_control create_tool_step [OF handler_Inr(4)])
next
  case (c_disable_tool i d tool1 d')
  then show ?case unfolding disable_tool_def by (intro good_control switch_tool_step)
next
  case (c_enable_tool i d tool1 d')
  then show ?case unfolding enable_tool_def by (intro good_control switch_tool_step)
next
  case (c_grant vi i d u d')
  then show ?case by (intro good_control grant_step [of vi i d u d']) simp_all
next
  case (c_revoke vi i d u d')
  then show ?case by (intro good_control grant_step [of vi i d u d']) simp_all
qed

section \<open>What stays true between a state and any later one\<close>

text \<open>Attempt \<open>a\<close> of the task is over: a later one has begun, or this one no longer runs.\<close>

definition past :: "int \<Rightarrow> task \<Rightarrow> bool" where
  "past a t \<longleftrightarrow> a < t_attempt t \<or> a = t_attempt t \<and> t_state t \<noteq> RUNNING \<and> 1 \<le> a"

definition row_after :: "task \<Rightarrow> task \<Rightarrow> bool" where
  "row_after t t' \<longleftrightarrow> pinned t' = pinned t \<and> t_attempt t \<le> t_attempt t'
     \<and> (is_terminal (t_state t) \<longrightarrow> t' = t) \<and> (cancel_requested t \<longrightarrow> cancel_requested t')
     \<and> (first_started_at t \<noteq> None \<longrightarrow> first_started_at t' = first_started_at t)
     \<and> (\<forall>a. past a t \<longrightarrow> past a t')
     \<and> (t_state t = RUNNING \<and> t_state t' = RUNNING \<and> t_attempt t' = t_attempt t \<longrightarrow>
          lease_worker_id t' = lease_worker_id t)"

lemma row_step_after: "row_step t t' \<Longrightarrow> row_after t t'"
  by (cases "t_state t"; cases "t_state t'") (auto simp: row_step_def row_after_def past_def)

lemma row_after_refl [simp]: "row_after t t"
  by (simp add: row_after_def)

lemma row_after_trans:
  assumes "row_after t u" "row_after u v" "t_state t = RUNNING \<Longrightarrow> 1 \<le> t_attempt t"
  shows "row_after t v"
proof -
  have "lease_worker_id v = lease_worker_id t"
    if "t_state t = RUNNING" "t_state v = RUNNING" "t_attempt v = t_attempt t"
  proof -
    have "t_attempt u = t_attempt t" using assms(1,2) that by (auto simp: row_after_def)
    moreover have "\<not> past (t_attempt u) v" using that calculation by (simp add: past_def)
    then have "\<not> past (t_attempt u) u" using assms(2) by (auto simp: row_after_def)
    then have "t_state u = RUNNING" using assms(3) that calculation by (auto simp: past_def)
    ultimately show ?thesis using assms(1,2) that by (simp add: row_after_def)
  qed
  then show ?thesis using assms(1,2) unfolding row_after_def by auto
qed

definition history :: "db \<Rightarrow> db \<Rightarrow> bool" where
  "history d d' \<longleftrightarrow> db_inv d \<and> kept d d'
     \<and> (\<forall>i t. find_task d i = Some t \<longrightarrow> (\<exists>t'. find_task d' i = Some t' \<and> row_after t t'))"

lemma history_refl: "db_inv d \<Longrightarrow> history d d"
  by (simp add: history_def)

lemma historyD: "history d d' \<Longrightarrow> find_task d i = Some t \<Longrightarrow> \<exists>t'. find_task d' i = Some t' \<and> row_after t t'"
  by (simp add: history_def)

lemma history_trans:
  assumes "history d d1" "history d1 d2"
  shows "history d d2"
proof -
  have "\<exists>t'. find_task d2 i = Some t' \<and> row_after t t'" if t: "find_task d i = Some t" for i t
  proof -
    obtain u where u: "find_task d1 i = Some u" "row_after t u" using historyD [OF assms(1) t] by blast
    obtain v where v: "find_task d2 i = Some v" "row_after u v" using historyD [OF assms(2) u(1)] by blast
    have "row_wf t" using db_inv_task(1) [OF _ t] assms(1) by (simp add: history_def)
    then have "t_state t = RUNNING \<Longrightarrow> 1 \<le> t_attempt t" by (simp add: row_wf_def)
    then show ?thesis using row_after_trans [OF u(2) v(2)] v(1) by blast
  qed
  then show ?thesis using assms kept_trans by (auto simp: history_def)
qed

lemma history_step: "db_inv d \<Longrightarrow> kept d d' \<Longrightarrow> db_step_ok d d' \<Longrightarrow> history d d'"
  unfolding history_def db_step_ok_def using row_step_after by blast

section \<open>The state machine\<close>

text \<open>
  A machine whose steps keep an invariant and only move up in an order: then so do its runs.
\<close>

locale evolving =
  fixes step :: "'s \<Rightarrow> 's \<Rightarrow> bool" and inv :: "'s \<Rightarrow> bool" and below :: "'s \<Rightarrow> 's \<Rightarrow> bool"
  assumes keeps: "inv s \<Longrightarrow> step s s' \<Longrightarrow> inv s'"
    and moves: "inv s \<Longrightarrow> step s s' \<Longrightarrow> below s s'"
    and same: "inv s \<Longrightarrow> below s s"
    and chain: "below s s1 \<Longrightarrow> below s1 s2 \<Longrightarrow> below s s2"
begin

lemma run: "step\<^sup>*\<^sup>* s s' \<Longrightarrow> inv s \<Longrightarrow> inv s' \<and> below s s'"
proof (induction rule: rtranclp_induct)
  case base
  then show ?case using same by blast
next
  case (step u v)
  then show ?case using keeps moves chain by blast
qed

end

lemma pins_ok_same:
  assumes "pins_ok d" "kept d d'" "db_step_ok d d'" "map t_id (tasks d') = map t_id (tasks d)" "db_inv d" "db_inv d'"
  shows "pins_ok d'"
  unfolding pins_ok_def
proof
  fix t' assume t': "t' \<in> set (tasks d')"
  then have f': "find_task d' (t_id t') = Some t'"
    using find_by_unique [of t_id "tasks d'" "t_id t'" t'] db_inv_ids [OF assms(6)]
    by (simp add: find_task_def ids_distinct_def find_by_in_set)
  have "t_id t' \<in> t_id ` set (tasks d)" using t' assms(4) by (metis image_eqI list.set_map)
  then obtain t where t: "find_task d (t_id t') = Some t"
    using find_task_iff [of d "t_id t'"] by (cases "find_task d (t_id t')") auto
  have "row_step t t'" by (rule db_step_okD [OF assms(3) t f'])
  then have "t_tenant_id t' = t_tenant_id t" "t_agent_version_id t' = t_agent_version_id t"
    by (auto simp: row_step_def dest: pinned_columns)
  moreover have "owned_version d (t_tenant_id t) (t_agent_version_id t)"
    using assms(1) find_task_SomeD [OF t] by (simp add: pins_ok_def)
  ultimately show "owned_version d' (t_tenant_id t') (t_agent_version_id t')"
    using owned_version_kept [OF _ assms(2)] by simp
qed

section \<open>Submissions\<close>

lemma submit_cases:
  assumes "submit_task i s d = Inr (r, d')" "submission_ok s" "refs_ok s d"
  shows "d' = d \<or> find_task d i = None \<and> holder s d = None
    \<and> d' = with_task (new_task i s (now d)) (created_data s) d"
proof (cases "holder s d")
  case (Some t)
  then show ?thesis using submit_dup [OF assms(2) Some, of i] assms(1) by (auto split: if_splits)
next
  case None
  have "find_task d i = None"
  proof (rule ccontr)
    assume no: "find_task d i \<noteq> None"
    have v: "task_violation (new_task i s (now d)) = None" using assms(2) by (simp only: new_task_violation)
    have "insert_task (new_task i s (now d)) d = Inl (IntegrityError ''tasks_pkey'')"
      unfolding insert_task_def v using no None holder_None [of s d] by simp
    then show False using assms(1) by (simp add: submit_task_def)
  qed
  then show ?thesis using submit_new [OF assms(2,3) _ None, of i] assms(1) None by simp
qed

lemma flight_refs: "flight_ok d s \<Longrightarrow> refs_ok s d"
proof -
  assume f: "flight_ok d s"
  have "v \<in> av_id ` set (agent_versions d)" if "s_agent_version_id s = Some v" for v
  proof -
    have "\<exists>x. get_version d v = Some x" using f that by (auto simp: flight_ok_def owned_version_def)
    then obtain x where "get_version d v = Some x" by blast
    then have "x \<in> set (agent_versions d)" "av_id x = v"
      using find_by_SomeD [of av_id v "agent_versions d" x] by (simp_all add: get_version_def)
    then show ?thesis by blast
  qed
  then show ?thesis using f by (simp add: refs_ok_def flight_ok_def)
qed

lemma submit_step:
  assumes "submit_task i s d = Inr (r, d')" "flight_ok d s" "db_inv d" "control_inv d" "pins_ok d"
  shows "db_inv d' \<and> control_inv d' \<and> pins_ok d' \<and> kept d d' \<and> db_step_ok d d'"
proof -
  have ok: "submission_ok s" using assms(2) by (simp add: flight_ok_def)
  note refs = flight_refs [OF assms(2)]
  from submit_cases [OF assms(1) ok refs] show ?thesis
  proof
    assume "d' = d"
    then show ?thesis using assms by simp
  next
    assume n: "find_task d i = None \<and> holder s d = None \<and> d' = with_task (new_task i s (now d)) (created_data s) d"
    have "db_inv d' \<and> db_step_ok d d'" using submit_total [OF assms(3) ok refs, of i] n assms(1) by auto
    moreover have c: "control d' = control d" by (rule submit_task_control [OF assms(1)])
    moreover have "pins_ok d'"
    proof -
      have tk: "tasks d' = tasks d @ [new_task i s (now d)]" using n by (simp add: with_task_def)
      have "owned_version d' tn vo" if "owned_version d tn vo" for tn vo
        by (rule owned_version_kept [OF that kept_control [OF c]])
      then show ?thesis using assms(2,5) by (simp add: pins_ok_def tk flight_ok_def)
    qed
    ultimately show ?thesis using kept_control [OF c] control_inv_control [OF c] assms(4) by simp
  qed
qed

text \<open>A route of a tenant resolves to a version of one of the tenant's own agents.\<close>

lemma resolved_owned:
  assumes "control_inv d" "resolve_submission b d = Inr p"
  shows "owned_version d (b_tenant_id b) (pin_version p)"
proof (cases "b_request_type b")
  case None
  then show ?thesis using assms(2) by (auto simp: resolve_submission_def owned_version_def)
next
  case (Some rt)
  obtain r where r: "resolve_route (b_tenant_id b) rt d = Inr r" "pin_version p = Some (rs_version_id r)"
    using assms(2) Some by (auto simp: resolve_submission_def api_def split: sum.splits exn.splits)
  have reg: "registry_inv d" and ro: "routes_ok d" using assms(1) by (simp_all add: control_inv_def)
  obtain rt' a v where f: "rt' \<in> set (agent_routes d)" "rt_tenant_id rt' = b_tenant_id b"
    "get_agent d (rt_agent_id rt') = Some a" "get_version d (rs_version_id r) = Some v"
    "av_agent_id v = rs_agent_id r" "ag_id a = rs_agent_id r"
    using resolve_route_result [OF reg, of "b_tenant_id b" rt] r(1) by blast
  have "ag_id a = rt_agent_id rt'"
    using f(3) find_by_SomeD [of ag_id _ "agents d" a] by (simp add: get_agent_def)
  moreover have "ag_tenant_id a = b_tenant_id b" using ro f(1-3) by (auto simp: routes_ok_def)
  ultimately show ?thesis using r(2) f(3-6) by (auto simp: owned_version_def)
qed

lemma resolve_flight:
  assumes "task_create_valid jb b" "get_tenant d (b_tenant_id b) \<noteq> None" "resolve_submission b d = Inr p"
    "submission_of env b p = Inr s" "control_inv d"
  shows "flight_ok d s"
proof -
  have "registry_inv d" "limits_ok d" using assms(5) by (simp_all add: control_inv_def)
  then have p: "pin_ok b d p" using resolve_submission_cases [of d jb b] assms(1,3) by auto
  have ten: "b_tenant_id b \<in> tn_id ` set (tenants d)"
    using assms(2) by (auto simp: get_tenant_def find_by_None_iff)
  note s = submission_of_Inr [OF assms(4,1) p ten]
  show ?thesis using s ten resolved_owned [OF assms(5,3)] by (simp add: flight_ok_def)
qed

section \<open>The platform keeps its invariant\<close>

lemma sys_step_good:
  assumes "sys_step S S'" "sys_inv S"
  shows "sys_inv S' \<and> history (sys_db S) (sys_db S')"
  using assms
proof (induction rule: sys_step.induct)
  case (s_commit S d')
  then have i: "db_inv (sys_db S)" "control_inv (sys_db S)" by (simp_all add: sys_inv_def)
  have g: "db_inv d'" "control_inv d'" "kept (sys_db S) d'" "db_step_ok (sys_db S) d'"
    "map t_id (tasks d') = map t_id (tasks (sys_db S))"
    using commit_good [OF s_commit(1) i] by (simp_all add: good_step_def)
  have "pins_ok d'" using s_commit(2) by (intro pins_ok_same [OF _ g(3,4,5) i(1) g(1)]) (simp add: sys_inv_def)
  then show ?case
    using g flight_ok_kept [OF _ g(3)] history_step [OF i(1) g(3,4)] s_commit(2) by (simp add: sys_inv_def)
next
  case (s_resolve jb b S p env s)
  then have "flight_ok (sys_db S) s" by (intro resolve_flight) (simp_all add: sys_inv_def)
  then show ?case using s_resolve history_refl by (simp add: sys_inv_def)
next
  case (s_insert s S i r d')
  then have i: "db_inv (sys_db S)" "control_inv (sys_db S)" "pins_ok (sys_db S)" "flight_ok (sys_db S) s"
    by (simp_all add: sys_inv_def)
  note g = submit_step [OF s_insert(2) i(4,1-3)]
  then have k: "kept (sys_db S) d'" by simp
  have "flight_ok d' x" if "x \<in> set (remove1 s (in_flight S))" for x
    using that s_insert(3) flight_ok_kept [OF _ k] set_remove1_subset by (fastforce simp: sys_inv_def)
  then show ?case using g history_step [OF i(1), of d'] by (simp add: sys_inv_def)
next
  case (s_drop S s)
  then show ?case
    using history_refl set_remove1_subset [of s "in_flight S"] by (auto simp: sys_inv_def)
qed

interpretation platform: evolving sys_step sys_inv "\<lambda>S S'. history (sys_db S) (sys_db S')"
proof unfold_locales
  show "sys_inv S \<Longrightarrow> sys_step S S' \<Longrightarrow> sys_inv S'" for S S' using sys_step_good by blast
  show "sys_inv S \<Longrightarrow> sys_step S S' \<Longrightarrow> history (sys_db S) (sys_db S')" for S S' using sys_step_good by blast
  show "sys_inv S \<Longrightarrow> history (sys_db S) (sys_db S)" for S by (simp add: sys_inv_def history_refl)
qed (rule history_trans)

lemma start_inv: "sys_inv (start t)"
  by (simp add: sys_inv_def start_def db_inv_empty control_inv_def agents_owned_def registry_inv_empty limits_ok_def tools_inv_def
      grants_ok_def routes_ok_def pins_ok_def) (simp add: empty_db_def)

lemma reachable_inv: "reachable S \<Longrightarrow> sys_inv S"
  using platform.run [OF _ start_inv] by (auto simp: reachable_def)

lemma later:
  assumes "reachable S" "sys_step\<^sup>*\<^sup>* S S'"
  shows "sys_inv S'" "history (sys_db S) (sys_db S')"
  using platform.run [OF assms(2) reachable_inv [OF assms(1)]] by simp_all

end
