(* ===== verification/LeaseProtocol.thy ===== *)
theory LeaseProtocol
  imports System
begin

text \<open>
  The specification the platform is built to: a task is waiting, held by one worker under a token,
  or over. The abstract protocol has four moves; mutual exclusion is proved of the protocol, and
  every step of the platform is a step of the protocol, so it holds of the platform.
\<close>

section \<open>The protocol\<close>

datatype phase = Waiting | Held string | Over state

type_synonym lease = "phase \<times> int"

inductive lease_move :: "lease \<Rightarrow> lease \<Rightarrow> bool" where
  take_lease: "lease_move (Waiting, n) (Held w, n + 1)"
| give_back: "lease_move (Held w, n) (Waiting, n)"
| finish: "is_terminal s \<Longrightarrow> lease_move (Held w, n) (Over s, n)"
| withdraw: "lease_move (Waiting, n) (Over CANCELLED, n)"

inductive_simps from_waiting [simp]: "lease_move (Waiting, n) x"
inductive_simps from_held [simp]: "lease_move (Held w, n) x"
inductive_simps from_over [simp]: "lease_move (Over s, n) x"

text \<open>All tasks at once: each one moves once or not at all, and a new one starts waiting.\<close>

definition protocol_step :: "(uuid \<Rightarrow> lease option) \<Rightarrow> (uuid \<Rightarrow> lease option) \<Rightarrow> bool" where
  "protocol_step A B \<longleftrightarrow> (\<forall>i. case A i of
       None \<Rightarrow> B i = None \<or> B i = Some (Waiting, 0)
     | Some x \<Rightarrow> (\<exists>y. B i = Some y \<and> lease_move\<^sup>=\<^sup>= x y))"

lemma protocol_stepD:
  assumes "protocol_step A B" "A i = Some x"
  shows "\<exists>y. B i = Some y \<and> lease_move\<^sup>=\<^sup>= x y"
  using assms(1) [unfolded protocol_step_def, rule_format, of i] assms(2) by simp

section \<open>Mutual exclusion in the protocol\<close>

text \<open>A token is used up when its holder has let go of it.\<close>

definition spent :: "int \<Rightarrow> lease \<Rightarrow> bool" where
  "spent a x \<longleftrightarrow> a < snd x \<or> a = snd x \<and> (\<forall>w. fst x \<noteq> Held w) \<and> 1 \<le> a"

lemma spent_move: "lease_move x y \<Longrightarrow> spent a x \<Longrightarrow> spent a y"
  by (cases rule: lease_move.cases) (auto simp: spent_def)

lemma holder_move:
  assumes "lease_move\<^sup>=\<^sup>= x y" "1 \<le> n" "x = (Held w, n) \<or> spent n x"
  shows "y = (Held w, n) \<or> spent n y"
  using assms by (auto simp: spent_def elim: lease_move.cases)

lemma protocol_run:
  assumes "protocol_step\<^sup>*\<^sup>* A B" "A i = Some (Held w, n)" "1 \<le> n"
  shows "\<exists>y. B i = Some y \<and> (y = (Held w, n) \<or> spent n y)"
  using assms(1)
proof (induction rule: rtranclp_induct)
  case base
  then show ?case using assms(2) by simp
next
  case (step B C)
  then obtain y where y: "B i = Some y" "y = (Held w, n) \<or> spent n y" by blast
  obtain z where "C i = Some z" "lease_move\<^sup>=\<^sup>= y z" using protocol_stepD [OF step(2) y(1)] by blast
  then show ?case using holder_move [OF _ assms(3) y(2)] by blast
qed

lemma protocol_exclusive:
  assumes "protocol_step\<^sup>*\<^sup>* A B" "A i = Some (Held w, n)" "B i = Some (Held w', n)" "1 \<le> n"
  shows "w' = w"
  using protocol_run [OF assms(1,2,4)] assms(3) by (auto simp: spent_def)

section \<open>The platform refines it\<close>

definition lease_of :: "task \<Rightarrow> lease" where
  "lease_of t = (case t_state t of
       QUEUED \<Rightarrow> Waiting
     | RUNNING \<Rightarrow> Held (case lease_worker_id t of None \<Rightarrow> [] | Some w \<Rightarrow> w)
     | s \<Rightarrow> Over s, t_attempt t)"

definition leases :: "system \<Rightarrow> uuid \<Rightarrow> lease option" where
  "leases S i = map_option lease_of (find_task (sys_db S) i)"

lemma lease_of_step:
  assumes "row_step t t'"
  shows "lease_move\<^sup>=\<^sup>= (lease_of t) (lease_of t')"
  using assms
  by (cases "t_state t"; cases "t_state t'")
     (auto simp: row_step_def lease_of_def is_legal_def)

lemma leases_known:
  assumes "db_step_ok (sys_db S) (sys_db S')" "leases S i = Some x"
  shows "\<exists>y. leases S' i = Some y \<and> lease_move\<^sup>=\<^sup>= x y"
proof -
  obtain t where t: "find_task (sys_db S) i = Some t" "x = lease_of t" using assms(2) by (auto simp: leases_def)
  obtain t' where t': "find_task (sys_db S') i = Some t'" "row_step t t'"
    using assms(1) t(1) unfolding db_step_ok_def by blast
  then show ?thesis using lease_of_step [OF t'(2)] t(2) by (simp add: leases_def)
qed

lemma step_refines:
  assumes "sys_step S S'" "sys_inv S"
  shows "protocol_step (leases S) (leases S')"
proof -
  have step: "db_step_ok (sys_db S) (sys_db S')
      \<and> (\<forall>i. find_task (sys_db S) i = None \<longrightarrow> leases S' i = None \<or> leases S' i = Some (Waiting, 0))"
    using assms
  proof (induction rule: sys_step.induct)
    case (s_commit S d')
    have g: "db_step_ok (sys_db S) d'" "map t_id (tasks d') = map t_id (tasks (sys_db S))"
      using commit_good [OF s_commit(1)] s_commit(2) by (simp_all add: sys_inv_def good_step_def)
    have "t_id ` set (tasks d') = t_id ` set (tasks (sys_db S))" using g(2) by (metis list.set_map)
    then have "find_task (sys_db S) i = None \<Longrightarrow> find_task d' i = None" for i
      using find_task_iff [of d' i] find_task_iff [of "sys_db S" i] by simp
    then show ?case using g(1) by (simp add: leases_def)
  next
    case (s_insert s S i r d')
    then have i: "db_inv (sys_db S)" "control_inv (sys_db S)" "pins_ok (sys_db S)" "flight_ok (sys_db S) s"
      by (simp_all add: sys_inv_def)
    have ok: "submission_ok s" using i(4) by (simp add: flight_ok_def)
    have g: "db_step_ok (sys_db S) d'" using submit_step [OF s_insert(2) i(4,1-3)] by simp
    have w: "lease_of (new_task i s (now (sys_db S))) = (Waiting, 0)" by (simp add: lease_of_def)
    have "map_option lease_of (find_task d' j) = None \<or> map_option lease_of (find_task d' j) = Some (Waiting, 0)"
      if "find_task (sys_db S) j = None" for j
      using submit_cases [OF s_insert(2) ok flight_refs [OF i(4)]] that w
      by (auto simp: with_task_def find_task_def find_by_append)
    then show ?case using g by (simp add: leases_def)
  qed (simp_all add: leases_def)
  show ?thesis
    unfolding protocol_step_def
  proof
    fix i
    show "case leases S i of None \<Rightarrow> leases S' i = None \<or> leases S' i = Some (Waiting, 0)
        | Some x \<Rightarrow> (\<exists>y. leases S' i = Some y \<and> lease_move\<^sup>=\<^sup>= x y)"
    proof (cases "leases S i")
      case None
      then have "find_task (sys_db S) i = None" by (simp add: leases_def)
      then show ?thesis using step None by simp
    next
      case (Some x)
      then show ?thesis using leases_known [of S S' i x] step by simp
    qed
  qed
qed

lemma run_refines:
  assumes "sys_step\<^sup>*\<^sup>* S S'" "sys_inv S"
  shows "protocol_step\<^sup>*\<^sup>* (leases S) (leases S')"
  using assms(1)
proof (induction rule: rtranclp_induct)
  case base
  then show ?case by simp
next
  case (step U V)
  have "sys_inv U" using platform.run [OF step(1) assms(2)] by simp
  then show ?case using step_refines [OF step(2)] step(3) by (meson rtranclp.rtrancl_into_rtrancl)
qed

end
