(* ===== verification/Guarantees.thy ===== *)
theory Guarantees
  imports LeaseProtocol
begin

text \<open>
  What the platform guarantees in every reachable state and from any reachable state to any later
  one, whatever its processes do, and a concrete run on which each guarantee is applied.
\<close>

section \<open>A run\<close>

text \<open>
  A concrete run: a tenant is created, a task with a single attempt is submitted, a worker registers,
  claims it, hands it back on shutdown, and another worker claims it again.
\<close>

definition outcome_db :: "'e + ('a \<times> db) \<Rightarrow> db" where
  "outcome_db m = (case m of Inl _ \<Rightarrow> empty_db 0 | Inr (_, d) \<Rightarrow> d)"

definition succeeds :: "'e + 'a \<Rightarrow> bool" where
  "succeeds m = (case m of Inl _ \<Rightarrow> False | Inr _ \<Rightarrow> True)"

lemma outcome_Inr: "succeeds m \<Longrightarrow> \<exists>x. m = Inr (x, outcome_db m)"
  by (cases m) (auto simp: outcome_db_def succeeds_def)

definition run_body :: task_create where
  "run_body = \<lparr>b_tenant_id = 1, b_task_type = Some ''demo.agent'', b_request_type = None, b_payload = [],
     b_idempotency_key = None, b_priority = 100, b_max_attempts = 1, b_max_execution_time_s = 300,
     b_available_at = None\<rparr>"

definition run_pin :: pinning where
  "run_pin = \<lparr>pin_task_type = JStr ''demo.agent'', pin_max_attempts = 1, pin_max_execution_time_s = 300,
     pin_version = None, pin_capabilities = []\<rparr>"

definition run_submission :: submission where
  "run_submission = \<lparr>s_tenant_id = 1, s_task_type = ''demo.agent'', s_payload = [], s_idempotency_key = None,
     s_priority = 100, s_max_attempts = 1, s_max_execution_time_s = 300, s_available_at = None,
     s_agent_version_id = None, s_required_capabilities = []\<rparr>"

definition run_claim :: "string \<Rightarrow> db \<Rightarrow> exn + (task list \<times> db)" where
  "run_claim w d = claim_tasks w 1 30 DEFAULT_POLICY [] [] d"

definition run1 :: db where
  "run1 = outcome_db (create_tenant_request 1 \<lparr>tc_name = ''acme'', tc_max_concurrent_tasks = 10,
     tc_max_queued_tasks = 100\<rparr> (empty_db 10))"

definition run2 :: db where
  "run2 = outcome_db (submit_task 7 run_submission run1)"

definition run3 :: db where
  "run3 = outcome_db (register_worker ''w1'' ''h'' 1 2 [] run2)"

definition run4 :: db where
  "run4 = outcome_db (run_claim ''w1'' run3)"

definition run5 :: db where
  "run5 = outcome_db (complete (Abandoned ''worker_shutdown'') 7 1 ''w1'' run4)"

definition run6 :: db where
  "run6 = outcome_db (run_claim ''w1'' run5)"

lemma run_succeeds:
  "succeeds (create_tenant_request 1 \<lparr>tc_name = ''acme'', tc_max_concurrent_tasks = 10,
     tc_max_queued_tasks = 100\<rparr> (empty_db 10))"
  "succeeds (submit_task 7 run_submission run1)"
  "succeeds (register_worker ''w1'' ''h'' 1 2 [] run2)"
  "succeeds (run_claim ''w1'' run3)" "find_worker run3 ''w1'' \<noteq> None"
  "succeeds (complete (Abandoned ''worker_shutdown'') 7 1 ''w1'' run4)"
  "succeeds (run_claim ''w1'' run5)" "find_worker run5 ''w1'' \<noteq> None"
  by code_simp+

lemma run_find:
  "map_option (\<lambda>t. (t_state t, t_attempt t, t_max_attempts t)) (find_task run4 7) = Some (RUNNING, 1, 1)"
  "map_option (\<lambda>t. (t_state t, t_attempt t, t_max_attempts t)) (find_task run6 7) = Some (RUNNING, 2, 1)"
  by code_simp+

lemma commits: "commit d d' \<Longrightarrow> sys_step\<^sup>*\<^sup>* \<lparr>sys_db = d, in_flight = ss\<rparr> \<lparr>sys_db = d', in_flight = ss\<rparr>"
  using s_commit [of "\<lparr>sys_db = d, in_flight = ss\<rparr>" d'] by auto

lemma run_submit:
  assumes "get_tenant d 1 \<noteq> None" "succeeds (submit_task i run_submission d)"
  shows "sys_step\<^sup>*\<^sup>* \<lparr>sys_db = d, in_flight = []\<rparr>
    \<lparr>sys_db = outcome_db (submit_task i run_submission d), in_flight = []\<rparr>"
proof -
  let ?S = "\<lambda>d ss. \<lparr>sys_db = d, in_flight = ss\<rparr>" and ?s = run_submission
  have v: "task_create_valid (\<lambda>_. 2) run_body" by code_simp
  have "resolve_submission run_body d = Inr run_pin"
    by (simp add: resolve_submission_def run_body_def run_pin_def)
  moreover have "submission_of \<lparr>generated_id = i, cached_global_queued = 0, shed_threshold = 0, trace_carrier = None,
      bound_text = (\<lambda>_. None), before_resolve = id, before_insert = id\<rparr> run_body run_pin = Inr ?s"
    by (simp add: submission_of_def task_type_text_def run_body_def run_pin_def run_submission_def)
  moreover have "b_tenant_id run_body = 1" by (simp add: run_body_def)
  ultimately have "sys_step (?S d []) (?S d [?s])" using s_resolve [OF v, of "?S d []"] assms(1) by simp
  moreover have "sys_step (?S d [?s]) (?S (outcome_db (submit_task i ?s d)) [])"
    using outcome_Inr [OF assms(2)] s_insert [of ?s "?S d [?s]" i _ "outcome_db (submit_task i ?s d)"] by auto
  ultimately show ?thesis by (meson converse_rtranclp_into_rtranclp rtranclp.rtrancl_refl)
qed

lemma run_steps:
  "reachable \<lparr>sys_db = run4, in_flight = []\<rparr>"
  "sys_step\<^sup>*\<^sup>* \<lparr>sys_db = run4, in_flight = []\<rparr> \<lparr>sys_db = run6, in_flight = []\<rparr>"
proof -
  let ?S = "\<lambda>d. \<lparr>sys_db = d, in_flight = []\<rparr>"
  have c: "commit (empty_db 10) run1" "commit run2 run3" "commit run4 run5"
    using outcome_Inr [OF run_succeeds(1)] outcome_Inr [OF run_succeeds(3)] outcome_Inr [OF run_succeeds(6)]
    unfolding run1_def [symmetric] run3_def [symmetric] run5_def [symmetric]
    by (blast intro: c_create_tenant c_register c_complete)+
  have cl: "commit run3 run4" "commit run5 run6"
    using outcome_Inr [OF run_succeeds(4)] outcome_Inr [OF run_succeeds(7)]
    unfolding run4_def [symmetric] run6_def [symmetric] unfolding run_claim_def
    by (blast intro: c_claim [OF run_succeeds(5)] c_claim [OF run_succeeds(8)])+
  have "get_tenant run1 1 \<noteq> None" by code_simp
  then have "sys_step\<^sup>*\<^sup>* (?S run1) (?S run2)" using run_submit [OF _ run_succeeds(2)] by (simp add: run2_def)
  moreover have "sys_step\<^sup>*\<^sup>* (start 10) (?S run1)" using commits [OF c(1), of "[]"] by (simp add: start_def)
  ultimately show "reachable (?S run4)"
    using commits [OF c(2)] commits [OF cl(1)] unfolding reachable_def by (meson rtranclp_trans)
  show "sys_step\<^sup>*\<^sup>* (?S run4) (?S run6)"
    using commits [OF c(3)] commits [OF cl(2)] by (meson rtranclp_trans)
qed

section \<open>The guarantees\<close>

text \<open>
  C1. The invariant of the platform. In every reachable state, whatever the API, the workers and the
  reaper have committed in whatever order: the task tables are in order (every constraint and lease
  rule, a gapless history of attempts, unique keys), the registry, the limits, the tools, the grants
  and the routes are in order, every task's pinned version exists and belongs to its own tenant,
  and so does everything a submission in flight refers to.
\<close>

theorem platform_invariant:
  assumes "reachable S"
  shows "db_inv (sys_db S) \<and> control_inv (sys_db S) \<and> pins_ok (sys_db S)
    \<and> (\<forall>s \<in> set (in_flight S). flight_ok (sys_db S) s)"
  using reachable_inv [OF assms] by (simp add: sys_inv_def)

theorem platform_invariant_witness: "db_inv run4 \<and> pins_ok run4"
  using platform_invariant [OF run_steps(1)] by simp

text \<open>
  C3. Success at most once. In every reachable state the attempts of every task are numbered from 1
  without a gap up to its token; exactly one of them is a success if the task has succeeded and none
  otherwise; exactly one is open if it is running and none otherwise, and the worker of the open one
  holds the lease.
\<close>

theorem success_at_most_once:
  assumes "reachable S" "find_task (sys_db S) i = Some t"
  shows "map ta_attempt (attempts_of (sys_db S) i) = [1..t_attempt t]
    \<and> length (filter (\<lambda>r. outcome r = Some OUT_SUCCEEDED) (attempts_of (sys_db S) i)) =
        (if t_state t = SUCCEEDED then 1 else 0)
    \<and> length (filter (\<lambda>r. outcome r = None) (attempts_of (sys_db S) i)) = (if t_state t = RUNNING then 1 else 0)
    \<and> (\<forall>r \<in> set (attempts_of (sys_db S) i). outcome r = None \<longrightarrow> lease_worker_id t = Some (ta_worker_id r))"
proof -
  let ?as = "attempts_of (sys_db S) i"
  have inv: "db_inv (sys_db S)" using reachable_inv [OF assms(1)] by (simp add: sys_inv_def)
  note wf = db_inv_task(1,2) [OF inv assms(2)]
  have num: "map ta_attempt ?as = [1..t_attempt t]" using wf(2) by (simp add: log_ok_def)
  have one: "length (filter (\<lambda>r. ta_attempt r = t_attempt t) ?as) = 1" if "1 \<le> t_attempt t"
  proof -
    have "length (filter (\<lambda>r. ta_attempt r = t_attempt t) ?as) =
        length (filter (\<lambda>a. a = t_attempt t) (map ta_attempt ?as))" by (simp add: filter_map comp_def)
    also have "\<dots> = length (filter (\<lambda>a. a = t_attempt t) [1..t_attempt t - 1 + 1])" by (simp add: num)
    also have "[1..t_attempt t - 1 + 1] = [1..t_attempt t - 1] @ [t_attempt t]"
      using that upto_rec2 [of 1 "t_attempt t"] by simp
    also have "length (filter (\<lambda>a. a = t_attempt t) \<dots>) = 1" by (simp add: filter_empty_conv)
    finally show ?thesis .
  qed
  have count: "length (filter Q ?as) = (if st then 1 else 0)"
    if "\<And>r. r \<in> set ?as \<Longrightarrow> Q r \<longleftrightarrow> st \<and> ta_attempt r = t_attempt t" "st \<Longrightarrow> 1 \<le> t_attempt t" for Q st
  proof -
    have "filter Q ?as = filter (\<lambda>r. st \<and> ta_attempt r = t_attempt t) ?as" using that(1) by (rule filter_cong [OF refl])
    then show ?thesis using one that(2) by (cases st) simp_all
  qed
  have "t_state t \<in> {RUNNING, SUCCEEDED} \<Longrightarrow> 1 \<le> t_attempt t" using wf(1) by (auto simp: row_wf_def)
  then show ?thesis
    using num count [of "\<lambda>r. outcome r = Some OUT_SUCCEEDED" "t_state t = SUCCEEDED"]
      count [of "\<lambda>r. outcome r = None" "t_state t = RUNNING"] wf(2)
    by (simp add: log_ok_def)
qed

theorem success_at_most_once_witness:
  "map ta_attempt (attempts_of run4 7) = [1]"
proof -
  obtain t where "find_task run4 7 = Some t" "t_attempt t = 1" using run_find(1) by auto
  then show ?thesis using success_at_most_once [OF run_steps(1), of 7 t] by simp
qed

text \<open>
  C4. History is final. From a reachable state, whatever is committed next and in whatever order, a
  task is never lost, its submitted columns and its pin never change, its token never goes down, a
  request to cancel is never withdrawn, a finished task is never touched again, and the content of
  every version stays what it was.
\<close>

theorem history_is_final:
  assumes "reachable S" "sys_step\<^sup>*\<^sup>* S S'" "find_task (sys_db S) i = Some t"
  shows "(\<exists>t'. find_task (sys_db S') i = Some t' \<and> pinned t' = pinned t \<and> t_attempt t \<le> t_attempt t'
       \<and> (cancel_requested t \<longrightarrow> cancel_requested t') \<and> (is_terminal (t_state t) \<longrightarrow> t' = t))
    \<and> (\<forall>v x. get_version (sys_db S) v = Some x \<longrightarrow>
         (\<exists>x'. get_version (sys_db S') v = Some x' \<and> version_content x' = version_content x))"
proof -
  have h: "history (sys_db S) (sys_db S')" by (rule later(2) [OF assms(1,2)])
  then have "kept (sys_db S) (sys_db S')" by (simp add: history_def)
  then show ?thesis
    using historyD [OF h assms(3)] keptD(1) by (auto simp: row_after_def)
qed

theorem history_is_final_witness:
  "\<exists>t'. find_task run6 7 = Some t' \<and> t_max_attempts t' = 1 \<and> 1 \<le> t_attempt t'"
proof -
  obtain t where t: "find_task run4 7 = Some t" "t_attempt t = 1" "t_max_attempts t = 1" using run_find(1) by auto
  obtain t' where "find_task run6 7 = Some t'" "pinned t' = pinned t" "t_attempt t \<le> t_attempt t'"
    using history_is_final [OF run_steps, of 7 t] t(1) by auto
  then show ?thesis using t pinned_columns(4) [of t' t] by auto
qed

text \<open>
  C2. A stale worker never commits. Once an attempt is over (its task was finished, requeued,
  recovered or claimed again), then in that state and in every later one, no completion under its
  token is applied, by any worker and of any kind, and it changes nothing; nor is any renewal
  granted; so it can never be brought back.
\<close>

theorem stale_worker_never_commits:
  assumes "reachable S" "sys_step\<^sup>*\<^sup>* S S'" "find_task (sys_db S) i = Some t" "past a t"
  shows "(\<exists>r. complete k i a w (sys_db S') = Inr (r, sys_db S') \<and> \<not> applied r)
    \<and> renew_lease i w a ttl (sys_db S') = Inr (None, sys_db S')"
proof -
  have inv: "db_inv (sys_db S')" using later(1) [OF assms(1,2)] by (simp add: sys_inv_def)
  obtain t' where t': "find_task (sys_db S') i = Some t'" "past a t'"
    using historyD [OF later(2) [OF assms(1,2)] assms(3)] assms(4) by (auto simp: row_after_def)
  then have no: "\<not> owns (sys_db S') i a w" by (auto simp: owns_iff past_def)
  have "\<not> renew_where (now (sys_db S')) i w a t'" using t'(2) by (auto simp: renew_where_def past_def)
  then have "renew_lease i w a ttl (sys_db S') = Inr (None, sys_db S')"
    using renew_lease_eq [OF inv, of i w a ttl] t'(1) by simp
  moreover obtain r d' where "complete k i a w (sys_db S') = Inr (r, d')"
    using complete_total [OF inv, of k i a w] by blast
  ultimately show ?thesis using complete_not_owner [OF inv no] by blast
qed

theorem stale_worker_never_commits_witness:
  "\<exists>r. complete (Success []) 7 1 ''w1'' run6 = Inr (r, run6) \<and> \<not> applied r"
proof -
  obtain t where t: "find_task run6 7 = Some t" "past 1 t" using run_find(2) by (auto simp: past_def)
  have "reachable \<lparr>sys_db = run6, in_flight = []\<rparr>"
    using run_steps unfolding reachable_def by (meson rtranclp_trans)
  then show ?thesis
    using stale_worker_never_commits [of "\<lparr>sys_db = run6, in_flight = []\<rparr>" "\<lparr>sys_db = run6, in_flight = []\<rparr>" 7 t 1
        "Success []" "''w1''"] t by (simp del: complete.simps)
qed

text \<open>
  C5. Refinement. Every step of the platform, from any reachable state, is a step of the lease
  protocol, in which a task is waiting, held by one worker under a token, or over, and moves only by
  being taken, given back, finished or withdrawn; so the protocol's mutual exclusion holds of the
  platform: under one token a task is never held by two workers, however far apart in time.
\<close>

theorem platform_refines_lease_protocol:
  assumes "reachable S" "sys_step\<^sup>*\<^sup>* S S'"
  shows "(\<forall>S''. sys_step S' S'' \<longrightarrow> protocol_step (leases S') (leases S''))
    \<and> (\<forall>i n w w'. 1 \<le> n \<and> leases S i = Some (Held w, n) \<and> leases S' i = Some (Held w', n) \<longrightarrow> w' = w)"
  using step_refines later(1) [OF assms] protocol_exclusive [OF run_refines [OF assms(2) reachable_inv [OF assms(1)]]]
  by blast

theorem platform_refines_lease_protocol_witness:
  "\<exists>w n. leases \<lparr>sys_db = run4, in_flight = []\<rparr> 7 = Some (Held w, n)
     \<and> (\<forall>w'. leases \<lparr>sys_db = run4, in_flight = []\<rparr> 7 = Some (Held w', n) \<longrightarrow> w' = w)"
proof -
  obtain t where t: "find_task run4 7 = Some t" "t_state t = RUNNING" "t_attempt t = 1" using run_find(1) by auto
  then obtain w where "leases \<lparr>sys_db = run4, in_flight = []\<rparr> 7 = Some (Held w, 1)"
    by (simp add: leases_def lease_of_def)
  then show ?thesis
    using platform_refines_lease_protocol [OF run_steps(1) rtranclp.rtrancl_refl] by auto
qed

text \<open>
  C22. Tenants are isolated. In a reachable state, whenever the policy frozen for a task allows a
  call, the tool it reaches is an active tool of the task's own tenant, granted to the version the
  task is pinned to.
\<close>

theorem tenants_isolated:
  assumes "reachable S" "find_task (sys_db S) i = Some t" "t_agent_version_id t = Some v" "Some v \<in> set ids"
    and "allowed (authorize (policy_for (snapshot_policies ids (sys_db S)) (Some v)) n)"
  shows "\<exists>tool. tool \<in> set (tools (sys_db S)) \<and> tl_name tool = n \<and> tl_tenant_id tool = t_tenant_id t
    \<and> tl_status tool = TOOL_ACTIVE
    \<and> decision_tool (authorize (policy_for (snapshot_policies ids (sys_db S)) (Some v)) n) = Some (tool_ref_of tool)
    \<and> (\<exists>g \<in> set (agent_version_tool_grants (sys_db S)). is_grant v (tl_id tool) g)"
proof -
  let ?d = "sys_db S"
  let ?p = "policy_for (snapshot_policies ids ?d) (Some v)"
  have inv: "registry_inv ?d" "tools_inv ?d" "pins_ok ?d"
    using reachable_inv [OF assms(1)] by (simp_all add: sys_inv_def control_inv_def)
  obtain x a where x: "get_version ?d v = Some x" "get_agent ?d (av_agent_id x) = Some a" "ag_tenant_id a = t_tenant_id t"
  proof -
    have "owned_version ?d (t_tenant_id t) (Some v)"
      using inv(3) find_task_SomeD [OF assms(2)] by (auto simp: pins_ok_def assms(3) [symmetric])
    then show thesis using that by (auto simp: owned_version_def)
  qed
  have p: "tools_by_name ?p = tools_of_tenant ?d (t_tenant_id t)" "granted_tool_ids ?p = granted_of ?d v"
    by (simp_all add: policy_for_def snapshot_Some [OF inv(1) x(1,2) assms(4)] x(3))
  obtain u where u: "decision_tool (authorize ?p n) = Some u" "tools_by_name ?p n = Some u"
    using authorize_allowed_tool [OF assms(5)] by blast
  have ok: "tr_status u = TOOL_ACTIVE" "tr_id u \<in> set (granted_of ?d v)"
    using assms(5) u(2) p(2) by (auto simp: authorize_allowed_iff)
  obtain tool where t: "tool \<in> set (tools ?d)" "tl_tenant_id tool = t_tenant_id t" "tl_name tool = n" "u = tool_ref_of tool"
    using u(2) unfolding p(1) tools_of_tenant_iff [OF inv(2)] by blast
  have "tl_status tool = TOOL_ACTIVE" "\<exists>g \<in> set (agent_version_tool_grants ?d). is_grant v (tl_id tool) g"
    using ok by (auto simp: t(4) tool_ref_of_def granted_of_def is_grant_def)
  then show ?thesis using t u(1) by blast
qed

text \<open>A second run: an agent with a released version, a tool granted to it, a routed submission.\<close>

definition plan_request :: version_request where
  "plan_request = \<lparr>vr_runtime_spec = [], vr_required_capabilities = [''gpu''], vr_config = [], vr_max_attempts = 3,
     vr_max_execution_time_s = 300, vr_status = VERSION_DRAFT\<rparr>"

definition plan1 :: db where
  "plan1 = outcome_db (create_agent_request 3 1 ''scribe'' None run1)"

definition plan2 :: db where
  "plan2 = outcome_db (create_version_request 4 3 plan_request plan1)"

definition plan3 :: db where
  "plan3 = outcome_db (create_tool_request 11 1 ''search'' SIMULATED [] None plan2)"

definition plan4 :: db where
  "plan4 = outcome_db (grant 4 11 plan3)"

definition plan5 :: db where
  "plan5 = outcome_db (activate 3 4 None False plan4)"

definition plan6 :: db where
  "plan6 = outcome_db (set_route_request 1 ''summarise'' 3 plan5)"

definition plan_pin :: pinning where
  "plan_pin = \<lparr>pin_task_type = JStr ''scribe'', pin_max_attempts = 3, pin_max_execution_time_s = 300,
     pin_version = Some 4, pin_capabilities = [''gpu'']\<rparr>"

definition plan_submission :: submission where
  "plan_submission = \<lparr>s_tenant_id = 1, s_task_type = ''scribe'', s_payload = [], s_idempotency_key = None,
     s_priority = 100, s_max_attempts = 3, s_max_execution_time_s = 300, s_available_at = None,
     s_agent_version_id = Some 4, s_required_capabilities = [''gpu'']\<rparr>"

definition plan7 :: db where
  "plan7 = outcome_db (submit_task 20 plan_submission plan6)"

lemma plan_succeeds:
  "succeeds (create_agent_request 3 1 ''scribe'' None run1)"
  "succeeds (create_version_request 4 3 plan_request plan1)"
  "succeeds (create_tool_request 11 1 ''search'' SIMULATED [] None plan2)"
  "succeeds (grant 4 11 plan3)" "succeeds (activate 3 4 None False plan4)"
  "succeeds (set_route_request 1 ''summarise'' 3 plan5)"
  "succeeds (submit_task 20 plan_submission plan6)"
  by code_simp+

lemma plan_resolves:
  "get_tenant plan6 1 \<noteq> None"
  "case resolve_submission demo_request plan6 of Inl _ \<Rightarrow> False | Inr p \<Rightarrow> p = plan_pin"
  by code_simp+

lemma plan_reachable: "reachable \<lparr>sys_db = plan7, in_flight = []\<rparr>"
proof -
  let ?S = "\<lambda>d ss. \<lparr>sys_db = d, in_flight = ss\<rparr>"
  have c: "sys_step (?S d []) (?S d' [])" if "commit d d'" for d d'
    using s_commit [of "?S d []" d'] that by simp
  have c0: "commit (empty_db 10) run1"
    using outcome_Inr [OF run_succeeds(1)] unfolding run1_def [symmetric] by (blast intro: c_create_tenant)
  have c1: "commit run1 plan1"
    using outcome_Inr [OF plan_succeeds(1)] unfolding plan1_def [symmetric] by (blast intro: c_create_agent)
  have c2: "commit plan1 plan2"
    using outcome_Inr [OF plan_succeeds(2)] unfolding plan2_def [symmetric] by (blast intro: c_create_version)
  have c3: "commit plan2 plan3"
    using outcome_Inr [OF plan_succeeds(3)] unfolding plan3_def [symmetric] by (blast intro: c_create_tool)
  have c4: "commit plan3 plan4"
    using outcome_Inr [OF plan_succeeds(4)] unfolding plan4_def [symmetric] by (blast intro: c_grant)
  have c5: "commit plan4 plan5"
    using outcome_Inr [OF plan_succeeds(5)] unfolding plan5_def [symmetric] by (blast intro: c_activate)
  have c6: "commit plan5 plan6"
    using outcome_Inr [OF plan_succeeds(6)] unfolding plan6_def [symmetric] by (blast intro: c_set_route)
  have r: "sys_step (?S plan6 []) (?S plan6 [plan_submission])"
  proof -
    have b: "b_tenant_id demo_request = 1" by (simp add: demo_request_def)
    have p: "resolve_submission demo_request plan6 = Inr plan_pin"
      using plan_resolves(2) by (simp split: sum.splits)
    have s: "submission_of (demo_env id) demo_request plan_pin = Inr plan_submission"
      by (simp add: submission_of_def task_type_text_def demo_request_def plan_pin_def plan_submission_def demo_env_def)
    show ?thesis
      using s_resolve [OF demo_platform_facts(5), of "?S plan6 []" plan_pin "demo_env id" plan_submission]
        plan_resolves(1) b p s by simp
  qed
  have i: "sys_step (?S plan6 [plan_submission]) (?S plan7 [])"
    using outcome_Inr [OF plan_succeeds(7)] s_insert [of plan_submission "?S plan6 [plan_submission]" 20 _ plan7]
    by (auto simp: plan7_def [symmetric])
  have "sys_step\<^sup>*\<^sup>* (?S (empty_db 10) []) (?S plan6 [])"
    using c [OF c0] c [OF c1] c [OF c2] c [OF c3] c [OF c4] c [OF c5] c [OF c6]
    by (meson converse_rtranclp_into_rtranclp rtranclp.rtrancl_refl)
  then have "sys_step\<^sup>*\<^sup>* (?S (empty_db 10) []) (?S plan7 [])"
    using r i by (meson rtranclp.rtrancl_into_rtrancl)
  then show ?thesis unfolding reachable_def start_def by blast
qed

lemma plan_facts:
  "map_option t_agent_version_id (find_task plan7 20) = Some (Some 4)"
  "allowed (authorize (policy_for (snapshot_policies [Some 4] plan7) (Some 4)) ''search'')"
  by code_simp+

theorem tenants_isolated_witness:
  "\<exists>t tool. find_task plan7 20 = Some t \<and> tool \<in> set (tools plan7) \<and> tl_tenant_id tool = t_tenant_id t"
proof -
  obtain t where t: "find_task plan7 20 = Some t" "t_agent_version_id t = Some 4" using plan_facts(1) by auto
  then show ?thesis
    using tenants_isolated [OF plan_reachable, of 20 t 4 "[Some 4]" "''search''"] plan_facts(2) by auto
qed

end
