(* ===== verification/ClaimOrder.thy ===== *)
theory ClaimOrder
  imports Claim
begin

text \<open>
  What the rounds of \<open>claim_tasks\<close> (\<open>db/queries/claim.py\<close>) compute, without the rounds: the abstract
  scheduler walks the queue once, in order, and takes every task whose tenant still has a free slot,
  until it has \<open>limit\<close> of them. The claim is that scheduler on a prefix of the queue, and the
  bound on the rounds decides how long a prefix.
\<close>

section \<open>The abstract scheduler\<close>

text \<open>The running tasks a tenant may still add.\<close>

definition room :: "db \<Rightarrow> uuid \<Rightarrow> int" where
  "room d i = (case find_by tn_id i (tenants d) of None \<Rightarrow> 0
     | Some tn \<Rightarrow> max_concurrent_tasks tn - int (running_of d i))"

definition free_slots :: "db \<Rightarrow> uuid \<Rightarrow> nat" where
  "free_slots d i = nat (room d i)"

text \<open>The queue as the worker sees it: the rows it may run, in the order of the candidate query.\<close>

definition claim_queue :: "string list \<Rightarrow> claim_policy \<Rightarrow> uuid list \<Rightarrow> db \<Rightarrow> task list" where
  "claim_queue caps policy locked d =
     (let rows = filter (eligible (candidate_ok caps locked) [] d) (tasks d) in
      if length (normalise_caps caps) \<le> MAX_KEYED_CLAIM_CAPABILITIES then sort_key claim_key rows
      else sort_key (policy_key policy) rows)"

definition taken :: "uuid \<Rightarrow> task list \<Rightarrow> nat" where
  "taken i picked = length (filter (\<lambda>t. t_tenant_id t = i) picked)"

definition take_if_room :: "nat \<Rightarrow> (uuid \<Rightarrow> nat) \<Rightarrow> task \<Rightarrow> task list \<Rightarrow> task list" where
  "take_if_room limit free t picked =
     (if length picked < limit \<and> taken (t_tenant_id t) picked < free (t_tenant_id t)
      then picked @ [t] else picked)"

definition greedy :: "nat \<Rightarrow> (uuid \<Rightarrow> nat) \<Rightarrow> task list \<Rightarrow> task list" where
  "greedy limit free queue = fold (take_if_room limit free) queue []"

lemma taken_simps [simp]:
  "taken i [] = 0" "taken i (picked @ [t]) = taken i picked + (if t_tenant_id t = i then 1 else 0)"
  by (simp_all add: taken_def)

lemma greedy_append: "greedy limit free (xs @ ys) = fold (take_if_room limit free) ys (greedy limit free xs)"
  by (simp add: greedy_def)

lemma fold_take_full: "limit \<le> length picked \<Longrightarrow> fold (take_if_room limit free) xs picked = picked"
  by (induction xs) (simp_all add: take_if_room_def)

lemma fold_take_length:
  "length picked \<le> limit \<Longrightarrow> length (fold (take_if_room limit free) xs picked) \<le> limit"
  by (induction xs arbitrary: picked) (simp_all add: take_if_room_def)

lemma fold_take_grows: "length picked \<le> length (fold (take_if_room limit free) xs picked)"
proof (induction xs arbitrary: picked)
  case (Cons x xs)
  have "length picked \<le> length (take_if_room limit free x picked)" by (simp add: take_if_room_def)
  also note Cons.IH
  finally show ?case by simp
qed simp

lemma fold_take_subset: "set (fold (take_if_room limit free) xs picked) \<subseteq> set picked \<union> set xs"
proof (induction xs arbitrary: picked)
  case (Cons x xs)
  have "set (take_if_room limit free x picked) \<subseteq> insert x (set picked)" by (auto simp: take_if_room_def)
  with Cons [of "take_if_room limit free x picked"] show ?case by auto
qed simp

lemma greedy_length: "length (greedy limit free xs) \<le> limit"
  by (simp add: greedy_def fold_take_length)

lemma greedy_prefix_length: "length (greedy limit free xs) \<le> length xs"
proof -
  have "length (fold (take_if_room limit free) xs picked) \<le> length picked + length xs" for picked
  proof (induction xs arbitrary: picked)
    case (Cons x xs)
    have "length (take_if_room limit free x picked) \<le> Suc (length picked)" by (simp add: take_if_room_def)
    with Cons.IH [of "take_if_room limit free x picked"] show ?case by simp
  qed simp
  from this [of "[]"] show ?thesis by (simp add: greedy_def)
qed

lemma greedy_subset: "set (greedy limit free xs) \<subseteq> set xs"
  using fold_take_subset [of limit free xs "[]"] by (simp add: greedy_def)

lemma greedy_Nil_iff: "0 < limit \<Longrightarrow> greedy limit free xs = [] \<longleftrightarrow> (\<forall>t \<in> set xs. free (t_tenant_id t) = 0)"
proof (induction xs)
  case (Cons x xs)
  have "fold (take_if_room limit free) xs [x] \<noteq> []"
    using fold_take_grows [of "[x]" limit free xs] by auto
  with Cons show ?case by (auto simp: greedy_def take_if_room_def)
qed (simp add: greedy_def)

section \<open>The rounds compute it\<close>

lemma spend_greedy:
  assumes "\<And>t. t \<in> set batch \<Longrightarrow>
      slack st (t_tenant_id t) = Some (slots (t_tenant_id t) - int (taken (t_tenant_id t) picked))"
    and "claimed_ids st = map t_id picked"
  shows "claimed_ids (spend limit batch st) =
      map t_id (fold (take_if_room (nat limit) (\<lambda>i. nat (slots i))) batch picked)
    \<and> seen_ids (spend limit batch st) = seen_ids st"
  using assms
proof (induction batch arbitrary: st picked)
  case Nil
  then show ?case by simp
next
  case (Cons row batch)
  let ?n = "slots (t_tenant_id row) - int (taken (t_tenant_id row) picked)"
  have n: "slack st (t_tenant_id row) = Some ?n" using Cons.prems(1) [of row] by simp
  consider "limit \<le> int (length picked)" | "int (length picked) < limit" "?n \<le> 0"
    | "int (length picked) < limit" "0 < ?n" by linarith
  then show ?case
  proof cases
    case 1
    then show ?thesis using Cons.prems(2) fold_take_full [of "nat limit" picked _ "row # batch"]
      by (simp add: nat_le_iff)
  next
    case 2
    then have "spend limit (row # batch) st = spend limit batch st"
      "take_if_room (nat limit) (\<lambda>i. nat (slots i)) row picked = picked"
      using n Cons.prems(2) by (simp_all add: take_if_room_def not_less nat_le_iff)
    then show ?thesis using Cons.IH [OF Cons.prems] by simp
  next
    case 3
    define st' where "st' = st\<lparr>slack := (slack st)(t_tenant_id row \<mapsto> ?n - 1),
        claimed_ids := claimed_ids st @ [t_id row]\<rparr>"
    have "spend limit (row # batch) st = spend limit batch st'"
      "take_if_room (nat limit) (\<lambda>i. nat (slots i)) row picked = picked @ [row]"
      using 3 n Cons.prems(2)
      by (simp_all add: take_if_room_def st'_def Let_def zless_nat_eq_int_zless)
    moreover have "claimed_ids (spend limit batch st') =
        map t_id (fold (take_if_room (nat limit) (\<lambda>i. nat (slots i))) batch (picked @ [row]))
      \<and> seen_ids (spend limit batch st') = seen_ids st'"
      by (rule Cons.IH) (use Cons.prems in \<open>auto simp: st'_def\<close>)
    ultimately show ?thesis by (simp add: st'_def)
  qed
qed

lemma claimed_for_rows:
  assumes "ids_distinct d" "set picked \<subseteq> set (tasks d)"
  shows "claimed_for d (map t_id picked) i = taken i picked"
proof -
  have "find_task d (t_id t) = Some t" if "t \<in> set picked" for t
    using assms that by (auto simp: find_task_def ids_distinct_def find_by_in_set)
  then have "filter (\<lambda>t. map_option t_tenant_id (find_task d (t_id t)) = Some i) picked =
      filter (\<lambda>t. t_tenant_id t = i) picked"
    by (intro filter_cong) auto
  then show ?thesis by (simp add: claimed_for_def taken_def filter_map comp_def)
qed

lemma slack_is_room:
  assumes "slacks_ok d st" "ids_distinct d" "distinct (map tn_id (tenants d))" "i \<in> tn_id ` set (tenants d)"
    and "i \<in> set (slack_known st)" "claimed_ids st = map t_id picked" "set picked \<subseteq> set (tasks d)"
  shows "slack st i = Some (room d i - int (taken i picked))"
proof -
  obtain tn where tn: "tn \<in> set (tenants d)" "tn_id tn = i" using assms(4) by auto
  have "find_by tn_id i (tenants d) = Some tn" using tn assms(3) by (auto simp: find_by_in_set)
  then have "room d i = max_concurrent_tasks tn - int (running_of d i)" by (simp add: room_def)
  moreover have "slack_ok d st tn" using assms(1) tn(1) by (simp add: slacks_ok_def)
  ultimately show ?thesis
    using tn(2) assms(5) claimed_for_rows [OF assms(2,7)] by (simp add: slack_ok_def Let_def assms(6))
qed

text \<open>A row leaves the candidate query when it is seen: what is left is the rest of the queue.\<close>

lemma filter_drop_prefix:
  "distinct (map f xs) \<Longrightarrow> filter (\<lambda>x. f x \<notin> set (map f (take k xs))) xs = drop k xs"
proof (induction xs arbitrary: k)
  case (Cons x xs)
  show ?case
  proof (cases k)
    case 0
    then show ?thesis by simp
  next
    case (Suc m)
    have "filter (\<lambda>y. f y \<notin> set (map f (take k (x # xs)))) (x # xs) =
        filter (\<lambda>y. f y \<notin> set (map f (take m xs))) xs"
    proof -
      have "f y \<noteq> f x" if "y \<in> set xs" for y using Cons.prems that by (metis distinct.simps(2) imageI list.set_map list.simps(9))
      moreover have "x \<in> set (take k (x # xs))" using Suc by simp
      ultimately show ?thesis using Suc by (auto intro!: filter_cong)
    qed
    with Cons Suc show ?thesis by simp
  qed
qed simp

context ordered_candidates
begin

definition the_queue where "the_queue d = sort_key key (filter (eligible ok [] d) (tasks d))"

lemma queue_rows: "t \<in> set (the_queue d) \<longleftrightarrow> t \<in> set (tasks d) \<and> eligible ok [] d t"
  by (auto simp: the_queue_def)

lemma queue_ids: "ids_distinct d \<Longrightarrow> distinct (map t_id (the_queue d))"
  by (auto simp: the_queue_def ids_distinct_def distinct_map intro: inj_on_subset)

lemma fetch_rest:
  assumes "ids_distinct d"
  shows "fetch n (map t_id (take k (the_queue d))) d = take n (drop k (the_queue d))"
proof -
  let ?seen = "map t_id (take k (the_queue d))"
  have "filter (eligible ok ?seen d) (tasks d) =
      filter (\<lambda>t. t_id t \<notin> set ?seen) (filter (eligible ok [] d) (tasks d))"
    by (auto simp: eligible_def simp del: set_map intro!: filter_cong)
  then have "sort_key key (filter (eligible ok ?seen d) (tasks d)) =
      filter (\<lambda>t. t_id t \<notin> set ?seen) (the_queue d)"
    by (simp only: the_queue_def filter_sort)
  also have "\<dots> = drop k (the_queue d)" by (rule filter_drop_prefix [OF queue_ids [OF assms]])
  finally show ?thesis by (simp only: fetch_scan [OF assms] ordered_scan_def)
qed

text \<open>The invariant: \<open>k\<close> rows were looked at, and the choice is the scheduler's on them.\<close>

definition chosen_from where
  "chosen_from d limit k st \<longleftrightarrow> k \<le> length (the_queue d)
     \<and> seen_ids st = map t_id (take k (the_queue d))
     \<and> claimed_ids st = map t_id (greedy (nat limit) (free_slots d) (take k (the_queue d)))
     \<and> round_ok ok limit d st"

lemma chosen_from_start: "chosen_from d limit 0 claim_start"
  by (simp add: chosen_from_def round_ok_start greedy_def) (simp add: claim_start_def)

lemma chosen_from_rest: "chosen_from d limit k st \<Longrightarrow> ids_distinct d \<Longrightarrow>
    fetch n (seen_ids st) d = take n (drop k (the_queue d))"
  by (simp add: chosen_from_def fetch_rest)

lemma one_round_greedy:
  assumes "db_inv d" "0 < limit" "chosen_from d limit k st"
    and "batch = fetch n (seen_ids st) d" "batch \<noteq> []"
    and "st1 = load_slack d batch (st\<lparr>seen_ids := seen_ids st @ map t_id batch\<rparr>)"
  shows "chosen_from d limit (k + length batch) (spend limit batch st1)"
proof -
  let ?Q = "the_queue d" and ?free = "free_slots d"
  let ?c = "greedy (nat limit) ?free (take k ?Q)"
  have ids: "ids_distinct d" and tns: "distinct (map tn_id (tenants d))"
    using assms(1) by (simp_all add: db_inv_def)
  have st: "k \<le> length ?Q" "seen_ids st = map t_id (take k ?Q)" "claimed_ids st = map t_id ?c"
    "round_ok ok limit d st" using assms(3) by (simp_all add: chosen_from_def)
  have batch: "batch = take n (drop k ?Q)"
    unfolding assms(4) by (rule chosen_from_rest [OF assms(3) ids])
  then have k': "k + length batch \<le> length ?Q" "take (k + length batch) ?Q = take k ?Q @ batch"
    using st(1) by (auto simp: take_add min_def)
  note ok = one_round_ok [OF assms(1) st(4) assms(2,4,6)]
  have sel: "claimed_ids st1 = map t_id ?c" "seen_ids st1 = map t_id (take k ?Q) @ map t_id batch"
    by (simp_all add: assms(6) st(2,3))
  have "claimed_ids (spend limit batch st1) =
        map t_id (fold (take_if_room (nat limit) (\<lambda>i. nat (room d i))) batch ?c)
      \<and> seen_ids (spend limit batch st1) = seen_ids st1"
  proof (rule spend_greedy [OF _ sel(1)])
    fix t assume t: "t \<in> set batch"
    then have "t \<in> set ?Q" by (auto simp: batch dest: in_set_takeD in_set_dropD)
    then have "t_tenant_id t \<in> tn_id ` set (tenants d)"
      using assms(1) by (simp add: queue_rows db_inv_def tenant_refs_def)
    moreover have "t_tenant_id t \<in> set (slack_known st1)"
      using t by (simp add: assms(6) load_slack_known)
    moreover have "set ?c \<subseteq> set (tasks d)"
      using greedy_subset [of "nat limit" ?free "take k ?Q"] queue_rows by (auto dest: in_set_takeD)
    ultimately show "slack st1 (t_tenant_id t) = Some (room d (t_tenant_id t) - int (taken (t_tenant_id t) ?c))"
      using ok(1) sel(1) ids tns by (intro slack_is_room) (simp_all add: round_ok_def)
  qed
  moreover have "free_slots d = (\<lambda>i. nat (room d i))" by (simp add: fun_eq_iff free_slots_def)
  ultimately show ?thesis
    using k' ok(2) sel(2) by (simp add: chosen_from_def greedy_append)
qed

text \<open>How far the rounds look.\<close>

lemma rounds_greedy:
  assumes "db_inv d" "chosen_from d limit k st"
  shows "\<exists>k'. chosen_from d limit k' (claim_rounds n limit fetch d st) \<and> k \<le> k' \<and> k' \<le> k + n * nat limit
    \<and> (0 < n \<longrightarrow> k' = length (the_queue d) \<or> nat limit \<le> k')
    \<and> (k' = length (the_queue d)
       \<or> k + n * (nat limit - length (claimed_ids (claim_rounds n limit fetch d st))) \<le> k')"
  using assms(2)
proof (induction n arbitrary: k st)
  case 0
  then show ?case by (intro exI [of _ k]) simp
next
  case (Suc n)
  let ?Q = "the_queue d"
  have ids: "ids_distinct d" using assms(1) by (simp add: db_inv_def)
  define need where "need = limit - int (length (claimed_ids st))"
  define batch where "batch = fetch (nat need) (seen_ids st) d"
  have batch: "batch = take (nat need) (drop k ?Q)"
    unfolding batch_def by (rule chosen_from_rest [OF Suc.prems ids])
  have len: "k \<le> length ?Q" using Suc.prems by (simp add: chosen_from_def)
  have few: "length (claimed_ids st) \<le> k"
    using Suc.prems greedy_prefix_length [of "nat limit" "free_slots d" "take k ?Q"]
    by (simp add: chosen_from_def)
  consider "need \<le> 0" | "0 < need" "batch = []" | "0 < need" "batch \<noteq> []" by linarith
  then show ?case
  proof cases
    case 1
    then show ?thesis using Suc.prems few by (intro exI [of _ k]) (simp add: need_def nat_le_iff)
  next
    case 2
    then have "k = length ?Q" using len by (simp add: batch)
    moreover have "claim_rounds (Suc n) limit fetch d st = st"
      using 2 by (simp add: need_def batch_def Let_def)
    ultimately show ?thesis using Suc.prems by (intro exI [of _ k]) simp
  next
    case 3
    define st2 where "st2 = spend limit batch (load_slack d batch (st\<lparr>seen_ids := seen_ids st @ map t_id batch\<rparr>))"
    have step: "claim_rounds (Suc n) limit fetch d st = claim_rounds n limit fetch d st2"
      using 3 by (simp add: need_def batch_def st2_def Let_def)
    let ?st = "claim_rounds n limit fetch d st2"
    have "0 < limit" using 3(1) by (simp add: need_def)
    then have st2: "chosen_from d limit (k + length batch) st2"
      unfolding st2_def by (rule one_round_greedy [OF assms(1) _ Suc.prems batch_def 3(2) refl])
    obtain k' where k': "chosen_from d limit k' ?st" "k + length batch \<le> k'"
      "k' \<le> k + length batch + n * nat limit"
      "k' = length ?Q \<or> k + length batch + n * (nat limit - length (claimed_ids ?st)) \<le> k'"
      using Suc.IH [OF st2] by blast
    have "length batch \<le> nat limit" using batch need_def by simp
    moreover have "k' = length ?Q \<or> nat limit - length (claimed_ids ?st) \<le> length batch"
    proof (cases "length batch = nat need")
      case True
      have "length (claimed_ids st) \<le> length (claimed_ids ?st)"
      proof -
        have "k \<le> k'" using k'(2) by simp
        then have "take k' ?Q = take k ?Q @ take (k' - k) (drop k ?Q)"
          by (metis le_add_diff_inverse take_add)
        then show ?thesis
          using Suc.prems k'(1) by (simp add: chosen_from_def greedy_append fold_take_grows)
      qed
      then show ?thesis using True by (intro disjI2) (simp add: need_def nat_diff_distrib')
    next
      case False
      then have "k + length batch = length ?Q" using batch len by (simp add: min_def split: if_splits)
      then show ?thesis using k'(1,2) by (simp add: chosen_from_def)
    qed
    moreover have "k' = length ?Q \<or> nat limit \<le> k'"
    proof (cases "length batch = nat need")
      case True
      then show ?thesis using few k'(2) by (simp add: need_def) linarith
    next
      case False
      then have "k + length batch = length ?Q" using batch len by (simp add: min_def split: if_splits)
      then show ?thesis using k'(1,2) by (simp add: chosen_from_def)
    qed
    ultimately show ?thesis
      using k' unfolding step by (intro exI [of _ k']) auto
  qed
qed

end

lemma claim_is_greedy_result:
  assumes "db_inv d" and "find_worker d w \<noteq> None"
  shows "\<exists>k rows d'. claim_tasks w limit ttl policy caps locked d = Inr (rows, d')
    \<and> map t_id rows = map t_id (greedy (nat limit) (free_slots d) (take k (claim_queue caps policy locked d)))
    \<and> k \<le> length (claim_queue caps policy locked d) \<and> k \<le> MAX_ROUNDS * nat limit
    \<and> (k = length (claim_queue caps policy locked d) \<or> nat limit \<le> k)
    \<and> (k = length (claim_queue caps policy locked d) \<or> MAX_ROUNDS * (nat limit - length rows) \<le> k)"
proof -
  define Q where "Q = claim_queue caps policy locked d"
  let ?st = "claim_rounds MAX_ROUNDS limit (fetch_candidates caps policy locked) d claim_start"
  have "\<exists>k. claimed_ids ?st = map t_id (greedy (nat limit) (free_slots d) (take k Q))
    \<and> k \<le> length Q \<and> k \<le> MAX_ROUNDS * nat limit \<and> (k = length Q \<or> nat limit \<le> k)
    \<and> (k = length Q \<or> MAX_ROUNDS * (nat limit - length (claimed_ids ?st)) \<le> k)"
  proof (cases "length (normalise_caps caps) \<le> MAX_KEYED_CLAIM_CAPABILITIES")
    case True
    then have f: "fetch_candidates caps policy locked = keyed_candidates (normalise_caps caps) locked"
      and ok: "candidate_ok caps locked = keyed_ok (normalise_caps caps) locked"
      by (simp_all add: fun_eq_iff fetch_candidates_def candidate_ok_def)
    have Q: "Q = keyed.the_queue (normalise_caps caps) locked d"
      using True by (simp add: Q_def claim_queue_def keyed.the_queue_def ok)
    show ?thesis unfolding f
      using keyed.rounds_greedy [OF assms(1) keyed.chosen_from_start, of "normalise_caps caps" locked limit MAX_ROUNDS]
      by (auto simp: keyed.chosen_from_def Q MAX_ROUNDS_def)
  next
    case False
    then have f: "fetch_candidates caps policy locked = fallback_candidates caps policy locked"
      and ok: "candidate_ok caps locked = fallback_ok caps locked"
      by (simp_all add: fun_eq_iff fetch_candidates_def candidate_ok_def)
    have Q: "Q = fallback.the_queue caps locked policy d"
      using False by (simp add: Q_def claim_queue_def fallback.the_queue_def ok)
    show ?thesis unfolding f
      using fallback.rounds_greedy [OF assms(1) fallback.chosen_from_start,
          where caps = caps and policy = policy and locked = locked and limit = limit and n = MAX_ROUNDS]
      by (auto simp: fallback.chosen_from_def Q MAX_ROUNDS_def)
  qed
  then obtain k where k: "claimed_ids ?st = map t_id (greedy (nat limit) (free_slots d) (take k Q))"
    "k \<le> length Q" "k \<le> MAX_ROUNDS * nat limit" "k = length Q \<or> nat limit \<le> k"
    "k = length Q \<or> MAX_ROUNDS * (nat limit - length (claimed_ids ?st)) \<le> k" by blast
  obtain d' where c: "claim_tasks w limit ttl policy caps locked d =
      Inr (claimed_rows (chosen limit policy caps locked d) w ttl d, d')"
    using claim_tasks_eq [OF assms(1,2)] by blast
  have "map t_id (claimed_rows (chosen limit policy caps locked d) w ttl d) = claimed_ids ?st"
    using claimed_rows_facts(1) [OF chosen_cl [OF assms(1)]] by (simp add: chosen_def)
  then show ?thesis
    unfolding Q_def [symmetric] using c k by (intro exI conjI) (assumption | simp add: length_map [of t_id, symmetric] del: length_map)+
qed

lemma chosen_greedy:
  assumes "claim_tasks w limit ttl policy caps locked d = Inr (rows, d')" "db_inv d" "find_worker d w \<noteq> None"
  shows "chosen limit policy caps locked d = map t_id rows"
  using assms(1) claim_tasks_eq [OF assms(2,3), of limit ttl policy caps locked]
    claimed_rows_facts(1) [OF chosen_cl [OF assms(2)], of limit policy caps locked w ttl] by auto

section \<open>Properties\<close>

text \<open>
  C11. The claim refines the abstract scheduler. Under the invariant and for a registered worker, the
  rows a claim returns are, in order, what one walk along the queue gives that takes a task if its
  tenant has a free slot left and stops at \<open>limit\<close> tasks; neither the rounds, nor the batches, nor
  the slack remembered between them show, for the keyed query and the containment filter alike. The
  walk covers a prefix of the queue, at most \<open>MAX_ROUNDS\<close> times \<open>limit\<close> rows; it is the whole
  queue unless \<open>MAX_ROUNDS\<close> rows were looked at for every task the result is short of \<open>limit\<close>,
  and a full result is that of the whole queue.
\<close>

theorem claim_is_greedy:
  assumes "db_inv d" and "find_worker d w \<noteq> None"
  shows "\<exists>k rows d'. claim_tasks w limit ttl policy caps locked d = Inr (rows, d')
    \<and> map t_id rows = map t_id (greedy (nat limit) (free_slots d) (take k (claim_queue caps policy locked d)))
    \<and> k \<le> length (claim_queue caps policy locked d) \<and> k \<le> MAX_ROUNDS * nat limit
    \<and> (k = length (claim_queue caps policy locked d) \<or> nat limit \<le> k)
    \<and> (k = length (claim_queue caps policy locked d) \<or> MAX_ROUNDS * (nat limit - length rows) \<le> k)
    \<and> (length rows = nat limit \<longrightarrow>
         map t_id rows = map t_id (greedy (nat limit) (free_slots d) (claim_queue caps policy locked d)))"
proof -
  let ?Q = "claim_queue caps policy locked d" and ?free = "free_slots d"
  obtain k rows d' where c: "claim_tasks w limit ttl policy caps locked d = Inr (rows, d')"
    "map t_id rows = map t_id (greedy (nat limit) ?free (take k ?Q))"
    "k \<le> length ?Q" "k \<le> MAX_ROUNDS * nat limit" "k = length ?Q \<or> nat limit \<le> k"
    "k = length ?Q \<or> MAX_ROUNDS * (nat limit - length rows) \<le> k"
    using claim_is_greedy_result [OF assms, of limit ttl policy caps locked] by blast
  moreover have "greedy (nat limit) ?free ?Q = greedy (nat limit) ?free (take k ?Q)"
    if "length rows = nat limit"
  proof -
    have "length (greedy (nat limit) ?free (take k ?Q)) = nat limit"
      using that c(2) by (metis length_map)
    then show ?thesis
      using greedy_append [of "nat limit" ?free "take k ?Q" "drop k ?Q"] by (simp add: fold_take_full)
  qed
  ultimately show ?thesis by (intro exI [of _ k] exI [of _ rows] exI [of _ d']) simp
qed

text \<open>
  C12. When a claim comes back empty. Exactly if none of the first \<open>MAX_ROUNDS\<close> times \<open>limit\<close> rows of
  the worker's queue belongs to a tenant with a free slot, whatever stands behind them: one task of
  such a tenant among those rows is enough for progress, and a backlog of that length of tenants at
  their bounds hides the rest of the queue. The state is then unchanged, so the next claim looks at
  the same rows.
\<close>

theorem empty_claim_iff_blocked:
  assumes "db_inv d" and "find_worker d w \<noteq> None" and "0 < limit"
  shows "claim_tasks w limit ttl policy caps locked d = Inr ([], d) \<longleftrightarrow>
    (\<forall>t \<in> set (take (MAX_ROUNDS * nat limit) (claim_queue caps policy locked d)).
       free_slots d (t_tenant_id t) = 0)"
proof -
  let ?Q = "claim_queue caps policy locked d"
  obtain k rows d' where c: "claim_tasks w limit ttl policy caps locked d = Inr (rows, d')"
    "map t_id rows = map t_id (greedy (nat limit) (free_slots d) (take k ?Q))"
    "k \<le> MAX_ROUNDS * nat limit" "k = length ?Q \<or> MAX_ROUNDS * (nat limit - length rows) \<le> k"
    using claim_is_greedy_result [OF assms(1,2), of limit ttl policy caps locked] by blast
  have empty: "rows = [] \<longleftrightarrow> (\<forall>t \<in> set (take k ?Q). free_slots d (t_tenant_id t) = 0)"
    using c(2) greedy_Nil_iff [of "nat limit" "free_slots d" "take k ?Q"] assms(3) by auto
  have "claim_tasks w limit ttl policy caps locked d = Inr ([], d) \<longleftrightarrow> rows = []"
  proof
    assume "rows = []"
    then have "chosen limit policy caps locked d = []"
      using chosen_greedy [OF c(1) assms(1,2)] by simp
    then show "claim_tasks w limit ttl policy caps locked d = Inr ([], d)" by (simp add: claim_tasks_grants)
  qed (use c(1) in simp)
  also have "\<dots> \<longleftrightarrow> (\<forall>t \<in> set (take (MAX_ROUNDS * nat limit) ?Q). free_slots d (t_tenant_id t) = 0)"
  proof
    assume "rows = []"
    then have "take (MAX_ROUNDS * nat limit) ?Q = take k ?Q" using c(3,4) by auto
    with \<open>rows = []\<close> empty
    show "\<forall>t \<in> set (take (MAX_ROUNDS * nat limit) ?Q). free_slots d (t_tenant_id t) = 0" by simp
  next
    assume "\<forall>t \<in> set (take (MAX_ROUNDS * nat limit) ?Q). free_slots d (t_tenant_id t) = 0"
    then show "rows = []" using empty set_take_subset_set_take [OF c(3), of ?Q] by blast
  qed
  finally show ?thesis .
qed

text \<open>When no tenant's bound binds, the claim takes the head of the queue.\<close>

lemma greedy_unbounded:
  assumes "\<And>t. t \<in> set xs \<Longrightarrow> limit \<le> free (t_tenant_id t)"
  shows "greedy limit free xs = take limit xs"
  using assms
proof (induction xs rule: rev_induct)
  case (snoc x xs)
  have "taken i xs < free (t_tenant_id x)" if "length xs < limit" for i
    unfolding taken_def using that snoc.prems [of x]
    by (intro le_less_trans [OF length_filter_le]) simp
  then show ?case
    using snoc by (auto simp: greedy_append take_if_room_def min_def)
qed (simp add: greedy_def)

lemma chosen_queue_head:
  assumes "db_inv d" and "find_worker d w \<noteq> None"
    and "\<And>tn. tn \<in> set (tenants d) \<Longrightarrow> limit \<le> max_concurrent_tasks tn - int (running_of d (tn_id tn))"
  shows "chosen limit policy caps locked d = map t_id (take (nat limit) (claim_queue caps policy locked d))"
proof -
  let ?Q = "claim_queue caps policy locked d"
  obtain k rows d' where c: "claim_tasks w limit 0 policy caps locked d = Inr (rows, d')"
    "map t_id rows = map t_id (greedy (nat limit) (free_slots d) (take k ?Q))"
    "k = length ?Q \<or> nat limit \<le> k"
    using claim_is_greedy_result [OF assms(1,2), of limit 0 policy caps locked] by blast
  have "nat limit \<le> free_slots d (t_tenant_id t)" if "t \<in> set ?Q" for t
  proof -
    have "t_tenant_id t \<in> tn_id ` set (tenants d)"
      using that assms(1) by (simp add: claim_queue_def Let_def db_inv_def tenant_refs_def split: if_splits)
    then obtain tn where tn: "tn \<in> set (tenants d)" "tn_id tn = t_tenant_id t" by auto
    moreover have "distinct (map tn_id (tenants d))" using assms(1) by (simp add: db_inv_def)
    ultimately have "find_by tn_id (t_tenant_id t) (tenants d) = Some tn"
      using find_by_in_set [of tn_id "tenants d" tn] by simp
    then show ?thesis using assms(3) [OF tn(1)] tn(2) by (simp add: free_slots_def room_def nat_mono)
  qed
  then have g: "greedy (nat limit) (free_slots d) (take k ?Q) = take (nat limit) (take k ?Q)"
    by (intro greedy_unbounded) (auto dest: in_set_takeD)
  have "take (nat limit) (take k ?Q) = take (nat limit) ?Q" using c(3) by (auto simp: min_def)
  with c(2) g chosen_greedy [OF c(1) assms(1,2)] show ?thesis by simp
qed

section \<open>Witnesses\<close>

text \<open>A tenant with room for one running task, and another one.\<close>

definition small_and_large :: "tenant list" where
  "small_and_large = [demo_tenant\<lparr>max_concurrent_tasks := 1\<rparr>,
     demo_tenant\<lparr>tn_id := 2, tn_name := ''beta''\<rparr>]"

definition demo_mixed :: db where
  "demo_mixed = demo_queue\<lparr>tenants := small_and_large,
     tasks := [demo_queued 1 1 [], demo_queued 2 2 [], (demo_queued 3 3 [])\<lparr>t_tenant_id := 2\<rparr>]\<rparr>"

text \<open>The first one runs its task, and four more of its tasks stand before the task of the other.\<close>

definition demo_blocked :: db where
  "demo_blocked = demo_db\<lparr>tenants := small_and_large,
     tasks := [demo_task, demo_queued 1 1 [], demo_queued 2 2 [], demo_queued 3 3 [], demo_queued 4 4 [],
       (demo_queued 5 5 [])\<lparr>t_tenant_id := 2\<rparr>]\<rparr>"

lemma demo_queued_wf:
  assumes "p \<in> {1, 2, 3, 4, 5}"
  shows "row_wf (demo_queued i p [])" "row_wf ((demo_queued i p [])\<lparr>t_tenant_id := 2\<rparr>)"
    "log_ok (demo_queued i p []) []" "log_ok ((demo_queued i p [])\<lparr>t_tenant_id := 2\<rparr>) []"
  using assms by (auto simp: row_wf_def log_ok_def demo_queued_def demo_task_def lease_coherent_def)

lemma demo_mixed_inv: "db_inv demo_mixed" "find_worker demo_mixed ''w1'' \<noteq> None"
proof -
  show "db_inv demo_mixed"
    using demo_queued_wf
    by (simp add: demo_mixed_def db_inv_def ids_distinct_def tasks_ok_def task_ok_def attempts_of_def
        keys_unique_def tenant_refs_def attempt_refs_def event_refs_def demo_queue_def demo_db_def empty_db_def)
      (simp add: small_and_large_def demo_queued_def demo_task_def demo_worker_def demo_tenant_def same_key_def)
  show "find_worker demo_mixed ''w1'' \<noteq> None"
    by (simp add: demo_mixed_def demo_queue_def find_worker_def demo_db_def demo_worker_def)
qed

lemma demo_blocked_inv: "db_inv demo_blocked" "find_worker demo_blocked ''w1'' \<noteq> None"
proof -
  have "row_wf demo_task" by (simp add: row_wf_def demo_task_def lease_coherent_def)
  moreover have "log_ok demo_task (attempts_of demo_blocked 7)"
    by (simp add: log_ok_def attempts_of_def demo_defs demo_blocked_def upto.simps)
  moreover have "attempts_of demo_blocked i = []" if "i \<noteq> 7" for i
    using that by (simp add: attempts_of_def demo_defs demo_blocked_def)
  ultimately show "db_inv demo_blocked"
    using demo_queued_wf
    by (simp add: db_inv_def ids_distinct_def tasks_ok_def task_ok_def
        keys_unique_def tenant_refs_def attempt_refs_def event_refs_def)
      (simp add: demo_blocked_def small_and_large_def demo_queued_def demo_defs same_key_def attempts_of_def)
  show "find_worker demo_blocked ''w1'' \<noteq> None"
    by (simp add: demo_blocked_def find_worker_def demo_db_def demo_worker_def)
qed

theorem claim_is_greedy_witness:
  "\<exists>rows d'. claim_tasks ''w1'' 2 30 DEFAULT_POLICY [] [] demo_mixed = Inr (rows, d') \<and> map t_id rows = [1, 3]"
proof -
  let ?Q = "claim_queue [] DEFAULT_POLICY [] demo_mixed"
  have Q: "length ?Q = 3" "map t_id (greedy 2 (free_slots demo_mixed) ?Q) = [1, 3]" by code_simp+
  obtain k rows d' where c: "claim_tasks ''w1'' 2 30 DEFAULT_POLICY [] [] demo_mixed = Inr (rows, d')"
    "map t_id rows = map t_id (greedy (nat 2) (free_slots demo_mixed) (take k ?Q))"
    "k \<le> length ?Q" "k = length ?Q \<or> MAX_ROUNDS * (nat 2 - length rows) \<le> k"
    "length rows = nat 2 \<longrightarrow> map t_id rows = map t_id (greedy (nat 2) (free_slots demo_mixed) ?Q)"
    using claim_is_greedy [OF demo_mixed_inv, of 2 30 DEFAULT_POLICY "[]" "[]"] by blast
  have "length rows \<le> 2"
    using c(2) greedy_length [of 2 "free_slots demo_mixed" "take k ?Q"] by (metis length_map nat_2 numeral_2_eq_2)
  then have "k = length ?Q \<or> length rows = 2" using c(3,4) Q(1) by (auto simp: MAX_ROUNDS_def)
  then have "map t_id rows = [1, 3]" using c(2,5) Q by auto
  then show ?thesis using c(1) by (intro exI [of _ rows] exI [of _ d'] conjI)
qed

theorem empty_claim_iff_blocked_witness:
  "claim_tasks ''w1'' 1 30 DEFAULT_POLICY [] [] demo_blocked = Inr ([], demo_blocked)
   \<and> map t_id (claim_queue [] DEFAULT_POLICY [] demo_blocked) = [1, 2, 3, 4, 5]
   \<and> 0 < free_slots demo_blocked 2
   \<and> claim_tasks ''w1'' 2 30 DEFAULT_POLICY [] [] demo_blocked \<noteq> Inr ([], demo_blocked)"
proof -
  have b: "list_all (\<lambda>t. free_slots demo_blocked (t_tenant_id t) = 0)
      (take (MAX_ROUNDS * nat 1) (claim_queue [] DEFAULT_POLICY [] demo_blocked))" by code_simp
  have n: "\<not> list_all (\<lambda>t. free_slots demo_blocked (t_tenant_id t) = 0)
      (take (MAX_ROUNDS * nat 2) (claim_queue [] DEFAULT_POLICY [] demo_blocked))" by code_simp
  have "claim_tasks ''w1'' 1 30 DEFAULT_POLICY [] [] demo_blocked = Inr ([], demo_blocked)"
    using empty_claim_iff_blocked [OF demo_blocked_inv, of 1 30 DEFAULT_POLICY "[]" "[]"] b by (simp add: list_all_iff)
  moreover have "claim_tasks ''w1'' 2 30 DEFAULT_POLICY [] [] demo_blocked \<noteq> Inr ([], demo_blocked)"
    using empty_claim_iff_blocked [OF demo_blocked_inv, of 2 30 DEFAULT_POLICY "[]" "[]"] n by (simp add: list_all_iff)
  moreover have "map t_id (claim_queue [] DEFAULT_POLICY [] demo_blocked) = [1, 2, 3, 4, 5]"
    "0 < free_slots demo_blocked 2" by code_simp+
  ultimately show ?thesis by simp
qed

end
