(* ===== verification/Liveness.thy ===== *)
theory Liveness
  imports Guarantees ClaimOrder
begin

text \<open>
  Progress: which tasks some worker can be given at all, and that whatever has happened, work that
  is not over can still be carried to success by the platform's own transactions.
\<close>

section \<open>Which requirements a worker can meet\<close>

text \<open>
  The claim compares a requirement with a worker in two ways: by the key of its normal form for a
  worker with few capabilities, and as it was written for a worker with many. A requirement that
  has more than five names and is not in normal form falls between them.
\<close>

definition can_be_matched :: "string list \<Rightarrow> bool" where
  "can_be_matched required =
     (length (normalise_caps required) \<le> MAX_KEYED_CLAIM_CAPABILITIES
      \<or> contained_by required (normalise_caps required))"

definition keyed_row :: "task \<Rightarrow> bool" where
  "keyed_row t = (t_capability_key t = capability_key (t_required_capabilities t))"

lemma satisfies_own: "worker_satisfies required (normalise_caps required)"
  by (simp add: worker_satisfies_def list_all_iff)

lemma own_worker_matches:
  assumes "keyed_row t" "can_be_matched (t_required_capabilities t)"
  shows "candidate_ok (normalise_caps (t_required_capabilities t)) [] t"
proof -
  let ?c = "normalise_caps (t_required_capabilities t)"
  have "t_capability_key t \<in> set (satisfiable_capability_keys ?c)"
    using satisfies_key [OF satisfies_own] assms(1) by (simp add: keyed_row_def)
  then show ?thesis
    using assms(2) by (auto simp: candidate_ok_def keyed_ok_def fallback_ok_def can_be_matched_def)
qed

text \<open>
  C24. Conversely, a requirement that cannot be matched is met by no worker whose capabilities have
  no comma in their names, and whose own names have none: however many capabilities it offers (as
  the constructor normalises them), whatever the queue, the policy and the rows others hold, a claim
  does not return the task and leaves its row as it was. So a version that requires six capabilities,
  one of them spelled \<open>GPU\<close>, has tasks that such workers never run. Names with a comma are set aside
  because the key joins names by commas, so that one such name can stand for several.
\<close>

theorem unmatched_task_is_never_claimed:
  assumes "db_inv d" and "find_worker d w \<noteq> None"
    and "find_task d i = Some t" and "keyed_row t" and "\<not> can_be_matched (t_required_capabilities t)"
    and "comma_free (t_required_capabilities t)" and "comma_free offered"
  shows "\<exists>rows d'. claim_tasks w limit ttl policy (normalise_caps offered) locked d = Inr (rows, d')
    \<and> i \<notin> t_id ` set rows \<and> find_task d' i = Some t"
proof -
  let ?c = "normalise_caps offered" and ?r = "t_required_capabilities t"
  have no: "\<not> candidate_ok ?c locked t"
  proof
    assume ok: "candidate_ok ?c locked t"
    obtain c where c: "c \<in> set ?r" "c \<notin> set (normalise_caps ?r)"
      and long: "MAX_KEYED_CLAIM_CAPABILITIES < length (normalise_caps ?r)"
      using assms(5) by (auto simp: can_be_matched_def contained_by_def list_all_iff)
    show False
    proof (cases "length ?c \<le> MAX_KEYED_CLAIM_CAPABILITIES")
      case True
      then have "capability_key ?r \<in> set (satisfiable_capability_keys ?c)"
        using ok assms(4) by (simp add: candidate_ok_def keyed_ok_def keyed_row_def)
      then have "set (normalise_caps ?r) \<subseteq> set ?c"
        using key_satisfies [OF assms(6) comma_free_normalise [OF assms(7)]]
        by (simp add: worker_satisfies_def list_all_iff subset_iff)
      then have "card (set (normalise_caps ?r)) \<le> card (set ?c)" by (intro card_mono) auto
      then show False using True long by (simp add: distinct_card)
    next
      case False
      then have "c \<in> set ?c"
        using ok c(1) by (simp add: candidate_ok_def fallback_ok_def contained_by_def list_all_iff)
      then have "norm_cap c = c" "py_strip c \<noteq> []" using normalise_mem by blast+
      then have "c \<in> set (normalise_caps ?r)" using c(1) by (force simp: set_normalise)
      then show False using c(2) by simp
    qed
  qed
  obtain rows d' where r: "claim_tasks w limit ttl policy ?c locked d = Inr (rows, d')"
    "\<forall>r \<in> set rows. \<exists>t. find_task d (t_id r) = Some t \<and> eligible (candidate_ok ?c locked) [] d t
        \<and> find_task d' (t_id r) = Some r \<and> pinned r = pinned t \<and> t_state r = RUNNING
        \<and> t_attempt r = t_attempt t + 1 \<and> lease_worker_id r = Some w
        \<and> lease_expires_at r = Some (now d + of_int ttl)"
    "\<forall>j. j \<notin> t_id ` set rows \<longrightarrow> find_task d' j = find_task d j"
    using claim_tasks_result [OF assms(1,2), of limit ttl policy ?c locked] by blast
  have "i \<notin> t_id ` set rows"
  proof
    assume "i \<in> t_id ` set rows"
    then obtain u where "find_task d i = Some u" "eligible (candidate_ok ?c locked) [] d u" using r(2) by auto
    then show False using no assms(3) by (simp add: eligible_def)
  qed
  then show ?thesis using r(1,3) assms(3) by auto
qed

section \<open>The key of a row is the key of its requirement\<close>

lemma keyed_pinned: "pinned t' = pinned t \<Longrightarrow> keyed_row t' = keyed_row t"
  by (simp add: pinned_def keyed_row_def)

definition keyed_db :: "db \<Rightarrow> bool" where
  "keyed_db d \<longleftrightarrow> list_all keyed_row (tasks d)"

lemma keyed_find: "keyed_db d \<Longrightarrow> find_task d i = Some t \<Longrightarrow> keyed_row t"
  using find_task_SomeD by (fastforce simp: keyed_db_def list_all_iff)

lemma keyed_step:
  assumes "sys_step S S'" "sys_inv S" "keyed_db (sys_db S)"
  shows "keyed_db (sys_db S')"
proof -
  have "keyed_row t'" if t': "t' \<in> set (tasks (sys_db S'))" for t'
  proof -
    have inv: "sys_inv S'" "history (sys_db S) (sys_db S')" using sys_step_good [OF assms(1,2)] by simp_all
    then have f': "find_task (sys_db S') (t_id t') = Some t'"
      using t' db_inv_ids [of "sys_db S'"] by (simp add: sys_inv_def find_task_def ids_distinct_def find_by_in_set)
    show ?thesis
    proof (cases "find_task (sys_db S) (t_id t')")
      case (Some t)
      then obtain u where "find_task (sys_db S') (t_id t') = Some u" "row_after t u" using historyD [OF inv(2)] by blast
      then have "pinned t' = pinned t" using f' by (simp add: row_after_def)
      then show ?thesis using keyed_pinned [of t' t] keyed_find [OF assms(3) Some] by blast
    next
      case None
      from assms(1) show ?thesis
      proof cases
        case (s_commit d')
        then have "map t_id (tasks d') = map t_id (tasks (sys_db S))"
          using commit_good [of "sys_db S" d'] assms(2) by (simp add: sys_inv_def good_step_def)
        moreover have "t' \<in> set (tasks d')" using t' s_commit(1) by simp
        then have "t_id t' \<in> set (map t_id (tasks d'))" by simp
        ultimately have "t_id t' \<in> t_id ` set (tasks (sys_db S))" by simp
        then show ?thesis using None find_task_iff [of "sys_db S" "t_id t'"] by auto
      next
        case (s_insert s i r d')
        have fl: "flight_ok (sys_db S) s" using assms(2) s_insert(2) by (simp add: sys_inv_def)
        have ok: "submission_ok s" using fl by (simp add: flight_ok_def)
        have "t' \<in> set (tasks d')" using t' s_insert(1) by simp
        then have "t' \<in> set (tasks (sys_db S)) \<or> t' = new_task i s (now (sys_db S))"
          using submit_cases [OF s_insert(3) ok flight_refs [OF fl]] by (auto simp: with_task_def)
        then show ?thesis using assms(3) by (auto simp: keyed_db_def list_all_iff keyed_row_def new_task_def)
      qed (use assms(3) t' in \<open>auto simp: keyed_db_def list_all_iff\<close>)
    qed
  qed
  then show ?thesis by (simp add: keyed_db_def list_all_iff)
qed

lemma reachable_keyed: "reachable S \<Longrightarrow> keyed_db (sys_db S)"
proof -
  have "sys_step\<^sup>*\<^sup>* (start t) S \<Longrightarrow> keyed_db (sys_db S)" for t
  proof (induction rule: rtranclp_induct)
    case base
    then show ?case by (simp add: start_def keyed_db_def empty_db_def)
  next
    case (step y z)
    then show ?case using keyed_step reachable_inv [of y] by (auto simp: reachable_def)
  qed
  then show "reachable S \<Longrightarrow> keyed_db (sys_db S)" by (auto simp: reachable_def)
qed

section \<open>Carrying work to success\<close>

text \<open>
  What the processes do when nothing fails: time passes; a new worker registers, with its
  capabilities as its constructor normalises them; a worker that is alive claims with its own
  capabilities, for its own capacity and with nothing locked by others; and the worker that holds a
  task reports its success. These are steps of the platform, but only these: no lease is granted
  except by the claim's own query, and no task ends but by its owner's report.
\<close>

inductive duty :: "system \<Rightarrow> system \<Rightarrow> bool" where
  d_wait: "now (sys_db S) \<le> t \<Longrightarrow> duty S (S\<lparr>sys_db := (sys_db S)\<lparr>now := t\<rparr>\<rparr>)"
| d_join: "find_worker (sys_db S) w = None \<Longrightarrow>
    register_worker w h p c (normalise_caps offered) (sys_db S) = Inr (x, d') \<Longrightarrow> duty S (S\<lparr>sys_db := d'\<rparr>)"
| d_claim: "find_worker (sys_db S) w = Some x \<Longrightarrow> w_status x = ALIVE \<Longrightarrow> limit \<le> capacity x \<Longrightarrow> 0 < ttl \<Longrightarrow>
    claim_tasks w limit ttl DEFAULT_POLICY (w_capabilities x) [] (sys_db S) = Inr (rows, d') \<Longrightarrow>
    duty S (S\<lparr>sys_db := d'\<rparr>)"
| d_succeed: "owns (sys_db S) i a w \<Longrightarrow> complete (Success outcome_dict) i a w (sys_db S) = Inr (r, d') \<Longrightarrow>
    duty S (S\<lparr>sys_db := d'\<rparr>)"

lemma duty_step: "duty S S' \<Longrightarrow> sys_step S S'"
proof (induction rule: duty.induct)
  case (d_wait S t)
  then show ?case by (intro s_commit c_tick)
next
  case (d_join S w h p c offered x d')
  then show ?case by (blast intro: s_commit c_register)
next
  case (d_claim S w x limit ttl rows d')
  then show ?case by (intro s_commit c_claim [of _ w]) simp_all
next
  case (d_succeed S i a w res r d')
  then show ?case by (blast intro: s_commit c_complete)
qed

lemma duties_steps: "duty\<^sup>*\<^sup>* S S' \<Longrightarrow> sys_step\<^sup>*\<^sup>* S S'"
  by (induction rule: rtranclp_induct) (auto dest: duty_step)

text \<open>What a stretch of the run that works on one task does to the rest.\<close>

definition works_on :: "uuid \<Rightarrow> system \<Rightarrow> system \<Rightarrow> bool" where
  "works_on i S S' \<longleftrightarrow> duty\<^sup>*\<^sup>* S S' \<and> tenants (sys_db S') = tenants (sys_db S)
     \<and> (\<forall>j. j \<noteq> i \<longrightarrow> find_task (sys_db S') j = find_task (sys_db S) j)"

lemma works_on_trans: "works_on i S S1 \<Longrightarrow> works_on i S1 S2 \<Longrightarrow> works_on i S S2"
  unfolding works_on_def by (auto intro: rtranclp_trans)

lemma works_on_duty:
  assumes "duty S (S\<lparr>sys_db := d'\<rparr>)" "tenants d' = tenants (sys_db S)" "\<And>j. j \<noteq> i \<Longrightarrow> find_task d' j = find_task (sys_db S) j"
  shows "works_on i S (S\<lparr>sys_db := d'\<rparr>)"
  using assms by (auto simp: works_on_def)

lemma reachable_duties: "reachable S \<Longrightarrow> duty\<^sup>*\<^sup>* S S' \<Longrightarrow> reachable S'"
  unfolding reachable_def by (blast intro: rtranclp_trans duties_steps)

lemma tenants_control: "control d' = control d \<Longrightarrow> tenants d' = tenants d"
  by (simp add: control_def)

text \<open>A running task succeeds when its worker reports success.\<close>

lemma finish_running:
  assumes "reachable S" "find_task (sys_db S) i = Some t" "t_state t = RUNNING"
  shows "\<exists>S' t'. works_on i S S' \<and> find_task (sys_db S') i = Some t' \<and> t_state t' = SUCCEEDED"
proof -
  have inv: "db_inv (sys_db S)" using reachable_inv [OF assms(1)] by (simp add: sys_inv_def)
  have "row_wf t" using db_inv_task(1) [OF inv assms(2)] .
  then have "lease_coherent t" by (simp add: row_wf_def)
  then obtain w where w: "lease_worker_id t = Some w" using assms(3) by (auto simp: lease_coherent_def)
  have own: "owns (sys_db S) i (t_attempt t) w" using assms(2,3) w by (simp add: owns_iff)
  obtain r d' where c: "complete (Success []) i (t_attempt t) w (sys_db S) = Inr (r, d')"
    using complete_total [OF inv] by blast
  have ap: "applied r" by (rule complete_owner_applied [OF inv own c])
  obtain t' where t': "find_task d' i = Some t'" "t_state t' = SUCCEEDED"
    using complete_completed [OF inv c ap] by (auto simp: completed_def)
  have "works_on i S (S\<lparr>sys_db := d'\<rparr>)"
    using complete_frame [OF inv c] by (intro works_on_duty [OF d_succeed [OF own c]]) auto
  then show ?thesis using t' by (intro exI [of _ "S\<lparr>sys_db := d'\<rparr>"] exI [of _ t']) simp
qed

text \<open>With nothing running, a claim for one task takes the first candidate of the queue.\<close>

lemma chosen_first:
  assumes "db_inv d" "find_worker d w \<noteq> None"
    and "\<And>tn. tn \<in> set (tenants d) \<Longrightarrow> 1 \<le> max_concurrent_tasks tn - int (running_of d (tn_id tn))"
    and "t \<in> set (tasks d)" "eligible (candidate_ok caps []) [] d t"
  shows "\<exists>i. chosen 1 policy caps [] d = [i]"
proof -
  have "t \<in> set (claim_queue caps policy [] d)" using assms(4,5) by (simp add: claim_queue_def Let_def)
  then obtain q qs where "claim_queue caps policy [] d = q # qs"
    by (cases "claim_queue caps policy [] d") auto
  then show ?thesis using chosen_queue_head [OF assms(1-3), of policy caps "[]"] by simp
qed

lemma claim_one:
  assumes "db_inv d" "find_worker d w \<noteq> None" "chosen 1 policy caps [] d = [i]"
  shows "\<exists>row d' t. claim_tasks w 1 ttl policy caps [] d = Inr ([row], d') \<and> t_id row = i \<and> db_inv d'
    \<and> find_task d i = Some t \<and> eligible (candidate_ok caps []) [] d t \<and> find_task d' i = Some row
    \<and> pinned row = pinned t \<and> t_state row = RUNNING \<and> t_attempt row = t_attempt t + 1
    \<and> lease_worker_id row = Some w \<and> (\<forall>j. j \<noteq> i \<longrightarrow> find_task d' j = find_task d j)
    \<and> tenants d' = tenants d \<and> workers d' = workers d \<and> now d' = now d"
proof -
  obtain rows d' where c: "claim_tasks w 1 ttl policy caps [] d = Inr (rows, d')" "db_inv d'"
    and r: "\<forall>r \<in> set rows. \<exists>t. find_task d (t_id r) = Some t \<and> eligible (candidate_ok caps []) [] d t
        \<and> find_task d' (t_id r) = Some r \<and> pinned r = pinned t \<and> t_state r = RUNNING
        \<and> t_attempt r = t_attempt t + 1 \<and> lease_worker_id r = Some w
        \<and> lease_expires_at r = Some (now d + of_int ttl)"
    and rest: "\<forall>j. j \<notin> t_id ` set rows \<longrightarrow> find_task d' j = find_task d j"
    using claim_tasks_result [OF assms(1,2), of 1 ttl policy caps "[]"] by blast
  have "rows = claimed_rows [i] w ttl d"
    using claim_tasks_eq [OF assms(1,2), of 1 ttl policy caps "[]"] c(1) assms(3) by auto
  then have "map t_id rows = [i]"
    using claimed_rows_facts(1) [OF chosen_cl [OF assms(1)], of 1 policy caps "[]" w ttl] assms(3) by simp
  then obtain row where "rows = [row]" "t_id row = i" by auto
  then show ?thesis
    using c r rest tenants_control [OF ctl.claim_tasks_view [OF c(1)]] roster.claim_tasks_view [OF c(1)]
      clock.claim_tasks_view [OF c(1)] by auto
qed

lemma running_none: "\<forall>t \<in> set (tasks d). t_state t \<noteq> RUNNING \<Longrightarrow> running_of d i = 0"
  by (auto simp: running_of_def filter_empty_conv)

lemma fresh_worker: "\<exists>w. find_worker d w = None"
proof -
  have "finite (w_id ` set (workers d))" by simp
  then obtain w where "w \<notin> w_id ` set (workers d)"
    using ex_new_if_finite [OF infinite_UNIV_listI] by blast
  then have "find_worker d w = None" using find_worker_iff [of d w] by blast
  then show ?thesis ..
qed

lemma claim_when_idle:
  assumes "reachable S" "t0 \<in> set (tasks (sys_db S))" "t_state t0 = QUEUED"
    and "can_be_matched (t_required_capabilities t0)"
    and "\<forall>t \<in> set (tasks (sys_db S)). t_state t \<noteq> RUNNING"
    and "\<forall>tn \<in> set (tenants (sys_db S)). 1 \<le> max_concurrent_tasks tn"
  shows "\<exists>S' i t r. works_on i S S' \<and> find_task (sys_db S) i = Some t \<and> t_state t = QUEUED
    \<and> find_task (sys_db S') i = Some r \<and> t_state r = RUNNING"
proof -
  let ?d = "sys_db S" and ?c = "normalise_caps (t_required_capabilities t0)"
  let ?d1 = "?d\<lparr>now := max (now ?d) (available_at t0)\<rparr>"
  obtain w where w: "find_worker ?d1 w = None" using fresh_worker by blast
  obtain x d2 where reg: "register_worker w ''h'' 1 1 ?c ?d1 = Inr (x, d2)"
    using w by (simp add: register_worker_def Let_def)
  have x: "find_worker d2 w = Some x" "w_status x = ALIVE" "capacity x = 1" "w_capabilities x = ?c"
    using reg w by (auto simp: register_worker_def Let_def find_worker_def find_by_append)
  have d2: "tasks d2 = tasks ?d" "tenants d2 = tenants ?d" "now d2 = now ?d1" "find_worker d2 w \<noteq> None"
    using reg w by (auto simp: register_worker_def Let_def find_worker_def find_by_append)
  let ?S1 = "S\<lparr>sys_db := ?d1\<rparr>" and ?S2 = "S\<lparr>sys_db := d2\<rparr>"
  have quiet: "works_on j S ?S2" for j
  proof (rule works_on_trans)
    show "works_on j S ?S1" by (rule works_on_duty [OF d_wait]) (simp_all add: find_task_def)
    show "works_on j ?S1 ?S2"
      using works_on_duty [of ?S1 d2 j] d_join [of ?S1 w _ _ _ "t_required_capabilities t0" x d2] reg w d2 by (simp add: find_task_def)
  qed
  have "sys_inv ?S2" using reachable_inv [OF reachable_duties [OF assms(1)]] quiet by (simp add: works_on_def)
  then have inv: "db_inv d2" by (simp add: sys_inv_def)
  have "keyed_row t0" using reachable_keyed [OF assms(1)] assms(2) by (simp add: keyed_db_def list_all_iff)
  then have el: "eligible (candidate_ok ?c []) [] d2 t0"
    using own_worker_matches [OF _ assms(4)] assms(3) d2(3) by (simp add: eligible_def)
  have slack: "1 \<le> max_concurrent_tasks tn - int (running_of d2 (tn_id tn))" if "tn \<in> set (tenants d2)" for tn
    using that assms(5,6) running_none [of d2] d2(1,2) by simp
  obtain i where i: "chosen 1 DEFAULT_POLICY ?c [] d2 = [i]"
    using chosen_first [OF inv d2(4) slack _ el] assms(2) d2(1) by auto
  obtain row d3 t where c: "claim_tasks w 1 30 DEFAULT_POLICY ?c [] d2 = Inr ([row], d3)" "tenants d3 = tenants d2"
    "\<forall>j. j \<noteq> i \<longrightarrow> find_task d3 j = find_task d2 j"
    and t: "find_task d2 i = Some t" "t_state t = QUEUED" "find_task d3 i = Some row" "t_state row = RUNNING"
    using claim_one [OF inv d2(4) i, of 30] by (auto simp: eligible_def)
  have step: "works_on i ?S2 (S\<lparr>sys_db := d3\<rparr>)"
    using works_on_duty [of ?S2 d3 i] d_claim [of ?S2 w x 1 30 "[row]" d3] x c by simp
  have "find_task d2 i = find_task ?d i" using d2(1) by (simp add: find_task_def)
  then show ?thesis
    using t
    using works_on_trans [OF quiet step]
    by (intro exI [of _ "S\<lparr>sys_db := d3\<rparr>"] exI [of _ i] exI [of _ t] exI [of _ row]) simp
qed

text \<open>One more task succeeds.\<close>

lemma one_more:
  assumes "reachable S" "t0 \<in> set (tasks (sys_db S))" "\<not> is_terminal (t_state t0)"
    and match: "\<forall>t \<in> set (tasks (sys_db S)). \<not> is_terminal (t_state t) \<longrightarrow> can_be_matched (t_required_capabilities t)"
    and caps: "\<forall>tn \<in> set (tenants (sys_db S)). 1 \<le> max_concurrent_tasks tn"
  shows "\<exists>S' i t t'. works_on i S S' \<and> find_task (sys_db S) i = Some t \<and> \<not> is_terminal (t_state t)
    \<and> find_task (sys_db S') i = Some t' \<and> t_state t' = SUCCEEDED"
proof (cases "\<exists>t \<in> set (tasks (sys_db S)). t_state t = RUNNING")
  case True
  then obtain t where t: "t \<in> set (tasks (sys_db S))" "t_state t = RUNNING" by blast
  have "db_inv (sys_db S)" using reachable_inv [OF assms(1)] by (simp add: sys_inv_def)
  then have "find_task (sys_db S) (t_id t) = Some t"
    using t(1) db_inv_ids by (simp add: find_task_def ids_distinct_def find_by_in_set)
  then show ?thesis using finish_running [OF assms(1) _ t(2)] t(2) by fastforce
next
  case False
  then have q: "t_state t0 = QUEUED" using assms(2,3) by (cases "t_state t0") auto
  obtain S1 i t r where s: "works_on i S S1" "find_task (sys_db S) i = Some t" "t_state t = QUEUED"
    "find_task (sys_db S1) i = Some r" "t_state r = RUNNING"
    using claim_when_idle [OF assms(1,2) q _ _ caps] match assms(2,3) False by blast
  have "reachable S1" using reachable_duties [OF assms(1)] s(1) by (simp add: works_on_def)
  then obtain S2 t' where "works_on i S1 S2" "find_task (sys_db S2) i = Some t'" "t_state t' = SUCCEEDED"
    using finish_running [OF _ s(4,5)] by blast
  then show ?thesis using works_on_trans [OF s(1)] s(2,3)
    by (intro exI [of _ S2] exI [of _ i] exI [of _ t] exI [of _ t']) simp
qed

definition live_ids :: "db \<Rightarrow> uuid set" where
  "live_ids d = {i. \<exists>t. find_task d i = Some t \<and> \<not> is_terminal (t_state t)}"

lemma finite_live [simp]: "finite (live_ids d)"
proof -
  have "live_ids d \<subseteq> t_id ` set (tasks d)" using find_task_iff [of d] by (auto simp: live_ids_def)
  then show ?thesis by (rule finite_subset) simp
qed

text \<open>What the way on achieves: the rows that were not over have succeeded, the others are as they were.\<close>

definition carried :: "db \<Rightarrow> db \<Rightarrow> bool" where
  "carried d d' \<longleftrightarrow> (\<forall>i t'. find_task d' i = Some t' \<longrightarrow> (\<exists>t. find_task d i = Some t
      \<and> (if is_terminal (t_state t) then t' = t else t_state t' = SUCCEEDED)))
    \<and> (\<forall>i. find_task d i \<noteq> None \<longrightarrow> find_task d' i \<noteq> None)"

lemma carried_over: "(\<And>i t. find_task d i = Some t \<Longrightarrow> is_terminal (t_state t)) \<Longrightarrow> carried d d"
  by (auto simp: carried_def)

text \<open>One task carried to success, and then the others.\<close>

lemma carried_step:
  assumes "find_task d i = Some t" "\<not> is_terminal (t_state t)" "find_task d1 i = Some t1" "t_state t1 = SUCCEEDED"
    and same: "\<And>j. j \<noteq> i \<Longrightarrow> find_task d1 j = find_task d j" and rest: "carried d1 d2"
  shows "carried d d2"
proof -
  have over: "is_terminal (t_state t1)" using assms(4) by (simp add: is_terminal_def TERMINAL_def)
  have "\<exists>u. find_task d j = Some u \<and> (if is_terminal (t_state u) then t' = u else t_state t' = SUCCEEDED)"
    if j: "find_task d2 j = Some t'" for j t'
  proof (cases "j = i")
    case True
    then obtain v where "find_task d1 i = Some v" "if is_terminal (t_state v) then t' = v else t_state t' = SUCCEEDED"
      using rest j True unfolding carried_def by blast
    then have "t_state t' = SUCCEEDED" using assms(3,4) over by simp
    then show ?thesis using True assms(1,2) by simp
  next
    case False
    then have "find_task d1 j = find_task d j" by (rule same)
    moreover obtain v where "find_task d1 j = Some v" "if is_terminal (t_state v) then t' = v else t_state t' = SUCCEEDED"
      using rest j unfolding carried_def by blast
    ultimately show ?thesis by (intro exI [of _ v]) simp
  qed
  moreover have "find_task d2 j \<noteq> None" if "find_task d j \<noteq> None" for j
    using that rest assms(3) same [of j] by (cases "j = i") (auto simp: carried_def)
  ultimately show ?thesis by (simp add: carried_def)
qed

lemma live_step:
  assumes "find_task d i = Some t" "\<not> is_terminal (t_state t)" "find_task d1 i = Some t1" "t_state t1 = SUCCEEDED"
    and same: "\<And>j. j \<noteq> i \<Longrightarrow> find_task d1 j = find_task d j"
  shows "find_task d1 j = Some u \<Longrightarrow> \<not> is_terminal (t_state u) \<Longrightarrow> find_task d j = Some u"
    and "card (live_ids d1) < card (live_ids d)"
proof -
  have over: "is_terminal (t_state t1)" using assms(4) by (simp add: is_terminal_def TERMINAL_def)
  then have still: "j \<noteq> i \<and> find_task d j = Some u" if "find_task d1 j = Some u" "\<not> is_terminal (t_state u)" for j u
    using that assms(3) same [of j] by (cases "j = i") auto
  then show "find_task d1 j = Some u \<Longrightarrow> \<not> is_terminal (t_state u) \<Longrightarrow> find_task d j = Some u" by blast
  have "live_ids d1 \<subseteq> live_ids d" "i \<in> live_ids d" "i \<notin> live_ids d1"
    using still assms(1-3) over by (auto simp: live_ids_def)
  then show "card (live_ids d1) < card (live_ids d)" by (intro psubset_card_mono finite_live) blast
qed

lemma carry_all:
  assumes "reachable S"
    and "\<forall>tn \<in> set (tenants (sys_db S)). 1 \<le> max_concurrent_tasks tn"
    and "\<forall>t \<in> set (tasks (sys_db S)). \<not> is_terminal (t_state t) \<longrightarrow> can_be_matched (t_required_capabilities t)"
  shows "\<exists>S'. duty\<^sup>*\<^sup>* S S' \<and> carried (sys_db S) (sys_db S')"
  using assms
proof (induction "card (live_ids (sys_db S))" arbitrary: S rule: less_induct)
  case less
  show ?case
  proof (cases "\<exists>t \<in> set (tasks (sys_db S)). \<not> is_terminal (t_state t)")
    case False
    then have "carried (sys_db S) (sys_db S)" by (intro carried_over) (use find_task_SomeD in blast)
    then show ?thesis by blast
  next
    case True
    then obtain t0 where t0: "t0 \<in> set (tasks (sys_db S))" "\<not> is_terminal (t_state t0)" by blast
    obtain S1 i t t1 where s: "works_on i S S1" "find_task (sys_db S) i = Some t" "\<not> is_terminal (t_state t)"
      "find_task (sys_db S1) i = Some t1" "t_state t1 = SUCCEEDED"
      using one_more [OF less.prems(1) t0 less.prems(3,2)] by blast
    have w: "duty\<^sup>*\<^sup>* S S1" "tenants (sys_db S1) = tenants (sys_db S)"
      "\<And>j. j \<noteq> i \<Longrightarrow> find_task (sys_db S1) j = find_task (sys_db S) j"
      using s(1) by (simp_all add: works_on_def)
    note live = live_step [OF s(2-5)]
    have r1: "reachable S1" by (rule reachable_duties [OF less.prems(1) w(1)])
    then have ids: "ids_distinct (sys_db S1)" using reachable_inv by (simp add: sys_inv_def db_inv_def)
    have match: "can_be_matched (t_required_capabilities u)"
      if "u \<in> set (tasks (sys_db S1))" "\<not> is_terminal (t_state u)" for u
    proof -
      have "find_task (sys_db S1) (t_id u) = Some u"
        using that(1) ids by (simp add: find_task_def ids_distinct_def find_by_in_set)
      then show ?thesis using live(1) [OF w(3) _ that(2)] find_task_SomeD less.prems(3) that(2) by blast
    qed
    obtain S2 where s2: "duty\<^sup>*\<^sup>* S1 S2" "carried (sys_db S1) (sys_db S2)"
      using less.hyps [OF live(2) [OF w(3)] r1] less.prems(2) w(2) match by auto
    have "carried (sys_db S) (sys_db S2)" by (rule carried_step [OF s(2-5) w(3) s2(2)])
    moreover have "duty\<^sup>*\<^sup>* S S2" using w(1) s2(1) by (rule rtranclp_trans)
    ultimately show ?thesis by blast
  qed
qed


section \<open>Witnesses\<close>

definition wide_required :: "string list" where
  "wide_required = [''GPU'', ''a'', ''b'', ''c'', ''d'', ''e'']"

definition wide_db :: db where
  "wide_db = demo_queue\<lparr>tasks := [demo_queued 1 100 wide_required]\<rparr>"

lemma wide_inv: "db_inv wide_db"
proof -
  have "row_wf (demo_queued i 100 c)" for i c
    by (simp add: row_wf_def demo_queued_def demo_task_def lease_coherent_def)
  moreover have "log_ok (demo_queued i p c) []" for i p c
    by (simp add: log_ok_def demo_queued_def demo_task_def)
  ultimately show ?thesis
    by (simp add: wide_db_def db_inv_def ids_distinct_def tasks_ok_def task_ok_def attempts_of_def
        keys_unique_def tenant_refs_def attempt_refs_def event_refs_def demo_queue_def demo_db_def empty_db_def)
       (simp add: demo_queued_def demo_task_def demo_worker_def demo_tenant_def)
qed

lemma wide_facts:
  "find_worker wide_db ''w1'' \<noteq> None" "\<not> can_be_matched wide_required" "comma_free wide_required"
  "comma_free [''GPU'', ''a'', ''b'', ''c'', ''d'', ''e'', ''f'']"
  by code_simp+

theorem unmatched_task_is_never_claimed_witness:
  "\<exists>t rows d'. find_task wide_db 1 = Some t \<and> t_state t = QUEUED \<and> available_at t \<le> now wide_db
     \<and> claim_tasks ''w1'' 5 30 DEFAULT_POLICY (normalise_caps [''GPU'', ''a'', ''b'', ''c'', ''d'', ''e'', ''f'']) [] wide_db
         = Inr (rows, d') \<and> 1 \<notin> t_id ` set rows \<and> find_task d' 1 = Some t"
proof -
  let ?t = "demo_queued 1 100 wide_required"
  have t: "find_task wide_db 1 = Some ?t" "t_state ?t = QUEUED" "available_at ?t \<le> now wide_db" "keyed_row ?t"
    "t_required_capabilities ?t = wide_required"
    by (simp_all add: find_task_def wide_db_def demo_queued_def demo_task_def keyed_row_def demo_queue_def demo_db_def empty_db_def)
  show ?thesis
    using unmatched_task_is_never_claimed [OF wide_inv wide_facts(1) t(1,4), of
      "[''GPU'', ''a'', ''b'', ''c'', ''d'', ''e'', ''f'']" 5 30 DEFAULT_POLICY "[]"] wide_facts(2-4) t
    by (intro exI [of _ ?t]) auto
qed

lemma run4_facts:
  "map (\<lambda>t. (t_state t, t_required_capabilities t)) (tasks run4) = [(RUNNING, [])]" "map t_id (tasks run4) = [7]"
  "map max_concurrent_tasks (tenants run4) = [10]" "can_be_matched []"
  by code_simp+


end
