(* ===== verification/Retry.thy ===== *)
theory Retry
  imports Failures
begin

text \<open>
  \<open>domain/retry.py\<close>: per-class retry policies, full-jitter backoff, and the decision whether an
  attempt earns another one. The random source is Python's \<open>random.Random\<close>, kept as the stream
  of its \<open>random()\<close> values with the position reached.
\<close>

record rng =
  draws :: "nat \<Rightarrow> rat"
  drawn :: nat

text \<open>What the standard library documents: every draw is in \<open>[0, 1)\<close>.\<close>

definition rng_ok :: "rng \<Rightarrow> bool" where
  "rng_ok r \<longleftrightarrow> (\<forall>i. 0 \<le> draws r i \<and> draws r i < 1)"

definition uniform :: "rng \<Rightarrow> rat \<Rightarrow> rat \<Rightarrow> rat \<times> rng" where
  "uniform r a b = (a + (b - a) * draws r (drawn r), r\<lparr>drawn := Suc (drawn r)\<rparr>)"

record retry_policy =
  retryable :: bool
  base_s :: rat
  cap_s :: rat
  attempt_cap :: "int option"

definition mk_policy :: "bool \<Rightarrow> rat \<Rightarrow> rat \<Rightarrow> int option \<Rightarrow> retry_policy" where
  "mk_policy r b c a = \<lparr>retryable = r, base_s = b, cap_s = c, attempt_cap = a\<rparr>"

fun POLICIES :: "failure_class \<Rightarrow> retry_policy" where
  "POLICIES TRANSIENT = mk_policy True 1 60 None"
| "POLICIES RATE_LIMITED = mk_policy True 5 300 None"
| "POLICIES TIMEOUT = mk_policy True 2 120 None"
| "POLICIES DEPENDENCY_UNAVAILABLE = mk_policy True 5 300 None"
| "POLICIES FC_WORKER_LOST = mk_policy True 0 0 None"
| "POLICIES PERMANENT = mk_policy False 1 60 None"
| "POLICIES USER_ERROR = mk_policy False 1 60 None"
| "POLICIES PERMISSION_DENIED = mk_policy False 1 60 None"
| "POLICIES UNKNOWN = mk_policy True 2 60 (Some 2)"

record retry_decision =
  should_retry :: bool
  rd_backoff_s :: rat
  rd_reason :: string

definition backoff_ceiling :: "failure_class \<Rightarrow> int \<Rightarrow> rat" where
  "backoff_ceiling fc attempt =
     min (cap_s (POLICIES fc)) (base_s (POLICIES fc) * 2 ^ nat (max 0 (attempt - 1)))"

definition backoff_s :: "failure_class \<Rightarrow> int \<Rightarrow> rat option \<Rightarrow> rng \<Rightarrow> rat \<times> rng" where
  "backoff_s fc attempt retry_after_s r =
     (let ceiling = backoff_ceiling fc attempt;
          (jittered, r1) = (if ceiling > 0 then uniform r 0 ceiling else (0, r))
      in case retry_after_s of
           Some ra \<Rightarrow> (let (u, r2) = uniform r1 0 (max 1 (base_s (POLICIES fc))) in (ra + u, r2))
         | None \<Rightarrow> (jittered, r1))"

definition decide_retry :: "failure_class \<Rightarrow> int \<Rightarrow> int \<Rightarrow> rat option \<Rightarrow> rng \<Rightarrow> retry_decision \<times> rng" where
  "decide_retry fc attempt max_attempts retry_after_s r =
     (let policy = POLICIES fc in
      if \<not> retryable policy then
        (\<lparr>should_retry = False, rd_backoff_s = 0,
          rd_reason = py_lower (failure_value fc) @ ''_not_retryable''\<rparr>, r)
      else if attempt \<ge> max_attempts then
        (\<lparr>should_retry = False, rd_backoff_s = 0, rd_reason = ''max_attempts_exhausted''\<rparr>, r)
      else if (case attempt_cap policy of None \<Rightarrow> False | Some c \<Rightarrow> attempt \<ge> c) then
        (\<lparr>should_retry = False, rd_backoff_s = 0,
          rd_reason = py_lower (failure_value fc) @ ''_attempt_cap_reached''\<rparr>, r)
      else
        (let (delay, r') = backoff_s fc attempt retry_after_s r in
         (\<lparr>should_retry = True, rd_backoff_s = delay,
           rd_reason = ''retry_after_'' @ py_lower (failure_value fc)\<rparr>, r')))"

lemma policy_sane: "0 \<le> base_s (POLICIES fc)" "0 \<le> cap_s (POLICIES fc)"
  by (cases fc; simp add: mk_policy_def)+

lemma retryable_iff: "retryable (POLICIES fc) \<longleftrightarrow> fc \<notin> set TERMINAL_CLASSES"
  by (cases fc) (simp_all add: mk_policy_def TERMINAL_CLASSES_def)

lemma attempt_cap_iff:
  "(case attempt_cap (POLICIES fc) of None \<Rightarrow> False | Some c \<Rightarrow> a \<ge> c) \<longleftrightarrow> fc = UNKNOWN \<and> a \<ge> 2"
  by (cases fc) (simp_all add: mk_policy_def)

lemma ceiling_nonneg: "0 \<le> backoff_ceiling fc a"
  using policy_sane [of fc] by (simp add: backoff_ceiling_def)

lemma ceiling_le_cap: "backoff_ceiling fc a \<le> cap_s (POLICIES fc)"
  by (simp add: backoff_ceiling_def)

lemma ceiling_mono: "a \<le> b \<Longrightarrow> backoff_ceiling fc a \<le> backoff_ceiling fc b"
proof -
  assume "a \<le> b"
  then have "(2::rat) ^ nat (max 0 (a - 1)) \<le> 2 ^ nat (max 0 (b - 1))"
    by (intro power_increasing) auto
  then show ?thesis
    unfolding backoff_ceiling_def using policy_sane [of fc]
    by (intro min.mono mult_left_mono) auto
qed

lemma uniform_bounds:
  assumes "rng_ok r" "a \<le> b"
  shows "a \<le> fst (uniform r a b)" "fst (uniform r a b) \<le> b"
proof -
  let ?d = "draws r (drawn r)"
  have d: "0 \<le> ?d" "?d \<le> 1" using assms(1) by (auto simp: rng_ok_def less_imp_le)
  have "0 \<le> (b - a) * ?d" using d assms(2) by simp
  then show "a \<le> fst (uniform r a b)" by (simp add: uniform_def)
  have "(b - a) * ?d \<le> (b - a) * 1" using d assms(2) by (intro mult_left_mono) auto
  then show "fst (uniform r a b) \<le> b" by (simp add: uniform_def)
qed

lemma uniform_rng_ok: "rng_ok r \<Longrightarrow> rng_ok (snd (uniform r a b))"
  by (simp add: uniform_def rng_ok_def)

lemma backoff_jitter_bounds:
  assumes "rng_ok r"
  shows "0 \<le> fst (backoff_s fc a None r)" "fst (backoff_s fc a None r) \<le> backoff_ceiling fc a"
  using uniform_bounds [OF assms ceiling_nonneg [of fc a]] ceiling_nonneg [of fc a]
  by (auto simp: backoff_s_def Let_def split: prod.splits)

lemma backoff_floor_bounds:
  assumes "rng_ok r"
  shows "ra \<le> fst (backoff_s fc a (Some ra) r)"
    "fst (backoff_s fc a (Some ra) r) \<le> ra + max 1 (base_s (POLICIES fc))"
proof -
  let ?c = "backoff_ceiling fc a" and ?m = "max 1 (base_s (POLICIES fc))"
  let ?r1 = "snd (if ?c > 0 then uniform r 0 ?c else (0, r))"
  have "rng_ok ?r1" using assms by (auto intro: uniform_rng_ok)
  then have "0 \<le> fst (uniform ?r1 0 ?m)" "fst (uniform ?r1 0 ?m) \<le> ?m"
    by (intro uniform_bounds; simp)+
  then show "ra \<le> fst (backoff_s fc a (Some ra) r)"
    "fst (backoff_s fc a (Some ra) r) \<le> ra + ?m"
    by (auto simp: backoff_s_def Let_def split: prod.splits)
qed

lemma decide_retry_iff:
  "should_retry (fst (decide_retry fc a m ra r)) \<longleftrightarrow>
     fc \<notin> set TERMINAL_CLASSES \<and> a < m \<and> (fc = UNKNOWN \<longrightarrow> a < 2)"
  using retryable_iff [of fc] attempt_cap_iff [where fc = fc and a = a]
  by (auto simp: decide_retry_def Let_def split: prod.splits)

lemma decide_retry_delay:
  "rd_backoff_s (fst (decide_retry fc a m ra r)) =
     (if should_retry (fst (decide_retry fc a m ra r)) then fst (backoff_s fc a ra r) else 0)"
  by (auto simp: decide_retry_def Let_def split: prod.splits)

text \<open>
  C25. A failed attempt is retried exactly when its class is not terminal, the task's own budget is
  not spent, and (for an unclassified failure) fewer than two attempts were made. A granted delay
  lies between 0 and the capped exponential ceiling, which never exceeds the class's cap and never
  shrinks as attempts go up; with a server-supplied \<open>Retry-After\<close> it is never shorter than that
  and at most \<open>max 1 base\<close> longer; a refused retry has delay 0.
\<close>

theorem decide_retry_correct:
  assumes "rng_ok r"
  shows "(should_retry (fst (decide_retry fc a m ra r)) \<longleftrightarrow>
            fc \<notin> set TERMINAL_CLASSES \<and> a < m \<and> (fc = UNKNOWN \<longrightarrow> a < 2))
    \<and> (case ra of
         None \<Rightarrow> 0 \<le> rd_backoff_s (fst (decide_retry fc a m ra r))
           \<and> rd_backoff_s (fst (decide_retry fc a m ra r)) \<le> backoff_ceiling fc a
       | Some s \<Rightarrow> should_retry (fst (decide_retry fc a m ra r)) \<longrightarrow>
           s \<le> rd_backoff_s (fst (decide_retry fc a m ra r))
           \<and> rd_backoff_s (fst (decide_retry fc a m ra r)) \<le> s + max 1 (base_s (POLICIES fc)))
    \<and> (\<not> should_retry (fst (decide_retry fc a m ra r)) \<longrightarrow>
         rd_backoff_s (fst (decide_retry fc a m ra r)) = 0)
    \<and> backoff_ceiling fc a \<le> min (cap_s (POLICIES fc)) (backoff_ceiling fc (a + 1))"
  using decide_retry_iff [where fc = fc and a = a and m = m and ra = ra and r = r] decide_retry_delay [where fc = fc and a = a and m = m and ra = ra and r = r]
    backoff_jitter_bounds [OF assms, where fc = fc and a = a]
    backoff_floor_bounds [OF assms, where fc = fc and a = a]
    ceiling_nonneg [of fc a] ceiling_le_cap [of fc a] ceiling_mono [of a "a + 1" fc]
  by (auto split: option.splits)

theorem decide_retry_correct_witness:
  "rng_ok \<lparr>draws = (\<lambda>i. 1 / 2), drawn = 0\<rparr>
   \<and> should_retry (fst (decide_retry RATE_LIMITED 2 5 (Some 7) \<lparr>draws = (\<lambda>i. 1 / 2), drawn = 0\<rparr>))
   \<and> 7 \<le> rd_backoff_s (fst (decide_retry RATE_LIMITED 2 5 (Some 7) \<lparr>draws = (\<lambda>i. 1 / 2), drawn = 0\<rparr>))"
proof -
  have ok: "rng_ok \<lparr>draws = (\<lambda>i. 1 / 2), drawn = 0\<rparr>" by (simp add: rng_ok_def)
  show ?thesis
    using ok decide_retry_correct [OF ok, of RATE_LIMITED 2 5 "Some 7"]
    by (simp add: TERMINAL_CLASSES_def)
qed

end
