(* ===== verification/ToolRuntime.thy ===== *)
theory ToolRuntime
  imports Tools Retry
begin

text \<open>
  \<open>agent/tools.py\<close> and \<open>agent/adapters\<close>: the tool gateway of one attempt, the adapter registry and
  the adapters of the repository. An adapter has no database connection; what its coroutine can do
  is written out as a datatype of programs, and an interpreter runs a program against the gateway.
\<close>

section \<open>Transactions\<close>

text \<open>
  \<open>async with transaction()\<close>: an exception rolls the transaction back and is seen by the caller as
  a Python exception; a normal exit commits.
\<close>

definition db_exc :: "exn \<Rightarrow> exc" where
  "db_exc e = (case e of
     IllegalTransition a b \<Rightarrow> adapter_error (Subclass ''IllegalTransition'' PyException None) [] AttrNone
   | ValueError m \<Rightarrow> adapter_error PyValueError m AttrNone
   | LookupError m \<Rightarrow> adapter_error PyLookupError m AttrNone
   | AssertionError m \<Rightarrow> adapter_error PyAssertionError m AttrNone
   | IntegrityError c \<Rightarrow> adapter_error (Subclass ''IntegrityError'' PyException None) c AttrNone
   | _ \<Rightarrow> adapter_error PyException [] AttrNone)"

definition transaction :: "(db \<Rightarrow> exn + ('a \<times> db)) \<Rightarrow> db \<Rightarrow> (exc + 'a) \<times> db" where
  "transaction f d = (case f d of Inl e \<Rightarrow> (Inl (db_exc e), d) | Inr (x, d') \<Rightarrow> (Inr x, d'))"

text \<open>A transaction with no result of its own.\<close>

definition execute_only :: "(db \<Rightarrow> exn + db) \<Rightarrow> db \<Rightarrow> exn + (unit \<times> db)" where
  "execute_only f d = bindE (f d) (\<lambda>d'. Inr ((), d'))"

text \<open>Several transactions in a row: what the first one committed stays if a later one raises.\<close>

definition and_then :: "('e + 'a) \<times> 's \<Rightarrow> ('a \<Rightarrow> 's \<Rightarrow> ('e + 'b) \<times> 's) \<Rightarrow> ('e + 'b) \<times> 's" where
  "and_then m f = (case m of (Inl e, s) \<Rightarrow> (Inl e, s) | (Inr x, s) \<Rightarrow> f x s)"

lemma and_then_simps [simp]:
  "and_then (Inl e, s) f = (Inl e, s)" "and_then (Inr x, s) f = f x s"
  by (simp_all add: and_then_def)

section \<open>The tool gateway\<close>

fun tool_type_value :: "tool_type \<Rightarrow> string" where
  "tool_type_value SIMULATED = ''SIMULATED''"
| "tool_type_value HTTP = ''HTTP''"

type_synonym tool_invoker = "tool_ref \<Rightarrow> dict \<Rightarrow> exc + dict"

record tool_access =
  ac_policy :: tool_policy
  ac_invoker :: tool_invoker
  on_decision :: "string \<Rightarrow> authz_decision \<Rightarrow> db \<Rightarrow> (exc + unit) \<times> db"
  on_executed :: "tool_ref \<Rightarrow> bool \<Rightarrow> string option \<Rightarrow> db \<Rightarrow> (exc + unit) \<times> db"

text \<open>\<open>f"{type(exc).__name__}: {exc}"\<close>.\<close>

definition exc_text :: "exc \<Rightarrow> string" where
  "exc_text e = class_name (exc_cls e) @ '': '' @ exc_msg e"

definition reason_value :: "authz_decision \<Rightarrow> string" where
  "reason_value dec = (case decision_reason dec of Some r \<Rightarrow> deny_value r | None \<Rightarrow> ''denied'')"

definition denial :: "string \<Rightarrow> authz_decision \<Rightarrow> exc" where
  "denial tool_name dec = adapter_error PermissionDenied
     (''agent is not permitted to use tool '' @ py_repr tool_name @ '' ('' @ reason_value dec @ '')'') AttrNone"

definition access_call :: "tool_access \<Rightarrow> string \<Rightarrow> dict \<Rightarrow> db \<Rightarrow> (exc + dict) \<times> db" where
  "access_call acc tool_name request d =
     (let decision = authorize (ac_policy acc) tool_name in
      and_then (on_decision acc tool_name decision d) (\<lambda>_ d1.
        if \<not> allowed decision then (Inl (denial tool_name decision), d1)
        else case decision_tool decision of
          None \<Rightarrow> (Inl (adapter_error PyAssertionError [] AttrNone), d1)
        | Some t \<Rightarrow>
            (case ac_invoker acc t request of
               Inl e \<Rightarrow> and_then (on_executed acc t False (Some (exc_text e)) d1) (\<lambda>_ d2. (Inl e, d2))
             | Inr result \<Rightarrow> and_then (on_executed acc t True None d1) (\<lambda>_ d2. (Inr result, d2)))))"

definition unbound_denial :: exc where
  "unbound_denial = adapter_error PermissionDenied
     ''no tool policy is bound; tools may only be called from inside a task attempt'' AttrNone"

text \<open>The context variable is an argument: \<open>None\<close> outside an attempt.\<close>

definition call_tool :: "tool_access option \<Rightarrow> string \<Rightarrow> dict \<Rightarrow> db \<Rightarrow> (exc + dict) \<times> db" where
  "call_tool current tool_name request d =
     (case current of None \<Rightarrow> (Inl unbound_denial, d) | Some acc \<Rightarrow> access_call acc tool_name request d)"

definition simulated_invoker :: tool_invoker where
  "simulated_invoker t request =
     Inr [(''tool'', JStr (tr_name t)), (''type'', JStr (tool_type_value (tr_tool_type t))),
          (''request'', JObj request)]"

section \<open>Adapters\<close>

text \<open>
  What the coroutine \<open>Adapter.run\<close> may do between being called and returning a result or raising:
  call a tool (and see its result or exception), poll \<open>is_cancelled\<close>, sleep, draw from
  \<open>random.random()\<close>.
\<close>

datatype program =
    Return dict
  | Raise exc
  | CallTool string dict "exc + dict \<Rightarrow> program"
  | Poll "bool \<Rightarrow> program"
  | Sleep rat program
  | Draw "rat \<Rightarrow> program"

type_synonym adapter = "dict \<Rightarrow> program"

text \<open>
  Running a program: the answers of the successive polls and the successive random draws are given;
  the result is what \<open>run\<close> returns or raises, the seconds slept and the database.
\<close>

primrec run_program ::
  "program \<Rightarrow> tool_access option \<Rightarrow> (nat \<Rightarrow> bool) \<Rightarrow> (nat \<Rightarrow> rat) \<Rightarrow> db \<Rightarrow> ((exc + dict) \<times> rat) \<times> db" where
  "run_program (Return r) acc polls rands d = ((Inr r, 0), d)"
| "run_program (Raise e) acc polls rands d = ((Inl e, 0), d)"
| "run_program (CallTool n req k) acc polls rands d =
     (let (res, d1) = call_tool acc n req d in run_program (k res) acc polls rands d1)"
| "run_program (Poll k) acc polls rands d =
     run_program (k (polls 0)) acc (\<lambda>n. polls (Suc n)) rands d"
| "run_program (Sleep s p) acc polls rands d =
     (let ((res, t), d1) = run_program p acc polls rands d in ((res, s + t), d1))"
| "run_program (Draw k) acc polls rands d =
     run_program (k (rands 0)) acc polls (\<lambda>n. rands (Suc n)) d"

text \<open>An \<open>AdapterRegistry\<close> is its dict of factories; a factory call builds the adapter.\<close>

type_synonym registry = "string \<Rightarrow> adapter option"

definition new_registry :: registry where
  "new_registry = Map.empty"

definition register_adapter :: "string \<Rightarrow> adapter \<Rightarrow> registry \<Rightarrow> registry" where
  "register_adapter ty factory reg = reg(ty \<mapsto> factory)"

definition unknown_task_type :: "string \<Rightarrow> exc" where
  "unknown_task_type ty = adapter_error UnknownTaskType
     (''no adapter registered for task_type='' @ py_repr ty) AttrNone"

definition get_adapter :: "registry \<Rightarrow> string \<Rightarrow> exc + adapter" where
  "get_adapter reg ty = (case reg ty of None \<Rightarrow> Inl (unknown_task_type ty) | Some a \<Rightarrow> Inr a)"

section \<open>The adapters of the repository\<close>

definition EchoAdapter :: adapter where
  "EchoAdapter pl = Return [(''echo'', JObj pl)]"

definition AlwaysFailAdapter :: adapter where
  "AlwaysFailAdapter pl = Raise (adapter_error Retryable ''demo.fail always fails'' AttrNone)"

definition PermanentFailAdapter :: adapter where
  "PermanentFailAdapter pl =
     Raise (adapter_error PermanentFailure ''demo.permanent will never succeed'' AttrNone)"

definition type_error :: exc where
  "type_error = adapter_error PyTypeError [] AttrNone"

definition value_error :: exc where
  "value_error = adapter_error PyValueError [] AttrNone"

text \<open>A number, as arithmetic sees a value: a bool is 0 or 1.\<close>

fun num_of :: "json \<Rightarrow> rat option" where
  "num_of (JNum x) = Some x"
| "num_of (JBool b) = Some (if b then 1 else 0)"
| "num_of _ = None"

text \<open>
  The elements \<open>low, high = value\<close> unpacks: those of a list, the characters of a string, the keys
  of a dict; another value is not iterable.
\<close>

fun iter_json :: "json \<Rightarrow> json list option" where
  "iter_json (JArr xs) = Some xs"
| "iter_json (JStr s) = Some (map (\<lambda>c. JStr [c]) s)"
| "iter_json (JObj kvs) = Some (map (\<lambda>kv. JStr (fst kv)) kvs)"
| "iter_json _ = None"

text \<open>\<open>round(x, 2)\<close>: to the nearest hundredth, a tie to the even one.\<close>

definition round2 :: "rat \<Rightarrow> rat" where
  "round2 x = (let y = 100 * x; f = \<lfloor>y\<rfloor>; r = y - of_int f;
                   n = (if r < 1 / 2 then f else if 1 / 2 < r then f + 1 else if even f then f else f + 1)
               in of_int n / 100)"

text \<open>The sleep in slices of 0.1 s, each preceded by a poll, until the duration has elapsed.\<close>

function slow_sleep :: "rat \<Rightarrow> rat \<Rightarrow> program \<Rightarrow> program" where
  "slow_sleep duration elapsed done =
     (if elapsed < duration
      then Poll (\<lambda>c. if c then done
                 else Sleep (min (1 / 10) (duration - elapsed)) (slow_sleep duration (elapsed + 1 / 10) done))
      else done)"
  by auto
termination
proof (relation "measure (\<lambda>(d, e, p). nat \<lceil>10 * (d - e)\<rceil>)")
  fix d e :: rat and p :: program and c :: bool
  assume "e < d"
  then have "\<lceil>10 * (d - (e + 1 / 10))\<rceil> = \<lceil>10 * (d - e)\<rceil> - 1" "0 < \<lceil>10 * (d - e)\<rceil>"
    by (simp_all add: algebra_simps flip: ceiling_diff_one) linarith?
  then show "((d, e + 1 / 10, p), d, e, p) \<in> measure (\<lambda>(d, e, p). nat \<lceil>10 * (d - e)\<rceil>)"
    by simp
qed simp

declare slow_sleep.simps [simp del]

definition SlowAdapter :: adapter where
  "SlowAdapter pl =
     (case iter_json (dict_get pl ''duration_s'' (JArr [JNum 1, JNum 4])) of
        None \<Rightarrow> Raise type_error
      | Some [lo, hi] \<Rightarrow>
          (case (num_of lo, num_of hi) of
             (Some a, Some b) \<Rightarrow> Draw (\<lambda>u. let duration = a + (b - a) * u in
               slow_sleep duration 0 (Return [(''slept_s'', JNum (round2 duration))]))
           | _ \<Rightarrow> Raise type_error)
      | Some _ \<Rightarrow> Raise value_error)"

text \<open>
  \<open>float(payload.get("retry_after", 5))\<close>. Reading a float from text is the standard library's:
  \<open>float_of\<close> gives the number a text denotes, \<open>None\<close> where \<open>float\<close> raises.
\<close>

definition RateLimitedAdapter :: "(string \<Rightarrow> rat option) \<Rightarrow> adapter" where
  "RateLimitedAdapter float_of pl =
     (let v = dict_get pl ''retry_after'' (JNum 5);
          limited = (\<lambda>x. Raise (adapter_error RateLimited ''demo.rate_limited'' (AttrNum x)))
      in case v of
           JStr s \<Rightarrow> (case float_of s of None \<Rightarrow> Raise value_error | Some x \<Rightarrow> limited x)
         | _ \<Rightarrow> (case num_of v of None \<Rightarrow> Raise type_error | Some x \<Rightarrow> limited x))"

text \<open>\<open>v * 2\<close>: a number doubled, a string or a list repeated, a \<open>TypeError\<close> otherwise.\<close>

fun twice :: "json \<Rightarrow> json option" where
  "twice (JNum x) = Some (JNum (2 * x))"
| "twice (JBool b) = Some (JNum (if b then 2 else 0))"
| "twice (JStr s) = Some (JStr (s @ s))"
| "twice (JArr xs) = Some (JArr (xs @ xs))"
| "twice _ = None"

definition ValidatingAdapter :: adapter where
  "ValidatingAdapter pl =
     (case map_of pl ''n'' of
        None \<Rightarrow> Raise (adapter_error InvalidInput (''payload requires an '' @ py_repr ''n'' @ '' field'') AttrNone)
      | Some v \<Rightarrow> (case twice v of None \<Rightarrow> Raise type_error
                   | Some w \<Rightarrow> Return [(''n'', v), (''doubled'', w)]))"

text \<open>
  The loop of \<open>ToolCallingAdapter\<close> over the tool names of its payload; an exception of a call is not
  caught. A tool name is a string here: an element of another type ends the loop with a \<open>TypeError\<close>.
\<close>

fun call_each :: "json list \<Rightarrow> dict \<Rightarrow> json list \<Rightarrow> program" where
  "call_each [] request results = Return [(''tool_results'', JArr (rev results))]"
| "call_each (JStr n # ns) request results =
     CallTool n request (\<lambda>res. case res of Inl e \<Rightarrow> Raise e | Inr r \<Rightarrow> call_each ns request (JObj r # results))"
| "call_each (_ # ns) request results = Raise type_error"

definition ToolCallingAdapter :: adapter where
  "ToolCallingAdapter pl =
     (case iter_json (dict_get pl ''tools'' (JArr [])) of
        None \<Rightarrow> Raise type_error
      | Some ns \<Rightarrow> call_each ns [(''task'', dict_get pl ''topic'' JNull)] [])"

definition register_demo_adapters :: "(string \<Rightarrow> rat option) \<Rightarrow> registry \<Rightarrow> registry" where
  "register_demo_adapters float_of reg =
     register_adapter ''demo.validate'' ValidatingAdapter
     (register_adapter ''demo.permanent'' PermanentFailAdapter
     (register_adapter ''demo.rate_limited'' (RateLimitedAdapter float_of)
     (register_adapter ''demo.fail'' AlwaysFailAdapter
     (register_adapter ''demo.slow'' SlowAdapter
     (register_adapter ''demo.agent'' EchoAdapter reg)))))"

definition register_tool_adapters :: "registry \<Rightarrow> registry" where
  "register_tool_adapters reg = register_adapter ''demo.tools'' ToolCallingAdapter reg"

section \<open>The recorder interface\<close>

text \<open>
  What the gateway needs from the worker's two callbacks: on any database on which \<open>ok\<close> holds they
  return, keep \<open>ok\<close> and leave the tasks and the attempts alone. Then so does a whole run of any
  adapter, and what a tool call answers is decided by the policy and the tool alone.
\<close>

definition quiet :: "(db \<Rightarrow> bool) \<Rightarrow> db \<Rightarrow> db \<Rightarrow> bool" where
  "quiet ok d d' \<longleftrightarrow> ok d' \<and> tasks d' = tasks d \<and> task_attempts d' = task_attempts d
     \<and> workers d' = workers d \<and> now d' = now d"

lemma quiet_refl: "ok d \<Longrightarrow> quiet ok d d"
  by (simp add: quiet_def)

lemma quiet_trans: "quiet ok d d1 \<Longrightarrow> quiet ok d1 d2 \<Longrightarrow> quiet ok d d2"
  by (simp add: quiet_def)

locale attempt_recorder =
  fixes ok :: "db \<Rightarrow> bool"
    and decided :: "string \<Rightarrow> authz_decision \<Rightarrow> db \<Rightarrow> (exc + unit) \<times> db"
    and executed :: "tool_ref \<Rightarrow> bool \<Rightarrow> string option \<Rightarrow> db \<Rightarrow> (exc + unit) \<times> db"
  assumes decided_ok: "ok d \<Longrightarrow> \<exists>d'. decided n x d = (Inr (), d') \<and> quiet ok d d'"
    and executed_ok: "ok d \<Longrightarrow> \<exists>d'. executed t b m d = (Inr (), d') \<and> quiet ok d d'"
begin

lemma call_ok:
  assumes "ok d" and "on_decision acc = decided" "on_executed acc = executed"
  obtains d' where "access_call acc n req d =
      (if allowed (authorize (ac_policy acc) n)
       then ac_invoker acc (the (decision_tool (authorize (ac_policy acc) n))) req
       else Inl (denial n (authorize (ac_policy acc) n)), d')" "quiet ok d d'"
proof -
  let ?dec = "authorize (ac_policy acc) n"
  obtain d1 where d1: "decided n ?dec d = (Inr (), d1)" "quiet ok d d1"
    using decided_ok [OF assms(1)] by blast
  show thesis
  proof (cases "allowed ?dec")
    case False
    show thesis by (rule that [OF _ d1(2)]) (simp add: access_call_def assms d1 False)
  next
    case True
    obtain t where t: "decision_tool ?dec = Some t" using authorize_allowed_tool [OF True] by blast
    have ok1: "ok d1" using d1(2) by (simp add: quiet_def)
    show thesis
    proof (cases "ac_invoker acc t req")
      case (Inl e)
      obtain d2 where d2: "executed t False (Some (exc_text e)) d1 = (Inr (), d2)" "quiet ok d1 d2"
        using executed_ok [OF ok1] by blast
      show thesis by (rule that [OF _ quiet_trans [OF d1(2) d2(2)]])
        (simp add: access_call_def assms d1 True t Inl d2)
    next
      case (Inr r)
      obtain d2 where d2: "executed t True None d1 = (Inr (), d2)" "quiet ok d1 d2"
        using executed_ok [OF ok1] by blast
      show thesis by (rule that [OF _ quiet_trans [OF d1(2) d2(2)]])
        (simp add: access_call_def assms d1 True t Inr d2)
    qed
  qed
qed

lemma program_quiet:
  assumes "on_decision acc = decided" "on_executed acc = executed"
  shows "ok d \<Longrightarrow> quiet ok d (snd (run_program p (Some acc) polls rands d))"
proof (induction p arbitrary: polls rands d)
  case (CallTool n req k)
  obtain res d1 where c: "access_call acc n req d = (res, d1)" "quiet ok d d1"
    by (rule call_ok [OF CallTool.prems assms]) blast
  have "ok d1" using c(2) by (simp add: quiet_def)
  from CallTool.IH [OF _ this] quiet_trans [OF c(2)] show ?case
    by (simp add: call_tool_def c(1))
qed (simp_all add: quiet_refl case_prod_beta)

end

section \<open>Properties\<close>

text \<open>
  C20. Tools are reached only through the policy. Two tool implementations that agree on the active
  tools granted to a live version are indistinguishable to every adapter, whatever it does with
  refusals: same result, same time, same database. And with no gateway bound (outside an attempt)
  no adapter program changes anything.
\<close>

theorem only_granted_tools_run:
  assumes "\<And>n t req. \<not> version_disabled (ac_policy acc) \<Longrightarrow> tp_agent_version_id (ac_policy acc) \<noteq> None \<Longrightarrow>
      tools_by_name (ac_policy acc) n = Some t \<Longrightarrow> tr_status t = TOOL_ACTIVE \<Longrightarrow>
      tr_id t \<in> set (granted_tool_ids (ac_policy acc)) \<Longrightarrow> f t req = g t req"
  shows "run_program p (Some (acc\<lparr>ac_invoker := f\<rparr>)) polls rands d =
      run_program p (Some (acc\<lparr>ac_invoker := g\<rparr>)) polls rands d
    \<and> snd (run_program p None polls rands d) = d"
proof
  have call: "access_call (acc\<lparr>ac_invoker := f\<rparr>) n req d = access_call (acc\<lparr>ac_invoker := g\<rparr>) n req d" for n req d
  proof (cases "allowed (authorize (ac_policy acc) n)")
    case False
    then show ?thesis by (simp add: access_call_def)
  next
    case True
    then obtain t where t: "decision_tool (authorize (ac_policy acc) n) = Some t"
      "tools_by_name (ac_policy acc) n = Some t" using authorize_allowed_tool by blast
    with True have "f t req = g t req" using assms [of n t req] by (simp add: authorize_allowed_iff)
    with t True show ?thesis by (simp add: access_call_def Let_def cong: sum.case_cong)
  qed
  show "run_program p (Some (acc\<lparr>ac_invoker := f\<rparr>)) polls rands d =
      run_program p (Some (acc\<lparr>ac_invoker := g\<rparr>)) polls rands d"
    by (induction p arbitrary: polls rands d) (simp_all add: call_tool_def call split: prod.splits)
  show "snd (run_program p None polls rands d) = d"
    by (induction p arbitrary: polls rands) (simp_all add: call_tool_def case_prod_beta)
qed

lemma run_slow_sleep:
  "\<exists>t. run_program (slow_sleep D e (Return r)) acc polls rands d = ((Inr r, t), d)
     \<and> 0 \<le> t \<and> t \<le> max 0 (D - e) \<and> ((\<forall>n. \<not> polls n) \<longrightarrow> t = max 0 (D - e))
     \<and> (\<forall>k. polls k \<longrightarrow> t \<le> of_nat k / 10)"
proof (induction D e "Return r" arbitrary: polls rule: slow_sleep.induct)
  case (1 D e)
  let ?run = "\<lambda>p polls. run_program p acc polls rands d"
  show ?case
  proof (cases "e < D \<and> \<not> polls 0")
    case False
    then have "?run (slow_sleep D e (Return r)) polls = ((Inr r, 0), d)"
      by (subst slow_sleep.simps) auto
    moreover have "(\<forall>n. \<not> polls n) \<longrightarrow> 0 = max 0 (D - e)" using False by auto
    ultimately show ?thesis by auto
  next
    case True
    let ?s = "min (1 / 10) (D - e)"
    obtain t where t: "?run (slow_sleep D (e + 1 / 10) (Return r)) (\<lambda>n. polls (Suc n)) = ((Inr r, t), d)"
      "0 \<le> t" "t \<le> max 0 (D - (e + 1 / 10))"
      "(\<forall>n. \<not> polls (Suc n)) \<longrightarrow> t = max 0 (D - (e + 1 / 10))"
      "\<And>k. polls (Suc k) \<Longrightarrow> t \<le> of_nat k / 10"
      using 1 [OF conjunct1 [OF True], of "polls 0" "\<lambda>n. polls (Suc n)"] True by auto
    have run: "?run (slow_sleep D e (Return r)) polls = ((Inr r, ?s + t), d)"
      using True t(1) by (subst slow_sleep.simps) simp
    have "?s + t \<le> of_nat k / 10" if "polls k" for k
    proof (cases k)
      case 0
      with that True show ?thesis by simp
    next
      case (Suc j)
      with that t(5) [of j] show ?thesis by (simp add: field_simps min_def)
    qed
    moreover have "0 \<le> ?s + t" "?s + t \<le> max 0 (D - e)" using t(2,3) True by (auto simp: min_def max_def)
    moreover have "?s + t = max 0 (D - e)" if "\<forall>n. \<not> polls n"
      using t(4) that True by (auto simp: min_def max_def)
    ultimately show ?thesis using run by blast
  qed
qed

text \<open>
  The slow adapter returns on every poll sequence. With a well-formed duration range it sleeps
  exactly the drawn duration when never cancelled, never longer, and at most a tenth of a second
  per poll before the first that answers yes; and it never touches the database.
\<close>

theorem slow_adapter_cooperative:
  assumes "dict_get pl ''duration_s'' (JArr [JNum 1, JNum 4]) = JArr [JNum lo, JNum hi]" and "0 \<le> lo" "lo \<le> hi"
    and "\<And>n. 0 \<le> rands n \<and> rands n < 1"
  shows "\<exists>t. run_program (SlowAdapter pl) acc polls rands d =
      ((Inr [(''slept_s'', JNum (round2 (lo + (hi - lo) * rands 0)))], t), d)
    \<and> t \<le> hi \<and> ((\<forall>n. \<not> polls n) \<longrightarrow> t = lo + (hi - lo) * rands 0)
    \<and> (\<forall>k. polls k \<longrightarrow> t \<le> of_nat k / 10)"
proof -
  let ?D = "lo + (hi - lo) * rands 0"
  have D: "0 \<le> ?D" "?D \<le> hi"
  proof -
    have "0 \<le> (hi - lo) * rands 0" "(hi - lo) * rands 0 \<le> (hi - lo) * 1"
      using assms(3,4) by (simp_all add: mult_left_le less_imp_le)
    then show "0 \<le> ?D" "?D \<le> hi" using assms(2) by simp_all
  qed
  have "SlowAdapter pl = Draw (\<lambda>u. slow_sleep (lo + (hi - lo) * u) 0
      (Return [(''slept_s'', JNum (round2 (lo + (hi - lo) * u)))]))"
    using assms(1) by (simp add: SlowAdapter_def Let_def)
  then show ?thesis
    using run_slow_sleep [of ?D 0 "[(''slept_s'', JNum (round2 ?D))]" acc polls "\<lambda>n. rands (Suc n)" d] D
    by (auto simp: Let_def)
qed

theorem slow_adapter_cooperative_witness:
  "\<exists>t. run_program (SlowAdapter []) None (\<lambda>n. n = 3) (\<lambda>_. 1 / 2) demo_db =
     ((Inr [(''slept_s'', JNum (round2 (5 / 2)))], t), demo_db) \<and> t \<le> 3 / 10"
  using slow_adapter_cooperative [of "[]" 1 4 "\<lambda>_. 1 / 2" None "\<lambda>n. n = 3" demo_db]
  by (auto simp: dict_get_def)

text \<open>A gateway whose version has no grant: every implementation of its tools looks the same.\<close>

definition demo_access :: "tool_invoker \<Rightarrow> tool_access" where
  "demo_access f = \<lparr>ac_policy = \<lparr>tp_agent_version_id = Some 4, granted_tool_ids = [],
     tools_by_name = tools_of_tenant demo_tools 1, version_disabled = False\<rparr>, ac_invoker = f,
     on_decision = (\<lambda>_ _ d. (Inr (), d)), on_executed = (\<lambda>_ _ _ d. (Inr (), d))\<rparr>"

theorem only_granted_tools_run_witness:
  "run_program (ToolCallingAdapter [(''tools'', JArr [JStr ''search''])]) (Some (demo_access simulated_invoker))
     (\<lambda>_. False) (\<lambda>_. 0) demo_tools =
   run_program (ToolCallingAdapter [(''tools'', JArr [JStr ''search''])]) (Some (demo_access (\<lambda>_ _. Inl type_error)))
     (\<lambda>_. False) (\<lambda>_. 0) demo_tools"
proof -
  have "demo_access simulated_invoker = (demo_access (\<lambda>_ _. Inl type_error))\<lparr>ac_invoker := simulated_invoker\<rparr>"
    "demo_access (\<lambda>_ _. Inl type_error) = (demo_access (\<lambda>_ _. Inl type_error))\<lparr>ac_invoker := \<lambda>_ _. Inl type_error\<rparr>"
    by (simp_all add: demo_access_def)
  then show ?thesis
    using only_granted_tools_run [of "demo_access (\<lambda>_ _. Inl type_error)" simulated_invoker "\<lambda>_ _. Inl type_error"]
    by (metis (no_types, lifting) demo_access_def empty_iff list.set(1) tool_access.select_convs(1) tool_policy.select_convs(2))
qed

end
