(* ===== verification/WorkerLoop.thy ===== *)
theory WorkerLoop
  imports ToolRuntime Completion Claim Workers
begin

text \<open>
  \<open>worker/loop.py\<close>: the worker process. Its state is a record; each part of the loop, and each of
  the transactions an attempt makes (tool decisions, renewals, the final transition), is a function
  on that record and the database. What other processes commit in between is an argument.
\<close>

section \<open>Process state\<close>

text \<open>A counter increment: the metric's name and its labels.\<close>

type_synonym metric = "string \<times> (string \<times> string) list"

text \<open>A scheduled \<open>_run_attempt\<close>: its row, its policy.\<close>

record attempt_job =
  job_row :: task
  job_policy :: tool_policy

record worker_proc =
  wp_settings :: settings
  wp_registry :: registry
  wp_capacity :: int
  wp_claim_policy :: claim_policy
  wp_id :: string
  wp_rng :: rng
  wp_invoker :: tool_invoker
  wp_capabilities :: "string list"
  stopping :: bool
  inflight :: "attempt_job list"
  wp_last_heartbeat :: "time option"
  owned :: "(uuid \<times> int) list"
  fenced :: bool

definition new_worker ::
  "settings \<Rightarrow> registry \<Rightarrow> int \<Rightarrow> claim_policy \<Rightarrow> string \<Rightarrow> rng \<Rightarrow> tool_invoker option
   \<Rightarrow> string list option \<Rightarrow> worker_proc" where
  "new_worker s reg cap pol wid r ti caps =
     \<lparr>wp_settings = s, wp_registry = reg, wp_capacity = cap, wp_claim_policy = pol, wp_id = wid,
      wp_rng = r, wp_invoker = (case ti of None \<Rightarrow> simulated_invoker | Some f \<Rightarrow> f),
      wp_capabilities = (case caps of None \<Rightarrow> settings_capabilities s
        | Some cs \<Rightarrow> sorted_set (map (\<lambda>c. py_lower (py_strip c)) (filter (\<lambda>c. py_strip c \<noteq> []) cs))),
      stopping = False, inflight = [], wp_last_heartbeat = None, owned = [], fenced = False\<rparr>"

definition register :: "string \<Rightarrow> int \<Rightarrow> worker_proc \<Rightarrow> db \<Rightarrow> (exc + worker) \<times> db" where
  "register host p wp d =
     transaction (register_worker (wp_id wp) host p (wp_capacity wp) (wp_capabilities wp)) d"

definition stop :: "worker_proc \<Rightarrow> worker_proc" where
  "stop wp = wp\<lparr>stopping := True\<rparr>"

section \<open>The claim loop\<close>

definition maybe_heartbeat :: "time \<Rightarrow> worker_proc \<Rightarrow> db \<Rightarrow> worker_proc \<times> db" where
  "maybe_heartbeat monotonic wp d =
     (if (case wp_last_heartbeat wp of None \<Rightarrow> False
          | Some l \<Rightarrow> monotonic - l < of_int (heartbeat_interval_s (wp_settings wp)))
      then (wp, d)
      else let wp1 = wp\<lparr>wp_last_heartbeat := Some monotonic\<rparr>;
               (alive, d1) = heartbeat (wp_id wp) d
           in if alive then (wp1, d1) else (wp1\<lparr>fenced := True, stopping := True\<rparr>, d1))"

text \<open>The claim and the policy snapshot share one transaction.\<close>

definition claim_with_policies ::
  "worker_proc \<Rightarrow> int \<Rightarrow> uuid list \<Rightarrow> db \<Rightarrow> exn + (attempt_job list \<times> db)" where
  "claim_with_policies wp limit locked d =
     bindE (claim_tasks (wp_id wp) (min limit (claim_batch_size (wp_settings wp)))
              (lease_ttl_s (wp_settings wp)) (wp_claim_policy wp) (wp_capabilities wp) locked d) (\<lambda>(claimed, d1).
       let policies = snapshot_policies (map t_agent_version_id claimed) d1
       in Inr (map (\<lambda>row. \<lparr>job_row = row, job_policy = policy_for policies (t_agent_version_id row)\<rparr>) claimed, d1))"

definition claim_and_dispatch ::
  "int \<Rightarrow> uuid list \<Rightarrow> worker_proc \<Rightarrow> db \<Rightarrow> (exc + worker_proc) \<times> db" where
  "claim_and_dispatch limit locked wp d =
     and_then (transaction (claim_with_policies wp limit locked) d) (\<lambda>jobs d1.
       (Inr (wp\<lparr>inflight := inflight wp @ jobs\<rparr>), d1))"

text \<open>\<open>finished\<close>: the jobs whose asyncio task is done by now.\<close>

definition harvest :: "(attempt_job \<Rightarrow> bool) \<Rightarrow> worker_proc \<Rightarrow> worker_proc" where
  "harvest finished wp = wp\<lparr>inflight := filter (\<lambda>j. \<not> finished j) (inflight wp)\<rparr>"

text \<open>One iteration of \<open>run_forever\<close>'s loop, up to its \<open>asyncio.wait\<close>.\<close>

definition loop_body ::
  "time \<Rightarrow> uuid list \<Rightarrow> (attempt_job \<Rightarrow> bool) \<Rightarrow> worker_proc \<Rightarrow> db \<Rightarrow> (exc + worker_proc) \<times> db" where
  "loop_body monotonic locked finished wp d =
     (let (wp1, d1) = maybe_heartbeat monotonic wp d in
      if stopping wp1 then (Inr wp1, d1)
      else let free = wp_capacity wp1 - int (length (inflight wp1)) in
           and_then (if free > 0 then claim_and_dispatch free locked wp1 d1 else (Inr wp1, d1)) (\<lambda>wp2 d2.
             (Inr (harvest finished wp2), d2)))"

section \<open>Tool access of an attempt\<close>

definition str_opt_uuid :: "uuid option \<Rightarrow> string" where
  "str_opt_uuid v = (case v of None \<Rightarrow> ''None'' | Some u \<Rightarrow> uuid_str u)"

definition attempt_event ::
  "string \<Rightarrow> task \<Rightarrow> event_type \<Rightarrow> dict \<Rightarrow> db \<Rightarrow> (exc + unit) \<times> db" where
  "attempt_event wid row et data d =
     transaction (execute_only (record_event (t_id row) et (Some (t_attempt row)) (Some wid) data)) d"

definition denial_audit :: "task \<Rightarrow> tool_policy \<Rightarrow> string \<Rightarrow> string \<Rightarrow> audit_record" where
  "denial_audit row pol tool_name why =
     \<lparr>ar_tenant_id = t_tenant_id row, ar_action = ''TOOL_ACCESS_DENIED'', ar_resource_type = ''task'',
      ar_outcome = ''DENIED'', ar_resource_id = Some (t_id row),
      ar_actor = ''agent_version:'' @ str_opt_uuid (tp_agent_version_id pol),
      ar_data = [(''tool'', JStr tool_name), (''reason'', JStr why),
                 (''attempt'', JNum (of_int (t_attempt row)))]\<rparr>"

definition access_decided ::
  "string \<Rightarrow> task \<Rightarrow> tool_policy \<Rightarrow> string \<Rightarrow> authz_decision \<Rightarrow> db \<Rightarrow> (exc + unit) \<times> db" where
  "access_decided wid row pol tool_name dec d =
     (if allowed dec
      then attempt_event wid row TOOL_ACCESS_ALLOWED [(''tool'', JStr tool_name)] d
      else let why = reason_value dec in
           and_then (attempt_event wid row TOOL_ACCESS_DENIED
                       [(''tool'', JStr tool_name), (''reason'', JStr why)] d) (\<lambda>_ d1.
             (Inr (), record_audit_independently (denial_audit row pol tool_name why) d1)))"

definition access_executed ::
  "string \<Rightarrow> task \<Rightarrow> tool_ref \<Rightarrow> bool \<Rightarrow> string option \<Rightarrow> db \<Rightarrow> (exc + unit) \<times> db" where
  "access_executed wid row t success err d =
     attempt_event wid row (if success then TOOL_EXECUTED else TOOL_EXECUTION_FAILED)
       [(''tool'', JStr (tr_name t)), (''error'', case err of None \<Rightarrow> JNull | Some m \<Rightarrow> JStr m)] d"

definition tool_access_of :: "worker_proc \<Rightarrow> task \<Rightarrow> tool_policy \<Rightarrow> tool_access" where
  "tool_access_of wp row pol =
     \<lparr>ac_policy = pol, ac_invoker = wp_invoker wp, on_decision = access_decided (wp_id wp) row pol,
      on_executed = access_executed (wp_id wp) row\<rparr>"

section \<open>One attempt\<close>

datatype attempt_result = Attempt_succeeded dict | Attempt_failed exc

text \<open>
  \<open>_execute\<close> strips the trace carrier and turns an exception of the adapter into data; an unknown
  task type fails the attempt the same way.
\<close>

definition execute_adapter ::
  "adapter \<Rightarrow> task \<Rightarrow> tool_access option \<Rightarrow> (nat \<Rightarrow> bool) \<Rightarrow> (nat \<Rightarrow> rat) \<Rightarrow> db \<Rightarrow> attempt_result \<times> db" where
  "execute_adapter adapter row acc polls rands d =
     (let ((res, t), d1) = run_program (adapter (dict_del ''_trace'' (payload row))) acc polls rands d
      in (case res of Inl e \<Rightarrow> Attempt_failed e | Inr r \<Rightarrow> Attempt_succeeded r, d1))"

definition attempt_body ::
  "worker_proc \<Rightarrow> attempt_job \<Rightarrow> (nat \<Rightarrow> bool) \<Rightarrow> (nat \<Rightarrow> rat) \<Rightarrow> db \<Rightarrow> attempt_result \<times> db" where
  "attempt_body wp job polls rands d =
     (case get_adapter (wp_registry wp) (task_type (job_row job)) of
        Inl e \<Rightarrow> (Attempt_failed e, d)
      | Inr adapter \<Rightarrow> execute_adapter adapter (job_row job)
          (Some (tool_access_of wp (job_row job) (job_policy job))) polls rands d)"

text \<open>
  The renewal loop over the intervals that elapse before it is stopped; \<open>env\<close> is what the rest of
  the world commits during each. It returns the cancellation flag.
\<close>

fun renew_until_stopped ::
  "(db \<Rightarrow> db) list \<Rightarrow> worker_proc \<Rightarrow> uuid \<Rightarrow> int \<Rightarrow> bool \<Rightarrow> db \<Rightarrow> (exc + bool) \<times> db" where
  "renew_until_stopped [] wp i attempt cancelled d = (Inr cancelled, d)"
| "renew_until_stopped (env # envs) wp i attempt cancelled d =
     and_then (transaction (renew_lease i (wp_id wp) attempt (lease_ttl_s (wp_settings wp))) (env d)) (\<lambda>row d1.
       case row of
         None \<Rightarrow> (Inr True, d1)
       | Some (cancel, _) \<Rightarrow> renew_until_stopped envs wp i attempt (cancelled \<or> cancel) d1)"

definition retry_verdict ::
  "rng \<Rightarrow> int \<Rightarrow> int \<Rightarrow> attempt_result \<Rightarrow> retry_decision option \<times> rng" where
  "retry_verdict r attempt max_att res =
     (case res of
        Attempt_succeeded _ \<Rightarrow> (None, r)
      | Attempt_failed e \<Rightarrow>
          (let (dec, r1) = decide_retry (classify e) attempt max_att (retry_after_of e) r in (Some dec, r1)))"

definition choose_completion :: "bool \<Rightarrow> attempt_result \<Rightarrow> retry_decision option \<Rightarrow> completion" where
  "choose_completion cancel res dec =
     (if cancel then Cancelled
      else case res of
        Attempt_succeeded result \<Rightarrow> Success result
      | Attempt_failed e \<Rightarrow>
          (case dec of
             Some v \<Rightarrow> if should_retry v then Retry (failure_value (classify e)) (exc_text e) (rd_backoff_s v)
                       else Failed (failure_value (classify e)) (exc_text e)
           | None \<Rightarrow> Failed (failure_value (classify e)) (exc_text e)))"

definition attempt_finished :: "string \<Rightarrow> string \<Rightarrow> metric" where
  "attempt_finished ty out = (''task_attempts_finished'', [(''task_type'', ty), (''outcome'', out)])"

definition task_terminal :: "string \<Rightarrow> string \<Rightarrow> metric" where
  "task_terminal ty st = (''tasks_terminal'', [(''task_type'', ty), (''state'', st)])"

definition record_outcome :: "string \<Rightarrow> attempt_result \<Rightarrow> bool \<Rightarrow> retry_decision option \<Rightarrow> metric list" where
  "record_outcome ty res cancel dec =
     (let counted = (\<lambda>s. [attempt_finished ty s, task_terminal ty s]) in
      if cancel then counted ''CANCELLED''
      else case res of
        Attempt_succeeded _ \<Rightarrow> counted ''SUCCEEDED''
      | Attempt_failed e \<Rightarrow>
          if (case dec of None \<Rightarrow> False | Some v \<Rightarrow> should_retry v)
          then [(''tasks_retried'', [(''task_type'', ty), (''error_class'', failure_value (classify e))]),
                attempt_finished ty ''FAILED'']
          else counted ''FAILED'')"

definition stale_write :: "string \<Rightarrow> metric" where
  "stale_write rej = (''stale_writes_rejected'', [(''rejection'', rej)])"

definition operation_name :: "attempt_result \<Rightarrow> string" where
  "operation_name res = (case res of Attempt_succeeded _ \<Rightarrow> ''succeeded'' | Attempt_failed _ \<Rightarrow> ''failed'')"

text \<open>
  \<open>_finalize\<close>: one completion in its transaction; a refused one is recorded in a transaction of its
  own, whose failure is swallowed.
\<close>

definition finalize ::
  "string \<Rightarrow> rng \<Rightarrow> uuid \<Rightarrow> int \<Rightarrow> int \<Rightarrow> attempt_result \<Rightarrow> bool \<Rightarrow> string \<Rightarrow> db
   \<Rightarrow> ((exc + metric list) \<times> rng) \<times> db" where
  "finalize wid r i attempt max_att res cancel ty d =
     (let (dec, r1) = retry_verdict r attempt max_att res in
      case transaction (complete (choose_completion cancel res dec) i attempt wid) d of
        (Inl e, d1) \<Rightarrow> ((Inl e, r1), d1)
      | (Inr tr, d1) \<Rightarrow>
          if applied tr then ((Inr (record_outcome ty res cancel dec), r1), d1)
          else let rej = (case res_rejection tr of Some x \<Rightarrow> rejection_value x | None \<Rightarrow> ''unknown'');
                   (ev, d2) = transaction (execute_only (record_event i STALE_WRITE_REJECTED (Some attempt) (Some wid)
                     [(''operation'', JStr (operation_name res)), (''rejection'', JStr rej)])) d1
               in ((Inr [stale_write rej], r1), d2))"

text \<open>\<open>_owned\<close> is a dict from task to attempt.\<close>

definition own :: "uuid \<Rightarrow> int \<Rightarrow> (uuid \<times> int) list \<Rightarrow> (uuid \<times> int) list" where
  "own i a xs = (if i \<in> fst ` set xs then map (\<lambda>x. if fst x = i then (i, a) else x) xs else xs @ [(i, a)])"

definition disown :: "uuid \<Rightarrow> (uuid \<times> int) list \<Rightarrow> (uuid \<times> int) list" where
  "disown i xs = filter (\<lambda>x. fst x \<noteq> i) xs"

text \<open>
  \<open>_run_attempt_inner\<close>: take ownership, run the adapter with its gateway while the renewal loop runs,
  finalise, give ownership up. The adapter's own transactions come before those of the renewal
  loop here; \<open>envs\<close> holds what others commit before each renewal.
\<close>

definition run_attempt ::
  "attempt_job \<Rightarrow> (nat \<Rightarrow> bool) \<Rightarrow> (nat \<Rightarrow> rat) \<Rightarrow> (db \<Rightarrow> db) list \<Rightarrow> worker_proc \<Rightarrow> db
   \<Rightarrow> ((exc + metric list) \<times> worker_proc) \<times> db" where
  "run_attempt job polls rands envs wp d =
     (let row = job_row job;
          wp1 = wp\<lparr>owned := own (t_id row) (t_attempt row) (owned wp)\<rparr>;
          (res, d1) = attempt_body wp1 job polls rands d
      in case renew_until_stopped envs wp1 (t_id row) (t_attempt row) False d1 of
           (Inl e, d2) \<Rightarrow> ((Inl e, wp1), d2)
         | (Inr cancelled, d2) \<Rightarrow>
             (let ((ms, r), d3) = finalize (wp_id wp1) (wp_rng wp1) (t_id row) (t_attempt row)
                    (t_max_attempts row) res cancelled (task_type row) d2
              in ((ms, wp1\<lparr>wp_rng := r, owned := disown (t_id row) (owned wp1)\<rparr>), d3)))"

section \<open>Shutdown\<close>

text \<open>Hand back one owned task; an exception of its transaction is logged and dropped.\<close>

definition abandon_one :: "string \<Rightarrow> uuid \<times> int \<Rightarrow> db \<Rightarrow> db" where
  "abandon_one wid ia d = snd (transaction (complete (Abandoned ''worker_shutdown'') (fst ia) (snd ia) wid) d)"

text \<open>
  \<open>_drain\<close>: \<open>grace\<close> is what happens during the grace period: the attempts that finish in it leave
  \<open>owned\<close> and change the database; those still pending are cancelled and stay owned.
\<close>

definition drain :: "(worker_proc \<times> db \<Rightarrow> worker_proc \<times> db) \<Rightarrow> worker_proc \<Rightarrow> db \<Rightarrow> worker_proc \<times> db" where
  "drain grace wp d =
     (if fenced wp then (wp, d)
      else let d1 = set_worker_status (wp_id wp) DRAINING d;
               (wp2, d2) = (if inflight wp \<noteq> [] then grace (wp, d1) else (wp, d1));
               d3 = fold (abandon_one (wp_id wp)) (owned wp2) d2
           in (wp2\<lparr>owned := []\<rparr>, set_worker_status (wp_id wp) DEAD d3))"

section \<open>The transactions of an attempt\<close>

lemma transaction_Inr [simp]: "f d = Inr (x, d') \<Longrightarrow> transaction f d = (Inr x, d')"
  by (simp add: transaction_def)

lemma transaction_Inl: "f d = Inl e \<Longrightarrow> transaction f d = (Inl (db_exc e), d)"
  by (simp add: transaction_def)

definition with_event :: "task_event \<Rightarrow> db \<Rightarrow> db" where
  "with_event e d = d\<lparr>task_events := task_events d @ [e], next_event_id := next_event_id d + 1\<rparr>"

definition event_of :: "uuid \<Rightarrow> event_type \<Rightarrow> int option \<Rightarrow> string option \<Rightarrow> dict \<Rightarrow> db \<Rightarrow> task_event" where
  "event_of i et a w data d = \<lparr>te_id = next_event_id d, te_task_id = i, te_attempt = a, te_event_type = et,
     te_worker_id = w, te_data = data, te_created_at = now d\<rparr>"

text \<open>Recording an event in a transaction of its own, for a task that exists or does not.\<close>

lemma record_event_transaction:
  "transaction (execute_only (record_event i et a w data)) d =
    (if find_task d i = None then (Inl (db_exc (IntegrityError ''task_events_task_id_fkey'')), d)
     else (Inr (), with_event (event_of i et a w data d) d))"
  by (auto simp: transaction_def execute_only_def record_event_def insert_event_def with_event_def event_of_def)

lemma with_event_tables [simp]:
  "tasks (with_event e d) = tasks d" "task_attempts (with_event e d) = task_attempts d"
  "workers (with_event e d) = workers d" "tenants (with_event e d) = tenants d"
  "now (with_event e d) = now d" "task_events (with_event e d) = task_events d @ [e]"
  "audit_events (with_event e d) = audit_events d" "find_task (with_event e d) i = find_task d i"
  "owns (with_event e d) i a w = owns d i a w"
  by (simp_all add: with_event_def find_task_def owns_def)

lemma with_event_inv:
  assumes "db_inv d" "find_task d i \<noteq> None"
  shows "db_inv (with_event (event_of i et a w data d) d)"
  using insert_event_total [OF assms, of et a w data] by (auto simp: insert_event_def assms with_event_def event_of_def)

lemma audit_inv:
  assumes "db_inv d"
  shows "db_inv (record_audit r d)"
  by (rule db_inv_frame [OF assms]) (use assms in \<open>auto simp: record_audit_def db_inv_def event_refs_def\<close>)

lemma audit_tables [simp]:
  "tasks (record_audit r d) = tasks d" "task_attempts (record_audit r d) = task_attempts d"
  "workers (record_audit r d) = workers d" "now (record_audit r d) = now d"
  "task_events (record_audit r d) = task_events d" "find_task (record_audit r d) i = find_task d i"
  by (simp_all add: record_audit_def find_task_def)

text \<open>The state the callbacks keep: the invariant, and the attempt's task exists.\<close>

definition recordable :: "uuid \<Rightarrow> db \<Rightarrow> bool" where
  "recordable i d \<longleftrightarrow> db_inv d \<and> find_task d i \<noteq> None"

lemma attempt_event_eq:
  assumes "recordable (t_id row) d"
  shows "attempt_event wid row et data d =
      (Inr (), with_event (event_of (t_id row) et (Some (t_attempt row)) (Some wid) data d) d)"
    and "quiet (recordable (t_id row)) d
      (with_event (event_of (t_id row) et (Some (t_attempt row)) (Some wid) data d) d)"
  using assms with_event_inv [of d "t_id row"]
  by (simp_all add: attempt_event_def record_event_transaction recordable_def quiet_def)

lemma audit_quiet: "recordable i d \<Longrightarrow> quiet (recordable i) d (record_audit r d)"
  by (simp add: quiet_def recordable_def audit_inv)

lemma access_decided_quiet:
  assumes "recordable (t_id row) d"
  shows "\<exists>d'. access_decided wid row pol n dec d = (Inr (), d') \<and> quiet (recordable (t_id row)) d d'"
proof (cases "allowed dec")
  case True
  with attempt_event_eq [OF assms] show ?thesis by (simp add: access_decided_def)
next
  case False
  note ev = attempt_event_eq [OF assms, where wid = wid and et = TOOL_ACCESS_DENIED
      and data = "[(''tool'', JStr n), (''reason'', JStr (reason_value dec))]"]
  show ?thesis
    using ev(1) quiet_trans [OF ev(2) audit_quiet] ev(2) False
    by (simp add: access_decided_def Let_def record_audit_independently_def quiet_def)
qed

interpretation worker_recorder: attempt_recorder "recordable (t_id row)"
    "access_decided wid row pol" "access_executed wid row" for wid row pol
proof unfold_locales
  show "recordable (t_id row) d \<Longrightarrow> \<exists>d'. access_decided wid row pol n x d = (Inr (), d') \<and> quiet (recordable (t_id row)) d d'"
    for d n x by (rule access_decided_quiet)
  show "recordable (t_id row) d \<Longrightarrow> \<exists>d'. access_executed wid row t b m d = (Inr (), d') \<and> quiet (recordable (t_id row)) d d'"
    for d t b m using attempt_event_eq by (simp add: access_executed_def)
qed

text \<open>So the body of an attempt, whatever the adapter, leaves tasks and attempts alone.\<close>

lemma attempt_body_quiet:
  assumes "recordable (t_id (job_row job)) d"
  shows "quiet (recordable (t_id (job_row job))) d (snd (attempt_body wp job polls rands d))"
proof (cases "get_adapter (wp_registry wp) (task_type (job_row job))")
  case (Inl e)
  then show ?thesis using assms by (simp add: attempt_body_def quiet_refl)
next
  case (Inr adapter)
  have "quiet (recordable (t_id (job_row job))) d (snd (run_program (adapter (dict_del ''_trace'' (payload (job_row job))))
      (Some (tool_access_of wp (job_row job) (job_policy job))) polls rands d))"
    by (rule worker_recorder.program_quiet [OF _ _ assms]) (simp_all add: tool_access_of_def)
  then show ?thesis
    by (simp add: attempt_body_def Inr execute_adapter_def Let_def case_prod_beta)
qed

section \<open>Finalisation\<close>

lemma choose_state:
  "completed_state (choose_completion cancel res (fst (retry_verdict r a m res))) =
    (if cancel then CANCELLED else case res of Attempt_succeeded _ \<Rightarrow> SUCCEEDED
     | Attempt_failed e \<Rightarrow> if classify e \<in> set TERMINAL_CLASSES \<or> m \<le> a \<or> (classify e = UNKNOWN \<and> 2 \<le> a)
         then FAILED else QUEUED)"
  using decide_retry_iff [where a = a and m = m and r = r]
  by (auto simp: choose_completion_def retry_verdict_def case_prod_beta not_less split: attempt_result.split)

lemma counted_terminal:
  "(\<exists>s. task_terminal ty s \<in> set (record_outcome ty res cancel (fst (retry_verdict r a m res)))) \<longleftrightarrow>
    is_terminal (completed_state (choose_completion cancel res (fst (retry_verdict r a m res))))"
  by (auto simp: choose_completion_def record_outcome_def retry_verdict_def case_prod_beta task_terminal_def
      attempt_finished_def Let_def split: attempt_result.split)

lemma finalize_eq:
  assumes "db_inv d"
  obtains tr d1 where
    "complete (choose_completion cancel res (fst (retry_verdict r a m res))) i a wid d = Inr (tr, d1)"
    "db_inv d1" "db_step_ok d d1" "applied tr \<longleftrightarrow> owns d i a wid" "\<not> applied tr \<Longrightarrow> d1 = d"
    "finalize wid r i a m res cancel ty d =
      (if applied tr then ((Inr (record_outcome ty res cancel (fst (retry_verdict r a m res))),
          snd (retry_verdict r a m res)), d1)
       else let rej = (case res_rejection tr of Some x \<Rightarrow> rejection_value x | None \<Rightarrow> ''unknown'') in
         ((Inr [stale_write rej], snd (retry_verdict r a m res)),
          if find_task d i = None then d else with_event (event_of i STALE_WRITE_REJECTED (Some a) (Some wid)
            [(''operation'', JStr (operation_name res)), (''rejection'', JStr rej)] d) d))"
proof -
  let ?k = "choose_completion cancel res (fst (retry_verdict r a m res))"
  obtain tr d1 where c: "complete ?k i a wid d = Inr (tr, d1)" "db_inv d1" "db_step_ok d d1" "\<not> applied tr \<longrightarrow> d1 = d"
    using complete_total [OF assms, of ?k i a wid] by blast
  have ap: "applied tr \<longleftrightarrow> owns d i a wid"
    using complete_owner_applied [OF assms _ c(1)] complete_not_owner [OF assms _ c(1)] by blast
  have st: "\<not> applied tr \<Longrightarrow> d1 = d" using c(4) by blast
  have f: "finalize wid r i a m res cancel ty d =
      (if applied tr then ((Inr (record_outcome ty res cancel (fst (retry_verdict r a m res))),
          snd (retry_verdict r a m res)), d1)
       else let rej = (case res_rejection tr of Some x \<Rightarrow> rejection_value x | None \<Rightarrow> ''unknown'') in
         ((Inr [stale_write rej], snd (retry_verdict r a m res)),
          if find_task d i = None then d else with_event (event_of i STALE_WRITE_REJECTED (Some a) (Some wid)
            [(''operation'', JStr (operation_name res)), (''rejection'', JStr rej)] d) d))"
    using c(4) by (simp add: finalize_def case_prod_beta transaction_Inr [of "complete ?k i a wid", OF c(1)]
        record_event_transaction Let_def)
  show thesis by (rule that [OF c(1-3) ap st f])
qed

text \<open>
  C15. The end of an attempt. Under the invariant it never raises. If the worker still owns the
  attempt, the task ends cancelled when it was told to stop, else succeeded when the adapter
  returned, else failed exactly when the failure class is terminal or the budget is spent, else
  queued again; the attempt is closed to match, and a terminal counter moves exactly when the
  task's new state is terminal. If the worker lost the lease, tasks and attempts stay as they are,
  one \<open>STALE_WRITE_REJECTED\<close> event names it, and only the stale-write counter moves.
\<close>

theorem finalize_contract:
  assumes "db_inv d"
  shows "\<exists>ms r' d'. finalize wid r i a m res cancel ty d = ((Inr ms, r'), d') \<and> db_inv d'
    \<and> (owns d i a wid \<longrightarrow> (\<exists>k. completed (completed_state k) (completed_outcome k) d i a d'
          \<and> completed_state k = (if cancel then CANCELLED else case res of Attempt_succeeded _ \<Rightarrow> SUCCEEDED
              | Attempt_failed e \<Rightarrow> if classify e \<in> set TERMINAL_CLASSES \<or> m \<le> a \<or> (classify e = UNKNOWN \<and> 2 \<le> a)
                  then FAILED else QUEUED)
          \<and> ((\<exists>st. task_terminal ty st \<in> set ms) \<longleftrightarrow> is_terminal (completed_state k))))
    \<and> (\<not> owns d i a wid \<longrightarrow> tasks d' = tasks d \<and> task_attempts d' = task_attempts d
          \<and> (\<exists>rej. ms = [stale_write rej])
          \<and> (find_task d i \<noteq> None \<longrightarrow> (\<exists>e. task_events d' = task_events d @ [e] \<and> te_task_id e = i
               \<and> te_event_type e = STALE_WRITE_REJECTED \<and> te_worker_id e = Some wid)))"
proof -
  let ?k = "choose_completion cancel res (fst (retry_verdict r a m res))"
  obtain tr d1 where c: "complete ?k i a wid d = Inr (tr, d1)" "db_inv d1"
    "applied tr \<longleftrightarrow> owns d i a wid"
    and f: "finalize wid r i a m res cancel ty d =
      (if applied tr then ((Inr (record_outcome ty res cancel (fst (retry_verdict r a m res))),
          snd (retry_verdict r a m res)), d1)
       else let rej = (case res_rejection tr of Some x \<Rightarrow> rejection_value x | None \<Rightarrow> ''unknown'') in
         ((Inr [stale_write rej], snd (retry_verdict r a m res)),
          if find_task d i = None then d else with_event (event_of i STALE_WRITE_REJECTED (Some a) (Some wid)
            [(''operation'', JStr (operation_name res)), (''rejection'', JStr rej)] d) d))"
    by (rule finalize_eq [OF assms])
  show ?thesis
  proof (cases "owns d i a wid")
    case True
    have comp: "completed (completed_state ?k) (completed_outcome ?k) d i a d1"
      using complete_completed [OF assms c(1)] c(3) True by blast
    let ?ms = "record_outcome ty res cancel (fst (retry_verdict r a m res))"
    have "\<exists>k. completed (completed_state k) (completed_outcome k) d i a d1
        \<and> completed_state k = (if cancel then CANCELLED else case res of Attempt_succeeded _ \<Rightarrow> SUCCEEDED
            | Attempt_failed e \<Rightarrow> if classify e \<in> set TERMINAL_CLASSES \<or> m \<le> a \<or> (classify e = UNKNOWN \<and> 2 \<le> a)
                then FAILED else QUEUED)
        \<and> ((\<exists>st. task_terminal ty st \<in> set ?ms) \<longleftrightarrow> is_terminal (completed_state k))"
      by (rule exI [of _ ?k]) (rule conjI [OF comp conjI [OF choose_state counted_terminal]])
    with f c(2,3) True show ?thesis by (intro exI [of _ ?ms] exI [of _ "snd (retry_verdict r a m res)"] exI [of _ d1]) simp
  next
    case False
    then show ?thesis
      using f c(3) assms with_event_inv [OF assms] by (auto simp: Let_def event_of_def)
  qed
qed

text \<open>
  C17. Every failure of the renewal loop stops the attempt by the same flag as a request to cancel.
  A worker that still owns an attempt whose lease has run out, before the reaper has seen it, is
  told by its renewal to stop; the final transition is not fenced by the lease, so it applies, and
  the task ends \<open>CANCELLED\<close> although nobody asked for that and whatever the adapter returned.
\<close>

theorem lost_lease_cancels:
  assumes "db_inv d" and "owns d i a (wp_id wp)" and "find_task d i = Some t"
    and "lease_expires_at t = Some e" and "e \<le> now d"
  shows "renew_until_stopped [\<lambda>x. x] wp i a False d = (Inr True, d)
    \<and> (\<exists>ms r' d' t'. finalize (wp_id wp) r i a m res True ty d = ((Inr ms, r'), d')
          \<and> find_task d' i = Some t' \<and> t_state t' = CANCELLED \<and> cancel_requested t' = cancel_requested t)"
proof
  have "\<not> renew_where (now d) i (wp_id wp) a t"
    using assms(4,5) by (simp add: renew_where_def lease_live_def)
  then have "renew_lease i (wp_id wp) a (lease_ttl_s (wp_settings wp)) d = Inr (None, d)"
    by (simp add: renew_lease_eq [OF assms(1)] assms(3))
  then show "renew_until_stopped [\<lambda>x. x] wp i a False d = (Inr True, d)" by simp
  have t: "t_state t = RUNNING" "t_attempt t = a" "lease_worker_id t = Some (wp_id wp)"
    using assms(2,3) by (simp_all add: owns_iff)
  let ?d = "finish_attempt i a OUT_CANCELLED None None
      (after_transition i (cancelled_cas a (wp_id wp) (now d)) t d)"
  have comp: "complete Cancelled i a (wp_id wp) d =
      Inr (granted (set_row (cas_set (now d) (cancelled_cas a (wp_id wp) (now d))) t), ?d)"
    using cancelled.complete_owner [OF assms(1,3) t] by simp
  have "find_task ?d i = find_task (after_transition i (cancelled_cas a (wp_id wp) (now d)) t d) i"
    by (simp add: find_task_def)
  then have "find_task ?d i = Some (set_row (cas_set (now d) (cancelled_cas a (wp_id wp) (now d))) t)"
    by (simp add: find_task_after_transition assms(3))
  moreover have "finalize (wp_id wp) r i a m res True ty d =
      ((Inr (record_outcome ty res True (fst (retry_verdict r a m res))), snd (retry_verdict r a m res)), ?d)"
    using comp by (simp add: finalize_def case_prod_beta choose_completion_def)
  ultimately show "\<exists>ms r' d' t'. finalize (wp_id wp) r i a m res True ty d = ((Inr ms, r'), d')
      \<and> find_task d' i = Some t' \<and> t_state t' = CANCELLED \<and> cancel_requested t' = cancel_requested t"
    by (simp add: set_row_cas cancelled_cas_def)
qed

section \<open>The claim loop\<close>

lemma heartbeat_unknown:
  assumes "\<And>w. w \<in> set (workers d) \<Longrightarrow> w_id w = i \<Longrightarrow> w_status w = DEAD"
  shows "heartbeat i d = (False, d)"
proof -
  have "filter (\<lambda>w. w_id w = i \<and> w_status w \<noteq> DEAD) (workers d) = []"
    using assms by (auto simp: filter_empty_conv)
  then show ?thesis using sql_update_filter_empty [of _ "workers d"] by (simp add: heartbeat_def Let_def)
qed

text \<open>
  A worker declared dead stops at its next heartbeat: the iteration claims nothing and leaves
  the database as it was, the worker is stopping and fenced, and however it drains it writes
  nothing at all.
\<close>

theorem fenced_worker_stops:
  assumes "\<And>w. w \<in> set (workers d) \<Longrightarrow> w_id w = wp_id wp \<Longrightarrow> w_status w = DEAD"
    and "\<And>l. wp_last_heartbeat wp = Some l \<Longrightarrow> l + of_int (heartbeat_interval_s (wp_settings wp)) \<le> clk"
  shows "\<exists>wp'. loop_body clk locked finished wp d = (Inr wp', d) \<and> stopping wp' \<and> fenced wp'
    \<and> inflight wp' = inflight wp \<and> (\<forall>grace. snd (drain grace wp' d) = d)"
proof -
  have due: "\<not> (case wp_last_heartbeat wp of None \<Rightarrow> False
      | Some l \<Rightarrow> clk - l < of_int (heartbeat_interval_s (wp_settings wp)))"
    using assms(2) by (auto simp: not_less algebra_simps split: option.splits)
  have "heartbeat (wp_id wp) d = (False, d)" by (rule heartbeat_unknown) (rule assms(1))
  then have "maybe_heartbeat clk wp d =
      (wp\<lparr>wp_last_heartbeat := Some clk, fenced := True, stopping := True\<rparr>, d)"
    using due by (simp add: maybe_heartbeat_def)
  then show ?thesis by (simp add: loop_body_def drain_def)
qed

lemma heartbeat_frame:
  "tasks (snd (heartbeat i d)) = tasks d" "task_attempts (snd (heartbeat i d)) = task_attempts d"
  "find_worker d w \<noteq> None \<Longrightarrow> find_worker (snd (heartbeat i d)) w \<noteq> None"
  by (simp_all add: heartbeat_def Let_def find_worker_update)

lemma maybe_heartbeat_frame:
  assumes "db_inv d" and "maybe_heartbeat clk wp d = (wp1, d1)"
  shows "db_inv d1" "tasks d1 = tasks d" "inflight wp1 = inflight wp" "wp_id wp1 = wp_id wp"
    "wp_capacity wp1 = wp_capacity wp" "wp_settings wp1 = wp_settings wp"
    "find_worker d w \<noteq> None \<Longrightarrow> find_worker d1 w \<noteq> None"
  using assms heartbeat_inv [OF assms(1), of "wp_id wp"] heartbeat_frame [where i = "wp_id wp" and d = d]
  by (auto simp: maybe_heartbeat_def Let_def split: if_splits prod.splits)

text \<open>What a claim dispatches.\<close>

lemma claim_and_dispatch_ok:
  assumes "db_inv d" and "find_worker d (wp_id wp) \<noteq> None"
  obtains jobs d' where "claim_and_dispatch limit locked wp d = (Inr (wp\<lparr>inflight := inflight wp @ jobs\<rparr>), d')"
    "db_inv d'" "db_step_ok d d'" "int (length jobs) \<le> max 0 (min limit (claim_batch_size (wp_settings wp)))"
    "distinct (map (\<lambda>j. t_id (job_row j)) jobs)"
    "\<And>j. j \<in> set jobs \<Longrightarrow> owns d' (t_id (job_row j)) (t_attempt (job_row j)) (wp_id wp)
      \<and> find_task d' (t_id (job_row j)) = Some (job_row j)
      \<and> job_policy j = policy_for (snapshot_policies (map (\<lambda>j. t_agent_version_id (job_row j)) jobs) d')
          (t_agent_version_id (job_row j))"
proof -
  let ?lim = "min limit (claim_batch_size (wp_settings wp))"
  obtain rows d' where c: "claim_tasks (wp_id wp) ?lim (lease_ttl_s (wp_settings wp)) (wp_claim_policy wp)
      (wp_capabilities wp) locked d = Inr (rows, d')"
    "int (length rows) \<le> max ?lim 0" "distinct (map t_id rows)"
    "\<And>r. r \<in> set rows \<Longrightarrow> find_task d' (t_id r) = Some r \<and> t_state r = RUNNING \<and> lease_worker_id r = Some (wp_id wp)"
    using claim_granted [OF assms] by blast
  let ?pol = "policy_for (snapshot_policies (map t_agent_version_id rows) d')"
  let ?jobs = "map (\<lambda>row. \<lparr>job_row = row, job_policy = ?pol (t_agent_version_id row)\<rparr>) rows"
  have "claim_with_policies wp limit locked d = Inr (?jobs, d')"
    by (simp add: claim_with_policies_def c(1) Let_def)
  then have "claim_and_dispatch limit locked wp d = (Inr (wp\<lparr>inflight := inflight wp @ ?jobs\<rparr>), d')"
    by (simp add: claim_and_dispatch_def)
  then show thesis
    by (rule that) (use c claim_tasks_ok [OF assms c(1)] in \<open>auto simp: owns_iff comp_def max.commute\<close>)
qed

text \<open>
  One turn of a live worker's loop. Under the invariant it returns; it takes no more work than
  its free slots and its batch size allow, each piece once and owned by it with the lease just
  granted, and the attempt carries the policy of its own pinned version as the claim's transaction
  saw it, none at all when the task pins no version.
\<close>

theorem loop_turn_bounded:
  assumes "db_inv d" and "find_worker d (wp_id wp) \<noteq> None"
    and "maybe_heartbeat clk wp d = (wp1, d1)" and "\<not> stopping wp1"
  shows "\<exists>wp' d' jobs. loop_body clk locked finished wp d = (Inr wp', d') \<and> db_inv d'
    \<and> inflight wp' = filter (\<lambda>j. \<not> finished j) (inflight wp @ jobs)
    \<and> int (length jobs) \<le> max 0 (min (wp_capacity wp - int (length (inflight wp))) (claim_batch_size (wp_settings wp)))
    \<and> distinct (map (\<lambda>j. t_id (job_row j)) jobs)
    \<and> (\<forall>j \<in> set jobs. owns d' (t_id (job_row j)) (t_attempt (job_row j)) (wp_id wp)
        \<and> (t_agent_version_id (job_row j) = None \<longrightarrow> job_policy j = UNGOVERNED))"
proof -
  note hb = maybe_heartbeat_frame [OF assms(1,3)]
  let ?free = "wp_capacity wp - int (length (inflight wp))"
  show ?thesis
  proof (cases "?free > 0")
    case False
    then have "loop_body clk locked finished wp d = (Inr (harvest finished wp1), d1)"
      using assms(3,4) hb(3,5) by (simp add: loop_body_def)
    then show ?thesis using hb by (intro exI [of _ "harvest finished wp1"] exI [of _ d1] exI [of _ "[]"])
      (simp add: harvest_def)
  next
    case True
    obtain jobs d' where c: "claim_and_dispatch ?free locked wp1 d1 = (Inr (wp1\<lparr>inflight := inflight wp1 @ jobs\<rparr>), d')"
      "db_inv d'" "int (length jobs) \<le> max 0 (min ?free (claim_batch_size (wp_settings wp1)))"
      "distinct (map (\<lambda>j. t_id (job_row j)) jobs)"
      "\<And>j. j \<in> set jobs \<Longrightarrow> owns d' (t_id (job_row j)) (t_attempt (job_row j)) (wp_id wp1)
        \<and> job_policy j = policy_for (snapshot_policies (map (\<lambda>j. t_agent_version_id (job_row j)) jobs) d')
          (t_agent_version_id (job_row j))"
      by (rule claim_and_dispatch_ok [OF hb(1), of wp1 ?free locked]) (use hb(4,7) assms(2) in auto)
    have "loop_body clk locked finished wp d =
        (Inr (harvest finished (wp1\<lparr>inflight := inflight wp1 @ jobs\<rparr>)), d')"
      using True assms(3,4) hb(3,5) c(1) by (simp add: loop_body_def)
    then show ?thesis
      using c(2-5) hb(3,4,6)
      by (intro exI [of _ "harvest finished (wp1\<lparr>inflight := inflight wp1 @ jobs\<rparr>)"] exI [of _ d'] exI [of _ jobs])
        (simp add: harvest_def policy_for_def)
  qed
qed

section \<open>Shutdown\<close>

text \<open>A task back in the queue, without a lease and due at once.\<close>

definition handed_back :: "time \<Rightarrow> db \<Rightarrow> uuid \<Rightarrow> bool" where
  "handed_back tn d i \<longleftrightarrow> (\<exists>t. find_task d i = Some t \<and> t_state t = QUEUED \<and> available_at t = tn
     \<and> lease_worker_id t = None)"

lemma abandon_one_ok:
  assumes "db_inv d"
  shows "db_inv (abandon_one w (i, a) d)" "now (abandon_one w (i, a) d) = now d"
    "workers (abandon_one w (i, a) d) = workers d"
    "j \<noteq> i \<Longrightarrow> find_task (abandon_one w (i, a) d) j = find_task d j"
    "\<not> owns d i a w \<Longrightarrow> abandon_one w (i, a) d = d"
    "owns d i a w \<Longrightarrow> handed_back (now d) (abandon_one w (i, a) d) i"
proof -
  obtain r d' where c: "complete (Abandoned ''worker_shutdown'') i a w d = Inr (r, d')" "db_inv d'"
    using complete_total [OF assms] by blast
  then have eq: "abandon_one w (i, a) d = d'"
    by (simp add: abandon_one_def transaction_Inr [of "complete (Abandoned ''worker_shutdown'') i a w"] del: complete.simps)
  show "db_inv (abandon_one w (i, a) d)" by (simp add: eq c)
  show "now (abandon_one w (i, a) d) = now d" "workers (abandon_one w (i, a) d) = workers d"
    "j \<noteq> i \<Longrightarrow> find_task (abandon_one w (i, a) d) j = find_task d j"
    using complete_frame [OF assms c(1)] by (simp_all add: eq)
  show "\<not> owns d i a w \<Longrightarrow> abandon_one w (i, a) d = d"
    using complete_not_owner [OF assms _ c(1)] by (simp add: eq)
  assume "owns d i a w"
  then obtain t where t: "find_task d i = Some t" "t_state t = RUNNING" "t_attempt t = a" "lease_worker_id t = Some w"
    by (auto simp: owns_iff)
  have "d' = finish_attempt i a OUT_ABANDONED (Some ''worker_shutdown'') None
      (after_transition i (abandoned_cas a w ''worker_shutdown'' (now d)) t d)"
    using c(1) abandoned.complete_owner [OF assms t] by simp
  then have "find_task d' i = Some (set_row (cas_set (now d) (abandoned_cas a w ''worker_shutdown'' (now d))) t)"
    using t(1) find_task_after_transition [of i "abandoned_cas a w ''worker_shutdown'' (now d)" t d i]
    by (simp add: find_task_def)
  then show "handed_back (now d) (abandon_one w (i, a) d) i"
    by (simp add: handed_back_def eq set_row_cas abandoned_cas_def)
qed

lemma owns_cong: "find_task d' i = find_task d i \<Longrightarrow> owns d' i a w = owns d i a w"
  by (simp add: owns_def)

lemma abandon_all:
  assumes "db_inv d" and "distinct (map fst xs)"
  shows "db_inv (fold (abandon_one w) xs d) \<and> now (fold (abandon_one w) xs d) = now d
    \<and> workers (fold (abandon_one w) xs d) = workers d
    \<and> (\<forall>(i, a) \<in> set xs. if owns d i a w then handed_back (now d) (fold (abandon_one w) xs d) i
         else find_task (fold (abandon_one w) xs d) i = find_task d i)
    \<and> (\<forall>j. j \<notin> fst ` set xs \<longrightarrow> find_task (fold (abandon_one w) xs d) j = find_task d j)"
  using assms
proof (induction xs arbitrary: d)
  case Nil
  then show ?case by simp
next
  case (Cons x xs)
  obtain i a where x: "x = (i, a)" by (cases x)
  let ?d = "abandon_one w (i, a) d"
  note one = abandon_one_ok [OF Cons.prems(1), where w = w and i = i and a = a]
  have ih: "db_inv (fold (abandon_one w) xs ?d) \<and> now (fold (abandon_one w) xs ?d) = now ?d
    \<and> workers (fold (abandon_one w) xs ?d) = workers ?d
    \<and> (\<forall>(j, b) \<in> set xs. if owns ?d j b w then handed_back (now ?d) (fold (abandon_one w) xs ?d) j
         else find_task (fold (abandon_one w) xs ?d) j = find_task ?d j)
    \<and> (\<forall>j. j \<notin> fst ` set xs \<longrightarrow> find_task (fold (abandon_one w) xs ?d) j = find_task ?d j)"
    by (rule Cons.IH) (use one(1) Cons.prems(2) in auto)
  have i: "i \<notin> fst ` set xs" using Cons.prems(2) by (simp add: x)
  have head: "if owns d i a w then handed_back (now d) (fold (abandon_one w) xs ?d) i
      else find_task (fold (abandon_one w) xs ?d) i = find_task d i"
  proof (cases "owns d i a w")
    case True
    have "find_task (fold (abandon_one w) xs ?d) i = find_task ?d i" using ih i by blast
    with one(6) [OF True] True show ?thesis by (simp add: handed_back_def)
  next
    case False
    have "find_task (fold (abandon_one w) xs ?d) i = find_task ?d i" using ih i by blast
    with one(5) [OF False] False show ?thesis by simp
  qed
  have tail: "if owns d j b w then handed_back (now d) (fold (abandon_one w) xs ?d) j
      else find_task (fold (abandon_one w) xs ?d) j = find_task d j" if "(j, b) \<in> set xs" for j b
  proof -
    have "j \<noteq> i" using that i by force
    then have "find_task ?d j = find_task d j" by (rule one(4))
    moreover from this have "owns ?d j b w = owns d j b w" by (rule owns_cong)
    ultimately show ?thesis using ih that one(2) by auto
  qed
  show ?case
    using ih head tail one(2,3,4) by (auto simp: x)
qed

text \<open>
  A clean stop. A worker that is not fenced, whatever its grace period brought, hands back
  every attempt it still owns in the database: the task is queued again, due at once and without a
  lease; an attempt it has lost meanwhile, and every other task, is left alone. Afterwards the
  worker owns nothing and its row says \<open>DEAD\<close>.
\<close>

theorem drain_hands_back:
  assumes "db_inv d" and "\<not> fenced wp" and "inflight wp \<noteq> []"
    and "grace (wp, set_worker_status (wp_id wp) DRAINING d) = (wp2, d2)" and "db_inv d2"
    and "distinct (map fst (owned wp2))"
  shows "\<exists>d'. drain grace wp d = (wp2\<lparr>owned := []\<rparr>, d') \<and> db_inv d'
    \<and> (\<forall>(i, a) \<in> set (owned wp2). owns d2 i a (wp_id wp) \<longrightarrow> handed_back (now d2) d' i)
    \<and> (\<forall>j. (\<forall>a. (j, a) \<in> set (owned wp2) \<longrightarrow> \<not> owns d2 j a (wp_id wp)) \<longrightarrow> find_task d' j = find_task d2 j)
    \<and> (\<forall>w. find_worker d' (wp_id wp) = Some w \<longrightarrow> w_status w = DEAD)"
proof -
  define d3 where "d3 = fold (abandon_one (wp_id wp)) (owned wp2) d2"
  let ?d = "set_worker_status (wp_id wp) DEAD d3"
  have run: "drain grace wp d = (wp2\<lparr>owned := []\<rparr>, ?d)"
    using assms(2-4) by (simp add: drain_def d3_def)
  note all = abandon_all [OF assms(5,6), of "wp_id wp", folded d3_def]
  have f: "find_task ?d i = find_task d3 i" "handed_back tn ?d i = handed_back tn d3 i" for i tn
    by (simp_all add: set_worker_status_def find_task_def handed_back_def)
  have "handed_back (now d2) ?d i" if "(i, a) \<in> set (owned wp2)" "owns d2 i a (wp_id wp)" for i a
    using all that by (auto simp: f)
  moreover have "find_task ?d j = find_task d2 j" if "\<forall>a. (j, a) \<in> set (owned wp2) \<longrightarrow> \<not> owns d2 j a (wp_id wp)" for j
  proof (cases "j \<in> fst ` set (owned wp2)")
    case True
    then obtain a where "(j, a) \<in> set (owned wp2)" by auto
    with that all show ?thesis by (fastforce simp: f)
  next
    case False
    with all show ?thesis by (simp add: f)
  qed
  moreover have "w_status w = DEAD" if "find_worker ?d (wp_id wp) = Some w" for w
    using that by (auto simp: set_worker_status_def find_worker_update dest: find_worker_SomeD)
  moreover have "db_inv ?d" using all by (auto intro: set_worker_status_inv)
  ultimately show ?thesis using run by blast
qed

section \<open>A refused tool call\<close>

text \<open>
  A refusal fails the task once. When the first tool the tool-calling adapter asks for is not
  allowed, the attempt fails with \<open>PermissionDenied\<close> whatever the tools would have done; exactly one
  audit record of the refusal, under the task's tenant, is committed before the attempt ends, so it
  stays whether or not the final transition applies; and if the worker still owns the attempt and
  was not told to stop, the task is \<open>FAILED\<close> however many attempts it had left.
\<close>

theorem denied_tool_fails_once:
  assumes "db_inv d" and "find_task d (t_id row) \<noteq> None"
    and "wp_registry wp (task_type row) = Some ToolCallingAdapter"
    and "dict_get (dict_del ''_trace'' (payload row)) ''tools'' (JArr []) = JArr (JStr n # ns)"
    and "\<not> allowed (authorize pol n)"
  shows "\<exists>d1 au. attempt_body wp \<lparr>job_row = row, job_policy = pol\<rparr> polls rands d =
      (Attempt_failed (denial n (authorize pol n)), d1)
    \<and> tasks d1 = tasks d \<and> audit_events d1 = audit_events d @ [au]
    \<and> au_tenant_id au = t_tenant_id row \<and> au_resource_id au = Some (t_id row) \<and> au_outcome au = ''DENIED''
    \<and> (owns d1 (t_id row) a (wp_id wp) \<longrightarrow>
        (\<exists>ms r' d2. finalize (wp_id wp) r (t_id row) a m (Attempt_failed (denial n (authorize pol n))) False ty d1 =
            ((Inr ms, r'), d2) \<and> completed FAILED OUT_FAILED d1 (t_id row) a d2))"
proof -
  let ?dec = "authorize pol n"
  let ?e = "denial n ?dec"
  let ?data = "[(''tool'', JStr n), (''reason'', JStr (reason_value ?dec))]"
  let ?ev = "event_of (t_id row) TOOL_ACCESS_DENIED (Some (t_attempt row)) (Some (wp_id wp)) ?data d"
  let ?d1 = "record_audit (denial_audit row pol n (reason_value ?dec)) (with_event ?ev d)"
  have rec: "recordable (t_id row) d" using assms(1,2) by (simp add: recordable_def)
  have dec: "access_decided (wp_id wp) row pol n ?dec d = (Inr (), ?d1)"
    using assms(5) attempt_event_eq(1) [OF rec]
    by (simp add: access_decided_def Let_def record_audit_independently_def)
  have call: "call_tool (Some (tool_access_of wp row pol)) n req d = (Inl ?e, ?d1)" for req
    by (simp add: call_tool_def access_call_def tool_access_of_def dec assms(5) Let_def)
  have body: "attempt_body wp \<lparr>job_row = row, job_policy = pol\<rparr> polls rands d = (Attempt_failed ?e, ?d1)"
    by (simp add: attempt_body_def get_adapter_def assms(3,4) execute_adapter_def ToolCallingAdapter_def call)
  have inv: "db_inv ?d1"
    by (intro audit_inv with_event_inv assms(1,2))
  have cls: "classify ?e = PERMISSION_DENIED"
    by (simp add: denial_def adapter_error_def classify_def isinstance_def)
  let ?k = "choose_completion False (Attempt_failed ?e) (fst (retry_verdict r a m (Attempt_failed ?e)))"
  have k: "\<exists>ec em. ?k = Failed ec em"
    using decide_retry_iff [where fc = PERMISSION_DENIED and a = a and m = m and r = r]
    by (simp add: choose_completion_def retry_verdict_def case_prod_beta cls TERMINAL_CLASSES_def)
  have fin: "\<exists>ms r' d2. finalize (wp_id wp) r (t_id row) a m (Attempt_failed ?e) False ty ?d1 = ((Inr ms, r'), d2)
      \<and> completed FAILED OUT_FAILED ?d1 (t_id row) a d2" if own: "owns ?d1 (t_id row) a (wp_id wp)"
  proof (rule finalize_eq [OF inv, of False "Attempt_failed ?e" r a m "t_id row" "wp_id wp" ty])
    fix tr d2
    assume c: "complete ?k (t_id row) a (wp_id wp) ?d1 = Inr (tr, d2)" "applied tr = owns ?d1 (t_id row) a (wp_id wp)"
      and f: "finalize (wp_id wp) r (t_id row) a m (Attempt_failed ?e) False ty ?d1 =
        (if applied tr then ((Inr (record_outcome ty (Attempt_failed ?e) False (fst (retry_verdict r a m (Attempt_failed ?e)))),
          snd (retry_verdict r a m (Attempt_failed ?e))), d2)
       else let rej = (case res_rejection tr of Some x \<Rightarrow> rejection_value x | None \<Rightarrow> ''unknown'') in
         ((Inr [stale_write rej], snd (retry_verdict r a m (Attempt_failed ?e))),
          if find_task ?d1 (t_id row) = None then ?d1 else with_event (event_of (t_id row) STALE_WRITE_REJECTED (Some a)
            (Some (wp_id wp)) [(''operation'', JStr (operation_name (Attempt_failed ?e))), (''rejection'', JStr rej)] ?d1) ?d1))"
    have "completed (completed_state ?k) (completed_outcome ?k) ?d1 (t_id row) a d2"
      using complete_completed [OF inv c(1)] c(2) own by blast
    with k have "completed FAILED OUT_FAILED ?d1 (t_id row) a d2" by auto
    with f c(2) own show ?thesis by auto
  qed
  have au: "audit_events ?d1 = audit_events d @ [\<lparr>au_id = next_audit_id d, au_tenant_id = t_tenant_id row,
      au_actor = ar_actor (denial_audit row pol n (reason_value ?dec)), au_action = ''TOOL_ACCESS_DENIED'',
      au_resource_type = ''task'', au_resource_id = Some (t_id row), au_outcome = ''DENIED'',
      au_data = ar_data (denial_audit row pol n (reason_value ?dec)), au_created_at = now d\<rparr>]"
    by (simp add: record_audit_def denial_audit_def with_event_def)
  show ?thesis
    using body fin au by (intro exI [of _ ?d1] exI conjI) (auto simp: au)
qed

section \<open>Witnesses\<close>

definition demo_rng :: rng where
  "demo_rng = \<lparr>draws = (\<lambda>i. 1 / 2), drawn = 0\<rparr>"

definition demo_proc :: worker_proc where
  "demo_proc = new_worker default_settings (register_tool_adapters new_registry) 2 DEFAULT_POLICY ''w1''
     demo_rng None None"

lemma demo_proc_simps [simp]:
  "wp_id demo_proc = ''w1''" "wp_last_heartbeat demo_proc = None" "\<not> fenced demo_proc" "\<not> stopping demo_proc"
  "inflight demo_proc = []" "wp_registry demo_proc ''demo.tools'' = Some ToolCallingAdapter"
  "wp_capacity demo_proc = 2" "wp_settings demo_proc = default_settings"
  by (simp_all add: demo_proc_def new_worker_def register_tool_adapters_def register_adapter_def)

lemma demo_owned: "owns demo_db 7 1 ''w1''" "find_task demo_db 7 = Some demo_task"
  by (simp_all add: owns_def find_task_def demo_db_def demo_task_def)

theorem finalize_contract_witness:
  "\<exists>ms r' d' k. finalize ''w1'' demo_rng 7 1 3 (Attempt_failed type_error) False ''sleep'' demo_db
      = ((Inr ms, r'), d') \<and> completed (completed_state k) (completed_outcome k) demo_db 7 1 d'
      \<and> completed_state k = FAILED"
proof -
  have "classify type_error = USER_ERROR"
    by (simp add: type_error_def adapter_error_def classify_def isinstance_def)
  then show ?thesis
    using finalize_contract [OF demo_db_inv, of "''w1''" "demo_rng" 7 1 3
        "Attempt_failed type_error" False "''sleep''"] demo_owned(1)
    by (simp add: TERMINAL_CLASSES_def) (elim exE conjE, intro exI conjI, assumption+)
qed

text \<open>The clock has passed the lease of task 7, which nobody asked to cancel.\<close>

definition demo_expired :: db where
  "demo_expired = demo_db\<lparr>now := 50\<rparr>"

lemma demo_expired_facts: "db_inv demo_expired" "owns demo_expired 7 1 (wp_id demo_proc)"
  "find_task demo_expired 7 = Some demo_task" "lease_expires_at demo_task = Some 40" "now demo_expired = 50"
  "\<not> cancel_requested demo_task"
proof -
  show "db_inv demo_expired"
    by (rule db_inv_frame [OF demo_db_inv]) (use demo_db_inv in \<open>auto simp: demo_expired_def db_inv_def event_refs_def\<close>)
qed (simp_all add: demo_expired_def owns_def find_task_def demo_db_def demo_task_def)

theorem lost_lease_cancels_witness:
  "\<exists>ms r' d' t'. finalize ''w1'' demo_rng 7 1 3 (Attempt_succeeded []) True ''sleep'' demo_expired
      = ((Inr ms, r'), d') \<and> find_task d' 7 = Some t' \<and> t_state t' = CANCELLED \<and> \<not> cancel_requested t'"
  using lost_lease_cancels [OF demo_expired_facts(1-4), of "demo_rng" 3 "Attempt_succeeded []" "''sleep''"]
    demo_expired_facts(5,6) by auto

theorem fenced_worker_stops_witness:
  "\<exists>wp'. loop_body 0 [] (\<lambda>_. False) demo_proc (demo_db\<lparr>workers := [demo_worker\<lparr>w_status := DEAD\<rparr>]\<rparr>)
     = (Inr wp', demo_db\<lparr>workers := [demo_worker\<lparr>w_status := DEAD\<rparr>]\<rparr>) \<and> fenced wp'"
  using fenced_worker_stops [of "demo_db\<lparr>workers := [demo_worker\<lparr>w_status := DEAD\<rparr>]\<rparr>" demo_proc 0 "[]" "\<lambda>_. False"]
  by auto

theorem loop_turn_bounded_witness:
  "\<exists>wp' d' jobs. loop_body 0 [] (\<lambda>_. False) demo_proc demo_idle = (Inr wp', d') \<and> inflight wp' = jobs \<and> length jobs \<le> 2"
proof -
  obtain wp1 d1 where hb: "maybe_heartbeat 0 demo_proc demo_idle = (wp1, d1)" by fastforce
  have "filter (\<lambda>w. w_id w = ''w1'' \<and> w_status w \<noteq> DEAD) (workers demo_idle) = [demo_worker]"
    by (simp add: demo_idle_def demo_queue_def demo_db_def demo_worker_def)
  then have "fst (heartbeat ''w1'' demo_idle)" by (simp add: heartbeat_def Let_def)
  then have "\<not> stopping wp1"
    using hb by (auto simp: maybe_heartbeat_def Let_def split: prod.splits if_splits)
  moreover have "find_worker demo_idle (wp_id demo_proc) \<noteq> None" using demo_idle_facts(1) by simp
  ultimately show ?thesis
    using loop_turn_bounded [OF demo_idle_inv _ hb, of "[]" "\<lambda>_. False"]
    by (auto simp: default_settings_def)
qed

theorem drain_hands_back_witness:
  "\<exists>wp d'. drain (\<lambda>x. x) wp demo_db = (wp\<lparr>owned := []\<rparr>, d') \<and> handed_back 10 d' 7"
proof -
  let ?wp = "demo_proc\<lparr>inflight := [\<lparr>job_row = demo_task, job_policy = UNGOVERNED\<rparr>], owned := [(7, 1)]\<rparr>"
  let ?d = "set_worker_status ''w1'' DRAINING demo_db"
  have "owns ?d 7 1 ''w1''" "now ?d = 10"
    using demo_owned by (simp_all add: set_worker_status_def owns_def find_task_def demo_db_def empty_db_def)
  then show ?thesis
    using drain_hands_back [OF demo_db_inv, of ?wp "\<lambda>x. x" ?wp ?d] set_worker_status_inv [OF demo_db_inv]
    by (intro exI [of _ ?wp]) auto
qed

theorem denied_tool_fails_once_witness:
  "\<exists>d1 au. attempt_body demo_proc \<lparr>job_row = demo_task\<lparr>task_type := ''demo.tools'',
        payload := [(''tools'', JArr [JStr ''rm''])]\<rparr>, job_policy = UNGOVERNED\<rparr> (\<lambda>_. False) (\<lambda>_. 0) demo_db =
      (Attempt_failed (denial ''rm'' (authorize UNGOVERNED ''rm'')), d1)
    \<and> audit_events d1 = [au] \<and> au_tenant_id au = 1"
proof -
  let ?row = "demo_task\<lparr>task_type := ''demo.tools'', payload := [(''tools'', JArr [JStr ''rm''])]\<rparr>"
  have "find_task demo_db (t_id ?row) \<noteq> None" "\<not> allowed (authorize UNGOVERNED ''rm'')"
    "wp_registry demo_proc (task_type ?row) = Some ToolCallingAdapter" "audit_events demo_db = []" "t_tenant_id ?row = 1"
    using demo_owned(2) by (simp_all add: demo_task_def authorize_allowed_iff UNGOVERNED_def demo_db_def empty_db_def)
  moreover have "dict_get (dict_del ''_trace'' (payload ?row)) ''tools'' (JArr []) = JArr (JStr ''rm'' # [])"
    by (simp add: dict_get_def dict_del_def)
  ultimately show ?thesis
    using denied_tool_fails_once [OF demo_db_inv, of ?row demo_proc "''rm''" "[]" UNGOVERNED "\<lambda>_. False" "\<lambda>_. 0" 1 demo_rng 3 "''t''"] by auto
qed

end
