(* ===== verification/Spans.thy ===== *)
theory Spans
  imports Tracing Guarantees WorkerLoop
begin

text \<open>
  The spans of the code that runs inside them: the worker's \<open>_run_attempt\<close> around
  \<open>_run_attempt_inner\<close>, \<open>_traced_invoker\<close> around a tool call, the claim's span, and the API's
  submission, whose span's identity travels in the payload under \<open>_trace\<close>. A span without a link
  changes nothing; the attempt's span has one, built before the attempt begins.
\<close>

section \<open>Code inside a span\<close>

definition with_span ::
  "(int \<Rightarrow> int \<Rightarrow> bool) \<Rightarrow> string \<Rightarrow> (string \<times> attribute) list \<Rightarrow> json \<Rightarrow> ('s \<Rightarrow> (exc + 'a) \<times> 's) \<Rightarrow> 's \<Rightarrow> (exc + 'a) \<times> 's" where
  "with_span valid name attrs carrier body s =
     (case open_span valid name attrs carrier of Inl e \<Rightarrow> (Inl e, s) | Inr sp \<Rightarrow> body s)"

definition traced_invoker :: "(int \<Rightarrow> int \<Rightarrow> bool) \<Rightarrow> tool_invoker \<Rightarrow> uuid \<Rightarrow> int \<Rightarrow> tool_invoker" where
  "traced_invoker valid invoker i attempt =
     (\<lambda>tool request. bindE (open_span valid ''acp.tool.call''
          [(''acp.task_id'', A_str (uuid_str i)), (''acp.attempt'', A_int attempt),
           (''acp.tool'', A_str (tr_name tool)), (''acp.tool_type'', A_str (tool_type_value (tr_tool_type tool)))] JNull)
        (\<lambda>_. invoker tool request))"

definition traced_claim ::
  "(int \<Rightarrow> int \<Rightarrow> bool) \<Rightarrow> int \<Rightarrow> uuid list \<Rightarrow> worker_proc \<Rightarrow> db \<Rightarrow> (exc + attempt_job list) \<times> db" where
  "traced_claim valid limit locked wp d =
     with_span valid ''acp.worker.claim'' [(''acp.worker_id'', A_str (wp_id wp))] JNull
       (transaction (claim_with_policies wp limit locked)) d"

text \<open>The request handler \<open>submit\<close>; \<open>_submit\<close> is \<open>submit\<close> of the theory \<open>Api\<close>.\<close>

definition traced_submit ::
  "(int \<Rightarrow> int \<Rightarrow> bool) \<Rightarrow> submit_env \<Rightarrow> time \<Rightarrow> task_create \<Rightarrow> db \<Rightarrow> (exc + (failure + (nat \<times> task_out))) \<times> db" where
  "traced_submit valid env clock b d =
     with_span valid ''acp.task.submit''
       [(''acp.tenant_id'', A_str (uuid_str (b_tenant_id b))),
        (''acp.task_type'', case b_task_type b of None \<Rightarrow> A_None | Some s \<Rightarrow> A_str s)] JNull
       (\<lambda>d. case submit env clock b d of (r, d1) \<Rightarrow> (Inr r, d1)) d"

definition attempt_attributes :: "worker_proc \<Rightarrow> task \<Rightarrow> (string \<times> attribute) list" where
  "attempt_attributes wp row =
     task_attributes (t_id row) (Some (t_tenant_id row)) (Some (task_type row))
     @ [(''acp.attempt'', A_int (t_attempt row)), (''acp.worker_id'', A_str (wp_id wp))]"

definition link_carrier :: "task \<Rightarrow> json" where
  "link_carrier row = dict_get (payload row) ''_trace'' JNull"

text \<open>\<open>_run_attempt\<close>; \<open>_run_attempt_inner\<close> is \<open>run_attempt\<close>.\<close>

definition traced_attempt ::
  "(int \<Rightarrow> int \<Rightarrow> bool) \<Rightarrow> attempt_job \<Rightarrow> (nat \<Rightarrow> bool) \<Rightarrow> (nat \<Rightarrow> rat) \<Rightarrow> (db \<Rightarrow> db) list \<Rightarrow> worker_proc \<Rightarrow> db
   \<Rightarrow> ((exc + metric list) \<times> worker_proc) \<times> db" where
  "traced_attempt valid job polls rands envs wp d =
     (case open_span valid ''acp.task.execute'' (attempt_attributes wp (job_row job)) (link_carrier (job_row job)) of
        Inl e \<Rightarrow> ((Inl e, wp), d)
      | Inr sp \<Rightarrow> run_attempt job polls rands envs wp d)"

section \<open>A span without a link is transparent\<close>

lemma open_span_plain: "\<exists>sp. open_span valid name attrs JNull = Inr sp"
  by (simp add: open_span_def)

lemma traced_invoker_plain: "traced_invoker valid invoker i attempt = invoker"
  by (simp add: traced_invoker_def open_span_def fun_eq_iff)

lemma traced_claim_plain: "traced_claim valid limit locked wp d = transaction (claim_with_policies wp limit locked) d"
  by (simp add: traced_claim_def with_span_def open_span_def)

lemma traced_submit_plain: "traced_submit valid env clock b d = (case submit env clock b d of (r, d1) \<Rightarrow> (Inr r, d1))"
  by (simp add: traced_submit_def with_span_def open_span_def)

section \<open>The link across the queue\<close>

lemma stored_payload:
  assumes "submission_of env b p = Inr s"
  shows "s_payload s = (case trace_carrier env of None \<Rightarrow> b_payload b
      | Some c \<Rightarrow> if c = [] then b_payload b else dict_set ''_trace'' (JObj c) (b_payload b))"
  using assms by (auto simp: submission_of_def split: option.splits)

lemma created_row:
  assumes "submit_task i s d = Inr (r, d')" "created r" "submission_ok s" "refs_ok s d"
  shows "find_task d' i = Some (new_task i s (now d))"
proof -
  have n: "find_task d i = None \<and> d' = with_task (new_task i s (now d)) (created_data s) d"
  proof (cases "holder s d")
    case (Some t)
    then show ?thesis using submit_dup [OF assms(3) Some, of i] assms(1,2) by (auto split: if_splits)
  next
    case None
    then have h: "d' = with_task (new_task i s (now d)) (created_data s) d \<and> find_task d i = None \<or> d' = d"
      using submit_cases [OF assms(1,3,4)] by blast
    show ?thesis
    proof (cases "find_task d i")
      case None': None
      then show ?thesis using submit_new [OF assms(3,4) None' None] assms(1) by simp
    next
      case (Some t)
      have v: "task_violation (new_task i s (now d)) = None" using assms(3) by (simp only: new_task_violation)
      have "insert_task (new_task i s (now d)) d = Inl (IntegrityError ''tasks_pkey'')"
        unfolding insert_task_def v using Some None holder_None [of s d] by simp
      then show ?thesis using assms(1) by (simp add: submit_task_def)
    qed
  qed
  then show ?thesis by (simp add: with_task_def find_task_def find_by_append new_task_def)
qed

text \<open>
  C21. The span link survives the queue. A submission whose span has a valid context stores it; then,
  whatever the platform does until some worker executes the task, on whichever attempt, the link of
  the execution's span is built without an exception and is that context, so the attempt runs as
  \<open>run_attempt\<close> says; and that attempt runs the adapter of the task's type on the client's payload
  without the transport key: the carrier never reaches an adapter, whether the platform put it
  there or the client.
\<close>

theorem trace_link_survives_the_queue:
  assumes "reachable S" and "s \<in> set (in_flight S)"
    and "submission_of env b p = Inr s" and "trace_carrier env = carrier_for_current_span valid ctx"
    and "valid (sc_trace_id ctx) (sc_span_id ctx)"
    and "submit_task i s (sys_db S) = Inr (r, d')" and "created r"
    and "sys_step\<^sup>*\<^sup>* (S\<lparr>sys_db := d', in_flight := remove1 s (in_flight S)\<rparr>) S'"
  shows "\<exists>t. find_task (sys_db S') i = Some t
    \<and> link_from_carrier valid (link_carrier t) = Inr [remote_context ctx]
    \<and> dict_del ''_trace'' (payload t) = dict_del ''_trace'' (b_payload b)
    \<and> (\<forall>pol polls rands envs wp d. let job = \<lparr>job_row = t, job_policy = pol\<rparr> in
         traced_attempt valid job polls rands envs wp d = run_attempt job polls rands envs wp d)
    \<and> (\<forall>adapter pol polls rands wp d. get_adapter (wp_registry wp) (task_type t) = Inr adapter \<longrightarrow>
         attempt_body wp \<lparr>job_row = t, job_policy = pol\<rparr> polls rands d =
           (case run_program (adapter (dict_del ''_trace'' (b_payload b))) (Some (tool_access_of wp t pol)) polls rands d of
              ((res, u), d1) \<Rightarrow> (case res of Inl e \<Rightarrow> Attempt_failed e | Inr v \<Rightarrow> Attempt_succeeded v, d1)))"
proof -
  have inv: "sys_inv S" by (rule reachable_inv [OF assms(1)])
  then have fl: "flight_ok (sys_db S) s" using assms(2) by (simp add: sys_inv_def)
  have ok: "submission_ok s" using fl by (simp add: flight_ok_def)
  have row: "find_task d' i = Some (new_task i s (now (sys_db S)))"
    by (rule created_row [OF assms(6,7) ok flight_refs [OF fl]])
  let ?S = "S\<lparr>sys_db := d', in_flight := remove1 s (in_flight S)\<rparr>"
  have step: "sys_step S ?S" by (rule s_insert [OF assms(2,6)])
  have "reachable ?S" using assms(1) step by (auto simp: reachable_def intro: rtranclp.rtrancl_into_rtrancl)
  then have h: "history (sys_db ?S) (sys_db S')" by (rule later(2) [OF _ assms(8)])
  obtain t where t: "find_task (sys_db S') i = Some t" "row_after (new_task i s (now (sys_db S))) t"
    using historyD [OF h, of i "new_task i s (now (sys_db S))"] row by auto
  have p: "payload t = s_payload s" using t(2) by (simp add: row_after_def pinned_def new_task_def)
  obtain c where c: "carrier_for_current_span valid ctx = Some c"
    using assms(5) by (simp add: carrier_for_current_span_def)
  note link = carrier_link [OF c]
  have pay: "payload t = dict_set ''_trace'' (JObj c) (b_payload b)"
    using stored_payload [OF assms(3)] assms(4) c link(1) by (simp add: p)
  then have "link_carrier t = JObj c" by (simp add: link_carrier_def dict_get_set)
  moreover have clean: "dict_del ''_trace'' (payload t) = dict_del ''_trace'' (b_payload b)" by (simp add: pay)
  moreover have "attempt_body wp \<lparr>job_row = t, job_policy = pol\<rparr> polls rands d =
      (case run_program (adapter (dict_del ''_trace'' (b_payload b))) (Some (tool_access_of wp t pol)) polls rands d of
         ((res, u), d1) \<Rightarrow> (case res of Inl e \<Rightarrow> Attempt_failed e | Inr v \<Rightarrow> Attempt_succeeded v, d1))"
    if "get_adapter (wp_registry wp) (task_type t) = Inr adapter" for adapter pol polls rands wp d
    using that by (simp add: attempt_body_def execute_adapter_def clean Let_def split: prod.split)
  ultimately show ?thesis
    using t(1) link(2) by (intro exI [of _ t]) (simp add: traced_attempt_def open_span_def Let_def)
qed

text \<open>
  C38. A malformed carrier is not harmless. When the submission's span has no valid context, nothing
  replaces a \<open>_trace\<close> of the client's own, and one of the wrong JSON type (a number, \<open>true\<close>, an object
  whose ids are numbers) makes the link raise \<open>TypeError\<close>, which the guard around it does not catch: every
  attempt of that task ends before it begins. No transaction runs, so the row stays leased to the
  worker until the lease expires, and the attempt is not among those a shutdown hands back.
\<close>

theorem malformed_carrier_crashes_attempt:
  assumes "submission_of env b p = Inr s" and "trace_carrier env = None"
    and "carrier_raises (dict_get (b_payload b) ''_trace'' JNull)" and "payload (job_row job) = s_payload s"
  shows "\<exists>e. exc_cls e = PyTypeError
    \<and> traced_attempt valid job polls rands envs wp d = ((Inl e, wp), d)"
proof -
  have "link_carrier (job_row job) = dict_get (b_payload b) ''_trace'' JNull"
    using stored_payload [OF assms(1)] assms(2,4) by (simp add: link_carrier_def)
  then obtain e where e: "link_from_carrier valid (link_carrier (job_row job)) = Inl e"
    using assms(3) link_raises_iff [of valid] by metis
  then show ?thesis
    using link_type_error [OF e] by (intro exI [of _ e]) (simp add: traced_attempt_def open_span_def)
qed

section \<open>Witnesses\<close>

text \<open>The documented range of OpenTelemetry's ids.\<close>

definition w3c_valid :: "int \<Rightarrow> int \<Rightarrow> bool" where
  "w3c_valid t s = (0 < t \<and> t < 2 ^ 128 \<and> 0 < s \<and> s < 2 ^ 64)"

definition demo_context :: span_context where
  "demo_context = \<lparr>sc_trace_id = 1, sc_span_id = 1, sc_remote = False, sc_sampled = True\<rparr>"

definition traced_body :: task_create where
  "traced_body = run_body\<lparr>b_payload := [(''_trace'', JNum 1), (''n'', JNum 2)]\<rparr>"

definition traced_env :: "dict option \<Rightarrow> submit_env" where
  "traced_env c = \<lparr>generated_id = 7, cached_global_queued = 0, shed_threshold = 0, trace_carrier = c,
     bound_text = (\<lambda>_. None), before_resolve = id, before_insert = id\<rparr>"

definition traced_submission :: submission where
  "traced_submission = run_submission\<lparr>s_payload :=
     [(''_trace'', JObj [(''trace_id'', JStr ''00000000000000000000000000000001''),
                         (''span_id'', JStr ''0000000000000001'')]), (''n'', JNum 2)]\<rparr>"

lemma demo_digits: "hex_digit 0 = CHR ''0''" "hex_digit (Suc 0) = CHR ''1''"
  by code_simp+

lemma traced_carrier:
  "carrier_for_current_span w3c_valid demo_context =
     Some [(''trace_id'', JStr ''00000000000000000000000000000001''), (''span_id'', JStr ''0000000000000001'')]"
  by (simp add: carrier_for_current_span_def w3c_valid_def demo_context_def format_hex_def hex_len.simps
      eval_nat_numeral hex_pad_Suc demo_digits)

lemma traced_submission_of:
  "submission_of (traced_env (carrier_for_current_span w3c_valid demo_context)) traced_body run_pin = Inr traced_submission"
  unfolding traced_carrier
  by (simp add: submission_of_def task_type_text_def traced_env_def traced_body_def run_body_def run_pin_def traced_submission_def
      run_submission_def dict_set_def)

lemma traced_insert:
  "case submit_task 7 traced_submission run1 of Inl _ \<Rightarrow> False | Inr (r, _) \<Rightarrow> created r"
  by code_simp

lemma traced_reachable: "reachable \<lparr>sys_db = run1, in_flight = [traced_submission]\<rparr>"
proof -
  let ?S = "\<lambda>ss. \<lparr>sys_db = run1, in_flight = ss\<rparr>"
  have c: "commit (empty_db 10) run1"
    using outcome_Inr [OF run_succeeds(1)] unfolding run1_def [symmetric] by (blast intro: c_create_tenant)
  have v: "task_create_valid (\<lambda>_. 2) traced_body" by code_simp
  have "get_tenant run1 1 \<noteq> None" by code_simp
  moreover have "b_tenant_id traced_body = 1" by (simp add: traced_body_def run_body_def)
  moreover have "resolve_submission traced_body run1 = Inr run_pin"
    by (simp add: resolve_submission_def traced_body_def run_body_def run_pin_def)
  ultimately have "sys_step (?S []) (?S [traced_submission])"
    using s_resolve [OF v, of "?S []"] traced_submission_of by simp
  moreover have "sys_step\<^sup>*\<^sup>* (start 10) (?S [])" using commits [OF c, of "[]"] by (simp add: start_def)
  ultimately show ?thesis unfolding reachable_def by (meson rtranclp.rtrancl_into_rtrancl)
qed

theorem trace_link_survives_the_queue_witness:
  "\<exists>(S' :: system) t. find_task (sys_db S') 7 = Some t
     \<and> link_from_carrier w3c_valid (link_carrier t) = Inr [remote_context demo_context]
     \<and> dict_del ''_trace'' (payload t) = [(''n'', JNum 2)]"
proof -
  obtain r d' where r: "submit_task 7 traced_submission run1 = Inr (r, d')" "created r"
    using traced_insert by (auto split: sum.splits)
  have env: "trace_carrier (traced_env (carrier_for_current_span w3c_valid demo_context)) =
      carrier_for_current_span w3c_valid demo_context"
    by (simp add: traced_env_def)
  have ok: "w3c_valid (sc_trace_id demo_context) (sc_span_id demo_context)"
    by (simp add: w3c_valid_def demo_context_def)
  have "dict_del ''_trace'' (b_payload traced_body) = [(''n'', JNum 2)]"
    by (simp add: traced_body_def run_body_def dict_del_def)
  moreover obtain t where "find_task d' 7 = Some t
      \<and> link_from_carrier w3c_valid (link_carrier t) = Inr [remote_context demo_context]
      \<and> dict_del ''_trace'' (payload t) = dict_del ''_trace'' (b_payload traced_body)"
    using trace_link_survives_the_queue [OF traced_reachable _ traced_submission_of env ok _ r(2) rtranclp.rtrancl_refl, of 7 d']
      r(1) by auto
  ultimately show ?thesis by - (rule exI [of _ "\<lparr>sys_db = d', in_flight = []\<rparr>"], rule exI [of _ t], simp)
qed

theorem malformed_carrier_crashes_attempt_witness:
  "\<exists>e. exc_cls e = PyTypeError
     \<and> (\<forall>pol polls rands envs wp. traced_attempt w3c_valid
          \<lparr>job_row = new_task 7 (run_submission\<lparr>s_payload := b_payload traced_body\<rparr>) 10, job_policy = pol\<rparr>
          polls rands envs wp run4 = ((Inl e, wp), run4))"
proof -
  have s: "submission_of (traced_env None) traced_body run_pin = Inr (run_submission\<lparr>s_payload := b_payload traced_body\<rparr>)"
    by (simp add: submission_of_def task_type_text_def traced_env_def traced_body_def run_body_def run_pin_def run_submission_def)
  have n: "trace_carrier (traced_env None) = None" by (simp add: traced_env_def)
  have r: "carrier_raises (dict_get (b_payload traced_body) ''_trace'' JNull)"
    by (simp add: carrier_raises_def dict_get_def traced_body_def)
  let ?row = "new_task 7 (run_submission\<lparr>s_payload := b_payload traced_body\<rparr>) 10"
  have l: "link_carrier ?row = JNum 1" by (simp add: link_carrier_def new_task_def traced_body_def dict_get_def)
  have "\<exists>e. exc_cls e = PyTypeError \<and> traced_attempt w3c_valid \<lparr>job_row = ?row, job_policy = pol\<rparr> polls rands envs wp run4 = ((Inl e, wp), run4)"
    for pol polls rands envs wp
    by (rule malformed_carrier_crashes_attempt [OF s n r]) (simp add: new_task_def)
  then show ?thesis
    by (simp add: traced_attempt_def open_span_def l link_from_carrier_def py_error_def)
qed

end
