(* ===== verification/Fleet.thy ===== *)
theory Fleet
  imports Spans
begin

text \<open>
  What goes on around one worker's loop. The commits of every other process, and what the worker's
  own code does in the database, are steps of the same relation \<open>others\<close>; the attempts that run while
  the loop waits, their interruption by a shutdown, and \<open>stop()\<close> are steps of \<open>around\<close>, on the state
  of the process and the database.
\<close>

section \<open>The platform seen from one process\<close>

definition world_ok :: "db \<Rightarrow> bool" where
  "world_ok d \<longleftrightarrow> sys_inv \<lparr>sys_db = d, in_flight = []\<rparr>"

text \<open>A commit, or the insert of a submission that has been resolved.\<close>

inductive others :: "db \<Rightarrow> db \<Rightarrow> bool" where
  o_commit: "commit d d' \<Longrightarrow> others d d'"
| o_insert: "flight_ok d s \<Longrightarrow> submit_task i s d = Inr (r, d') \<Longrightarrow> others d d'"

text \<open>Rows of tasks and workers that are there stay there.\<close>

definition known :: "db \<Rightarrow> db \<Rightarrow> bool" where
  "known d d' \<longleftrightarrow> (\<forall>i. find_task d i \<noteq> None \<longrightarrow> find_task d' i \<noteq> None)
     \<and> (\<forall>w. find_worker d w \<noteq> None \<longrightarrow> find_worker d' w \<noteq> None)"

lemma known_refl: "known d d"
  by (simp add: known_def)

lemma known_trans: "known d d1 \<Longrightarrow> known d1 d2 \<Longrightarrow> known d d2"
  by (simp add: known_def)

lemma disable_workers:
  assumes "disable a d = Inr ((g, n), d')"
  shows "workers d' = workers d"
proof -
  obtain d1 d2 vs why m where d: "set_agent_status a AGENT_DISABLED d = (Some g, d1)"
    "foldE (\<lambda>v x. bindE (set_version_status (av_id v) VERSION_DISABLED x) (\<lambda>(_, y). Inr y)) (list_versions d1 a) d1 = Inr d2"
    "cancel_agent_tasks vs why d2 = Inr (m, d')"
    using assms by (auto simp: disable_def Let_def unknown_def api_def elim!: uncaught_InrE split: prod.splits option.splits)
  have "workers d2 = workers d1" using d(2) by (auto simp: disable_each)
  moreover have "workers d1 = workers d" using d(1) by (auto simp: set_agent_status_def update_agents_def)
  ultimately show ?thesis using roster.cancel_agent_tasks_view [OF d(3)] by simp
qed

lemma control_workers: "control_step d d' \<Longrightarrow> workers d' = workers d"
  by (simp add: control_step_def work_def)

text \<open>No commit takes a worker's row away.\<close>

lemma commit_workers:
  assumes "commit d d'" "db_inv d" "control_inv d" "find_worker d w \<noteq> None"
  shows "find_worker d' w \<noteq> None"
  using assms
proof (induction rule: commit.induct)
  case (c_tick d t)
  then show ?case by (simp add: find_worker_def)
next
  case (c_register w' h p c cs d x d')
  then show ?case
    by (auto simp: register_worker_def Let_def find_worker_def find_by_append split: if_splits option.splits)
next
  case (c_heartbeat d w')
  then show ?case using heartbeat_frame(3) by blast
next
  case (c_status d w' st)
  then show ?case by (simp add: set_worker_status_def find_worker_update)
next
  case (c_mark_dead d n)
  then show ?case by (simp add: mark_dead_workers_def Let_def find_worker_update)
next
  case (c_claim d w' limit ttl policy caps locked rows d')
  then show ?case using roster.claim_tasks_view [OF c_claim(2)] by (simp add: find_worker_def)
next
  case (c_claim_late d w' ids' ttl rows d')
  then show ?case using roster.grant_leases_view [OF c_claim_late(3)] by (simp add: find_worker_def)
next
  case (c_renew i w' a ttl d res d')
  then show ?case using roster.renew_lease_view [OF c_renew(1)] by (simp add: find_worker_def)
next
  case (c_complete k i a w' d r d')
  then show ?case using roster.complete_view [OF c_complete(1)] by (simp add: find_worker_def)
next
  case (c_event i et att w' data d d')
  then show ?case using roster.record_event_view [OF c_event(1)] by (simp add: find_worker_def)
next
  case (c_audit d ar)
  then show ?case by (simp add: record_audit_def find_worker_def)
next
  case (c_reap_expired limit' locked d rr d')
  then show ?case using roster.reap_pass_view(1) [OF c_reap_expired(1)] by (simp add: find_worker_def)
next
  case (c_reap_hung limit' locked d rr d')
  then show ?case using roster.reap_pass_view(2) [OF c_reap_hung(1)] by (simp add: find_worker_def)
next
  case (c_cancel i d co d')
  then obtain r where r: "cancel_task i d = Inr (r, d')" using cancel_Inr by blast
  show ?case using roster.cancel_task_view [OF r] c_cancel(4) by (simp add: find_worker_def)
next
  case (c_create_tenant i tb d tn d')
  then have "workers d' = workers d"
    using handler_Inr(1) [OF c_create_tenant(1)] by (auto simp: create_tenant_def Let_def split: if_splits)
  then show ?case using c_create_tenant(4) by (simp add: find_worker_def)
next
  case (c_create_agent i ti nm desc d ag d')
  then show ?case
    using control_workers [OF create_agent_step [OF handler_Inr(2)]] by (simp add: find_worker_def)
next
  case (c_create_version i a' req d v d')
  then show ?case
    using control_workers [OF create_version_step [OF handler_Inr(3)]] by (simp add: find_worker_def)
next
  case (c_activate a' vi e re d ao d')
  then show ?case using control_workers [OF activate_step] by (simp add: find_worker_def)
next
  case (c_disable a' d gn d')
  then show ?case using disable_workers [of a' d] by (cases gn) (simp add: find_worker_def)
next
  case (c_set_route ti rt a' d u d')
  then show ?case using control_workers [OF set_route_step] by (simp add: find_worker_def)
next
  case (c_create_tool i ti nm ty cfg desc d tool1 d')
  then show ?case
    using control_workers [OF create_tool_step [OF handler_Inr(4)]] by (simp add: find_worker_def)
next
  case (c_disable_tool i d tool1 d')
  then show ?case
    using control_workers [OF switch_tool_step] unfolding disable_tool_def by (simp add: find_worker_def)
next
  case (c_enable_tool i d tool1 d')
  then show ?case
    using control_workers [OF switch_tool_step] unfolding enable_tool_def by (simp add: find_worker_def)
next
  case (c_grant vi i d u d')
  then have "workers d' = workers d" by (intro control_workers grant_step [of vi i d u d']) simp_all
  then show ?case using c_grant(4) by (simp add: find_worker_def)
next
  case (c_revoke vi i d u d')
  then have "workers d' = workers d" by (intro control_workers grant_step [of vi i d u d']) simp_all
  then show ?case using c_revoke(4) by (simp add: find_worker_def)
qed

lemma submit_workers:
  assumes "submit_task i s d = Inr (r, d')" "flight_ok d s"
  shows "workers d' = workers d"
proof -
  have "submission_ok s" using assms(2) by (simp add: flight_ok_def)
  from submit_cases [OF assms(1) this flight_refs [OF assms(2)]] show ?thesis by (auto simp: with_task_def)
qed

lemma others_ok:
  assumes "others d d'" "world_ok d"
  shows "world_ok d'" "known d d'"
proof -
  obtain ss where s: "sys_step \<lparr>sys_db = d, in_flight = ss\<rparr> \<lparr>sys_db = d', in_flight = []\<rparr>"
    "sys_inv \<lparr>sys_db = d, in_flight = ss\<rparr>"
    and w: "\<And>w. find_worker d w \<noteq> None \<Longrightarrow> find_worker d' w \<noteq> None"
    using assms(1)
  proof cases
    case o_commit
    have "db_inv d" "control_inv d" using assms(2) by (simp_all add: world_ok_def sys_inv_def)
    then show thesis
      using that [of "[]"] s_commit [of "\<lparr>sys_db = d, in_flight = []\<rparr>" d'] o_commit assms(2) commit_workers [OF o_commit]
      by (simp add: world_ok_def)
  next
    case (o_insert s i r)
    have "sys_step \<lparr>sys_db = d, in_flight = [s]\<rparr> \<lparr>sys_db = d', in_flight = []\<rparr>"
      using s_insert [of s "\<lparr>sys_db = d, in_flight = [s]\<rparr>" i r d'] o_insert by simp
    moreover have "sys_inv \<lparr>sys_db = d, in_flight = [s]\<rparr>" using assms(2) o_insert(1) by (simp add: world_ok_def sys_inv_def)
    ultimately show thesis
      using that [of "[s]"] submit_workers [OF o_insert(2,1)] by (simp add: find_worker_def)
  qed
  have "sys_inv \<lparr>sys_db = d', in_flight = []\<rparr>" "history d d'" using sys_step_good [OF s] by simp_all
  then show "world_ok d'" "known d d'"
    using w by (auto simp: world_ok_def known_def dest!: historyD)
qed

lemma others_run: "others\<^sup>*\<^sup>* d d' \<Longrightarrow> world_ok d \<Longrightarrow> world_ok d' \<and> known d d'"
proof (induction rule: rtranclp_induct)
  case base
  then show ?case by (simp add: known_refl)
next
  case (step y z)
  then show ?case using others_ok [of y z] known_trans by blast
qed

section \<open>What an attempt does in the database\<close>

text \<open>The gateway's callbacks commit events and audit records, so a whole adapter run is a run of commits.\<close>

definition reached :: "db \<Rightarrow> uuid \<Rightarrow> db \<Rightarrow> bool" where
  "reached d0 i d \<longleftrightarrow> recordable i d \<and> others\<^sup>*\<^sup>* d0 d"

lemma reached_step: "reached d0 i d \<Longrightarrow> others d d' \<Longrightarrow> recordable i d' \<Longrightarrow> reached d0 i d'"
  unfolding reached_def by (blast intro: rtranclp.rtrancl_into_rtrancl)

lemma reached_event:
  assumes "reached d0 (t_id row) d"
  shows "\<exists>d'. attempt_event wid row et data d = (Inr (), d') \<and> quiet (reached d0 (t_id row)) d d'"
proof -
  have r: "recordable (t_id row) d" using assms by (simp add: reached_def)
  let ?d = "with_event (event_of (t_id row) et (Some (t_attempt row)) (Some wid) data d) d"
  have "record_event (t_id row) et (Some (t_attempt row)) (Some wid) data d = Inr ?d"
    using r by (simp add: recordable_def record_event_def insert_event_def with_event_def event_of_def)
  then have "others d ?d" by (intro o_commit c_event)
  then show ?thesis
    using attempt_event_eq [OF r, where wid = wid and et = et and data = data] reached_step [OF assms] by (auto simp: quiet_def)
qed

lemma reached_audit:
  assumes "reached d0 i d"
  shows "quiet (reached d0 i) d (record_audit r d)"
  using assms audit_quiet [of i d r] reached_step [OF assms o_commit [OF c_audit]] by (simp add: quiet_def reached_def)

interpretation commit_recorder: attempt_recorder "reached d0 (t_id row)"
    "access_decided wid row pol" "access_executed wid row" for d0 wid row pol
proof unfold_locales
  fix d n x assume ok: "reached d0 (t_id row) d"
  show "\<exists>d'. access_decided wid row pol n x d = (Inr (), d') \<and> quiet (reached d0 (t_id row)) d d'"
  proof (cases "allowed x")
    case True
    then show ?thesis using reached_event [OF ok] by (simp add: access_decided_def)
  next
    case False
    obtain d1 where d1: "attempt_event wid row TOOL_ACCESS_DENIED
        [(''tool'', JStr n), (''reason'', JStr (reason_value x))] d = (Inr (), d1)"
      "quiet (reached d0 (t_id row)) d d1"
      using reached_event [OF ok] by blast
    have "quiet (reached d0 (t_id row)) d (record_audit (denial_audit row pol n (reason_value x)) d1)"
      using quiet_trans [OF d1(2) reached_audit] d1(2) by (simp add: quiet_def)
    then show ?thesis using False d1(1)
      by (simp add: access_decided_def Let_def record_audit_independently_def)
  qed
next
  fix d t b m assume "reached d0 (t_id row) d"
  then show "\<exists>d'. access_executed wid row t b m d = (Inr (), d') \<and> quiet (reached d0 (t_id row)) d d'"
    unfolding access_executed_def by (rule reached_event)
qed

lemma attempt_body_run:
  assumes "reached d0 (t_id (job_row job)) d"
  shows "reached d0 (t_id (job_row job)) (snd (attempt_body wp job polls rands d))"
proof (cases "get_adapter (wp_registry wp) (task_type (job_row job))")
  case (Inl e)
  then show ?thesis using assms by (simp add: attempt_body_def)
next
  case (Inr adapter)
  have "quiet (reached d0 (t_id (job_row job))) d (snd (run_program (adapter (dict_del ''_trace'' (payload (job_row job))))
      (Some (tool_access_of wp (job_row job) (job_policy job))) polls rands d))"
    by (rule commit_recorder.program_quiet [OF _ _ assms]) (simp_all add: tool_access_of_def)
  then show ?thesis
    by (simp add: attempt_body_def Inr execute_adapter_def Let_def case_prod_beta quiet_def)
qed

text \<open>During a renewal interval others commit.\<close>

definition calm :: "(db \<Rightarrow> db) \<Rightarrow> bool" where
  "calm env \<longleftrightarrow> (\<forall>d. others\<^sup>*\<^sup>* d (env d))"

lemma recordable_run:
  assumes "others\<^sup>*\<^sup>* d d'" "world_ok d" "find_task d i \<noteq> None"
  shows "world_ok d' \<and> recordable i d'"
  using others_run [OF assms(1,2)] assms(3) by (simp add: recordable_def known_def world_ok_def sys_inv_def)

lemma renew_run:
  assumes "world_ok d" "list_all calm envs"
  shows "others\<^sup>*\<^sup>* d (snd (renew_until_stopped envs wp i a c d))
    \<and> (\<exists>b. fst (renew_until_stopped envs wp i a c d) = Inr b)"
  using assms
proof (induction envs arbitrary: c d)
  case Nil
  then show ?case by simp
next
  case (Cons env envs)
  have e: "others\<^sup>*\<^sup>* d (env d)" using Cons.prems(2) by (simp add: calm_def)
  then have we: "world_ok (env d)" using others_run [OF e Cons.prems(1)] by blast
  then have inv: "db_inv (env d)" by (simp add: world_ok_def sys_inv_def)
  obtain res d1 where r: "renew_lease i (wp_id wp) a (lease_ttl_s (wp_settings wp)) (env d) = Inr (res, d1)"
    using renew_lease_result [OF inv, of i "wp_id wp" a "lease_ttl_s (wp_settings wp)"] by blast
  have o1: "others\<^sup>*\<^sup>* d d1" using e o_commit [OF c_renew [OF r]] by (rule rtranclp.rtrancl_into_rtrancl)
  have w1: "world_ok d1" using others_run [OF o1 Cons.prems(1)] by blast
  show ?case
  proof (cases res)
    case None
    then show ?thesis using o1 r by (auto intro: exI [of _ True])
  next
    case (Some ce)
    obtain b x where ce: "ce = (b, x)" by (cases ce)
    have "others\<^sup>*\<^sup>* d1 (snd (renew_until_stopped envs wp i a (c \<or> b) d1))
        \<and> (\<exists>b'. fst (renew_until_stopped envs wp i a (c \<or> b) d1) = Inr b')"
      using Cons.IH [OF w1] Cons.prems(2) by simp
    then show ?thesis using o1 r Some ce by (auto intro: rtranclp_trans)
  qed
qed

lemma finalize_run:
  assumes "world_ok d"
  shows "others\<^sup>*\<^sup>* d (snd (finalize wid r i a m res told ty d))"
proof -
  have inv: "db_inv d" using assms by (simp add: world_ok_def sys_inv_def)
  obtain tr d1 where c: "complete (choose_completion told res (fst (retry_verdict r a m res))) i a wid d = Inr (tr, d1)"
    and f: "finalize wid r i a m res told ty d =
      (if applied tr then ((Inr (record_outcome ty res told (fst (retry_verdict r a m res))),
          snd (retry_verdict r a m res)), d1)
       else let rej = (case res_rejection tr of Some x \<Rightarrow> rejection_value x | None \<Rightarrow> ''unknown'') in
         ((Inr [stale_write rej], snd (retry_verdict r a m res)),
          if find_task d i = None then d else with_event (event_of i STALE_WRITE_REJECTED (Some a) (Some wid)
            [(''operation'', JStr (operation_name res)), (''rejection'', JStr rej)] d) d))"
    by (rule finalize_eq [OF inv])
  have "others d (with_event (event_of i et (Some a) (Some wid) data d) d)" if "find_task d i \<noteq> None" for et data
  proof -
    have "record_event i et (Some a) (Some wid) data d = Inr (with_event (event_of i et (Some a) (Some wid) data d) d)"
      using that by (simp add: record_event_def insert_event_def with_event_def event_of_def)
    then show ?thesis by (intro o_commit c_event)
  qed
  then show ?thesis using f o_commit [OF c_complete [OF c]] by (auto simp: Let_def)
qed

lemma own_facts:
  assumes "distinct (map fst xs)"
  shows "distinct (map fst (own i a xs))" "distinct (map fst (disown i (own i a xs)))"
proof -
  have "map fst (own i a xs) = (if i \<in> fst ` set xs then map fst xs else map fst xs @ [i])"
    by (simp add: own_def comp_def if_distrib [of fst] cong: if_cong)
  then show d: "distinct (map fst (own i a xs))" using assms by simp
  show "distinct (map fst (disown i (own i a xs)))"
    unfolding disown_def using d by (simp add: distinct_map_filter)
qed

text \<open>An attempt of this process, crashed by its carrier or not.\<close>

lemma attempt_run:
  assumes "traced_attempt valid job polls rands envs wp d = ((r, wp'), d')"
    and "world_ok d" "find_task d (t_id (job_row job)) \<noteq> None" "list_all calm envs" "distinct (map fst (owned wp))"
  shows "others\<^sup>*\<^sup>* d d'" "distinct (map fst (owned wp'))" "wp_id wp' = wp_id wp" "wp_capacity wp' = wp_capacity wp"
    "fenced wp' = fenced wp" "stopping wp' = stopping wp" "inflight wp' = inflight wp"
proof -
  let ?i = "t_id (job_row job)" and ?a = "t_attempt (job_row job)"
  let ?wp = "wp\<lparr>owned := own ?i ?a (owned wp)\<rparr>"
  have goal: "others\<^sup>*\<^sup>* d d' \<and> distinct (map fst (owned wp')) \<and> wp_id wp' = wp_id wp \<and> wp_capacity wp' = wp_capacity wp
    \<and> fenced wp' = fenced wp \<and> stopping wp' = stopping wp \<and> inflight wp' = inflight wp"
  proof (cases "open_span valid ''acp.task.execute'' (attempt_attributes wp (job_row job)) (link_carrier (job_row job))")
    case (Inl e)
    then show ?thesis using assms(1,5) by (simp add: traced_attempt_def)
  next
    case (Inr sp)
    then have run: "run_attempt job polls rands envs wp d = ((r, wp'), d')" using assms(1) by (simp add: traced_attempt_def)
    obtain res d1 where b: "attempt_body ?wp job polls rands d = (res, d1)" by (cases "attempt_body ?wp job polls rands d")
    have "reached d ?i d" using assms(2,3) by (simp add: reached_def recordable_def world_ok_def sys_inv_def)
    then have o1: "others\<^sup>*\<^sup>* d d1" using attempt_body_run [of d job d ?wp polls rands] b by (simp add: reached_def)
    then have w1: "world_ok d1" using others_run assms(2) by blast
    obtain c d2 where rn: "renew_until_stopped envs ?wp ?i ?a False d1 = (Inr c, d2)" and o2: "others\<^sup>*\<^sup>* d1 d2"
      using renew_run [OF w1 assms(4), of ?wp ?i ?a False] by (metis prod.collapse)
    have w2: "world_ok d2" using others_run [OF o2 w1] by blast
    obtain ms r' d3 where f: "finalize (wp_id wp) (wp_rng wp) ?i ?a (t_max_attempts (job_row job)) res c
        (task_type (job_row job)) d2 = ((ms, r'), d3)" by (metis prod.collapse)
    have o3: "others\<^sup>*\<^sup>* d2 d3"
      using finalize_run [OF w2, of "wp_id wp" "wp_rng wp" ?i ?a "t_max_attempts (job_row job)" res c "task_type (job_row job)"] f
      by simp
    have "wp' = ?wp\<lparr>wp_rng := r', owned := disown ?i (owned ?wp)\<rparr>" "d' = d3"
      using run b rn f by (simp_all add: run_attempt_def Let_def)
    then show ?thesis using o1 o2 o3 own_facts(2) [OF assms(5)] by (auto intro: rtranclp_trans)
  qed
  then show "others\<^sup>*\<^sup>* d d'" "distinct (map fst (owned wp'))" "wp_id wp' = wp_id wp" "wp_capacity wp' = wp_capacity wp"
    "fenced wp' = fenced wp" "stopping wp' = stopping wp" "inflight wp' = inflight wp" by blast+
qed

section \<open>What goes on while the loop waits\<close>

text \<open>
  Others commit; an attempt in flight runs to its end, or is begun and then cut by the cancellation
  of its task, which leaves it among the owned; \<open>stop()\<close> is called. Attempts of one worker that
  overlap appear one after the other here, with the commits of the later among those of the others.
\<close>

inductive around :: "worker_proc \<times> db \<Rightarrow> worker_proc \<times> db \<Rightarrow> bool" where
  a_others: "others d d' \<Longrightarrow> around (wp, d) (wp, d')"
| a_attempt: "job \<in> set (inflight wp) \<Longrightarrow> list_all calm envs \<Longrightarrow>
    traced_attempt valid job polls rands envs wp d = ((r, wp'), d') \<Longrightarrow> around (wp, d) (wp', d')"
| a_cut: "job \<in> set (inflight wp) \<Longrightarrow>
    around (wp, d) (wp\<lparr>owned := own (t_id (job_row job)) (t_attempt (job_row job)) (owned wp)\<rparr>, d)"
| a_stop: "around (wp, d) (stop wp, d)"

definition waits :: "(worker_proc \<times> db \<Rightarrow> worker_proc \<times> db) \<Rightarrow> bool" where
  "waits f \<longleftrightarrow> (\<forall>x. around\<^sup>*\<^sup>* x (f x))"

text \<open>A worker whose row is there, with a dict of owned attempts, and whose attempts are of tasks that exist.\<close>

definition live_worker :: "worker_proc \<times> db \<Rightarrow> bool" where
  "live_worker x \<longleftrightarrow> world_ok (snd x) \<and> find_worker (snd x) (wp_id (fst x)) \<noteq> None \<and> distinct (map fst (owned (fst x)))
     \<and> (\<forall>j \<in> set (inflight (fst x)). find_task (snd x) (t_id (job_row j)) \<noteq> None)"

definition same_worker :: "worker_proc \<Rightarrow> worker_proc \<Rightarrow> bool" where
  "same_worker wp wp' \<longleftrightarrow> wp_id wp' = wp_id wp \<and> wp_capacity wp' = wp_capacity wp \<and> fenced wp' = fenced wp
     \<and> inflight wp' = inflight wp"

lemma live_run:
  assumes "live_worker (wp, d)" "others\<^sup>*\<^sup>* d d'" "same_worker wp wp'" "distinct (map fst (owned wp'))"
  shows "live_worker (wp', d')"
  using assms(1,3,4) others_run [OF assms(2)] by (auto simp: live_worker_def same_worker_def known_def)

lemma around_live:
  assumes "around x y" "live_worker x"
  shows "live_worker y \<and> same_worker (fst x) (fst y) \<and> others\<^sup>*\<^sup>* (snd x) (snd y)"
  using assms
proof (induction rule: around.induct)
  case (a_others d d' wp)
  have r: "others\<^sup>*\<^sup>* d d'" using a_others(1) by (rule r_into_rtranclp)
  have "same_worker wp wp" by (simp add: same_worker_def)
  then show ?case using live_run [OF a_others(2) r] a_others(2) r by (simp add: live_worker_def)
next
  case (a_attempt job wp envs valid polls rands d r wp' d')
  have l: "world_ok d" "find_task d (t_id (job_row job)) \<noteq> None" "distinct (map fst (owned wp))"
    using a_attempt(1,4) by (auto simp: live_worker_def)
  note run = attempt_run [OF a_attempt(3) l(1,2) a_attempt(2) l(3)]
  have "same_worker wp wp'" using run by (simp add: same_worker_def)
  then show ?case using live_run [OF a_attempt(4) run(1) _ run(2)] run(1) by simp
next
  case (a_cut job wp d)
  then show ?case using own_facts(1) by (auto simp: live_worker_def same_worker_def)
next
  case (a_stop wp d)
  then show ?case by (simp add: stop_def live_worker_def same_worker_def)
qed

lemma around_run:
  assumes "around\<^sup>*\<^sup>* x y" "live_worker x"
  shows "live_worker y \<and> same_worker (fst x) (fst y) \<and> others\<^sup>*\<^sup>* (snd x) (snd y)"
  using assms
proof (induction rule: rtranclp_induct)
  case base
  then show ?case by (simp add: same_worker_def)
next
  case (step y z)
  then have "live_worker y" "same_worker (fst x) (fst y)" "others\<^sup>*\<^sup>* (snd x) (snd y)" by blast+
  moreover have "live_worker z \<and> same_worker (fst y) (fst z) \<and> others\<^sup>*\<^sup>* (snd y) (snd z)"
    using around_live [OF step(2)] calculation(1) by blast
  ultimately show ?case by (auto simp: same_worker_def intro: rtranclp_trans)
qed

lemma waits_run:
  assumes "waits f" "live_worker (wp, d)" "f (wp, d) = (wp', d')"
  shows "live_worker (wp', d')" "same_worker wp wp'" "others\<^sup>*\<^sup>* d d'"
proof -
  have "around\<^sup>*\<^sup>* (wp, d) (wp', d')" using assms(1,3) unfolding waits_def by metis
  from around_run [OF this assms(2)] show "live_worker (wp', d')" "same_worker wp wp'" "others\<^sup>*\<^sup>* d d'" by simp_all
qed

section \<open>What the loop itself does\<close>

lemma heartbeat_run:
  assumes "live_worker (wp, d)" "maybe_heartbeat clk wp d = (wp1, d1)"
  shows "live_worker (wp1, d1)" "others\<^sup>*\<^sup>* d d1" "wp_id wp1 = wp_id wp" "wp_capacity wp1 = wp_capacity wp"
    "inflight wp1 = inflight wp" "stopping wp1 \<or> fenced wp1 = fenced wp"
proof -
  have db: "db_inv d" "distinct (map fst (owned wp))" using assms(1) by (simp_all add: live_worker_def world_ok_def sys_inv_def)
  note f = maybe_heartbeat_frame [OF db(1) assms(2)]
  have "d1 = d \<or> d1 = snd (heartbeat (wp_id wp) d)"
    using assms(2) by (auto simp: maybe_heartbeat_def Let_def split: if_splits prod.splits)
  then show r: "others\<^sup>*\<^sup>* d d1" using o_commit [OF c_heartbeat] by auto
  show "stopping wp1 \<or> fenced wp1 = fenced wp" and "wp_id wp1 = wp_id wp" "wp_capacity wp1 = wp_capacity wp"
    "inflight wp1 = inflight wp"
    using assms(2) f(3-5) by (auto simp: maybe_heartbeat_def Let_def split: if_splits prod.splits)
  have "owned wp1 = owned wp" using assms(2) by (auto simp: maybe_heartbeat_def Let_def split: if_splits prod.splits)
  moreover have "world_ok d1 \<and> known d d1" using others_run [OF r] assms(1) by (simp add: live_worker_def)
  ultimately show "live_worker (wp1, d1)" using assms(1) f(3,4) by (auto simp: live_worker_def known_def)
qed

lemma claim_run:
  assumes "live_worker (wp, d)"
  obtains jobs d' where "claim_and_dispatch limit locked wp d = (Inr (wp\<lparr>inflight := inflight wp @ jobs\<rparr>), d')"
    "live_worker (wp\<lparr>inflight := inflight wp @ jobs\<rparr>, d')" "others\<^sup>*\<^sup>* d d'"
    "int (length jobs) \<le> max 0 (min limit (claim_batch_size (wp_settings wp)))"
proof -
  have i: "db_inv d" "find_worker d (wp_id wp) \<noteq> None" using assms by (simp_all add: live_worker_def world_ok_def sys_inv_def)
  obtain jobs d' where c: "claim_and_dispatch limit locked wp d = (Inr (wp\<lparr>inflight := inflight wp @ jobs\<rparr>), d')"
    "int (length jobs) \<le> max 0 (min limit (claim_batch_size (wp_settings wp)))"
    "\<And>j. j \<in> set jobs \<Longrightarrow> find_task d' (t_id (job_row j)) = Some (job_row j)"
    using claim_and_dispatch_ok [OF i, of limit locked] by metis
  obtain rows d2 where r: "claim_tasks (wp_id wp) (min limit (claim_batch_size (wp_settings wp)))
      (lease_ttl_s (wp_settings wp)) (wp_claim_policy wp) (wp_capabilities wp) locked d = Inr (rows, d2)"
    using claim_granted [OF i] by blast
  then have "d2 = d'" using c(1) by (auto simp: claim_and_dispatch_def claim_with_policies_def)
  then have o: "others\<^sup>*\<^sup>* d d'" using o_commit [OF c_claim [OF i(2) r]] by auto
  have "world_ok d' \<and> known d d'" using others_run [OF o] assms by (simp add: live_worker_def)
  then have "live_worker (wp\<lparr>inflight := inflight wp @ jobs\<rparr>, d')"
    using assms c(3) by (auto simp: live_worker_def known_def)
  then show thesis using that c(1,2) o by blast
qed

lemma abandon_run:
  assumes "world_ok d"
  shows "others\<^sup>*\<^sup>* d (fold (abandon_one wid) xs d)"
  using assms
proof (induction xs arbitrary: d)
  case (Cons x xs)
  have "db_inv d" using Cons.prems by (simp add: world_ok_def sys_inv_def)
  then obtain r d1 where c: "complete (Abandoned ''worker_shutdown'') (fst x) (snd x) wid d = Inr (r, d1)"
    using complete_total by blast
  then have o: "others d d1" by (intro o_commit c_complete)
  have "abandon_one wid x d = d1" using c by (simp add: abandon_one_def)
  then show ?case using Cons.IH [OF others_ok(1) [OF o Cons.prems]] o by (simp add: converse_rtranclp_into_rtranclp)
qed simp

end
