(* ===== verification/ReaperLoop.thy ===== *)
theory ReaperLoop
  imports WorkerLoop Reap
begin

text \<open>
  \<open>reaper/loop.py\<close>: a sweep of the reaper. Two bounded loops of batches, one per pass, each batch in
  a transaction of its own, and then the liveness pass over the workers.
\<close>

section \<open>The sweep\<close>

record reaper =
  rp_settings :: settings
  batch_size :: nat
  max_batches_per_sweep :: nat

text \<open>
  What surrounds one batch: whether \<open>stop()\<close> has been called when its turn comes, the rows other
  transactions hold locked, and what they commit before it.
\<close>

record batch_env =
  stop_seen :: bool
  locked_rows :: "uuid list"
  committed :: "db \<Rightarrow> db"

fun batch_loop ::
  "(nat \<Rightarrow> uuid list \<Rightarrow> db \<Rightarrow> exn + (reap_result \<times> db)) \<Rightarrow> nat \<Rightarrow> (nat \<Rightarrow> batch_env) \<Rightarrow> nat
   \<Rightarrow> nat \<times> nat \<Rightarrow> db \<Rightarrow> (exc + nat \<times> nat) \<times> db" where
  "batch_loop pass batch env 0 acc d = (Inr acc, d)"
| "batch_loop pass batch env (Suc n) (requeued_n, failed_n) d =
     (if stop_seen (env n) then (Inr (requeued_n, failed_n), d)
      else and_then (transaction (pass batch (locked_rows (env n))) (committed (env n) d)) (\<lambda>result d1.
        let acc = (requeued_n + requeued result, failed_n + failed_exhausted result) in
        if reaped result < batch then (Inr acc, d1) else batch_loop pass batch env n acc d1))"

record sweep_report =
  lease_counts :: "nat \<times> nat"
  hung_counts :: "nat \<times> nat"
  marked_dead :: "string list"

text \<open>The environments are indexed by the batches left, so \<open>env (max - 1)\<close> is the first.\<close>

definition sweep ::
  "reaper \<Rightarrow> (nat \<Rightarrow> batch_env) \<Rightarrow> (nat \<Rightarrow> batch_env) \<Rightarrow> (db \<Rightarrow> db) \<Rightarrow> db \<Rightarrow> (exc + sweep_report) \<times> db" where
  "sweep rp env1 env2 env3 d =
     and_then (batch_loop reap_expired_leases (batch_size rp) env1 (max_batches_per_sweep rp) (0, 0) d) (\<lambda>leases d1.
     and_then (batch_loop reap_hung_tasks (batch_size rp) env2 (max_batches_per_sweep rp) (0, 0) d1) (\<lambda>hung d2.
       let (dead, d3) = mark_dead_workers (worker_dead_after_s (rp_settings rp)) (env3 d2)
       in (Inr \<lparr>lease_counts = leases, hung_counts = hung, marked_dead = dead\<rparr>, d3)))"

text \<open>\<open>run_forever\<close> over the sweeps it makes before it sees the stop flag.\<close>

fun run_reaper ::
  "((nat \<Rightarrow> batch_env) \<times> (nat \<Rightarrow> batch_env) \<times> (db \<Rightarrow> db)) list \<Rightarrow> reaper \<Rightarrow> db \<Rightarrow> (exc + unit) \<times> db" where
  "run_reaper [] rp d = (Inr (), d)"
| "run_reaper ((e1, e2, e3) # es) rp d = and_then (sweep rp e1 e2 e3 d) (\<lambda>_ d1. run_reaper es rp d1)"

text \<open>An environment in which nothing else runs and nobody stops the reaper.\<close>

definition undisturbed :: "nat \<Rightarrow> batch_env" where
  "undisturbed n = \<lparr>stop_seen = False, locked_rows = [], committed = (\<lambda>x. x)\<rparr>"

section \<open>What a loop of batches is to do\<close>

text \<open>
  The specification of a loop of at most \<open>n\<close> batches, with no reference to its code. A batch is the
  list of the rows others held locked, the state it saw and the state it left. Every batch recovers
  the rows its scan selects; another follows unless the loop is told to stop, the batch came short
  (nothing unlocked was left), or it was the last allowed.
\<close>

fun batches ::
  "(nat \<Rightarrow> uuid list \<Rightarrow> db \<Rightarrow> task list) \<Rightarrow> nat \<Rightarrow> (nat \<Rightarrow> batch_env) \<Rightarrow> nat \<Rightarrow> db
   \<Rightarrow> (uuid list \<times> db \<times> db) list \<Rightarrow> db \<Rightarrow> bool" where
  "batches rows batch env 0 d bs d' = (bs = [] \<and> d' = d)"
| "batches rows batch env (Suc n) d bs d' =
     (if stop_seen (env n) then bs = [] \<and> d' = d
      else case bs of
        [] \<Rightarrow> False
      | (locked, x, y) # bs1 \<Rightarrow>
          locked = locked_rows (env n) \<and> x = committed (env n) d \<and> recovered_all (rows batch locked x) x y
          \<and> (if length (rows batch locked x) < batch then bs1 = [] \<and> d' = y
              else batches rows batch env n y bs1 d'))"

definition batch_rows :: "(nat \<Rightarrow> uuid list \<Rightarrow> db \<Rightarrow> task list) \<Rightarrow> nat \<Rightarrow> uuid list \<times> db \<times> db \<Rightarrow> task list" where
  "batch_rows rows batch b = (case b of (locked, x, y) \<Rightarrow> rows batch locked x)"

lemma batch_rows_triple [simp]: "batch_rows rows batch (locked, x, y) = rows batch locked x"
  by (simp add: batch_rows_def)

lemma batches_bound: "batches rows batch env n d bs d' \<Longrightarrow> length bs \<le> n"
proof (induction n arbitrary: d bs)
  case (Suc n)
  then show ?case by (cases bs) (fastforce split: if_splits)+
qed simp

section \<open>A pass of batches\<close>

definition fenced_running :: "(time \<Rightarrow> task \<Rightarrow> bool) \<Rightarrow> db \<Rightarrow> task \<Rightarrow> bool" where
  "fenced_running fence d t \<longleftrightarrow> t_state t = RUNNING \<and> fence (now d) t"

definition backlog :: "(time \<Rightarrow> task \<Rightarrow> bool) \<Rightarrow> db \<Rightarrow> nat" where
  "backlog fence d = length (filter (fenced_running fence d) (tasks d))"

definition backlog_ids :: "(time \<Rightarrow> task \<Rightarrow> bool) \<Rightarrow> db \<Rightarrow> uuid set" where
  "backlog_ids fence d = {i. \<exists>t. find_task d i = Some t \<and> fenced_running fence d t}"

lemma backlog_ids_set:
  "ids_distinct d \<Longrightarrow> backlog_ids fence d = t_id ` set (filter (fenced_running fence d) (tasks d))"
  using find_by_unique [of t_id "tasks d"]
  by (auto simp: backlog_ids_def ids_distinct_def find_task_def image_iff)

lemma backlog_card:
  assumes "ids_distinct d"
  shows "backlog fence d = card (backlog_ids fence d)" "finite (backlog_ids fence d)"
proof -
  have "distinct (map t_id (filter (fenced_running fence d) (tasks d)))"
    using assms by (simp add: ids_distinct_def distinct_map_filter)
  then have "card (set (map t_id (filter (fenced_running fence d) (tasks d)))) =
      length (filter (fenced_running fence d) (tasks d))"
    by (metis distinct_card length_map)
  then show "backlog fence d = card (backlog_ids fence d)"
    by (simp add: backlog_def backlog_ids_set [OF assms])
  show "finite (backlog_ids fence d)" by (simp add: backlog_ids_set [OF assms])
qed

text \<open>
  What the loop relies on in a pass: it recovers the first \<open>limit\<close> of the unlocked candidates, says
  how many there were, and leaves every other task alone.
\<close>

locale sweep_pass =
  fixes pass :: "nat \<Rightarrow> uuid list \<Rightarrow> db \<Rightarrow> exn + (reap_result \<times> db)"
    and rows :: "nat \<Rightarrow> uuid list \<Rightarrow> db \<Rightarrow> task list"
    and fence :: "time \<Rightarrow> task \<Rightarrow> bool" and late :: "task \<Rightarrow> time"
  assumes pass_ok: "db_inv d \<Longrightarrow> \<exists>res d'. pass limit locked d = Inr (res, d') \<and> db_inv d' \<and> now d' = now d
      \<and> reaped res = length (rows limit locked d) \<and> recovered_all (rows limit locked d) d d'"
    and rows_eq: "rows limit locked d = take limit (sort_key late
      (filter (\<lambda>t. t_state t = RUNNING \<and> fence (now d) t \<and> t_id t \<notin> set locked) (tasks d)))"
begin

lemma rows_facts:
  assumes "db_inv d"
  shows "distinct (map t_id (rows limit locked d))"
    and "t \<in> set (rows limit locked d) \<Longrightarrow> find_task d (t_id t) = Some t \<and> fenced_running fence d t"
    and "length (rows limit [] d) = min limit (backlog fence d)"
proof -
  show "distinct (map t_id (rows limit locked d))"
    unfolding rows_eq by (rule scan_distinct [OF assms])
  show "t \<in> set (rows limit locked d) \<Longrightarrow> find_task d (t_id t) = Some t \<and> fenced_running fence d t"
    using scan_facts [OF assms, of t limit late] unfolding rows_eq fenced_running_def by blast
  have "(\<lambda>t. t_state t = RUNNING \<and> fence (now d) t \<and> t_id t \<notin> set []) = fenced_running fence d"
    by (auto simp: fenced_running_def)
  then show "length (rows limit [] d) = min limit (backlog fence d)"
    by (simp add: rows_eq backlog_def min.commute)
qed

lemma recovered_ids:
  assumes "db_inv d" "recovered_all (rows limit locked d) d d'" "now d' = now d"
  shows "backlog_ids g d' = backlog_ids g d - t_id ` set (rows limit locked d)"
proof (intro set_eqI iffI)
  fix i assume "i \<in> backlog_ids g d'"
  then obtain t where t: "find_task d' i = Some t" "t_state t = RUNNING" "g (now d') t"
    by (auto simp: backlog_ids_def fenced_running_def)
  have "i \<notin> t_id ` set (rows limit locked d)"
  proof
    assume "i \<in> t_id ` set (rows limit locked d)"
    then obtain u where "u \<in> set (rows limit locked d)" "t_id u = i" by blast
    then obtain t' where "find_task d' i = Some t'" "recovered_row (now d) u t'"
      using assms(2) by (auto simp: recovered_all_def)
    then show False using t by (simp add: recovered_row_def split: if_splits)
  qed
  moreover from this have "find_task d i = Some t" using assms(2) t(1) by (simp add: recovered_all_def)
  ultimately show "i \<in> backlog_ids g d - t_id ` set (rows limit locked d)"
    using t assms(3) by (simp add: backlog_ids_def fenced_running_def)
next
  fix i assume "i \<in> backlog_ids g d - t_id ` set (rows limit locked d)"
  then show "i \<in> backlog_ids g d'"
    using assms(2,3) by (simp add: backlog_ids_def fenced_running_def recovered_all_def)
qed

lemma quiet_pass:
  assumes "db_inv d"
  obtains res d' where "pass limit [] d = Inr (res, d')" "db_inv d'" "now d' = now d"
    "reaped res = min limit (backlog fence d)" "backlog fence d' = backlog fence d - min limit (backlog fence d)"
    "\<forall>g. backlog_ids g d' \<subseteq> backlog_ids g d"
proof -
  obtain res d' where p: "pass limit [] d = Inr (res, d')" "db_inv d'" "now d' = now d"
    "reaped res = length (rows limit [] d)" "recovered_all (rows limit [] d) d d'"
    using pass_ok [OF assms] by blast
  note ids = recovered_ids [OF assms p(5,3)]
  have sub: "t_id ` set (rows limit [] d) \<subseteq> backlog_ids fence d"
    using rows_facts(2) [OF assms] by (auto simp: backlog_ids_def)
  have "card (t_id ` set (rows limit [] d)) = length (rows limit [] d)"
    using rows_facts(1) [OF assms, of limit "[]"] by (metis distinct_card length_map list.set_map)
  then have "backlog fence d' = backlog fence d - length (rows limit [] d)"
    using ids [of fence] sub backlog_card [OF db_inv_ids [OF assms], of fence]
      backlog_card(1) [OF db_inv_ids [OF p(2)], of fence]
    by (simp add: card_Diff_subset)
  then show thesis using that p(1-4) ids rows_facts(3) [OF assms] by auto
qed

text \<open>
  Whatever happens around it, a loop of batches returns, keeps the invariant and is as specified; it
  counts the rows its batches recovered.
\<close>

lemma loop_total:
  assumes "\<forall>n x. db_inv x \<longrightarrow> db_inv (committed (env n) x)"
  shows "db_inv d \<Longrightarrow> \<exists>a' b' bs d'. batch_loop pass batch env n (a, b) d = (Inr (a', b'), d') \<and> db_inv d'
    \<and> batches rows batch env n d bs d'
    \<and> a' + b' = a + b + sum_list (map (length \<circ> batch_rows rows batch) bs)"
proof (induction n arbitrary: a b d)
  case 0
  then show ?case by simp
next
  case (Suc n)
  let ?l = "locked_rows (env n)" and ?x = "committed (env n) d"
  obtain res d1 where p: "pass batch ?l ?x = Inr (res, d1)" "db_inv d1"
    "reaped res = length (rows batch ?l ?x)" "recovered_all (rows batch ?l ?x) ?x d1"
    using pass_ok [of ?x] assms Suc.prems by blast
  show ?case
  proof (cases "stop_seen (env n)")
    case True
    then show ?thesis using Suc.prems by simp
  next
    case go: False
    let ?a = "a + requeued res" and ?b = "b + failed_exhausted res"
    show ?thesis
    proof (cases "reaped res < batch")
      case True
      then show ?thesis
        using go p by - (rule exI [of _ ?a], rule exI [of _ ?b], rule exI [of _ "[(?l, ?x, d1)]"],
            rule exI [of _ d1], simp add: Let_def reaped_def comp_def)
    next
      case False
      obtain a' b' bs d' where r: "batch_loop pass batch env n (?a, ?b) d1 = (Inr (a', b'), d')" "db_inv d'"
        "batches rows batch env n d1 bs d'"
        "a' + b' = ?a + ?b + sum_list (map (length \<circ> batch_rows rows batch) bs)"
        using Suc.IH [OF p(2)] by blast
      then show ?thesis
        using go p False by - (rule exI [of _ a'], rule exI [of _ b'], rule exI [of _ "(?l, ?x, d1) # bs"],
            rule exI [of _ d'], simp add: Let_def reaped_def comp_def)
    qed
  qed
qed

text \<open>With nothing else going on, it empties a backlog that its bound can hold.\<close>

lemma loop_drains:
  assumes "0 < batch"
  shows "db_inv d \<Longrightarrow> backlog fence d \<le> n * batch \<Longrightarrow>
    \<exists>acc' d'. batch_loop pass batch undisturbed n acc d = (Inr acc', d') \<and> db_inv d' \<and> now d' = now d
      \<and> backlog fence d' = 0 \<and> (\<forall>g. backlog_ids g d' \<subseteq> backlog_ids g d)"
proof (induction n arbitrary: acc d)
  case 0
  then show ?case by simp
next
  case (Suc n)
  obtain a b where acc: "acc = (a, b)" by (cases acc)
  obtain res d1 where p: "pass batch [] d = Inr (res, d1)" "db_inv d1" "now d1 = now d"
    "reaped res = min batch (backlog fence d)" "backlog fence d1 = backlog fence d - min batch (backlog fence d)"
    "\<forall>g. backlog_ids g d1 \<subseteq> backlog_ids g d"
    by (rule quiet_pass [OF Suc.prems(1), of batch])
  show ?case
  proof (cases "reaped res < batch")
    case True
    then have "backlog fence d1 = 0" using p(4,5) by simp
    with True p show ?thesis by (simp add: acc undisturbed_def Let_def)
  next
    case False
    then have "backlog fence d1 \<le> n * batch" using p(4,5) Suc.prems(2) by simp
    from Suc.IH [OF p(2) this] False p show ?thesis
      by (simp add: acc undisturbed_def Let_def) (meson order_trans)
  qed
qed

end

interpretation lease_sweep: sweep_pass reap_expired_leases expired_rows lease_expired lease_end
  by unfold_locales (use reap_expired_ok in blast, simp add: expired_rows_def)

interpretation hung_sweep: sweep_pass reap_hung_tasks hung_rows execution_time_exceeded execution_start
  by unfold_locales (use reap_hung_ok in blast, simp add: hung_rows_def)

section \<open>Properties\<close>

lemma counted_bound:
  assumes "batches rows batch env n d bs d'" "\<And>locked x. length (rows batch locked x) \<le> batch"
  shows "sum_list (map (length \<circ> batch_rows rows batch) bs) \<le> n * batch"
proof -
  have "sum_list (map (length \<circ> batch_rows rows batch) bs) \<le> length bs * batch"
    using assms(2) by (induction bs) (auto simp: batch_rows_def add_mono split: prod.split)
  also have "\<dots> \<le> n * batch" using batches_bound [OF assms(1)] by simp
  finally show ?thesis .
qed

lemma scan_lengths: "length (expired_rows n locked x) \<le> n" "length (hung_rows n locked x) \<le> n"
  by (simp_all add: expired_rows_def hung_rows_def)

text \<open>
  C26. A sweep always ends and does its three jobs. Whatever other processes commit between its
  transactions (as long as they keep the invariant), whatever rows they hold locked and whenever it
  is told to stop, a sweep never raises and keeps the invariant. Its first half is a loop of
  batches over the expired leases and its second one over the overdue tasks, each as \<open>batches\<close>
  says: every batch recovers exactly the rows its scan selects on the state it sees, and a loop ends
  when it is told to, when a batch comes short, or after \<open>max_batches_per_sweep\<close> batches, which it
  never exceeds. The report counts what the batches recovered, so at most
  \<open>max_batches_per_sweep * batch_size\<close> tasks in each half. Then the liveness pass runs: it reports
  exactly the stale workers of that moment and leaves none of them alive.
\<close>

theorem sweep_total:
  assumes "db_inv d"
    and "\<forall>n x. db_inv x \<longrightarrow> db_inv (committed (env1 n) x)" "\<forall>n x. db_inv x \<longrightarrow> db_inv (committed (env2 n) x)"
    and "\<forall>x. db_inv x \<longrightarrow> db_inv (env3 x)"
  shows "\<exists>rep bs1 d1 bs2 d2 d'. sweep rp env1 env2 env3 d = (Inr rep, d') \<and> db_inv d2 \<and> db_inv d'
    \<and> batches expired_rows (batch_size rp) env1 (max_batches_per_sweep rp) d bs1 d1
    \<and> batches hung_rows (batch_size rp) env2 (max_batches_per_sweep rp) d1 bs2 d2
    \<and> length bs1 \<le> max_batches_per_sweep rp \<and> length bs2 \<le> max_batches_per_sweep rp
    \<and> fst (lease_counts rep) + snd (lease_counts rep)
        = sum_list (map (length \<circ> batch_rows expired_rows (batch_size rp)) bs1)
    \<and> fst (hung_counts rep) + snd (hung_counts rep)
        = sum_list (map (length \<circ> batch_rows hung_rows (batch_size rp)) bs2)
    \<and> fst (lease_counts rep) + snd (lease_counts rep) \<le> max_batches_per_sweep rp * batch_size rp
    \<and> fst (hung_counts rep) + snd (hung_counts rep) \<le> max_batches_per_sweep rp * batch_size rp
    \<and> set (marked_dead rep) = {w_id w | w. w \<in> set (workers (env3 d2))
          \<and> stale_worker (now (env3 d2)) (worker_dead_after_s (rp_settings rp)) w}
    \<and> (\<forall>w \<in> set (workers d'). \<not> stale_worker (now d') (worker_dead_after_s (rp_settings rp)) w)"
proof -
  let ?n = "worker_dead_after_s (rp_settings rp)" and ?k = "max_batches_per_sweep rp" and ?b = "batch_size rp"
  obtain a1 b1 bs1 d1 where l1: "batch_loop reap_expired_leases ?b env1 ?k (0, 0) d = (Inr (a1, b1), d1)"
    "db_inv d1" "batches expired_rows ?b env1 ?k d bs1 d1"
    "a1 + b1 = 0 + 0 + sum_list (map (length \<circ> batch_rows expired_rows ?b) bs1)"
    using lease_sweep.loop_total [OF assms(2,1)] by blast
  obtain a2 b2 bs2 d2 where l2: "batch_loop reap_hung_tasks ?b env2 ?k (0, 0) d1 = (Inr (a2, b2), d2)"
    "db_inv d2" "batches hung_rows ?b env2 ?k d1 bs2 d2"
    "a2 + b2 = 0 + 0 + sum_list (map (length \<circ> batch_rows hung_rows ?b) bs2)"
    using hung_sweep.loop_total [OF assms(3) l1(2)] by blast
  let ?m = "mark_dead_workers ?n (env3 d2)"
  let ?r = "\<lparr>lease_counts = (a1, b1), hung_counts = (a2, b2), marked_dead = fst ?m\<rparr>"
  have run: "sweep rp env1 env2 env3 d = (Inr ?r, snd ?m)"
    by (simp add: sweep_def l1(1) l2(1) case_prod_beta Let_def)
  have dead: "set (fst ?m) = {w_id w | w. w \<in> set (workers (env3 d2)) \<and> stale_worker (now (env3 d2)) ?n w}"
    by (auto simp: mark_dead_workers_def Let_def sql_returning_def)
  have live: "\<not> stale_worker (now (snd ?m)) ?n w" if "w \<in> set (workers (snd ?m))" for w
    using that by (auto simp: mark_dead_workers_def Let_def set_sql_update stale_worker_def)
  have counts: "a1 + b1 \<le> ?k * ?b" "a2 + b2 \<le> ?k * ?b"
    using counted_bound [OF l1(3) scan_lengths(1)] counted_bound [OF l2(3) scan_lengths(2)] l1(4) l2(4) by simp_all
  show ?thesis
    apply (rule exI [of _ ?r], rule exI [of _ bs1], rule exI [of _ d1], rule exI [of _ bs2], rule exI [of _ d2],
        rule exI [of _ "snd ?m"], intro conjI)
    subgoal by (rule run)
    subgoal by (rule l2(2))
    subgoal using mark_dead_workers_inv [of "env3 d2" ?n] assms(4) l2(2) by blast
    subgoal by (rule l1(3))
    subgoal by (rule l2(3))
    subgoal by (rule batches_bound [OF l1(3)])
    subgoal by (rule batches_bound [OF l2(3)])
    subgoal using l1(4) by simp
    subgoal using l2(4) by simp
    subgoal using counts(1) by simp
    subgoal using counts(2) by simp
    subgoal using dead by simp
    subgoal using live by blast
    done
qed

text \<open>
  C27. Recovery latency. When nothing else runs, one sweep recovers the whole backlog, not one batch
  of it: if the expired leases and the overdue tasks each fit in \<open>batch_size * max_batches\<close>, then
  after it no running task has an expired lease or an exceeded execution time.
\<close>

theorem sweep_drains_backlog:
  assumes "db_inv d" and "0 < batch_size rp"
    and "backlog lease_expired d \<le> max_batches_per_sweep rp * batch_size rp"
    and "backlog execution_time_exceeded d \<le> max_batches_per_sweep rp * batch_size rp"
  shows "\<exists>rep d'. sweep rp undisturbed undisturbed (\<lambda>x. x) d = (Inr rep, d') \<and> db_inv d'
    \<and> (\<forall>t \<in> set (tasks d'). t_state t = RUNNING \<longrightarrow>
         \<not> lease_expired (now d') t \<and> \<not> execution_time_exceeded (now d') t)"
proof -
  let ?n = "worker_dead_after_s (rp_settings rp)"
  obtain a1 d1 where l1: "batch_loop reap_expired_leases (batch_size rp) undisturbed (max_batches_per_sweep rp) (0, 0) d = (Inr a1, d1)"
    "db_inv d1" "now d1 = now d" "backlog lease_expired d1 = 0" "\<forall>g. backlog_ids g d1 \<subseteq> backlog_ids g d"
    using lease_sweep.loop_drains [OF assms(2,1,3)] by blast
  have fin: "finite (backlog_ids g x)" "backlog g x = card (backlog_ids g x)" if "db_inv x" for g x
    using backlog_card [OF db_inv_ids [OF that]] by simp_all
  have "backlog execution_time_exceeded d1 \<le> backlog execution_time_exceeded d"
    using l1(5) fin [OF assms(1)] fin [OF l1(2)] by (simp add: card_mono)
  then have "backlog execution_time_exceeded d1 \<le> max_batches_per_sweep rp * batch_size rp"
    using assms(4) by simp
  from hung_sweep.loop_drains [OF assms(2) l1(2) this] obtain a2 d2 where
    l2: "batch_loop reap_hung_tasks (batch_size rp) undisturbed (max_batches_per_sweep rp) (0, 0) d1 = (Inr a2, d2)"
    "db_inv d2" "now d2 = now d1" "backlog execution_time_exceeded d2 = 0" "\<forall>g. backlog_ids g d2 \<subseteq> backlog_ids g d1"
    by blast
  have "backlog lease_expired d2 = 0"
    using l1(4) l2(5) fin [OF l1(2)] fin [OF l2(2)] by simp (metis subset_empty)
  then have clean: "\<not> fenced_running lease_expired d2 t \<and> \<not> fenced_running execution_time_exceeded d2 t"
    if "t \<in> set (tasks d2)" for t
    using that l2(4) by (simp add: backlog_def filter_empty_conv)
  let ?m = "snd (mark_dead_workers ?n d2)"
  have "sweep rp undisturbed undisturbed (\<lambda>x. x) d =
      (Inr \<lparr>lease_counts = a1, hung_counts = a2, marked_dead = fst (mark_dead_workers ?n d2)\<rparr>, ?m)"
    by (simp add: sweep_def l1(1) l2(1) case_prod_beta Let_def)
  moreover have "tasks ?m = tasks d2" "now ?m = now d2" by (simp_all add: mark_dead_workers_def Let_def)
  ultimately show ?thesis
    using clean mark_dead_workers_inv [OF l2(2)] by (auto simp: fenced_running_def)
qed

definition demo_reaper :: reaper where
  "demo_reaper = \<lparr>rp_settings = default_settings, batch_size = 100, max_batches_per_sweep = 50\<rparr>"

text \<open>In the witness the lease of the only running task has expired, so the first batch recovers it.\<close>

theorem sweep_total_witness:
  "\<exists>rep d'. sweep demo_reaper undisturbed undisturbed (\<lambda>x. x) demo_late = (Inr rep, d') \<and> db_inv d'
     \<and> fst (lease_counts rep) + snd (lease_counts rep) = 1"
proof -
  have late: "expired_rows 100 [] demo_late = [demo_task]" 
    by (simp add: expired_rows_def demo_late_def demo_db_def) (simp add: demo_task_def lease_expired_def)
  obtain rep bs1 d1 d' where r: "sweep demo_reaper undisturbed undisturbed (\<lambda>x. x) demo_late = (Inr rep, d')" "db_inv d'"
    "batches expired_rows 100 undisturbed 50 demo_late bs1 d1"
    "fst (lease_counts rep) + snd (lease_counts rep) = sum_list (map (length \<circ> batch_rows expired_rows 100) bs1)"
    using sweep_total [OF demo_late_inv, of undisturbed undisturbed "\<lambda>x. x" demo_reaper]
    by (auto simp: undisturbed_def demo_reaper_def)
  have "batches expired_rows 100 undisturbed (Suc 49) demo_late bs1 d1" using r(3) by simp
  then have "\<exists>y. bs1 = [([], demo_late, y)]"
    unfolding batches.simps by (auto simp: undisturbed_def late split: list.splits)
  then show ?thesis using r late by (auto simp: batch_rows_def)
qed

theorem sweep_drains_backlog_witness:
  "\<exists>rep d'. sweep demo_reaper undisturbed undisturbed (\<lambda>x. x) demo_late = (Inr rep, d')
     \<and> (\<forall>t \<in> set (tasks d'). t_state t = RUNNING \<longrightarrow> \<not> lease_expired (now d') t)"
proof -
  have "backlog g demo_late \<le> 1" for g
    by (simp add: backlog_def demo_late_def demo_db_def)
  then have "backlog g demo_late \<le> 50 * 100" for g by (rule le_trans) simp
  then show ?thesis
    using sweep_drains_backlog [OF demo_late_inv, of demo_reaper]
    by (simp add: demo_reaper_def) blast
qed

end
