(* ===== verification/PlatformViews.thy ===== *)
theory PlatformViews
  imports System
begin

text \<open>
  What a transaction of the platform can change, seen through a view of the database: the locale
  \<open>platform_view\<close> extends the frame of the task side by the registry, so that a view is left alone by
  every transaction but the passing of time and the creation of a tenant. Used for the clock, the
  tenants and what identifies the tasks.
\<close>

section \<open>The frame of a transaction\<close>

locale platform_view = db_view view
  for view :: "db \<Rightarrow> 'v" +
  assumes view_work: "work d' = work d \<Longrightarrow> view d' = view d"
begin

lemma control_view: "control_step d d' \<Longrightarrow> view d' = view d"
  by (rule view_work) (simp add: control_step_def)

lemma disable_view:
  assumes "disable g d = Inr (gn, d')"
  shows "view d' = view d"
proof -
  obtain d1 d2 vs why m where d: "d1 = snd (set_agent_status g AGENT_DISABLED d)"
    "foldE (\<lambda>v x. bindE (set_version_status (av_id v) VERSION_DISABLED x) (\<lambda>(_, y). Inr y)) (list_versions d1 g) d1 = Inr d2"
    "cancel_agent_tasks vs why d2 = Inr (m, d')"
    using assms by (cases gn) (auto simp: disable_def Let_def unknown_def api_def elim!: uncaught_InrE split: prod.splits option.splits)
  have "work d2 = work d1" using d(2) by (auto simp: disable_each work_def)
  also have "\<dots> = work d" using d(1) by (auto simp: set_agent_status_def update_agents_def work_def)
  finally have "view d2 = view d" by (rule view_work)
  then show ?thesis using cancel_agent_tasks_view [OF d(3)] by simp
qed

lemma insert_view:
  assumes "submit_task i s d = Inr (r, d')" "flight_ok d s"
    and "\<And>x ts. view (x\<lparr>tasks := ts\<rparr>) = view x"
  shows "view d' = view d"
proof -
  have "submission_ok s" using assms(2) by (simp add: flight_ok_def)
  from submit_cases [OF assms(1) this flight_refs [OF assms(2)]] show ?thesis
    by (auto simp: with_task_def view_events assms(3))
qed

lemma commit_view:
  assumes "commit d d'" "control_inv d"
  shows "view d' = view d \<or> (\<exists>t. now d \<le> t \<and> d' = d\<lparr>now := t\<rparr>)
    \<or> (\<exists>tn. tn_id tn \<notin> tn_id ` set (tenants d) \<and> d' = d\<lparr>tenants := tenants d @ [tn]\<rparr>)"
  using assms
proof (induction rule: commit.induct)
  case (c_claim d w' limit ttl policy caps locked rows d')
  then show ?case using claim_tasks_view [OF c_claim(2)] by simp
next
  case (c_event i et att w' data d d')
  then show ?case using record_event_view [OF c_event(1)] by simp
next
  case (c_cancel i d co d')
  then obtain r where "cancel_task i d = Inr (r, d')" using cancel_Inr by blast
  then show ?case using cancel_task_view by simp
next
  case (c_create_tenant i tb d tn d')
  then have "tn_id tn \<notin> tn_id ` set (tenants d) \<and> d' = d\<lparr>tenants := tenants d @ [tn]\<rparr>"
    using handler_Inr(1) [OF c_create_tenant(1)] by (auto simp: create_tenant_def Let_def split: if_splits)
  then show ?case by blast
next
  case (c_disable_tool i d tool1 d')
  then show ?case using control_view [OF switch_tool_step] unfolding disable_tool_def by blast
next
  case (c_enable_tool i d tool1 d')
  then show ?case using control_view [OF switch_tool_step] unfolding enable_tool_def by blast
next
  case (c_grant vi i d u d')
  then have "control_step d d'" by (intro grant_step [of vi i d u d']) simp_all
  then show ?case using control_view by blast
next
  case (c_revoke vi i d u d')
  then have "control_step d d'" by (intro grant_step [of vi i d u d']) simp_all
  then show ?case using control_view by blast
next
  case (c_audit d ar)
  then show ?case using control_view [OF record_audit_step] by blast
next
  case (c_disable a' d gn d')
  then show ?case using disable_view by blast
next
  case (c_tick d t)
  then show ?case by blast
next
  case (c_register w h p c cs d x d')
  then show ?case using register_worker_view [OF c_register(1)] by simp
next
  case (c_claim_late d w' ids' ttl rows d')
  then show ?case using grant_leases_view [OF c_claim_late(3)] by simp
next
  case (c_renew i w' a ttl d res d')
  then show ?case using renew_lease_view [OF c_renew(1)] by simp
next
  case (c_complete k i a w' d r d')
  then show ?case using complete_view [OF c_complete(1)] by simp
next
  case (c_reap_expired limit' locked d rr d')
  then show ?case using reap_pass_view(1) [OF c_reap_expired(1)] by simp
next
  case (c_reap_hung limit' locked d rr d')
  then show ?case using reap_pass_view(2) [OF c_reap_hung(1)] by simp
next
  case (c_create_agent i ti nm desc d ag d')
  then show ?case using control_view [OF create_agent_step [OF handler_Inr(2)]] by simp
next
  case (c_create_version i a' req d v d')
  then show ?case using control_view [OF create_version_step [OF handler_Inr(3)]] by simp
next
  case (c_activate a' vi e re d ao d')
  then show ?case using control_view [OF activate_step] by simp
next
  case (c_set_route ti rt a' d u d')
  then show ?case using control_view [OF set_route_step] by simp
next
  case (c_create_tool i ti nm ty cfg desc d tool1 d')
  then show ?case using control_view [OF create_tool_step [OF handler_Inr(4)]] by simp
qed simp_all

end

section \<open>The views\<close>

interpretation clockwork: platform_view now
  by unfold_locales (simp_all add: work_def)

interpretation tenantry: platform_view tenants
  by unfold_locales (simp_all add: work_def)

definition owners :: "db \<Rightarrow> (uuid \<times> uuid \<times> string) list" where
  "owners d = map (\<lambda>t. (t_id t, t_tenant_id t, task_type t)) (tasks d)"

lemma owners_update: "owners (d\<lparr>tasks := sql_update p (set_row f) (tasks d)\<rparr>) = owners d"
proof -
  have "task_type (set_row f t) = task_type t" for t using pinned_set_row [of f t] unfolding pinned_def by simp
  then show ?thesis by (simp add: owners_def sql_update_def comp_def)
qed

interpretation ownership: platform_view owners
  by unfold_locales (rule owners_update, simp_all add: owners_def work_def)

text \<open>Tenants are never changed or taken away; the number of tasks of one changes by submissions only.\<close>

lemma commit_tenant:
  assumes "commit d d'" "control_inv d" "get_tenant d i = Some tn"
  shows "get_tenant d' i = Some tn"
  using tenantry.commit_view [OF assms(1,2)] assms(3)
  by (auto simp: get_tenant_def find_by_append)

lemma commit_owners:
  assumes "commit d d'" "control_inv d"
  shows "owners d' = owners d"
  using ownership.commit_view [OF assms] by (auto simp: owners_def)

end
