(* ===== verification/RecoveryBound.thy ===== *)
theory RecoveryBound
  imports Fleet ReaperLoop Guarantees PlatformViews
begin

text \<open>
  How long a dead worker can hold a task. The documented bound is \<open>recovery_bound_s\<close> of
  \<open>api/app.py\<close>, the time to live of a lease plus the period of the reaper; here the runs in which an
  attempt is not renewed, while anything else may happen, are a step relation with a clock, and the
  sweeps of \<open>reaper/loop.py\<close> are steps of it.
\<close>

section \<open>The lease of an attempt\<close>

definition recovery_bound_s :: "settings \<Rightarrow> int" where
  "recovery_bound_s s = lease_ttl_s s + reaper_period_s s"

text \<open>Attempt \<open>a\<close> of task \<open>i\<close> runs under a lease that ends at \<open>e\<close>; it is over.\<close>

definition leased :: "db \<Rightarrow> uuid \<Rightarrow> int \<Rightarrow> time \<Rightarrow> bool" where
  "leased d i a e \<longleftrightarrow> (\<exists>t. find_task d i = Some t \<and> t_state t = RUNNING \<and> t_attempt t = a
     \<and> lease_expires_at t = Some e)"

definition attempt_over :: "db \<Rightarrow> uuid \<Rightarrow> int \<Rightarrow> bool" where
  "attempt_over d i a \<longleftrightarrow> (\<exists>t. find_task d i = Some t \<and> past a t)"

text \<open>A transaction of anybody that does not renew the lease of this attempt.\<close>

definition silent :: "uuid \<Rightarrow> int \<Rightarrow> db \<Rightarrow> db \<Rightarrow> bool" where
  "silent i a d d' \<longleftrightarrow> others d d' \<and> \<not> (\<exists>w ttl x. renew_lease i w a ttl d = Inr (Some x, d'))"

lemma leased_same: "find_task d' i = find_task d i \<Longrightarrow> leased d' i a e = leased d i a e"
  by (simp add: leased_def)

lemma leased_tasks: "tasks d' = tasks d \<Longrightarrow> leased d' i a e = leased d i a e"
  by (simp add: leased_def find_task_def)

text \<open>A row that is still running has its lease from a claim or from the last renewal.\<close>

definition lease_step :: "uuid \<Rightarrow> int \<Rightarrow> time \<Rightarrow> db \<Rightarrow> db \<Rightarrow> bool" where
  "lease_step i a e d d' \<longleftrightarrow> leased d' i a e \<or> attempt_over d' i a"

lemma lease_step_tasks: "tasks d' = tasks d \<Longrightarrow> leased d i a e \<Longrightarrow> lease_step i a e d d'"
  unfolding lease_step_def using leased_tasks [of d' d] by blast

lemma lease_step_same: "find_task d' i = find_task d i \<Longrightarrow> leased d i a e \<Longrightarrow> lease_step i a e d d'"
  unfolding lease_step_def using leased_same [of d' i d] by blast

lemma lease_step_ended:
  assumes "find_task d i = Some t" "row_wf t" "leased d i a e" "find_task d' i = Some t'"
    "row_step t t'" "t_state t' \<noteq> RUNNING"
  shows "lease_step i a e d d'"
proof -
  have t: "t_state t = RUNNING" "t_attempt t = a" using assms(1,3) by (auto simp: leased_def)
  have "1 \<le> a" using assms(2) t by (auto simp: row_wf_def)
  moreover have "t_attempt t' = a" using assms(5) t by (simp add: row_step_def)
  ultimately show ?thesis using assms(4,6) by (auto simp: lease_step_def attempt_over_def past_def)
qed

lemma recovered_lease:
  assumes "recovered_all rows d d'" "\<And>t. t \<in> set rows \<Longrightarrow> find_task d (t_id t) = Some t"
    and "db_inv d" "leased d i a e"
  shows "lease_step i a e d d'" and "i \<in> t_id ` set rows \<Longrightarrow> attempt_over d' i a"
proof -
  obtain t where t: "find_task d i = Some t" "t_state t = RUNNING" "t_attempt t = a"
    using assms(4) by (auto simp: leased_def)
  have wf: "row_wf t" by (rule db_inv_task(1) [OF assms(3) t(1)])
  show over: "attempt_over d' i a" if i: "i \<in> t_id ` set rows"
  proof -
    obtain u where u: "u \<in> set rows" "t_id u = i" using i by blast
    then have "u = t" using assms(2) [of u] t(1) by simp
    then obtain t' where "find_task d' i = Some t'" "recovered_row (now d) t t'"
      using assms(1) u by (auto simp: recovered_all_def)
    moreover have "1 \<le> a" using wf t by (auto simp: row_wf_def)
    ultimately show ?thesis
      using t by (auto simp: attempt_over_def past_def recovered_row_def split: if_splits)
  qed
  show "lease_step i a e d d'"
  proof (cases "i \<in> t_id ` set rows")
    case True
    then show ?thesis using over by (simp add: lease_step_def)
  next
    case False
    then show ?thesis using assms(1,4) by (intro lease_step_same) (simp_all add: recovered_all_def)
  qed
qed

lemma complete_lease:
  assumes "complete k j n w d = Inr (r, d')" "db_inv d" "leased d i a e"
  shows "lease_step i a e d d'"
proof (cases "applied r \<and> j = i")
  case False
  then have "d' = d \<or> find_task d' i = find_task d i"
    using complete_total [OF assms(2), of k j n w] complete_frame(1) [OF assms(2,1)] assms(1) by auto
  then show ?thesis using assms(3) lease_step_same by auto
next
  case True
  obtain t where t: "find_task d i = Some t" using assms(3) by (auto simp: leased_def)
  have "completed (completed_state k) (completed_outcome k) d i n d'"
    using complete_completed [OF assms(2,1)] True by simp
  then obtain t' where t': "find_task d' i = Some t'" "t_state t' = completed_state k" by (auto simp: completed_def)
  moreover have "row_step t t'"
  proof -
    have "db_step_ok d d'" using complete_total [OF assms(2), of k j n w] assms(1) by auto
    then show ?thesis using t t'(1) unfolding db_step_ok_def by fastforce
  qed
  moreover have "completed_state k \<noteq> RUNNING" by (cases k) simp_all
  ultimately show ?thesis
    using lease_step_ended [OF t db_inv_task(1) [OF assms(2) t] assms(3)] by simp
qed

lemma grant_lease:
  assumes "grant_leases ids w ttl d = Inr (rows, d')" "claimable d ids" "find_worker d w \<noteq> None"
    and "db_inv d" "leased d i a e"
  shows "lease_step i a e d d'"
proof -
  obtain es where d': "d' = granted_db ids w ttl es d"
    using grant_leases_eq [OF assms(4,2,3), of ttl] assms(1) by auto
  obtain t where t: "find_task d i = Some t" "t_state t = RUNNING" using assms(5) by (auto simp: leased_def)
  then have "i \<notin> set ids" using assms(2) by (auto simp: claimable_def)
  then have "find_task d' i = find_task d i"
    using t find_task_SomeD [OF t(1)]
    by (simp add: d' granted_db_def find_task_def task_rows.find_update)
  then show ?thesis using assms(5) by (rule lease_step_same)
qed

lemma renew_other_lease:
  assumes "renew_lease j w n ttl d = Inr (res, d')" "db_inv d" "leased d i a e"
  shows "lease_step i a e d d' \<or> (\<exists>x. res = Some x \<and> j = i \<and> n = a)"
proof (cases "res = None")
  case True
  then have "d' = d"
    using assms(1) renew_lease_eq [OF assms(2), of j w n ttl] by (auto split: option.splits if_splits)
  then show ?thesis using assms(3) lease_step_same by simp
next
  case False
  then have d': "d' = after_renewal j w n ttl d" and t: "\<exists>t. find_task d j = Some t \<and> renew_where (now d) j w n t"
    using assms(1) renew_lease_eq [OF assms(2), of j w n ttl] by (auto split: option.splits if_splits)
  show ?thesis
  proof (cases "j = i")
    case True
    then have "n = a" using t assms(3) by (auto simp: leased_def renew_where_def)
    then show ?thesis using True False by blast
  next
    case other: False
    have "find_task d' i = find_task d i"
      using other by (cases "find_task d i")
        (auto simp: d' after_renewal_def find_task_def task_rows.find_update renew_where_def dest: find_by_SomeD)
    then show ?thesis using assms(3) lease_step_same by simp
  qed
qed

lemma cancel_lease:
  assumes "cancel_task j d = Inr (r, d')" "db_inv d" "leased d i a e"
  shows "lease_step i a e d d'"
proof (cases "j = i")
  case False
  then have "find_task d' i = find_task d i"
    using cancel_task_result [OF assms(2), of j] assms(1) by auto
  then show ?thesis using assms(3) by (rule lease_step_same)
next
  case True
  obtain t where t: "find_task d i = Some t" "t_state t = RUNNING" "t_attempt t = a" "lease_expires_at t = Some e"
    using assms(3) by (auto simp: leased_def)
  have "d' = d \<or> find_task d' i = Some (t\<lparr>cancel_requested := True, updated_at := now d\<rparr>)"
    using cancel_task_result [OF assms(2), of j] assms(1) t True by (auto split: if_splits)
  then have "leased d' i a e" using t by (auto simp: leased_def)
  then show ?thesis by (simp add: lease_step_def)
qed

lemma disable_lease:
  assumes "disable g d = Inr (gn, d')" "db_inv d" "leased d i a e"
  shows "lease_step i a e d d'"
proof -
  obtain d1 d2 vs why m where d: "fst (set_agent_status g AGENT_DISABLED d) \<noteq> None" "d1 = snd (set_agent_status g AGENT_DISABLED d)"
    "foldE (\<lambda>v x. bindE (set_version_status (av_id v) VERSION_DISABLED x) (\<lambda>(_, y). Inr y)) (list_versions d1 g) d1 = Inr d2"
    "cancel_agent_tasks vs why d2 = Inr (m, d')"
    using assms(1) by (cases gn) (auto simp: disable_def Let_def unknown_def api_def elim!: uncaught_InrE split: prod.splits option.splits)
  have "work d2 = work d1" using d(3) by (auto simp: disable_each work_def)
  also have "\<dots> = work d" using d(2) by (auto simp: set_agent_status_def update_agents_def work_def)
  finally have w: "work d2 = work d" .
  have "db_inv d2" by (rule db_inv_work [OF w assms(2)])
  then have f: "find_task d' i = map_option (swept vs why (now d2)) (find_task d2 i)"
    using cancel_agent_tasks_result [of d2 vs why] d(4) by auto
  have same: "find_task d2 i = find_task d i" using workD(3) [OF w] by (simp add: find_task_def)
  obtain t where t: "find_task d i = Some t" "t_state t = RUNNING" "t_attempt t = a" "lease_expires_at t = Some e"
    using assms(3) by (auto simp: leased_def)
  have "t_state (swept vs why tn t) = RUNNING \<and> t_attempt (swept vs why tn t) = a
      \<and> lease_expires_at (swept vs why tn t) = Some e" for tn
    using t by (simp add: swept_def set_row_def request_cancel_set_def)
  then have "leased d' i a e" using f same t(1) by (simp add: leased_def)
  then show ?thesis by (simp add: lease_step_def)
qed

lemma control_tasks: "control_step d d' \<Longrightarrow> tasks d' = tasks d"
  by (simp add: control_step_def work_def)

text \<open>Every transaction of the platform, but a renewal of this attempt, leaves the lease as it is or ends the attempt.\<close>

lemma commit_lease:
  assumes "commit d d'" "db_inv d" "control_inv d" "leased d i a e"
  shows "lease_step i a e d d' \<or> (\<exists>w ttl x. renew_lease i w a ttl d = Inr (Some x, d'))"
proof (cases "tasks d' = tasks d")
  case True
  then show ?thesis using assms(4) by (simp add: lease_step_tasks)
next
  case False
  from assms(1) show ?thesis
  proof cases
    case (c_claim w limit ttl policy caps locked rows)
    then show ?thesis
      using grant_lease [OF _ chosen_cl [OF assms(2)] c_claim(1) assms(2,4)] False
      by (auto simp: claim_tasks_grants split: if_splits)
  next
    case (c_claim_late w ids ttl rows)
    then show ?thesis using grant_lease [OF c_claim_late(3,2,1) assms(2,4)] by simp
  next
    case (c_renew j w n ttl res)
    then show ?thesis using renew_other_lease [OF c_renew assms(2,4)] by blast
  next
    case (c_complete k j n w r)
    then show ?thesis using complete_lease [OF c_complete assms(2,4)] by simp
  next
    case (c_reap_expired limit' locked rr)
    have "recovered_all (expired_rows limit' locked d) d d'"
      using reap_expired_ok [OF assms(2), of limit' locked] c_reap_expired by auto
    then show ?thesis
      using recovered_lease(1) lease_sweep.rows_facts(2) [OF assms(2)] assms(2,4) by blast
  next
    case (c_reap_hung limit' locked rr)
    have "recovered_all (hung_rows limit' locked d) d d'"
      using reap_hung_ok [OF assms(2), of limit' locked] c_reap_hung by auto
    then show ?thesis
      using recovered_lease(1) hung_sweep.rows_facts(2) [OF assms(2)] assms(2,4) by blast
  next
    case (c_cancel j co)
    then obtain r where "cancel_task j d = Inr (r, d')" using cancel_Inr by blast
    then show ?thesis using cancel_lease assms(2,4) by blast
  next
    case (c_disable g gn)
    then show ?thesis using disable_lease assms(2,4) by blast
  next
    case (c_tick t)
    then show ?thesis using False by simp
  next
    case (c_register w h p c cs x)
    then show ?thesis using False by (auto simp: register_worker_def Let_def split: if_splits option.splits)
  next
    case (c_heartbeat w)
    then show ?thesis using False by (simp add: heartbeat_def Let_def)
  next
    case (c_status w st)
    then show ?thesis using False by (simp add: set_worker_status_def)
  next
    case (c_mark_dead n)
    then show ?thesis using False by (simp add: mark_dead_workers_def Let_def)
  next
    case (c_event j et att w data)
    then show ?thesis using False by (auto simp: record_event_def insert_event_Inr)
  next
    case (c_audit ar)
    then show ?thesis using False by (simp add: record_audit_def)
  next
    case (c_create_tenant j tb tn)
    then show ?thesis using False handler_Inr(1) [OF c_create_tenant] by (auto simp: create_tenant_def Let_def split: if_splits)
  next
    case (c_create_agent j ti nm desc ag)
    then show ?thesis using control_tasks [OF create_agent_step [OF handler_Inr(2)]] assms(3) False by blast
  next
    case (c_create_version j g req v)
    then show ?thesis using control_tasks [OF create_version_step [OF handler_Inr(3)]] assms(3) False by blast
  next
    case (c_activate g vi ex re ao)
    then show ?thesis using control_tasks [OF activate_step] assms(3) False by blast
  next
    case (c_set_route ti rt g u)
    then show ?thesis using control_tasks [OF set_route_step] assms(3) False by blast
  next
    case (c_create_tool j ti nm ty cfg desc tool1)
    then show ?thesis using control_tasks [OF create_tool_step [OF handler_Inr(4)]] assms(3) False by blast
  next
    case (c_disable_tool j tool1)
    then show ?thesis using control_tasks [OF switch_tool_step] assms(3) False unfolding disable_tool_def by blast
  next
    case (c_enable_tool j tool1)
    then show ?thesis using control_tasks [OF switch_tool_step] assms(3) False unfolding enable_tool_def by blast
  next
    case (c_grant vi j u)
    then have "control_step d d'" using assms(3) by (intro grant_step [of vi j d u d']) simp_all
    then show ?thesis using control_tasks False by blast
  next
    case (c_revoke vi j u)
    then have "control_step d d'" using assms(3) by (intro grant_step [of vi j d u d']) simp_all
    then show ?thesis using control_tasks False by blast
  qed
qed

section \<open>Silence\<close>

text \<open>What is kept until the lease ends: the attempt has it still, or is over.\<close>

definition awaiting :: "uuid \<Rightarrow> int \<Rightarrow> time \<Rightarrow> db \<Rightarrow> bool" where
  "awaiting i a e d \<longleftrightarrow> world_ok d \<and> (leased d i a e \<or> attempt_over d i a)"

lemma world_inv: "world_ok d \<Longrightarrow> db_inv d \<and> control_inv d"
  by (simp add: world_ok_def sys_inv_def)

lemma others_history:
  assumes "others d d'" "world_ok d"
  shows "history d d'"
  using assms(1)
proof cases
  case o_commit
  then show ?thesis
    using sys_step_good [OF s_commit [of "\<lparr>sys_db = d, in_flight = []\<rparr>" d']] assms(2) by (simp add: world_ok_def)
next
  case (o_insert s i r)
  then show ?thesis
    using sys_step_good [OF s_insert [of s "\<lparr>sys_db = d, in_flight = [s]\<rparr>" i r d']] assms(2)
    by (simp add: world_ok_def sys_inv_def)
qed

lemma over_stays: "history d d' \<Longrightarrow> attempt_over d i a \<Longrightarrow> attempt_over d' i a"
  unfolding attempt_over_def row_after_def history_def by blast

lemma silent_awaiting:
  assumes "silent i a d d'" "awaiting i a e d"
  shows "awaiting i a e d'"
proof -
  have o: "others d d'" and w: "world_ok d" using assms by (simp_all add: silent_def awaiting_def)
  have "leased d' i a e \<or> attempt_over d' i a"
  proof (cases "attempt_over d i a")
    case True
    then show ?thesis using over_stays [OF others_history [OF o w]] by simp
  next
    case False
    then have l: "leased d i a e" using assms(2) by (simp add: awaiting_def)
    from o show ?thesis
    proof cases
      case o_commit
      then show ?thesis
        using commit_lease [OF o_commit _ _ l] world_inv [OF w] assms(1) by (auto simp: silent_def lease_step_def)
    next
      case (o_insert s j r)
      obtain t where t: "find_task d i = Some t" using l by (auto simp: leased_def)
      have "submission_ok s" using o_insert(1) by (simp add: flight_ok_def)
      from submit_cases [OF o_insert(2) this flight_refs [OF o_insert(1)]] t
      have "find_task d' i = find_task d i" by (auto simp: with_task_def find_task_def find_by_append)
      then show ?thesis using l leased_same [of d' i d] by blast
    qed
  qed
  then show ?thesis using others_ok(1) [OF o w] by (simp add: awaiting_def)
qed

lemma others_now:
  assumes "others d d'" "world_ok d"
  shows "now d \<le> now d'"
  using assms(1)
proof cases
  case o_commit
  from clockwork.commit_view [OF this] world_inv [OF assms(2)] show ?thesis by auto
next
  case (o_insert s i r)
  then show ?thesis using clockwork.insert_view [OF o_insert(2,1)] by simp
qed

lemma silent_now: "silent i a d d' \<Longrightarrow> world_ok d \<Longrightarrow> now d \<le> now d'"
  unfolding silent_def using others_now by blast

lemma silent_run:
  "(silent i a)\<^sup>*\<^sup>* d d' \<Longrightarrow> awaiting i a e d \<Longrightarrow> awaiting i a e d' \<and> now d \<le> now d'"
proof (induction rule: rtranclp_induct)
  case base
  then show ?case by simp
next
  case (step y z)
  then have y: "awaiting i a e y" "now d \<le> now y" by simp_all
  then have "now y \<le> now z" using silent_now [OF step(2)] by (simp add: awaiting_def)
  then show ?case using silent_awaiting [OF step(2) y(1)] y(2) by simp
qed

section \<open>A sweep in the middle of it\<close>

text \<open>What other processes do around a batch: nothing that renews this attempt, nor locks its row.\<close>

definition lets_go :: "uuid \<Rightarrow> int \<Rightarrow> (nat \<Rightarrow> batch_env) \<Rightarrow> bool" where
  "lets_go i a env \<longleftrightarrow> (\<forall>n. \<not> stop_seen (env n) \<and> i \<notin> set (locked_rows (env n))
     \<and> (\<forall>x. world_ok x \<longrightarrow> (silent i a)\<^sup>*\<^sup>* x (committed (env n) x)))"

context sweep_pass
begin

lemma pass_awaiting:
  assumes "awaiting i a e d" "pass limit locked d = Inr (res, d')" "world_ok d'"
  shows "awaiting i a e d'" "now d' = now d" "reaped res \<le> limit"
    "fence (now d) = lease_expired (now d) \<Longrightarrow> e < now d \<Longrightarrow> i \<notin> set locked \<Longrightarrow> reaped res < limit \<Longrightarrow> attempt_over d' i a"
proof -
  have inv: "db_inv d" using assms(1) world_inv by (simp add: awaiting_def)
  have p: "now d' = now d" "reaped res = length (rows limit locked d)" "recovered_all (rows limit locked d) d d'"
    "db_step_ok d d'"
    using pass_ok [OF inv, of limit locked] assms(2) recovered_all_step rows_facts(2) [OF inv] by fastforce+
  have found: "find_task d (t_id t) = Some t" if "t \<in> set (rows limit locked d)" for t
    using rows_facts(2) [OF inv that] by simp
  show "now d' = now d" by (rule p(1))
  show "reaped res \<le> limit" by (simp add: p(2) rows_eq)
  have over: "attempt_over d' i a" if "attempt_over d i a"
    using that p(4) row_step_after unfolding attempt_over_def db_step_ok_def row_after_def by blast
  then show "awaiting i a e d'"
    using assms(1,3) recovered_lease(1) [OF p(3) found inv] by (auto simp: awaiting_def lease_step_def)
  assume f: "fence (now d) = lease_expired (now d)" and late_e: "e < now d" and lk: "i \<notin> set locked"
    and short: "reaped res < limit"
  show "attempt_over d' i a"
  proof (cases "attempt_over d i a")
    case False
    then have l: "leased d i a e" using assms(1) by (simp add: awaiting_def)
    then obtain t where t: "find_task d i = Some t" "t_state t = RUNNING" "lease_expires_at t = Some e"
      by (auto simp: leased_def)
    have "t \<in> set (tasks d)" "t_id t = i" using find_task_SomeD [OF t(1)] by simp_all
    moreover have "fence (now d) t" using f t(3) late_e by (simp add: lease_expired_def)
    ultimately have "t \<in> set (sort_key late (filter (\<lambda>t. t_state t = RUNNING \<and> fence (now d) t \<and> t_id t \<notin> set locked) (tasks d)))"
      using t(2) lk by simp
    moreover have "rows limit locked d = sort_key late (filter (\<lambda>t. t_state t = RUNNING \<and> fence (now d) t \<and> t_id t \<notin> set locked) (tasks d))"
      using short p(2) by (simp add: rows_eq)
    ultimately have "i \<in> t_id ` set (rows limit locked d)" using \<open>t_id t = i\<close> by (metis imageI)
    then show ?thesis using recovered_lease(2) [OF p(3) found inv l] by blast
  qed (rule over)
qed

lemma loop_awaiting:
  assumes "lets_go i a env"
    and commits: "\<And>x locked res y. pass batch locked x = Inr (res, y) \<Longrightarrow> others x y"
  shows "awaiting i a e d \<Longrightarrow> batch_loop pass batch env n acc d = (Inr acc', d') \<Longrightarrow>
    awaiting i a e d' \<and> now d \<le> now d'
    \<and> (fence = lease_expired \<and> e < now d \<and> fst acc' + snd acc' < fst acc + snd acc + n * batch \<longrightarrow> attempt_over d' i a)"
proof (induction n arbitrary: acc d)
  case 0
  then show ?case by simp
next
  case (Suc n)
  obtain r f where acc: "acc = (r, f)" by (cases acc)
  have env: "\<not> stop_seen (env n)" "i \<notin> set (locked_rows (env n))"
    "\<And>x. world_ok x \<Longrightarrow> (silent i a)\<^sup>*\<^sup>* x (committed (env n) x)"
    using assms(1) by (simp_all add: lets_go_def)
  let ?d = "committed (env n) d"
  have w: "world_ok d" using Suc.prems(1) by (simp add: awaiting_def)
  have d0: "awaiting i a e ?d" "now d \<le> now ?d" using silent_run [OF env(3) [OF w] Suc.prems(1)] by simp_all
  have inv: "db_inv ?d" "world_ok ?d" using d0(1) world_inv by (auto simp: awaiting_def)
  obtain res d1 where p: "pass batch (locked_rows (env n)) ?d = Inr (res, d1)" using pass_ok [OF inv(1)] by blast
  have "world_ok d1" by (rule others_ok(1) [OF commits [OF p] inv(2)])
  note d1 = pass_awaiting [OF d0(1) p this]
  have step: "batch_loop pass batch env (Suc n) acc d =
      (if reaped res < batch then (Inr (r + requeued res, f + failed_exhausted res), d1)
       else batch_loop pass batch env n (r + requeued res, f + failed_exhausted res) d1)"
    using env(1) p by (simp add: acc Let_def)
  show ?case
  proof (cases "reaped res < batch")
    case True
    then show ?thesis using Suc.prems(2) step d0(2) d1(1,2) d1(4) [OF _ _ env(2) True] by auto
  next
    case False
    then have run: "batch_loop pass batch env n (r + requeued res, f + failed_exhausted res) d1 = (Inr acc', d')"
      using Suc.prems(2) step by simp
    have "requeued res + failed_exhausted res = batch" using False d1(3) by (simp add: reaped_def)
    then have "fst (r + requeued res, f + failed_exhausted res) + snd (r + requeued res, f + failed_exhausted res) + n * batch
        = fst acc + snd acc + Suc n * batch" by (simp add: acc)
    with Suc.IH [OF d1(1) run] d0(2) d1(2) show ?thesis by (auto simp: order.strict_trans2)
  qed
qed

end

lemma and_then_InrE:
  assumes "and_then m f = (Inr y, s')"
  obtains x s where "m = (Inr x, s)" "f x s = (Inr y, s')"
  using assms by (cases m; cases "fst m") auto

text \<open>What is kept while any lease is awaited is kept.\<close>

lemma over_if_awaiting:
  assumes "attempt_over d i a" "world_ok d" "\<And>e. awaiting i a e d \<Longrightarrow> awaiting i a e d'"
  shows "attempt_over d' i a"
proof -
  have "awaiting i a e d'" for e using assms(1,2) by (intro assms(3)) (simp add: awaiting_def)
  from this [of 0] this [of 1] show ?thesis by (auto simp: awaiting_def leased_def)
qed

lemma sweep_awaiting:
  assumes "awaiting i a e d" "lets_go i a env1" "lets_go i a env2"
    and env3: "\<And>x. world_ok x \<Longrightarrow> (silent i a)\<^sup>*\<^sup>* x (env3 x)"
    and run: "sweep rp env1 env2 env3 d = (Inr rep, d')"
  shows "awaiting i a e d'" "now d \<le> now d'"
    "e < now d \<Longrightarrow> fst (lease_counts rep) + snd (lease_counts rep) < max_batches_per_sweep rp * batch_size rp
      \<Longrightarrow> attempt_over d' i a"
proof -
  let ?n = "worker_dead_after_s (rp_settings rp)"
  obtain l d1 where l1: "batch_loop reap_expired_leases (batch_size rp) env1 (max_batches_per_sweep rp) (0, 0) d = (Inr l, d1)"
    and r1: "and_then (batch_loop reap_hung_tasks (batch_size rp) env2 (max_batches_per_sweep rp) (0, 0) d1) (\<lambda>hung d2.
       let (dead, d3) = mark_dead_workers ?n (env3 d2)
       in (Inr \<lparr>lease_counts = l, hung_counts = hung, marked_dead = dead\<rparr>, d3)) = (Inr rep, d')"
    by (rule and_then_InrE [OF run [unfolded sweep_def]]) (rule that, assumption+)
  obtain h d2 where l2: "batch_loop reap_hung_tasks (batch_size rp) env2 (max_batches_per_sweep rp) (0, 0) d1 = (Inr h, d2)"
    and fin: "d' = snd (mark_dead_workers ?n (env3 d2))" "lease_counts rep = l"
    by (rule and_then_InrE [OF r1]) (rule that, auto simp: Let_def split: prod.splits)
  have c: "reap_expired_leases b locked x = Inr (res, y) \<Longrightarrow> others x y"
    "reap_hung_tasks b locked x = Inr (res, y) \<Longrightarrow> others x y" for b locked res x y
    by (auto intro: o_commit c_reap_expired c_reap_hung)
  have a1: "awaiting i a e d1" "now d \<le> now d1"
    "e < now d \<Longrightarrow> fst l + snd l < max_batches_per_sweep rp * batch_size rp \<Longrightarrow> attempt_over d1 i a"
    using lease_sweep.loop_awaiting [OF assms(2) c(1) assms(1) l1] by simp_all
  have rest: "awaiting i a x d' \<and> now d1 \<le> now d'" if x: "awaiting i a x d1" for x
  proof -
    have a2: "awaiting i a x d2" "now d1 \<le> now d2"
      using hung_sweep.loop_awaiting [OF assms(3) c(2) x l2] by simp_all
    then have "world_ok d2" by (simp add: awaiting_def)
    note a3 = silent_run [OF env3 [OF this] a2(1)]
    have m: "others (env3 d2) d'" unfolding fin by (intro o_commit c_mark_dead)
    have t: "tasks d' = tasks (env3 d2)" "now d' = now (env3 d2)" by (simp_all add: fin mark_dead_workers_def Let_def)
    then show ?thesis
      using a2(2) a3 others_ok(1) [OF m] leased_tasks [OF t(1), of i a x]
      by (simp add: awaiting_def attempt_over_def find_task_def)
  qed
  show "awaiting i a e d'" "now d \<le> now d'" using rest [OF a1(1)] a1(2) by simp_all
  assume "e < now d" "fst (lease_counts rep) + snd (lease_counts rep) < max_batches_per_sweep rp * batch_size rp"
  then have "attempt_over d1 i a" using a1(3) fin(2) by simp
  then show "attempt_over d' i a"
    by (rule over_if_awaiting) (use a1(1) rest in \<open>simp_all add: awaiting_def\<close>)
qed

section \<open>The bound\<close>

text \<open>
  A run with sweeps: the database and the time at which the latest sweep began. Nobody renews the
  attempt; no more than \<open>gap\<close> passes between the beginnings of two sweeps, so a sweep itself takes
  no longer; and a sweep keeps up: it recovers fewer leases than its batches have room for, so it
  ended because there was nothing left.
\<close>

inductive patrolled :: "reaper \<Rightarrow> uuid \<Rightarrow> int \<Rightarrow> time \<Rightarrow> db \<times> time \<Rightarrow> db \<times> time \<Rightarrow> bool"
  for rp i a gap where
  p_silent: "silent i a d d' \<Longrightarrow> now d' \<le> since + gap \<Longrightarrow> patrolled rp i a gap (d, since) (d', since)"
| p_sweep: "lets_go i a env1 \<Longrightarrow> lets_go i a env2 \<Longrightarrow>
    (\<And>x. world_ok x \<Longrightarrow> (silent i a)\<^sup>*\<^sup>* x (env3 x)) \<Longrightarrow>
    sweep rp env1 env2 env3 d = (Inr rep, d') \<Longrightarrow>
    fst (lease_counts rep) + snd (lease_counts rep) < max_batches_per_sweep rp * batch_size rp \<Longrightarrow>
    now d' \<le> now d + gap \<Longrightarrow> patrolled rp i a gap (d, since) (d', now d)"

definition on_watch :: "uuid \<Rightarrow> int \<Rightarrow> time \<Rightarrow> time \<Rightarrow> db \<times> time \<Rightarrow> bool" where
  "on_watch i a gap e p \<longleftrightarrow> awaiting i a e (fst p) \<and> now (fst p) \<le> snd p + gap
     \<and> (snd p \<le> e \<or> attempt_over (fst p) i a)"

lemma patrol_step:
  assumes "patrolled rp i a gap p q" "on_watch i a gap e p"
  shows "on_watch i a gap e q"
  using assms
proof cases
  case (p_silent d d' since)
  have w: "awaiting i a e d" "world_ok d" using assms(2) p_silent by (simp_all add: on_watch_def awaiting_def)
  then show ?thesis
    using assms(2) p_silent silent_awaiting [OF p_silent(3)] over_stays [OF others_history, of d d' i a]
    by (auto simp: on_watch_def silent_def)
next
  case (p_sweep env1 env2 env3 d rep d' since)
  have w: "awaiting i a e d" using assms(2) p_sweep by (simp add: on_watch_def)
  have "attempt_over d' i a" if "e < now d"
    by (rule sweep_awaiting(3) [OF w p_sweep(3,4) _ p_sweep(6) that p_sweep(7)]) (rule p_sweep(5))
  moreover have "awaiting i a e d'"
    by (rule sweep_awaiting(1) [OF w p_sweep(3,4) _ p_sweep(6)]) (rule p_sweep(5))
  ultimately show ?thesis using p_sweep(1,2,8) by (cases "e < now d") (auto simp: on_watch_def)
qed

lemma patrol_run:
  "(patrolled rp i a gap)\<^sup>*\<^sup>* p q \<Longrightarrow> on_watch i a gap e p \<Longrightarrow> on_watch i a gap e q"
  by (induction rule: rtranclp_induct) (use patrol_step in auto)

text \<open>
  C13. The recovery bound. Take a reachable state in which an attempt runs under a lease granted or
  renewed at \<open>t0\<close> and no sweep is overdue, and any run from it in which the attempt is not renewed
  while everything else may happen: claims, completions, cancellations, submissions, registrations,
  other workers, the sweeps of the reaper with commits between their batches. If a sweep begins at
  most \<open>reaper_period_s\<close> after the end of the one before, sweeps take at most \<open>dur\<close>, find the row
  unlocked and keep up with the expired leases, then \<open>recovery_bound_s\<close> plus the duration of a
  sweep after \<open>t0\<close> the attempt is over: the task is queued again, ended or run by a later attempt,
  and no worker owns the old one.
\<close>

theorem dead_lease_recovered_in_time:
  assumes "reachable S" and "leased (sys_db S) i a (t0 + of_int (lease_ttl_s (rp_settings rp)))"
    and "since \<le> t0 + of_int (lease_ttl_s (rp_settings rp))"
    and "now (sys_db S) \<le> since + (of_int (reaper_period_s (rp_settings rp)) + dur)"
    and "(patrolled rp i a (of_int (reaper_period_s (rp_settings rp)) + dur))\<^sup>*\<^sup>* (sys_db S, since) (d, since')"
    and "t0 + of_int (recovery_bound_s (rp_settings rp)) + dur < now d"
  shows "(\<exists>t. find_task d i = Some t \<and> past a t) \<and> \<not> owns d i a w"
proof -
  let ?gap = "of_int (reaper_period_s (rp_settings rp)) + dur" and ?e = "t0 + of_int (lease_ttl_s (rp_settings rp))"
  have "sys_inv S" by (rule reachable_inv [OF assms(1)])
  then have "world_ok (sys_db S)" by (simp add: world_ok_def sys_inv_def)
  then have "on_watch i a ?gap ?e (sys_db S, since)"
    using assms(2-4) by (simp add: on_watch_def awaiting_def)
  then have "on_watch i a ?gap ?e (d, since')" by (rule patrol_run [OF assms(5)])
  then have "attempt_over d i a"
    using assms(6) by (auto simp: on_watch_def recovery_bound_s_def)
  then show ?thesis by (auto simp: attempt_over_def owns_iff past_def)
qed

section \<open>A run\<close>

definition small_reaper :: reaper where
  "small_reaper = \<lparr>rp_settings = default_settings, batch_size = 10, max_batches_per_sweep = 2\<rparr>"

lemma small_reaper_settings: "rp_settings small_reaper = default_settings"
  "lease_ttl_s default_settings = 30" "reaper_period_s default_settings = 1"
  "recovery_bound_s default_settings = 31"
  by (simp_all add: small_reaper_def default_settings_def recovery_bound_s_def)

lemma undisturbed_lets_go: "lets_go i a undisturbed"
  by (simp add: lets_go_def undisturbed_def)

lemma silent_tick: "now d < t \<Longrightarrow> silent i a d (d\<lparr>now := t\<rparr>)"
  using clock.renew_lease_view by (fastforce simp: silent_def intro: o_commit c_tick)

text \<open>A state is followed by a tick, a sweep and a tick.\<close>

lemma patrolled_once:
  assumes "now d < t1" "t1 \<le> since + gap" "sweep rp undisturbed undisturbed (\<lambda>x. x) (d\<lparr>now := t1\<rparr>) = (Inr rep, d')"
    and "fst (lease_counts rep) + snd (lease_counts rep) < max_batches_per_sweep rp * batch_size rp"
    and "now d' = t1" "0 \<le> gap" "t1 < t2" "t2 \<le> t1 + gap"
  shows "(patrolled rp i a gap)\<^sup>*\<^sup>* (d, since) (d'\<lparr>now := t2\<rparr>, t1)"
proof -
  have "patrolled rp i a gap (d, since) (d\<lparr>now := t1\<rparr>, since)"
    using p_silent [OF silent_tick [OF assms(1)], of since gap rp] assms(2) by simp
  moreover have "patrolled rp i a gap (d\<lparr>now := t1\<rparr>, since) (d', t1)"
    using p_sweep [OF undisturbed_lets_go undisturbed_lets_go _ assms(3,4), of i a gap since] assms(5,6) by simp
  moreover have "patrolled rp i a gap (d', t1) (d'\<lparr>now := t2\<rparr>, t1)"
    using p_silent [OF silent_tick [of d' t2], of t1 gap rp] assms(5,7,8) by simp
  ultimately show ?thesis by (meson converse_rtranclp_into_rtranclp rtranclp.rtrancl_refl)
qed

lemma run4_leased: "leased run4 7 1 40" "now run4 = 10"
proof -
  have "map_option (\<lambda>t. (t_state t, t_attempt t, lease_expires_at t)) (find_task run4 7) = Some (RUNNING, 1, Some 40)"
    by code_simp
  then show "leased run4 7 1 40" by (auto simp: leased_def)
  show "now run4 = 10" by code_simp
qed

lemma run4_sweep:
  "\<exists>rep d'. sweep small_reaper undisturbed undisturbed (\<lambda>x. x) (run4\<lparr>now := 45\<rparr>) = (Inr rep, d')
     \<and> lease_counts rep = (0, 1) \<and> now d' = 45"
proof -
  let ?s = "sweep small_reaper undisturbed undisturbed (\<lambda>x. x) (run4\<lparr>now := 45\<rparr>)"
  have "(case fst ?s of Inl e \<Rightarrow> False | Inr rep \<Rightarrow> lease_counts rep = (0, 1)) \<and> now (snd ?s) = 45" by code_simp
  then show ?thesis by (cases ?s; cases "fst ?s") auto
qed

theorem dead_lease_recovered_in_time_witness:
  "\<exists>(d :: db) since'. (patrolled small_reaper 7 1 41)\<^sup>*\<^sup>* (run4, 10) (d, since') \<and> now d = 82 \<and> leased run4 7 1 40
     \<and> \<not> owns d 7 1 ''w1''"
proof -
  obtain rep d' where s: "sweep small_reaper undisturbed undisturbed (\<lambda>x. x) (run4\<lparr>now := 45\<rparr>) = (Inr rep, d')"
    "lease_counts rep = (0, 1)" "now d' = 45" using run4_sweep by blast
  have run: "(patrolled small_reaper 7 1 41)\<^sup>*\<^sup>* (run4, 10) (d'\<lparr>now := 82\<rparr>, 45)"
    by (rule patrolled_once [OF _ _ s(1)]) (simp_all add: s run4_leased small_reaper_def)
  have "\<not> owns (d'\<lparr>now := 82\<rparr>) 7 1 ''w1''"
    using dead_lease_recovered_in_time [OF run_steps(1), of 7 1 10 small_reaper 10 40 "d'\<lparr>now := 82\<rparr>" 45 "''w1''"] run
    by (simp add: small_reaper_settings run4_leased)
  with run run4_leased show ?thesis by (intro exI [of _ "d'\<lparr>now := 82\<rparr>"] exI [of _ 45]) simp
qed

end
