(* ===== verification/Server.thy ===== *)
theory Server
  imports Guarantees
begin

text \<open>
  The API as one server: the remaining request schemas, every endpoint of \<open>api/routes\<close> behind one
  dispatcher that answers with a status and leaves a database, and the health probe.
\<close>

section \<open>Schemas\<close>

record agent_create =
  ac_tenant_id :: uuid
  ac_name :: string
  ac_description :: "string option"

definition agent_create_valid :: "agent_create \<Rightarrow> bool" where
  "agent_create_valid b = length_between 1 128 (ac_name b)"

record version_create =
  vc_runtime_spec :: dict
  vc_required_capabilities :: "string list"
  vc_config :: dict
  vc_max_attempts :: int
  vc_max_execution_time_s :: int

definition version_create_valid :: "version_create \<Rightarrow> bool" where
  "version_create_valid b = (between 1 20 (vc_max_attempts b) \<and> between 1 86400 (vc_max_execution_time_s b))"

record activate_request =
  aq_version_id :: uuid
  aq_expected_current_version_id :: "uuid option"
  aq_require_expected :: bool

record route_create =
  rc_tenant_id :: uuid
  rc_request_type :: string
  rc_agent_id :: uuid

definition route_create_valid :: "route_create \<Rightarrow> bool" where
  "route_create_valid b = length_between 1 128 (rc_request_type b)"

record tool_create =
  to_tenant_id :: uuid
  to_name :: string
  to_tool_type :: tool_type
  to_description :: "string option"
  to_config :: dict

definition tool_create_valid :: "tool_create \<Rightarrow> bool" where
  "tool_create_valid b = length_between 1 128 (to_name b)"

record grant_create =
  gc_tool_id :: uuid

section \<open>Listings and health\<close>

definition list_agents_request :: "uuid option \<Rightarrow> db \<Rightarrow> agent list" where
  "list_agents_request tn d = list_agents d tn"

definition list_routes_request :: "uuid \<Rightarrow> db \<Rightarrow> agent_route list" where
  "list_routes_request tn d = list_routes d tn"

definition list_tools_request :: "uuid \<Rightarrow> db \<Rightarrow> tool list" where
  "list_tools_request tn d = list_tools d tn"

definition list_audit_request :: "uuid \<Rightarrow> string option \<Rightarrow> string option \<Rightarrow> nat \<Rightarrow> db \<Rightarrow> audit_event list" where
  "list_audit_request tn action out limit d = list_audit tn action out limit d"

text \<open>What becomes of \<open>SELECT 1\<close> within the budget: an answer, no answer, or an exception.\<close>

datatype probe = Answered | Timed_out | Failed_with string

definition healthz :: "int \<Rightarrow> probe \<Rightarrow> nat \<times> dict" where
  "healthz budget p =
     (case p of
        Timed_out \<Rightarrow> (503, [(''status'', JStr ''unhealthy''), (''database'', JStr ''timeout''),
                         (''budget_s'', JNum (of_int budget))])
      | Failed_with m \<Rightarrow> (503, [(''status'', JStr ''unhealthy''), (''database'', JStr ''unreachable''),
                         (''detail'', JStr (take 200 m))])
      | Answered \<Rightarrow> (200, [(''status'', JStr ''healthy''), (''database'', JStr ''reachable'')]))"

section \<open>The dispatcher\<close>

text \<open>
  An endpoint with its path and query parameters and its body; a generated id comes with the request that
  needs one, and a cursor with what Python reads besides its own texts.
\<close>

datatype request =
    POST_tenants uuid tenant_create
  | GET_tenant uuid
  | POST_tasks submit_env task_create
  | GET_tasks cursor_reader "uuid option" "state option" nat "string option"
  | GET_task uuid
  | GET_task_events uuid
  | POST_task_cancel uuid
  | POST_agents uuid agent_create
  | GET_agents "uuid option"
  | GET_agent uuid
  | POST_agent_versions uuid uuid version_create
  | GET_agent_versions uuid
  | POST_agent_activate uuid activate_request
  | POST_agent_disable uuid
  | PUT_routes route_create
  | GET_routes uuid
  | POST_tools uuid tool_create
  | GET_tools uuid
  | POST_tool_disable uuid
  | POST_tool_enable uuid
  | POST_version_grants uuid grant_create
  | GET_version_grants uuid
  | DELETE_version_grant uuid uuid
  | GET_audit uuid "string option" "string option" nat

text \<open>What the framework checks before a handler runs; a request that fails is answered 422.\<close>

fun valid_request :: "(dict \<Rightarrow> nat) \<Rightarrow> request \<Rightarrow> bool" where
  "valid_request jb (POST_tenants i b) = tenant_create_valid b"
| "valid_request jb (POST_tasks env b) = task_create_valid jb b"
| "valid_request jb (GET_tasks rd tn st n c) = (1 \<le> n \<and> n \<le> 200)"
| "valid_request jb (POST_agents i b) = agent_create_valid b"
| "valid_request jb (POST_agent_versions i a b) = version_create_valid b"
| "valid_request jb (PUT_routes b) = route_create_valid b"
| "valid_request jb (POST_tools i b) = tool_create_valid b"
| "valid_request jb (GET_audit tn a out n) = (1 \<le> n \<and> n \<le> 500)"
| "valid_request jb r = True"

text \<open>The status of a handler's outcome; an exception rolls the transaction back.\<close>

definition refusal :: "failure \<Rightarrow> nat" where
  "refusal e = (case e of Api a \<Rightarrow> response_status (error_response a) | Uncaught x \<Rightarrow> 500)"

definition reply :: "nat \<Rightarrow> failure + ('a \<times> db) \<Rightarrow> db \<Rightarrow> nat \<times> db" where
  "reply code m d = (case m of Inl e \<Rightarrow> (refusal e, d) | Inr (x, d') \<Rightarrow> (code, d'))"

definition reply_read :: "failure + 'a \<Rightarrow> db \<Rightarrow> nat \<times> db" where
  "reply_read m d = (case m of Inl e \<Rightarrow> (refusal e, d) | Inr x \<Rightarrow> (200, d))"

definition version_request_of :: "version_create \<Rightarrow> version_request" where
  "version_request_of b = \<lparr>vr_runtime_spec = vc_runtime_spec b, vr_required_capabilities = vc_required_capabilities b,
     vr_config = vc_config b, vr_max_attempts = vc_max_attempts b,
     vr_max_execution_time_s = vc_max_execution_time_s b, vr_status = VERSION_DRAFT\<rparr>"

fun handle :: "time \<Rightarrow> request \<Rightarrow> db \<Rightarrow> nat \<times> db" where
  "handle clock (POST_tenants i b) d = reply 201 (create_tenant_request i b d) d"
| "handle clock (GET_tenant i) d = reply_read (get_tenant_request i d) d"
| "handle clock (POST_tasks env b) d =
     (case submit env clock b d of (Inl e, d') \<Rightarrow> (refusal e, d') | (Inr (code, out), d') \<Rightarrow> (code, d'))"
| "handle clock (GET_tasks rd tn st n c) d = reply_read (list_tasks_page clock rd tn st n c d) d"
| "handle clock (GET_task i) d = reply_read (get_task_out clock i d) d"
| "handle clock (GET_task_events i) d = reply_read (get_events i d) d"
| "handle clock (POST_task_cancel i) d =
     (case cancel i d of Inl e \<Rightarrow> (refusal e, d) | Inr ((code, body), d') \<Rightarrow> (code, d'))"
| "handle clock (POST_agents i b) d = reply 201 (create_agent_request i (ac_tenant_id b) (ac_name b) (ac_description b) d) d"
| "handle clock (GET_agents tn) d = (let rows = list_agents_request tn d in (200, d))"
| "handle clock (GET_agent i) d = reply_read (get_agent_request i d) d"
| "handle clock (POST_agent_versions i a b) d = reply 201 (create_version_request i a (version_request_of b) d) d"
| "handle clock (GET_agent_versions a) d = reply_read (list_versions_request a d) d"
| "handle clock (POST_agent_activate a b) d =
     reply 200 (activate a (aq_version_id b) (aq_expected_current_version_id b) (aq_require_expected b) d) d"
| "handle clock (POST_agent_disable a) d = reply 200 (disable a d) d"
| "handle clock (PUT_routes b) d = reply 200 (set_route_request (rc_tenant_id b) (rc_request_type b) (rc_agent_id b) d) d"
| "handle clock (GET_routes tn) d = (let rows = list_routes_request tn d in (200, d))"
| "handle clock (POST_tools i b) d = reply 201 (create_tool_request i (to_tenant_id b) (to_name b) (to_tool_type b)
      (to_config b) (to_description b) d) d"
| "handle clock (GET_tools tn) d = (let rows = list_tools_request tn d in (200, d))"
| "handle clock (POST_tool_disable i) d = reply 200 (disable_tool i d) d"
| "handle clock (POST_tool_enable i) d = reply 200 (enable_tool i d) d"
| "handle clock (POST_version_grants v b) d = reply 201 (grant v (gc_tool_id b) d) d"
| "handle clock (GET_version_grants v) d = reply_read (list_grants_request v d) d"
| "handle clock (DELETE_version_grant v i) d = reply 204 (revoke v i d) d"
| "handle clock (GET_audit tn a out n) d = (let rows = list_audit_request tn a out n d in (200, d))"

definition serve :: "(dict \<Rightarrow> nat) \<Rightarrow> time \<Rightarrow> request \<Rightarrow> db \<Rightarrow> nat \<times> db" where
  "serve jb clock r d = (if valid_request jb r then handle clock r d else (422, d))"

section \<open>No server error\<close>

text \<open>A handler that either succeeds or refuses with one of the declared errors.\<close>

definition handled :: "failure + 'a \<Rightarrow> bool" where
  "handled m \<longleftrightarrow> (case m of Inl (Api e) \<Rightarrow> ae_class e \<noteq> ApiError | Inl (Uncaught x) \<Rightarrow> False | Inr y \<Rightarrow> True)"

lemma handled_simps [simp]:
  "handled (Inr y)" "handled (api c m ds) \<longleftrightarrow> c \<noteq> ApiError" "handled (unknown w k i)"
  "\<not> handled (Inl (Uncaught x))" "handled (Inl (Api e)) \<longleftrightarrow> ae_class e \<noteq> ApiError"
  by (simp_all add: handled_def api_def unknown_def raise_api_def)

lemma refusal_handled: "handled (Inl e) \<Longrightarrow> refusal e \<in> {404, 409, 429, 503}"
  by (cases e; cases "ae_class (case e of Api a \<Rightarrow> a | Uncaught x \<Rightarrow> undefined)")
    (auto simp: handled_def refusal_def error_response_def)

definition proper :: "db \<Rightarrow> nat \<times> db \<Rightarrow> bool" where
  "proper d r \<longleftrightarrow> fst r \<noteq> 500 \<and> (400 \<le> fst r \<longrightarrow> snd r = d)"

lemma proper_page [simp]: "proper d (200, d)"
  by (simp add: proper_def)

lemma reply_proper: "handled m \<Longrightarrow> code < 400 \<Longrightarrow> proper d (reply code m d)"
  using refusal_handled by (cases m) (fastforce simp: proper_def reply_def)+

lemma reply_read_proper: "handled m \<Longrightarrow> proper d (reply_read m d)"
  using refusal_handled by (cases m) (fastforce simp: proper_def reply_read_def)+

lemma handled_on_integrity:
  "\<forall>x. m = Inl x \<longrightarrow> (\<exists>c. x = IntegrityError c) \<Longrightarrow> ae_class e \<noteq> ApiError \<Longrightarrow> handled (on_integrity e m)"
  by (cases m) (auto simp: handled_def)

lemma handled_creates [simp]:
  "handled (create_tenant_request i b d)" "handled (create_agent_request i tn nm desc d)"
  "handled (create_tool_request i tn nm ty cfg desc d)"
  by (auto simp: create_tenant_request_def create_agent_request_def create_tool_request_def create_tenant_def
      create_agent_def create_tool_def Let_def raise_api_def intro!: handled_on_integrity split: if_splits)

lemma handled_reads [simp]:
  "handled (get_tenant_request i d)" "handled (get_task_out clock i d)" "handled (get_events i d)"
  "handled (get_agent_request i d)" "handled (list_versions_request i d)" "handled (list_grants_request i d)"
  by (simp_all add: get_tenant_request_def get_task_out_def get_events_def get_agent_request_def
      list_versions_request_def list_grants_request_def split: option.split)

lemma handled_version:
  assumes "registry_inv d" "version_create_valid b" "get_version d i = None"
  shows "handled (create_version_request i a (version_request_of b) d)"
proof (cases "get_agent d a")
  case None
  then show ?thesis by (simp add: create_version_request_def create_version_def)
next
  case (Some g)
  let ?r = "version_request_of b"
  have r: "?r\<lparr>vr_status := VERSION_DRAFT\<rparr> = ?r" by (simp add: version_request_of_def)
  have "1 \<le> vr_max_attempts ?r" "1 \<le> vr_max_execution_time_s ?r"
    using assms(2) by (simp_all add: version_request_of_def version_create_valid_def between_def)
  then obtain v d' where "create_version i a ?r d = Inr (v, d')"
    using create_version_ok [OF assms(1), of a ?r i] Some assms(3) by auto
  then show ?thesis by (simp add: create_version_request_def r)
qed

lemma handled_activate:
  assumes "registry_inv d"
  shows "handled (activate a v e req d)"
proof (cases "\<exists>w. get_version d v = Some w \<and> av_agent_id w = a \<and> av_status w \<noteq> VERSION_DISABLED")
  case True
  then obtain w where w: "get_version d v = Some w" "av_agent_id w = a" "av_status w \<noteq> VERSION_DISABLED" by blast
  have "a \<in> ag_id ` set (agents d)"
    using assms w(1,2) find_by_SomeD [of av_id v "agent_versions d" w] by (auto simp: registry_inv_def get_version_def)
  then obtain g where g: "get_agent d a = Some g"
    by (cases "get_agent d a") (auto simp: get_agent_def find_by_None_iff)
  show ?thesis
    by (simp add: activate_def activate_version_eq [OF assms g w] not_activated_def)
next
  case False
  then show ?thesis
    by (auto simp: activate_def activate_version_def not_activated_def split: option.split)
qed

lemma handled_disable:
  assumes "db_inv d" "registry_inv d"
  shows "handled (disable a d)"
proof (cases "get_agent d a")
  case None
  then have "\<forall>x \<in> set (agents d). ag_id x \<noteq> a" by (auto simp: get_agent_def find_by_None_iff)
  then have "filter (\<lambda>x. ag_id x = a) (agents d) = []" by (simp add: filter_empty_conv)
  then show ?thesis
    by (simp add: disable_def set_agent_status_def update_agents_def sql_returning_def first_row_def)
next
  case (Some g)
  then show ?thesis using disable_result [OF assms Some] by auto
qed

lemma handled_route:
  assumes "agents_owned d"
  shows "handled (set_route_request tn rt a d)"
proof (cases "get_agent d a")
  case (Some g)
  then have "g \<in> set (agents d)" "ag_id g = a" using find_by_SomeD [of ag_id a "agents d" g] by (simp_all add: get_agent_def)
  then have "a \<in> set (map ag_id (agents d))" "ag_tenant_id g \<in> set (map tn_id (tenants d))"
    using assms by (auto simp: agents_owned_def)
  then show ?thesis by (auto simp: set_route_request_def Some set_route_def)
qed (simp add: set_route_request_def)

lemma handled_switch [simp]: "handled (disable_tool i d)" "handled (enable_tool i d)"
  by (simp_all add: disable_tool_def enable_tool_def switch_tool_def Let_def split: prod.split option.split)

lemma handled_changeable [simp]: "handled (changeable_version v d)"
  by (simp add: changeable_version_def split: option.split)

lemma handled_bind: "handled m \<Longrightarrow> (\<And>x. m = Inr x \<Longrightarrow> handled (f x)) \<Longrightarrow> handled (bindE m f)"
  by (cases m) (auto simp: handled_def)

lemma handled_grant:
  assumes "registry_inv d"
  shows "handled (grant v i d)"
  unfolding grant_def
proof (rule handled_bind [OF handled_changeable])
  fix ver assume "changeable_version v d = Inr ver"
  then have v: "get_version d v = Some ver"
    by (auto simp: changeable_version_def unknown_def api_def split: option.splits if_splits)
  then have vs: "ver \<in> set (agent_versions d)" "av_id ver = v"
    using find_by_SomeD [of av_id v "agent_versions d" ver] by (simp_all add: get_version_def)
  then obtain g where g: "get_agent d (av_agent_id ver) = Some g"
    using assms by (cases "get_agent d (av_agent_id ver)") (auto simp: registry_inv_def get_agent_def find_by_None_iff)
  have "handled (uncaught (grant_tool v i d))" if "get_tool d i = Some t" for t
  proof -
    have "i \<in> set (map tl_id (tools d))"
      using find_by_SomeD [of tl_id i "tools d" t] that by (auto simp: get_tool_def)
    moreover have "v \<in> set (map av_id (agent_versions d))" using vs by auto
    ultimately show ?thesis by (simp add: grant_tool_def)
  qed
  then show "handled (case get_tool d i of None \<Rightarrow> unknown ''tool'' ''tool_id'' i
      | Some t \<Rightarrow> case get_agent d (av_agent_id ver) of None \<Rightarrow> Inl (Uncaught (AssertionError ''agent is None''))
          | Some g \<Rightarrow> if ag_tenant_id g \<noteq> tl_tenant_id t then api Conflict ''tool belongs to a different tenant'' []
              else bindE (uncaught (grant_tool v i d)) (\<lambda>d1.
                Inr ((), record_audit (control_audit (tl_tenant_id t) ''TOOL_GRANTED'' ''agent_version'' v (grant_data t)) d1)))"
    by (auto simp: g intro!: handled_bind split: option.split)
qed

lemma handled_revoke [simp]: "handled (revoke v i d)"
  unfolding revoke_def
  by (rule handled_bind [OF handled_changeable]) (auto simp: Let_def split: option.split prod.split)

lemma cancel_proper:
  assumes "db_inv d"
  shows "proper d (case cancel i d of Inl e \<Rightarrow> (refusal e, d) | Inr ((code, body), d') \<Rightarrow> (code, d'))"
proof (cases "cancel i d")
  case (Inl e)
  then have "handled (cancel i d)"
    using cancel_status [OF assms, of i] by (auto simp: handled_def split: failure.splits option.splits)
  then show ?thesis using refusal_handled [of e] Inl by (auto simp: proper_def)
next
  case (Inr r)
  then obtain code body d' where r: "cancel i d = Inr ((code, body), d')" by (cases r) auto
  then have "code = 200 \<or> code = 202" using cancel_status [OF assms, of i] by (simp add: r) blast
  then show ?thesis by (auto simp: proper_def r)
qed

text \<open>
  What others may do between two statements of a request: any steps of the platform, other requests
  and submissions among them.
\<close>

definition meanwhile :: "db \<Rightarrow> db \<Rightarrow> bool" where
  "meanwhile d d' \<longleftrightarrow> (\<exists>S S'. sys_inv S \<and> sys_step\<^sup>*\<^sup>* S S' \<and> sys_db S = d \<and> sys_db S' = d')"

lemma meanwhile_refl: "sys_inv S \<Longrightarrow> meanwhile (sys_db S) (sys_db S)"
  unfolding meanwhile_def by blast

lemma sys_step_kept: "sys_step S S' \<Longrightarrow> sys_inv S \<Longrightarrow> kept (sys_db S) (sys_db S')"
proof (induction rule: sys_step.induct)
  case (s_commit S d')
  then show ?case using commit_good [OF s_commit(1)] by (simp add: sys_inv_def good_step_def)
next
  case (s_insert s S i r d')
  then show ?case using submit_step [OF s_insert(2)] by (simp add: sys_inv_def)
qed simp_all

lemma meanwhile_good:
  assumes "meanwhile d d'"
  shows "db_inv d'" "control_inv d'" "kept d d'"
proof -
  obtain S S' where s: "sys_inv S" "sys_step\<^sup>*\<^sup>* S S'" "sys_db S = d" "sys_db S' = d'"
    using assms by (auto simp: meanwhile_def)
  have "sys_inv S' \<and> kept (sys_db S) (sys_db S')"
    using s(2,1)
  proof (induction rule: rtranclp_induct)
    case (step y z)
    then show ?case using sys_step_good sys_step_kept kept_trans by blast
  qed simp
  then show "db_inv d'" "control_inv d'" "kept d d'" using s(3,4) by (simp_all add: sys_inv_def)
qed

text \<open>
  The states on which a submission resolves its route and inserts, and the condition on a request: its
  generated id is new, and between its statements others take steps of the platform.
\<close>

fun resolving :: "request \<Rightarrow> db \<Rightarrow> db" where
  "resolving (POST_tasks env b) d = before_resolve env d"
| "resolving r d = d"

fun inserting :: "request \<Rightarrow> db \<Rightarrow> db" where
  "inserting (POST_tasks env b) d = before_insert env (before_resolve env d)"
| "inserting r d = d"

fun fresh_request :: "request \<Rightarrow> db \<Rightarrow> bool" where
  "fresh_request (POST_tasks env b) d \<longleftrightarrow> meanwhile d (resolving (POST_tasks env b) d)
     \<and> meanwhile (resolving (POST_tasks env b) d) (inserting (POST_tasks env b) d)
     \<and> find_task (inserting (POST_tasks env b) d) (generated_id env) = None"
| "fresh_request (POST_agent_versions i a b) d \<longleftrightarrow> get_version d i = None"
| "fresh_request r d \<longleftrightarrow> True"

text \<open>A submission routed to a version whose \<open>runtime_spec\<close> has a task type that is not a string and has no text.\<close>

fun unusable_spec :: "request \<Rightarrow> db \<Rightarrow> bool" where
  "unusable_spec (POST_tasks env b) d \<longleftrightarrow>
     (case b_request_type b of None \<Rightarrow> False
      | Some rt \<Rightarrow> (case resolve_route (b_tenant_id b) rt d of Inl e \<Rightarrow> False
          | Inr r \<Rightarrow> task_type_text env (dict_get (rs_runtime_spec r) ''task_type'' (JStr (rs_agent_name r))) = None))"
| "unusable_spec r d \<longleftrightarrow> False"

text \<open>A page cursor that is not the text of one.\<close>

fun bad_cursor :: "request \<Rightarrow> bool" where
  "bad_cursor (GET_tasks rd tn st n (Some s)) \<longleftrightarrow> s \<noteq> [] \<and> (case decode_cursor rd s of Inl e \<Rightarrow> True | Inr k \<Rightarrow> False)"
| "bad_cursor r \<longleftrightarrow> False"

fun is_read :: "request \<Rightarrow> bool" where
  "is_read (GET_tenant i) = True" | "is_read (GET_tasks rd tn st n c) = True" | "is_read (GET_task i) = True"
| "is_read (GET_task_events i) = True" | "is_read (GET_agents tn) = True" | "is_read (GET_agent i) = True"
| "is_read (GET_agent_versions a) = True" | "is_read (GET_routes tn) = True" | "is_read (GET_tools tn) = True"
| "is_read (GET_version_grants v) = True" | "is_read (GET_audit tn a out n) = True"
| "is_read r = False"

lemma page_proper:
  "proper d (handle clock (GET_tasks rd tn st n c) d) \<longleftrightarrow> \<not> bad_cursor (GET_tasks rd tn st n c)"
proof (cases c)
  case None
  then show ?thesis
    by (simp add: list_tasks_page_def list_tasks_text_def reply_read_def proper_def Let_def split: prod.splits)
next
  case (Some s)
  then show ?thesis
    by (cases "decode_cursor rd s")
      (auto simp: list_tasks_page_def list_tasks_text_def reply_read_def proper_def refusal_def Let_def split: prod.splits)
qed

text \<open>A cursor that does not decode raises a \<open>ValueError\<close> that no handler catches.\<close>

lemma malformed_cursor:
  assumes "bad_cursor (GET_tasks rd tn st n c)" "1 \<le> n" "n \<le> 200"
  shows "serve jb clock (GET_tasks rd tn st n c) d = (500, d)"
proof -
  obtain s e where "c = Some s" "s \<noteq> []" "decode_cursor rd s = Inl e" using assms(1) by (cases c) (auto split: sum.splits)
  then show ?thesis
    using assms(2,3) by (simp add: serve_def list_tasks_page_def list_tasks_text_def reply_read_def refusal_def)
qed

text \<open>
  A submission and what others do in the meantime: it is answered 200 or 201 or refused, and refused
  it leaves one of the states the others made.
\<close>

lemma submit_refused: "submit env clock b d = (Inl e, d') \<Longrightarrow>
    d' \<in> {d, before_resolve env d, before_insert env (before_resolve env d)}"
  by (auto simp: submit_def Let_def split: option.splits admission.splits sum.splits)

lemma insert_submission_codes:
  "insert_submission env clock s d = Inr ((code, out), d') \<Longrightarrow> code = 200 \<or> code = 201"
  by (auto simp: insert_submission_def api_def split: sum.splits exn.splits if_splits)

lemma submit_handled:
  assumes "db_inv d" "control_inv d" "task_create_valid jb b" "fresh_request (POST_tasks env b) d"
    and "\<not> unusable_spec (POST_tasks env b) (resolving (POST_tasks env b) d)"
  shows "handled (fst (submit env clock b d))"
proof (cases "get_tenant d (b_tenant_id b)")
  case None
  then show ?thesis by (simp add: submit_def)
next
  case (Some tn)
  define d1 where "d1 = before_resolve env d"
  define d2 where "d2 = before_insert env d1"
  have m: "meanwhile d d1" "meanwhile d1 d2" "find_task d2 (generated_id env) = None"
    using assms(4) by (simp_all add: d1_def d2_def)
  note g1 = meanwhile_good [OF m(1)] and g2 = meanwhile_good [OF m(2)]
  have reg: "registry_inv d1" "limits_ok d1" using g1(2) by (simp_all add: control_inv_def)
  have "b_tenant_id b \<in> tn_id ` set (tenants d)"
    using find_by_SomeD [of tn_id _ "tenants d"] Some by (force simp: get_tenant_def)
  then have ten: "b_tenant_id b \<in> tn_id ` set (tenants d1)" using g1(3) keptD(4) by blast
  then have ten': "get_tenant d1 (b_tenant_id b) \<noteq> None" by (auto simp: get_tenant_def find_by_None_iff)
  define insert_it where "insert_it = (\<lambda>p. bindE (submission_of env b p) (\<lambda>s. insert_submission env clock s d2))"
  have run_it: "bindE (submission_of env b p) (\<lambda>s. insert_submission env clock s d2) = insert_it p" for p
    by (simp add: insert_it_def)
  have later: "handled (case resolve_submission b d1 of Inl e \<Rightarrow> Inl e | Inr p \<Rightarrow> insert_it p)"
    using resolve_submission_cases [OF reg assms(3)]
  proof (elim disjE exE conjE)
    fix p assume p: "resolve_submission b d1 = Inr p" "pin_ok b d1 p"
    show ?thesis
    proof (cases "submission_of env b p")
      case (Inl e)
      then show ?thesis using submission_of_Inl [OF Inl p] assms(5) by (auto simp: d1_def split: json.splits)
    next
      case (Inr s)
      have "flight_ok d1 s" by (rule resolve_flight [OF assms(3) ten' p(1) Inr g1(2)])
      then have f: "flight_ok d2 s" by (rule flight_ok_kept [OF _ g2(3)])
      then have "submission_ok s" "refs_ok s d2" using flight_refs by (simp_all add: flight_ok_def)
      from insert_submission_cases [OF g2(1) this m(3), of clock] show ?thesis by (auto simp: p(1) Inr insert_it_def)
    qed
  qed auto
  define v where "v = admission_decide (int (queued_count_for_tenant d (b_tenant_id b))) (max_queued_tasks tn)
      (cached_global_queued env) (shed_threshold env)"
  have "fst (submit env clock b d) = (case decision v of
      REJECT_TENANT_BACKLOG \<Rightarrow> api QuotaExceeded (reason v) [(''retry_after_s'', JNum (of_int (v_retry_after_s v)))]
    | SHED_OVERLOADED \<Rightarrow> api Overloaded (reason v) [(''retry_after_s'', JNum (of_int (v_retry_after_s v)))]
    | ADMIT \<Rightarrow> (case resolve_submission b d1 of Inl e \<Rightarrow> Inl e
        | Inr p \<Rightarrow> (case insert_it p of Inl e \<Rightarrow> Inl e | Inr (out, d3) \<Rightarrow> Inr out)))"
    unfolding submit_def Let_def Some option.case v_def [symmetric] d1_def [symmetric] d2_def [symmetric]
      run_it
    by (simp split: admission.split sum.split prod.split)
  then show ?thesis using later
    by (auto simp: handled_def api_def raise_api_def split: admission.split sum.splits failure.splits)
qed

lemma submit_proper:
  assumes "db_inv d" "control_inv d" "task_create_valid jb b" "fresh_request (POST_tasks env b) d"
    and "\<not> unusable_spec (POST_tasks env b) (resolving (POST_tasks env b) d)"
  shows "fst (handle clock (POST_tasks env b) d) \<noteq> 500"
proof (cases "submit env clock b d")
  case (Pair m d')
  show ?thesis
  proof (cases m)
    case (Inl e)
    then have "handled (Inl e :: failure + (nat \<times> task_out))" using submit_handled [OF assms, of clock] Pair by simp
    then show ?thesis using refusal_handled [of e] Pair Inl by auto
  next
    case (Inr r)
    then obtain code out where r: "submit env clock b d = (Inr (code, out), d')" using Pair by (cases r) simp
    then have "code = 200 \<or> code = 201"
      using insert_submission_codes
      by (fastforce simp: submit_def Let_def unknown_def api_def split: option.splits admission.splits sum.splits prod.splits)
    then show ?thesis using r by auto
  qed
qed

lemma submit_left:
  "400 \<le> fst (handle clock (POST_tasks env b) d) \<Longrightarrow> snd (handle clock (POST_tasks env b) d)
     \<in> {d, resolving (POST_tasks env b) d, inserting (POST_tasks env b) d}"
proof (cases "submit env clock b d")
  case (Pair m d')
  assume bad: "400 \<le> fst (handle clock (POST_tasks env b) d)"
  show ?thesis
  proof (cases m)
    case (Inl e)
    then show ?thesis using submit_refused [of env clock b d e d'] Pair by simp
  next
    case (Inr r)
    then obtain code out where r: "submit env clock b d = (Inr (code, out), d')" using Pair by (cases r) simp
    then have "code = 200 \<or> code = 201"
      using insert_submission_codes
      by (fastforce simp: submit_def Let_def unknown_def api_def split: option.splits admission.splits sum.splits prod.splits)
    then show ?thesis using r bad by auto
  qed
qed

lemma handle_proper:
  assumes "db_inv d" "control_inv d" "valid_request jb r" "fresh_request r d" "\<not> bad_cursor r"
    and "\<And>env b. r \<noteq> POST_tasks env b"
  shows "proper d (handle clock r d)"
proof -
  have inv: "registry_inv d" "limits_ok d" "agents_owned d" using assms(2) by (simp_all add: control_inv_def)
  show ?thesis
  proof (cases r)
    case (POST_tasks env b)
    then show ?thesis using assms(6) by blast
  next
    case (POST_agent_versions i a b)
    then show ?thesis using handled_version [OF inv(1)] assms(3,4) by (simp add: reply_proper)
  next
    case (GET_tasks rd tn st n c)
    then show ?thesis using assms(5) by (simp only: page_proper simp_thms)
  next
    case (POST_task_cancel i)
    then show ?thesis using cancel_proper [OF assms(1)] by simp
  qed (simp_all add: reply_proper reply_read_proper handled_activate handled_disable handled_route
      handled_grant inv assms(1) Let_def)
qed

text \<open>
  C28. No server error. In every reachable state every request whose generated id is new is answered,
  whatever steps others take between the statements of a submission; with a 500 only if it is a
  submission whose route leads, when it is resolved, to a version whose \<open>runtime_spec\<close> names a task
  type that is neither a string nor cast to one, or a listing with a cursor that does not decode: no constraint of the
  database, no missing row and no assertion gets through a handler. A request that is refused (by
  its schema, as unknown, as a conflict, over quota, under overload) writes nothing: it leaves the
  database as it was or, for a submission, as others had made it by one of its statements; and a
  read leaves it as it was. The bodies are those the columns can store: their numbers are finite
  and their text has no NUL, which the type \<open>json\<close> and the strings of the model presuppose.
\<close>

theorem no_server_error:
  assumes "reachable S" "fresh_request r (sys_db S)"
  shows "(fst (serve jb clock r (sys_db S)) = 500 \<longrightarrow> unusable_spec r (resolving r (sys_db S)) \<or> bad_cursor r)
    \<and> (400 \<le> fst (serve jb clock r (sys_db S)) \<longrightarrow>
         snd (serve jb clock r (sys_db S)) \<in> {sys_db S, resolving r (sys_db S), inserting r (sys_db S)})
    \<and> (is_read r \<longrightarrow> snd (serve jb clock r (sys_db S)) = sys_db S)"
proof -
  let ?d = "sys_db S"
  have inv: "db_inv ?d" "control_inv ?d" using reachable_inv [OF assms(1)] by (simp_all add: sys_inv_def)
  have read: "snd (handle clock r ?d) = ?d" if "is_read r"
    using that by (cases r) (simp_all add: reply_read_def split: sum.splits)
  show ?thesis
  proof (cases "\<exists>env b. r = POST_tasks env b")
    case True
    then obtain env b where r: "r = POST_tasks env b" by blast
    have "fst (serve jb clock r ?d) = 500 \<Longrightarrow> unusable_spec r (resolving r ?d)"
      using submit_proper [OF inv, of jb b env clock] assms(2) r by (auto simp: serve_def split: if_splits)
    moreover have "400 \<le> fst (serve jb clock r ?d) \<Longrightarrow>
        snd (serve jb clock r ?d) \<in> {?d, resolving r ?d, inserting r ?d}"
      using submit_left [of clock env b ?d] r by (auto simp: serve_def simp del: handle.simps resolving.simps inserting.simps)
    ultimately show ?thesis using r by simp
  next
    case False
    show ?thesis
    proof (cases "bad_cursor r")
      case True
      then have "is_read r" by (cases r) auto
      then show ?thesis using read True by (simp add: serve_def)
    next
      case ok: False
      have "proper ?d (serve jb clock r ?d)"
        using handle_proper [OF inv _ assms(2) ok] False by (auto simp: serve_def proper_def)
      then show ?thesis using read by (auto simp: proper_def serve_def)
    qed
  qed
qed

theorem no_server_error_witness:
  "fst (serve (\<lambda>_. 2) 10 (POST_agent_disable 9) run4) = 404
     \<and> snd (serve (\<lambda>_. 2) 10 (POST_agent_disable 9) run4) = run4"
proof -
  have "fst (serve (\<lambda>_. 2) 10 (POST_agent_disable 9) run4) = 404" by code_simp
  then show ?thesis
    using no_server_error [OF run_steps(1), of "POST_agent_disable 9" "\<lambda>_. 2" 10] by simp
qed

end
