(* ===== verification/Metrics.thy ===== *)
theory Metrics
  imports WorkerLoop ReaperLoop Api
begin

text \<open>
  \<open>obs/metrics.py\<close>: the catalogue of metric families, and the samples that the API, the worker, the
  reaper and the gauge refresher (\<open>obs/gauges.py\<close>) record. The client library refuses a sample whose
  label names are not those its family declares, or a negative increment of a counter, by raising
  in the middle of the operation that records it; the lemmas show that no modelled site does.
\<close>

section \<open>The catalogue\<close>

datatype metric_kind = Counter | Gauge | Histogram "rat list"

record metric_family =
  fm_name :: string
  fm_kind :: metric_kind
  fm_labels :: "string list"

definition family :: "string \<Rightarrow> metric_kind \<Rightarrow> string list \<Rightarrow> metric_family" where
  "family n k ls = \<lparr>fm_name = n, fm_kind = k, fm_labels = ls\<rparr>"

text \<open>The module's variables, which name the families in the code; the gauges are the API's alone.\<close>

definition gauge_families :: "(string \<times> metric_family) list" where
  "gauge_families =
     [(''queue_depth'', family ''acp_queue_depth'' Gauge [''tenant'']),
      (''tasks_running'', family ''acp_tasks_running'' Gauge [''tenant'']),
      (''tasks_backlogged'', family ''acp_tasks_backlogged'' Gauge []),
      (''workers_by_status'', family ''acp_workers'' Gauge [''status'']),
      (''leases_expired_pending'', family ''acp_leases_expired_pending'' Gauge [])]"

definition families :: "(string \<times> metric_family) list" where
  "families =
     [(''tasks_submitted'', family ''acp_tasks_submitted_total'' Counter [''task_type'', ''deduplicated'']),
      (''admissions'', family ''acp_admissions_total'' Counter [''decision'']),
      (''task_attempts_finished'', family ''acp_task_attempts_finished_total'' Counter [''task_type'', ''outcome'']),
      (''tasks_terminal'', family ''acp_tasks_terminal_total'' Counter [''task_type'', ''state'']),
      (''tasks_retried'', family ''acp_tasks_retried_total'' Counter [''task_type'', ''error_class'']),
      (''stale_writes_rejected'', family ''acp_stale_writes_rejected_total'' Counter [''rejection'']),
      (''tool_calls'', family ''acp_tool_calls_total'' Counter [''tool'', ''decision'']),
      (''tool_access_denied'', family ''acp_tool_access_denied_total'' Counter [''reason'']),
      (''lease_expirations'', family ''acp_lease_expirations_total'' Counter []),
      (''task_recoveries'', family ''acp_task_recoveries_total'' Counter [''disposition'']),
      (''hung_tasks_detected'', family ''acp_hung_tasks_detected_total'' Counter [''disposition'']),
      (''workers_marked_dead'', family ''acp_workers_marked_dead_total'' Counter []),
      (''workers_self_fenced'', family ''acp_workers_self_fenced_total'' Counter []),
      (''claim_duration'', family ''acp_claim_duration_seconds''
         (Histogram [1/1000, 1/400, 1/200, 1/100, 1/40, 1/20, 1/10, 1/4, 1/2, 1, 5/2]) []),
      (''claim_batch'', family ''acp_claim_batch_size'' (Histogram [0, 1, 2, 3, 5, 8, 13, 21]) []),
      (''queue_wait'', family ''acp_queue_wait_seconds''
         (Histogram [1/100, 1/20, 1/10, 1/4, 1/2, 1, 5/2, 5, 10, 30, 60, 300]) [''task_type'']),
      (''execution_duration'', family ''acp_execution_duration_seconds''
         (Histogram [1/100, 1/20, 1/10, 1/4, 1/2, 1, 5/2, 5, 10, 30, 60, 300]) [''task_type'', ''outcome'']),
      (''recovery_latency'', family ''acp_recovery_latency_seconds''
         (Histogram [1/2, 1, 2, 5, 10, 20, 30, 45, 60, 120, 300]) []),
      (''reaper_sweep_duration'', family ''acp_reaper_sweep_duration_seconds''
         (Histogram [1/1000, 1/100, 1/20, 1/10, 1/2, 1, 5, 10]) [])]
     @ gauge_families"

text \<open>A name is registered once, and the buckets of a histogram increase.\<close>

lemma families_registered:
  "distinct (map fst families)" "distinct (map (fm_name \<circ> snd) families)"
  "list_all (\<lambda>(n, f). case fm_kind f of Histogram bs \<Rightarrow> sorted_wrt (<) bs | _ \<Rightarrow> True) families"
  by (simp_all add: families_def gauge_families_def family_def)

section \<open>Samples\<close>

type_synonym sample = "metric \<times> rat"

definition counted :: "metric \<Rightarrow> sample" where
  "counted m = (m, 1)"

definition sample_ok :: "sample \<Rightarrow> bool" where
  "sample_ok s = (case s of ((n, ls), x) \<Rightarrow>
     (case map_of families n of
        None \<Rightarrow> False
      | Some f \<Rightarrow> map fst ls = fm_labels f \<and> (fm_kind f = Counter \<longrightarrow> 0 \<le> x)))"

fun decision_value :: "admission \<Rightarrow> string" where
  "decision_value ADMIT = ''admit''"
| "decision_value REJECT_TENANT_BACKLOG = ''reject_tenant_backlog''"
| "decision_value SHED_OVERLOADED = ''shed_overloaded''"

text \<open>The API: each admission verdict; each submission that was answered with a task.\<close>

definition admission_samples :: "verdict \<Rightarrow> sample list" where
  "admission_samples v = [counted (''admissions'', [(''decision'', decision_value (decision v))])]"

definition submitted_samples :: "string \<Rightarrow> bool \<Rightarrow> sample list" where
  "submitted_samples ty new = [counted (''tasks_submitted'', [(''task_type'', ty),
     (''deduplicated'', if new then ''false'' else ''true'')])]"

text \<open>The worker: a refused heartbeat, a claim, an execution, a tool decision, an outcome.\<close>

definition fenced_samples :: "sample list" where
  "fenced_samples = [counted (''workers_self_fenced'', [])]"

definition claim_samples :: "rat \<Rightarrow> task list \<Rightarrow> sample list" where
  "claim_samples elapsed claimed =
     [((''claim_duration'', []), elapsed), ((''claim_batch'', []), of_nat (length claimed))]
     @ map (\<lambda>row. ((''queue_wait'', [(''task_type'', task_type row)]), max 0 (updated_at row - available_at row))) claimed"

definition execution_samples :: "rat \<Rightarrow> string \<Rightarrow> attempt_result \<Rightarrow> sample list" where
  "execution_samples elapsed ty res =
     [((''execution_duration'', [(''task_type'', ty), (''outcome'', operation_name res)]), elapsed)]"

definition decision_samples :: "string \<Rightarrow> authz_decision \<Rightarrow> sample list" where
  "decision_samples tool_name dec =
     (if allowed dec then [counted (''tool_calls'', [(''tool'', tool_name), (''decision'', ''allowed'')])]
      else [counted (''tool_calls'', [(''tool'', tool_name), (''decision'', ''denied'')]),
            counted (''tool_access_denied'', [(''reason'', reason_value dec)])])"

definition outcome_samples :: "string \<Rightarrow> attempt_result \<Rightarrow> bool \<Rightarrow> retry_decision option \<Rightarrow> sample list" where
  "outcome_samples ty res told dec = map counted (record_outcome ty res told dec)"

definition stale_samples :: "rejection option \<Rightarrow> sample list" where
  "stale_samples r = [counted (stale_write (case r of None \<Rightarrow> ''unknown'' | Some x \<Rightarrow> rejection_value x))]"

text \<open>The reaper: one lease batch, and the totals at the end of a sweep.\<close>

definition batch_samples :: "reap_result \<Rightarrow> sample list" where
  "batch_samples r = map (\<lambda>x. ((''recovery_latency'', []), x)) (overdue_s r)
     @ (if reaped r > 0 then [((''lease_expirations'', []), of_nat (reaped r))] else [])"

definition disposition_samples :: "string \<Rightarrow> nat \<times> nat \<Rightarrow> sample list" where
  "disposition_samples n c =
     (if fst c > 0 then [((n, [(''disposition'', ''requeued'')]), of_nat (fst c))] else [])
     @ (if snd c > 0 then [((n, [(''disposition'', ''failed_exhausted'')]), of_nat (snd c))] else [])"

definition sweep_samples :: "rat \<Rightarrow> sweep_report \<Rightarrow> sample list" where
  "sweep_samples elapsed r =
     disposition_samples ''task_recoveries'' (lease_counts r)
     @ disposition_samples ''hung_tasks_detected'' (hung_counts r)
     @ (if marked_dead r \<noteq> [] then [((''workers_marked_dead'', []), of_nat (length (marked_dead r)))] else [])
     @ [((''reaper_sweep_duration'', []), elapsed)]"

text \<open>The gauges of one refresh.\<close>

fun worker_status_value :: "worker_status \<Rightarrow> string" where
  "worker_status_value ALIVE = ''ALIVE''"
| "worker_status_value DRAINING = ''DRAINING''"
| "worker_status_value DEAD = ''DEAD''"

definition gauge_samples :: "gauges \<Rightarrow> sample list" where
  "gauge_samples g =
     map (\<lambda>(tn, n). ((''queue_depth'', [(''tenant'', tn)]), of_nat n)) (queue_depth g)
     @ map (\<lambda>(tn, n). ((''tasks_running'', [(''tenant'', tn)]), of_nat n)) (tasks_running g)
     @ map (\<lambda>(s, n). ((''workers_by_status'', [(''status'', worker_status_value s)]), of_nat n)) (workers_by_status g)
     @ [((''tasks_backlogged'', []), of_nat (tasks_backlogged g)),
        ((''leases_expired_pending'', []), of_nat (leases_expired_pending g))]"

text \<open>
  \<open>run_refresher\<close>: a refresh per interval until it is stopped, \<open>None\<close> where it raised, which is logged
  and leaves the gauges and the cached depth of the refresh before.
\<close>

fun run_refresher :: "db option list \<Rightarrow> gauges \<Rightarrow> gauges" where
  "run_refresher [] g = g"
| "run_refresher (None # ticks) g = run_refresher ticks g"
| "run_refresher (Some d # ticks) g = run_refresher ticks (refresh_once d g)"

section \<open>Labels\<close>

text \<open>The values each label can take, for those whose values the program itself chooses.\<close>

definition vocabulary :: "string \<Rightarrow> string list option" where
  "vocabulary = map_of
     [(''deduplicated'', [''true'', ''false'']),
      (''decision'', [''admit'', ''reject_tenant_backlog'', ''shed_overloaded'', ''allowed'', ''denied'']),
      (''outcome'', [''SUCCEEDED'', ''FAILED'', ''CANCELLED'', ''succeeded'', ''failed'']),
      (''state'', [''SUCCEEDED'', ''FAILED'', ''CANCELLED'']),
      (''error_class'', map failure_value ALL_FAILURE_CLASSES),
      (''rejection'', ''unknown'' # map rejection_value [NOT_FOUND, STATE_MISMATCH, ATTEMPT_MISMATCH, WORKER_MISMATCH,
         LEASE_NOT_EXPIRED, EXECUTION_TIME_NOT_EXCEEDED]),
      (''reason'', ''denied'' # map deny_value [UNKNOWN_TOOL, NOT_GRANTED, DENY_TOOL_DISABLED, DENY_VERSION_DISABLED, NO_POLICY]),
      (''disposition'', [''requeued'', ''failed_exhausted'']),
      (''status'', map worker_status_value [ALIVE, DRAINING, DEAD])]"

definition closed :: "string \<Rightarrow> string \<Rightarrow> bool" where
  "closed l v = (case vocabulary l of None \<Rightarrow> l \<in> {''task_type'', ''tool'', ''tenant''} | Some vs \<Rightarrow> v \<in> set vs)"

definition conforms :: "sample list \<Rightarrow> bool" where
  "conforms ss = list_all (\<lambda>s. sample_ok s \<and> list_all (\<lambda>(l, v). closed l v) (snd (fst s))) ss"

lemma conforms_simps [simp]:
  "conforms []" "conforms (xs @ ys) \<longleftrightarrow> conforms xs \<and> conforms ys"
  "conforms (s # ss) \<longleftrightarrow> sample_ok s \<and> list_all (\<lambda>(l, v). closed l v) (snd (fst s)) \<and> conforms ss"
  by (simp_all add: conforms_def)

lemma conforms_map: "(\<And>x. x \<in> set xs \<Longrightarrow> conforms [f x]) \<Longrightarrow> conforms (map f xs)"
  by (simp add: conforms_def list_all_iff)

text \<open>What each family asks of a sample.\<close>

definition accepts :: "string \<Rightarrow> string list \<Rightarrow> bool \<Rightarrow> bool" where
  "accepts n ls counter = (case map_of families n of None \<Rightarrow> False
     | Some f \<Rightarrow> fm_labels f = ls \<and> (fm_kind f = Counter \<longrightarrow> counter))"

lemma sample_ok_accepts: "accepts n (map fst ls) (0 \<le> x) \<Longrightarrow> sample_ok ((n, ls), x)"
  by (auto simp: accepts_def sample_ok_def split: option.splits)

lemma accepted_families [simp]:
  "accepts ''tasks_submitted'' [''task_type'', ''deduplicated''] True"
  "accepts ''admissions'' [''decision''] True"
  "accepts ''task_attempts_finished'' [''task_type'', ''outcome''] True"
  "accepts ''tasks_terminal'' [''task_type'', ''state''] True"
  "accepts ''tasks_retried'' [''task_type'', ''error_class''] True"
  "accepts ''stale_writes_rejected'' [''rejection''] True"
  "accepts ''tool_calls'' [''tool'', ''decision''] True"
  "accepts ''tool_access_denied'' [''reason''] True"
  "accepts ''lease_expirations'' [] True"
  "accepts ''task_recoveries'' [''disposition''] True"
  "accepts ''hung_tasks_detected'' [''disposition''] True"
  "accepts ''workers_marked_dead'' [] True"
  "accepts ''workers_self_fenced'' [] True"
  "accepts ''claim_duration'' [] b"
  "accepts ''claim_batch'' [] b"
  "accepts ''queue_wait'' [''task_type''] b"
  "accepts ''execution_duration'' [''task_type'', ''outcome''] b"
  "accepts ''recovery_latency'' [] b"
  "accepts ''reaper_sweep_duration'' [] b"
  "accepts ''queue_depth'' [''tenant''] b"
  "accepts ''tasks_running'' [''tenant''] b"
  "accepts ''tasks_backlogged'' [] b"
  "accepts ''workers_by_status'' [''status''] b"
  "accepts ''leases_expired_pending'' [] b"
  by (simp_all add: accepts_def families_def gauge_families_def family_def)

lemma failure_class_vocabulary: "failure_value c \<in> failure_value ` set ALL_FAILURE_CLASSES"
  using all_failure_classes by blast

lemma label_values:
  "rejection_value r \<in> set (map rejection_value [NOT_FOUND, STATE_MISMATCH, ATTEMPT_MISMATCH, WORKER_MISMATCH,
     LEASE_NOT_EXPIRED, EXECUTION_TIME_NOT_EXCEEDED])"
  "deny_value w \<in> set (map deny_value [UNKNOWN_TOOL, NOT_GRANTED, DENY_TOOL_DISABLED, DENY_VERSION_DISABLED, NO_POLICY])"
  "worker_status_value st \<in> set (map worker_status_value [ALIVE, DRAINING, DEAD])"
  subgoal by (cases r) simp_all
  subgoal by (cases w) simp_all
  subgoal by (cases st) simp_all
  done

lemma closed_values [simp]:
  "closed ''task_type'' v" "closed ''tool'' v" "closed ''tenant'' v"
  "closed ''error_class'' (failure_value c)" "closed ''status'' (worker_status_value st)"
  "closed ''decision'' (decision_value ad)" "closed ''outcome'' (operation_name res)"
  "closed ''rejection'' (case r of None \<Rightarrow> ''unknown'' | Some x \<Rightarrow> rejection_value x)"
  "closed ''reason'' (reason_value dec)"
proof -
  show "closed ''error_class'' (failure_value c)" by (simp add: closed_def vocabulary_def failure_class_vocabulary)
  show "closed ''status'' (worker_status_value st)" using label_values(3) by (simp add: closed_def vocabulary_def)
  show "closed ''decision'' (decision_value ad)" by (cases ad) (simp_all add: closed_def vocabulary_def)
  show "closed ''outcome'' (operation_name res)"
    by (cases res) (simp_all add: closed_def vocabulary_def operation_name_def)
  show "closed ''rejection'' (case r of None \<Rightarrow> ''unknown'' | Some x \<Rightarrow> rejection_value x)"
    using label_values(1) by (cases r) (simp_all add: closed_def vocabulary_def)
  show "closed ''reason'' (reason_value dec)"
    using label_values(2) by (cases "decision_reason dec") (simp_all add: closed_def vocabulary_def reason_value_def)
qed (simp_all add: closed_def vocabulary_def)

lemma closed_literals [simp]:
  "closed ''deduplicated'' ''true''" "closed ''deduplicated'' ''false''"
  "closed ''decision'' ''allowed''" "closed ''decision'' ''denied''"
  "closed ''outcome'' ''SUCCEEDED''" "closed ''outcome'' ''FAILED''" "closed ''outcome'' ''CANCELLED''"
  "closed ''state'' ''SUCCEEDED''" "closed ''state'' ''FAILED''" "closed ''state'' ''CANCELLED''"
  "closed ''disposition'' ''requeued''" "closed ''disposition'' ''failed_exhausted''"
  by (simp_all add: closed_def vocabulary_def)

lemma api_conforms: "conforms (admission_samples v)" "conforms (submitted_samples ty new)"
  by (simp_all add: admission_samples_def submitted_samples_def counted_def sample_ok_accepts)

lemma worker_conforms:
  "conforms fenced_samples" "conforms (claim_samples x claimed)" "conforms (execution_samples x ty res)"
  "conforms (decision_samples n dec)" "conforms (stale_samples r)"
  by (simp_all add: fenced_samples_def claim_samples_def execution_samples_def decision_samples_def stale_samples_def
      stale_write_def counted_def sample_ok_accepts conforms_map)

lemma outcome_conforms: "conforms (outcome_samples ty res told dec)"
  by (simp add: outcome_samples_def record_outcome_def attempt_finished_def task_terminal_def counted_def Let_def
      sample_ok_accepts split: attempt_result.split)

lemma reaper_conforms: "conforms (batch_samples r)" "conforms (sweep_samples x rep)"
  by (simp_all add: batch_samples_def sweep_samples_def disposition_samples_def sample_ok_accepts conforms_map)

lemma gauges_conform: "conforms (gauge_samples g)"
  by (auto simp: gauge_samples_def sample_ok_accepts intro!: conforms_map)

text \<open>
  C34. Recording a sample never fails. Whatever the values, every sample that the API, the worker, the
  reaper and the gauge refresher record belongs to a registered family, has exactly its labels in its order and
  never decrements a counter; every label but the task type, the tool and the tenant takes its
  values from a fixed list, \<open>error_class\<close> from the failure classes; and the gauges after any
  series of refreshes, some of which failed, are those of the last one that succeeded, with no value
  left of what the gauges held before it.
\<close>

theorem samples_conform:
  "conforms (admission_samples v) \<and> conforms (submitted_samples ty new) \<and> conforms fenced_samples
    \<and> conforms (claim_samples x claimed) \<and> conforms (execution_samples x ty res) \<and> conforms (decision_samples n dec)
    \<and> conforms (outcome_samples ty res told rd) \<and> conforms (stale_samples r) \<and> conforms (batch_samples rr)
    \<and> conforms (sweep_samples x rep) \<and> conforms (gauge_samples g)
    \<and> distinct (map (fm_name \<circ> snd) families)
    \<and> run_refresher (ticks @ Some d # replicate k None) g = refresh_once d h"
proof -
  have none: "run_refresher (replicate k None) g' = g'" for g' by (induction k) simp_all
  have any: "refresh_once d g' = refresh_once d h" for g' by (simp only: refresh_once_eq)
  have "run_refresher (ticks @ ts) g = run_refresher ts (run_refresher ticks g)" for ts
    by (induction ticks g rule: run_refresher.induct) simp_all
  then have "run_refresher (ticks @ Some d # replicate k None) g = refresh_once d (run_refresher ticks g)"
    by (simp only: run_refresher.simps none)
  then have "run_refresher (ticks @ Some d # replicate k None) g = refresh_once d h" by (rule trans [OF _ any])
  then show ?thesis
    by (simp only: api_conforms worker_conforms outcome_conforms reaper_conforms gauges_conform families_registered simp_thms)
qed

end
