(* ===== verification/Demos.thy ===== *)
theory Demos
  imports Server Processes
begin

text \<open>
  The scripts that drive the platform from outside: \<open>scripts/demo_governance.py\<close>, whose requests run
  here against the handlers with a fleet working in between; of \<open>scripts/demo_chaos.py\<close> the batch it
  submits, its waiting loop and the verdict it prints; of the benchmarks under \<open>load\<close> their waiting
  loops, the choice of the worker to stop, and the metrics they ask Prometheus for. Containers,
  signals and Prometheus itself are outside: what they answer is an argument.
\<close>

section \<open>A client of the API\<close>

text \<open>\<open>.json()\<close> of a response and then a key of its body: a refusal's body lacks the key.\<close>

definition body_of :: "failure + ('a \<times> db) \<Rightarrow> db \<Rightarrow> (exc + 'a) \<times> db" where
  "body_of m d = (case m of
      Inl (Api e) \<Rightarrow> (Inl (adapter_error PyKeyError ''id'' AttrNone), d)
    | Inl (Uncaught e) \<Rightarrow> (Inl (adapter_error PyValueError ''not JSON'' AttrNone), d)
    | Inr (x, d') \<Rightarrow> (Inr x, d'))"

text \<open>A request whose response is not looked at.\<close>

definition issue :: "failure + ('a \<times> db) \<Rightarrow> db \<Rightarrow> db" where
  "issue m d = (case m of Inl e \<Rightarrow> d | Inr (x, d') \<Rightarrow> d')"

definition assert_that :: "bool \<Rightarrow> string \<Rightarrow> db \<Rightarrow> (exc + unit) \<times> db" where
  "assert_that b msg d = (if b then (Inr (), d) else (Inl (adapter_error PyAssertionError msg AttrNone), d))"

text \<open>
  \<open>_wait_for_terminal\<close>: polls until the deadline, \<open>polls\<close> of them; the fleet works between two.
\<close>

fun wait_for_terminal :: "nat \<Rightarrow> (db \<Rightarrow> db) \<Rightarrow> time \<Rightarrow> uuid \<Rightarrow> db \<Rightarrow> (exc + task) \<times> db" where
  "wait_for_terminal 0 fleet clock i d =
     (Inl (adapter_error PyTimeoutError ''task did not reach a terminal state'' AttrNone), d)"
| "wait_for_terminal (Suc n) fleet clock i d =
     (case get_task_out clock i d of
        Inl e \<Rightarrow> (Inl (adapter_error PyKeyError ''state'' AttrNone), d)
      | Inr out \<Rightarrow>
          if t_state (out_task out) \<in> {SUCCEEDED, FAILED, CANCELLED} then (Inr (out_task out), d)
          else wait_for_terminal n fleet clock i (fleet d))"

section \<open>The governance demo\<close>

definition demo_version_request :: version_create where
  "demo_version_request = \<lparr>vc_runtime_spec = [(''task_type'', JStr ''demo.tools'')], vc_required_capabilities = [],
     vc_config = [], vc_max_attempts = 3, vc_max_execution_time_s = 300\<rparr>"

text \<open>Register an agent with one tool granted, release its version and route a request type to it.\<close>

definition register_agent :: "uuid \<Rightarrow> uuid \<Rightarrow> uuid \<Rightarrow> string \<Rightarrow> uuid \<Rightarrow> string \<Rightarrow> db \<Rightarrow> (exc + unit) \<times> db" where
  "register_agent ai vi tenant name tool_id request_type d =
     and_then (body_of (create_agent_request ai tenant name None d) d) (\<lambda>agent d1.
     and_then (body_of (create_version_request vi (ag_id agent) (version_request_of demo_version_request) d1) d1) (\<lambda>v d2.
       let d3 = issue (grant (av_id v) tool_id d2) d2;
           d4 = issue (activate (ag_id agent) (av_id v) None False d3) d3;
           d5 = issue (set_route_request tenant request_type (ag_id agent) d4) d4
       in (Inr (), d5)))"

definition demo_task_create :: "uuid \<Rightarrow> string \<Rightarrow> string \<Rightarrow> task_create" where
  "demo_task_create tenant request_type tool =
     \<lparr>b_tenant_id = tenant, b_task_type = None, b_request_type = Some request_type,
      b_payload = [(''tools'', JArr [JStr tool])], b_idempotency_key = None, b_priority = 100,
      b_max_attempts = 3, b_max_execution_time_s = 300, b_available_at = None\<rparr>"

text \<open>Submit one task and poll it; printing its version's id needs it to be pinned to one.\<close>

definition submit_and_wait ::
  "submit_env \<Rightarrow> nat \<Rightarrow> (db \<Rightarrow> db) \<Rightarrow> time \<Rightarrow> uuid \<Rightarrow> string \<Rightarrow> string \<Rightarrow> db \<Rightarrow> (exc + (task \<times> task)) \<times> db" where
  "submit_and_wait env polls fleet clock tenant request_type tool d =
     (case submit env clock (demo_task_create tenant request_type tool) d of
        (Inl e, d1) \<Rightarrow> (Inl (adapter_error PyKeyError ''id'' AttrNone), d1)
      | (Inr (code, out), d1) \<Rightarrow>
          and_then (wait_for_terminal polls fleet clock (t_id (out_task out)) d1) (\<lambda>t d2.
            (Inr (out_task out, t), d2)))"

record demo_env =
  de_id :: "nat \<Rightarrow> uuid"
  de_suffix :: string
  de_polls :: nat
  de_fleet :: "db \<Rightarrow> db"
  de_clock :: time

definition demo_submit_env :: "demo_env \<Rightarrow> nat \<Rightarrow> submit_env" where
  "demo_submit_env E k = \<lparr>generated_id = de_id E k, cached_global_queued = 0, shed_threshold = 0, trace_carrier = None,
     bound_text = (\<lambda>_. None), before_resolve = id, before_insert = id\<rparr>"

definition governance_demo :: "demo_env \<Rightarrow> db \<Rightarrow> (exc + nat) \<times> db" where
  "governance_demo E d =
     and_then (body_of (create_tenant_request (de_id E 0) \<lparr>tc_name = ''gov-demo-'' @ de_suffix E,
        tc_max_concurrent_tasks = 10, tc_max_queued_tasks = 1000\<rparr> d) d) (\<lambda>tenant d1.
     and_then (body_of (create_tool_request (de_id E 1) (tn_id tenant) ''web-search'' SIMULATED [] None d1) d1) (\<lambda>web d2.
     and_then (body_of (create_tool_request (de_id E 2) (tn_id tenant) ''billing-db'' SIMULATED [] None d2) d2) (\<lambda>billing d3.
     and_then (body_of (create_tool_request (de_id E 3) (tn_id tenant) ''customer-db'' SIMULATED [] None d3) d3) (\<lambda>customer d4.
     and_then (register_agent (de_id E 4) (de_id E 5) (tn_id tenant) ''research-agent'' (tl_id web) ''RESEARCH_REPORT'' d4) (\<lambda>_ d5.
     and_then (register_agent (de_id E 6) (de_id E 7) (tn_id tenant) ''support-agent'' (tl_id customer) ''SUPPORT_TICKET'' d5) (\<lambda>_ d6.
     and_then (submit_and_wait (demo_submit_env E 8) (de_polls E) (de_fleet E) (de_clock E) (tn_id tenant)
                 ''RESEARCH_REPORT'' ''web-search'' d6) (\<lambda>(a0, a) d7.
     and_then (assert_that (t_agent_version_id a0 \<noteq> None) ''None is not subscriptable'' d7) (\<lambda>_ d7.
     and_then (assert_that (t_state a = SUCCEEDED) ''expected the authorized tool call to succeed'' d7) (\<lambda>_ d7.
     and_then (submit_and_wait (demo_submit_env E 9) (de_polls E) (de_fleet E) (de_clock E) (tn_id tenant)
                 ''SUPPORT_TICKET'' ''billing-db'' d7) (\<lambda>(b0, b) d8.
     and_then (assert_that (t_state b = FAILED) ''expected the unauthorized tool call to be refused'' d8) (\<lambda>_ d8.
     and_then (assert_that (t_error_class b = Some ''PERMISSION_DENIED'') ''error_class'' d8) (\<lambda>_ d8.
     and_then (assert_that (case get_events (t_id b0) d8 of Inl e \<Rightarrow> False
                 | Inr es \<Rightarrow> list_ex (\<lambda>e. te_event_type e = TOOL_ACCESS_DENIED) es)
                 ''expected a TOOL_ACCESS_DENIED event on the task timeline'' d8) (\<lambda>_ d8.
     and_then (assert_that (list_ex (\<lambda>e. au_action e = ''TOOL_ACCESS_DENIED'')
                 (list_audit_request (tn_id tenant) None None 100 d8))
                 ''expected the denial to survive in the audit log'' d8) (\<lambda>_ d8.
     (Inr 0, d8)))))))))))))))"

text \<open>A fleet of one worker: it claims what is free and runs each attempt to its end.\<close>

definition worker_turn :: "worker_proc \<Rightarrow> db \<Rightarrow> db" where
  "worker_turn wp d =
     (case claim_and_dispatch (wp_capacity wp) [] wp d of
        (Inl e, d1) \<Rightarrow> d1
      | (Inr wp1, d1) \<Rightarrow> fold (\<lambda>job d. snd (run_attempt job (\<lambda>_. False) (\<lambda>_. 1 / 2) [] wp d)) (inflight wp1) d1)"

definition governance_env :: demo_env where
  "governance_env = \<lparr>de_id = (\<lambda>k. k + 10), de_suffix = ''0'', de_polls = 3, de_fleet = worker_turn demo_proc, de_clock = 10\<rparr>"

definition fleet_db :: db where
  "fleet_db = outcome_db (register_worker ''w1'' ''h'' 1 2 [] (empty_db 10))"

text \<open>
  The governance demo passes. Run against the handlers, the claim, the worker, the tool gateway and
  the completions of this model, from an empty database with one registered worker, the script
  exits with 0: the agent with the granted tool succeeds, the one without fails with
  \<open>PERMISSION_DENIED\<close>, and the refusal is on the timeline of the task and in the audit log.
\<close>

theorem governance_demo_passes:
  "case governance_demo governance_env fleet_db of (Inl e, d) \<Rightarrow> False
     | (Inr n, d) \<Rightarrow> n = 0 \<and> map (\<lambda>t. (t_id t, t_state t, t_attempt t)) (tasks d) = [(18, SUCCEEDED, 1), (19, FAILED, 1)]"
  by code_simp

section \<open>The chaos demo\<close>

definition SLOW_TASK_COUNT :: int where "SLOW_TASK_COUNT = 150"

definition FAST_TASK_COUNT :: int where "FAST_TASK_COUNT = 150"

definition INJECTED_FAILURE_RATE :: rat where "INJECTED_FAILURE_RATE = 1 / 20"

text \<open>The \<open>i\<close>-th task of the batch: which of the two tenants, its type and its payload.\<close>

definition chaos_task :: "int \<Rightarrow> int \<times> string \<times> dict" where
  "chaos_task i =
     (i mod 2,
      if i < SLOW_TASK_COUNT
      then (if i mod \<lfloor>1 / INJECTED_FAILURE_RATE\<rfloor> = 0 then (''demo.fail'', [(''i'', JNum (of_int i))])
            else (''demo.slow'', [(''duration_s'', JArr [JNum 2, JNum 5]), (''i'', JNum (of_int i))]))
      else (''demo.agent'', [(''i'', JNum (of_int i))]))"

definition chaos_batch :: "(int \<times> string \<times> dict) list" where
  "chaos_batch = map chaos_task [0..SLOW_TASK_COUNT + FAST_TASK_COUNT - 1]"

text \<open>\<open>outcomes[state] = outcomes.get(state, 0) + 1\<close> over the states read back.\<close>

fun count_outcome :: "string \<Rightarrow> (string \<times> nat) list \<Rightarrow> (string \<times> nat) list" where
  "count_outcome s [] = [(s, 1)]"
| "count_outcome s ((k, n) # kns) = (if k = s then (k, n + 1) # kns else (k, n) # count_outcome s kns)"

definition outcomes_of :: "string list \<Rightarrow> (string \<times> nat) list" where
  "outcomes_of states = fold count_outcome states []"

datatype chaos_verdict = PASS | INCOMPLETE_no_expirations | INCOMPLETE_not_terminal

definition verdict_of :: "string list \<Rightarrow> rat \<Rightarrow> rat \<Rightarrow> chaos_verdict" where
  "verdict_of states lease_expirations recoveries_requeued =
     (let all_terminal = (sum_list (map snd (outcomes_of states)) = length states);
          recovery_happened = (lease_expirations > 0 \<and> recoveries_requeued > 0)
      in if all_terminal \<and> recovery_happened then PASS
         else if all_terminal then INCOMPLETE_no_expirations
         else INCOMPLETE_not_terminal)"

text \<open>
  The two waits of the script, over the gauges that each poll of \<open>/metrics\<close> reads until the deadline:
  for ten running tasks, whose last reading is used afterwards, and for nothing left to do, whose
  outcome is not used.
\<close>

definition running_sum :: "gauges \<Rightarrow> nat" where
  "running_sum g = sum_list (map snd (tasks_running g))"

fun wait_in_flight :: "nat \<Rightarrow> gauges list \<Rightarrow> nat" where
  "wait_in_flight running [] = running"
| "wait_in_flight running (g # gs) = (if running_sum g \<ge> 10 then running_sum g else wait_in_flight (running_sum g) gs)"

definition still_going :: "gauges \<Rightarrow> nat" where
  "still_going g = running_sum g + sum_list (map snd (queue_depth g)) + tasks_backlogged g"

fun wait_for_drain :: "gauges list \<Rightarrow> bool" where
  "wait_for_drain [] = False"
| "wait_for_drain (g # gs) = (if still_going g = 0 then True else wait_for_drain gs)"

text \<open>The exit status: too small a fleet, too little in flight, or the verdict.\<close>

definition chaos_exit :: "nat \<Rightarrow> gauges list \<Rightarrow> gauges list \<Rightarrow> string list \<Rightarrow> rat \<Rightarrow> rat \<Rightarrow> nat" where
  "chaos_exit fleet flight polled states expirations reclaimed =
     (if fleet < 2 then 1 else if wait_in_flight 0 flight < 10 then 1
      else let drained = wait_for_drain polled in
        case verdict_of states expirations reclaimed of PASS \<Rightarrow> 0 | _ \<Rightarrow> 1)"

text \<open>
  The wait itself asks the right question: the gauges of a refresh add up to nothing exactly when
  every task is over, deferred and expired ones included.
\<close>

lemma drain_test_exact:
  assumes "db_inv d"
  shows "still_going (refresh_once d g) = 0 \<longleftrightarrow> list_all (\<lambda>t. is_terminal (t_state t)) (tasks d)"
proof -
  let ?n = "\<lambda>P. length (filter P (tasks d))"
  have q: "sum_list (map snd (queue_depth (refresh_once d g))) = global_queued (refresh_once d g)"
    by (simp add: refresh_once_eq Let_def comp_def)
  have "still_going (refresh_once d g) = ?n (\<lambda>t. t_state t = RUNNING)
      + ?n (\<lambda>t. t_state t = QUEUED \<and> available_at t \<le> now d) + ?n (\<lambda>t. t_state t = QUEUED \<and> available_at t > now d)"
    using gauges_add_up [OF assms, of g] q by (simp add: still_going_def running_sum_def refresh_once_eq Let_def)
  also have "\<dots> = 0 \<longleftrightarrow> list_all (\<lambda>t. is_terminal (t_state t)) (tasks d)"
  proof -
    have "is_terminal s \<longleftrightarrow> s \<noteq> RUNNING \<and> s \<noteq> QUEUED" for s by (cases s) (auto simp: is_terminal_def TERMINAL_def)
    then show ?thesis by (auto simp: list_all_iff filter_empty_conv not_le)
  qed
  finally show ?thesis .
qed

lemma drained: "wait_for_drain gs \<longleftrightarrow> (\<exists>g \<in> set gs. still_going g = 0)"
  by (induction gs) auto

lemma count_outcome_total: "sum_list (map snd (count_outcome s kns)) = sum_list (map snd kns) + 1"
  by (induction s kns rule: count_outcome.induct) auto

lemma outcomes_total: "sum_list (map snd (fold count_outcome states kns)) = sum_list (map snd kns) + length states"
  by (induction states arbitrary: kns) (simp_all add: count_outcome_total)

text \<open>
  The chaos demo's check that nothing was lost checks nothing. Its \<open>all_terminal\<close> compares the
  number of tasks with the total of the counts per state, which is that number whatever the states
  are: the verdict does not depend on them, the branch for tasks that never finished is dead, and a
  batch still queued or running when the wait times out is reported as a pass: the exit status depends
  neither on the states read back nor on the wait for the drain. The batch itself is what the script
  says: 8 failing, 142 slow and 150 instant tasks, 150 for each tenant.
\<close>

theorem chaos_verdict_ignores_the_states:
  "verdict_of states e r = (if 0 < e \<and> 0 < r then PASS else INCOMPLETE_no_expirations)
   \<and> chaos_exit fleet flight polled states e r = (if 2 \<le> fleet \<and> 10 \<le> wait_in_flight 0 flight \<and> 0 < e \<and> 0 < r then 0 else 1)
   \<and> map (\<lambda>ty. length (filter (\<lambda>(tn, t, pl). t = ty) chaos_batch)) [''demo.fail'', ''demo.slow'', ''demo.agent''] = [8, 142, 150]
   \<and> map (\<lambda>k. length (filter (\<lambda>(tn, t, pl). tn = k) chaos_batch)) [0, 1] = [150, 150]"
proof -
  have v: "verdict_of states e r = (if 0 < e \<and> 0 < r then PASS else INCOMPLETE_no_expirations)" for states e r
    by (simp add: verdict_of_def outcomes_of_def outcomes_total)
  have "\<lfloor>1 / INJECTED_FAILURE_RATE\<rfloor> = 20" by (simp add: INJECTED_FAILURE_RATE_def)
  then have t: "chaos_task i = (i mod 2, if i < 150
      then (if i mod 20 = 0 then (''demo.fail'', [(''i'', JNum (of_int i))])
            else (''demo.slow'', [(''duration_s'', JArr [JNum 2, JNum 5]), (''i'', JNum (of_int i))]))
      else (''demo.agent'', [(''i'', JNum (of_int i))]))" for i
    by (simp add: chaos_task_def SLOW_TASK_COUNT_def)
  have b: "map (\<lambda>(tn, ty, pl). (tn, ty)) chaos_batch = map (\<lambda>i. (i mod 2, if i < 150 then
      if i mod 20 = 0 then ''demo.fail'' else ''demo.slow'' else ''demo.agent'')) [0..299]"
    by (simp add: chaos_batch_def t SLOW_TASK_COUNT_def FAST_TASK_COUNT_def)
  have len: "length (filter (\<lambda>(tn, ty, pl). P tn ty) chaos_batch) =
      length (filter (\<lambda>(tn, ty). P tn ty) (map (\<lambda>(tn, ty, pl). (tn, ty)) chaos_batch))" for P
    by (simp add: filter_map comp_def case_prod_unfold)
  have "map (\<lambda>ty. length (filter (\<lambda>(tn, t). t = ty) (map (\<lambda>i. (i mod 2, if i < 150 then
      if i mod 20 = 0 then ''demo.fail'' else ''demo.slow'' else ''demo.agent'')) [0..299 :: int])))
      [''demo.fail'', ''demo.slow'', ''demo.agent''] = [8, 142, 150]"
    "map (\<lambda>k. length (filter (\<lambda>(tn, t). tn = k) (map (\<lambda>i. (i mod 2, if i < 150 then
      if i mod 20 = 0 then ''demo.fail'' else ''demo.slow'' else ''demo.agent'')) [0..299 :: int])))
      [0, 1] = [150, 150]"
    by code_simp+
  then show ?thesis
    unfolding b [symmetric] using v
    by (simp add: chaos_exit_def len [of "\<lambda>tn ty. ty = _"] len [of "\<lambda>tn ty. tn = _"])
qed

section \<open>The benchmarks\<close>

text \<open>
  \<open>_wait_for_reclaim\<close>: the number of polls until the task is seen away from its original worker, or
  over; \<open>measure_one\<close>: the container of that worker, found by the host name its id begins with.
\<close>

fun wait_for_reclaim :: "nat \<Rightarrow> (db \<Rightarrow> db) \<Rightarrow> uuid \<Rightarrow> string \<Rightarrow> db \<Rightarrow> (exc + nat) \<times> db" where
  "wait_for_reclaim 0 fleet i original d =
     (Inl (adapter_error PyTimeoutError ''task was never reclaimed'' AttrNone), d)"
| "wait_for_reclaim (Suc n) fleet i original d =
     (case get_task d i of
        None \<Rightarrow> (Inl (adapter_error PyKeyError ''state'' AttrNone), d)
      | Some t \<Rightarrow>
          if t_state t = QUEUED \<or> (t_state t = RUNNING \<and> lease_worker_id t \<noteq> Some original) then (Inr 0, d)
          else if t_state t \<in> {SUCCEEDED, FAILED, CANCELLED} then (Inr 0, d)
          else and_then (wait_for_reclaim n fleet i original (fleet d)) (\<lambda>k d'. (Inr (Suc k), d')))"

definition container_of :: "string list \<Rightarrow> string \<Rightarrow> string" where
  "container_of containers lease_worker =
     (case find (\<lambda>c. take (length (take 12 c)) lease_worker = take 12 c) containers of
        Some c \<Rightarrow> c | None \<Rightarrow> hd containers)"

text \<open>
  The worker's id begins with its host name, which for a container is the short form of its own id:
  as long as the short forms differ, the container chosen is that of the worker.
\<close>

lemma container_of_owner:
  assumes "c \<in> set containers" "inj_on (take 12) (set containers)" "\<forall>c \<in> set containers. 12 \<le> length c"
  shows "container_of containers (new_worker_id (take 12 c) p h) = c"
proof -
  have len: "length (take 12 x) = 12" if "x \<in> set containers" for x using assms(3) that by auto
  have hit: "take (length (take 12 x)) (new_worker_id (take 12 c) p h) = take 12 x \<longleftrightarrow> x = c" if "x \<in> set containers" for x
  proof -
    have "take 12 (new_worker_id (take 12 c) p h) = take 12 c" using len [OF assms(1)] by (simp add: new_worker_id_def)
    then show ?thesis using len [OF that] inj_onD [OF assms(2) _ assms(1) that] by auto
  qed
  have "find (\<lambda>x. take (length (take 12 x)) (new_worker_id (take 12 c) p h) = take 12 x) xs = Some c"
    if "set xs \<subseteq> set containers" "c \<in> set xs" for xs
    using that by (induction xs) (use hit in auto)
  then show ?thesis using assms(1) by (simp add: container_of_def)
qed

text \<open>The metrics the scripts query: the exported name, and the label values they select.\<close>

definition bench_queries :: "(string \<times> (string \<times> string) list) list" where
  "bench_queries = [(''acp_tasks_running'', []), (''acp_queue_depth'', []), (''acp_tasks_backlogged'', []),
     (''acp_queue_wait_seconds_bucket'', []), (''acp_execution_duration_seconds_bucket'', []),
     (''acp_claim_duration_seconds_bucket'', [])]"

definition chaos_queries :: "(string \<times> (string \<times> string) list) list" where
  "chaos_queries = [(''acp_tasks_running'', []), (''acp_queue_depth'', []), (''acp_tasks_backlogged'', []),
     (''acp_lease_expirations_total'', []), (''acp_task_recoveries_total'', [(''disposition'', ''requeued'')]),
     (''acp_stale_writes_rejected_total'', [])]"

text \<open>What the registry exports: a histogram as its buckets, anything else under its name.\<close>

definition exported :: "string \<times> (string \<times> string) list \<Rightarrow> bool" where
  "exported q = list_ex (\<lambda>(v, f).
       fst q = fm_name f @ (case fm_kind f of Histogram bs \<Rightarrow> ''_bucket'' | _ \<Rightarrow> [])
       \<and> list_all (\<lambda>(l, x). l \<in> set (fm_labels f) \<and> closed l x) (snd q)) families"

text \<open>
  What the recovery benchmark measures. When its wait ends, at whatever poll, the original worker
  holds the task under no token; and while it waits the worker holds it. So what it measures is the
  time the task is held, and that ends by a completion as well as by a recovery. Every metric the
  benchmarks and the demo ask for is exported under that name, with those labels and values.
\<close>

theorem reclaim_wait_is_ownership:
  "(case wait_for_reclaim n fleet i w d of
      (Inl e, d') \<Rightarrow> True
    | (Inr k, d') \<Rightarrow> k < n \<and> d' = (fleet ^^ k) d \<and> list_all (\<lambda>m. \<exists>a. owns ((fleet ^^ m) d) i a w) [0..<k]
        \<and> (\<forall>a. \<not> owns d' i a w))
   \<and> list_all exported (bench_queries @ chaos_queries)"
proof
  show "case wait_for_reclaim n fleet i w d of
      (Inl e, d') \<Rightarrow> True
    | (Inr k, d') \<Rightarrow> k < n \<and> d' = (fleet ^^ k) d \<and> list_all (\<lambda>m. \<exists>a. owns ((fleet ^^ m) d) i a w) [0..<k]
        \<and> (\<forall>a. \<not> owns d' i a w)"
  proof (induction n arbitrary: d)
    case (Suc n)
    show ?case
    proof (cases "get_task d i")
      case None
      then show ?thesis by simp
    next
      case (Some t)
      then have f: "find_task d i = Some t" by (simp add: get_task_def find_task_def)
      show ?thesis
      proof (cases "t_state t = RUNNING \<and> lease_worker_id t = Some w")
        case True
        then have own: "owns d i (t_attempt t) w" using f by (simp add: owns_iff)
        show ?thesis
        proof (cases "wait_for_reclaim n fleet i w (fleet d)")
          case (Pair res d')
          have up: "list_all P [0..<Suc k] \<longleftrightarrow> P 0 \<and> list_all (\<lambda>m. P (Suc m)) [0..<k]" for P k
            by (auto simp: list_all_iff less_Suc_eq_0_disj simp del: upt_Suc)
          show ?thesis
            using Suc.IH [of "fleet d"] Some True Pair own
            by (cases res) (auto simp: up funpow_swap1 simp del: upt_Suc)
        qed
      next
        case False
        then have "\<not> owns d i a w" for a using f by (auto simp: owns_iff)
        moreover have "t_state t = QUEUED \<or> (t_state t = RUNNING \<and> lease_worker_id t \<noteq> Some w)
            \<or> t_state t \<in> {SUCCEEDED, FAILED, CANCELLED}"
          using False by (cases "t_state t") auto
        ultimately show ?thesis using Some by auto
      qed
    qed
  qed simp
  show "list_all exported (bench_queries @ chaos_queries)" by code_simp
qed

end
