(* ===== verification/Bench.thy ===== *)
theory Bench
  imports Demos PlatformViews
begin

text \<open>
  The benchmarks under \<open>load\<close> and the batch of \<open>scripts/demo_chaos.py\<close>, as programs that drive the API:
  what they read from Docker and Prometheus, the tasks they post, what they wait for and the numbers
  they report. The answers of Docker and Prometheus and the readings of the stopwatch are arguments;
  floats are rationals.
\<close>

section \<open>What the scripts read\<close>

definition status_error :: exc where
  "status_error = adapter_error (Subclass ''HTTPStatusError'' PyException None) '''' AttrNone"

text \<open>\<open>_prom_scalar\<close> and \<open>_prom_sum\<close>, on the values of the answer's vector.\<close>

definition prom_scalar :: "rat \<Rightarrow> rat list \<Rightarrow> rat" where
  "prom_scalar default_value result = (case result of [] \<Rightarrow> default_value | v # _ \<Rightarrow> v)"

definition prom_sum :: "rat list \<Rightarrow> rat" where
  "prom_sum result = sum_list result"

text \<open>\<open>_workers\<close>: the container ids among the lines of \<open>docker compose ps -q\<close>.\<close>

definition worker_containers :: "string list \<Rightarrow> string list" where
  "worker_containers lns = filter (\<lambda>line. py_strip line \<noteq> []) lns"

text \<open>\<open>_wait_for_api\<close>: the status of each poll of \<open>/healthz\<close> until the deadline, None for an HTTP error.\<close>

fun wait_for_api :: "nat option list \<Rightarrow> exc + unit" where
  "wait_for_api [] = Inl (adapter_error (Subclass ''RuntimeError'' PyException None) ''API never became healthy'' AttrNone)"
| "wait_for_api (answer # answers) = (if answer = Some 200 then Inr () else wait_for_api answers)"

text \<open>\<open>line.rsplit('' '', 1)[1]\<close>, an \<open>IndexError\<close> without a space; \<open>_metric_sum\<close> over the lines of a \<open>/metrics\<close> text.\<close>

definition last_field :: "string \<Rightarrow> exc + string" where
  "last_field line = (if CHR '' '' \<in> set line then Inr (rev (takeWhile (\<lambda>c. c \<noteq> CHR '' '') (rev line)))
     else Inl (adapter_error PyLookupError ''list index out of range'' AttrNone))"

fun metric_sum :: "(string \<Rightarrow> exc + rat) \<Rightarrow> string list \<Rightarrow> string \<Rightarrow> exc + rat" where
  "metric_sum to_float [] pre = Inr 0"
| "metric_sum to_float (line # lns) pre =
     (if take (length pre) line = pre
      then bindE (last_field line) (\<lambda>s. bindE (to_float s) (\<lambda>v.
        bindE (metric_sum to_float lns pre) (\<lambda>n. Inr (v + n))))
      else metric_sum to_float lns pre)"

section \<open>Posting tasks\<close>

text \<open>
  The \<open>k\<close>-th request of the client, in the order in which the requests commit: its server-side
  circumstances; what the rest of the platform commits since the request before it committed; and
  how many states of the database ago it read.
\<close>

record client =
  cl_env :: "nat \<Rightarrow> submit_env"
  cl_fleet :: "nat \<Rightarrow> db \<Rightarrow> db"
  cl_overlap :: "nat \<Rightarrow> nat"
  cl_clock :: time

text \<open>
  One request. It looks up its tenant, is admitted and resolves its route on the state \<open>seen\<close>, and
  inserts on the state \<open>d\<close>, which others have reached in the meantime; a refusal changes nothing.
\<close>

definition post_task :: "client \<Rightarrow> nat \<Rightarrow> task_create \<Rightarrow> db \<Rightarrow> db \<Rightarrow> (exc + uuid) \<times> db" where
  "post_task C k b seen d =
     (case submit ((cl_env C k)\<lparr>before_insert := \<lambda>_. d\<rparr>) (cl_clock C) b seen of
        (Inl e, _) \<Rightarrow> (Inl status_error, d)
      | (Inr (code, out), d1) \<Rightarrow> (Inr (t_id (out_task out)), d1))"

text \<open>A client that posts one task and waits for the answer.\<close>

definition post_one :: "client \<Rightarrow> nat \<Rightarrow> task_create \<Rightarrow> db \<Rightarrow> (exc + uuid) \<times> db" where
  "post_one C k b d = (let d0 = cl_fleet C k d in post_task C k b d0 d0)"

text \<open>The chaos demo posts one after the other and stops at the first refusal.\<close>

fun post_all :: "client \<Rightarrow> nat \<Rightarrow> task_create list \<Rightarrow> db \<Rightarrow> (exc + uuid list) \<times> db" where
  "post_all C k [] d = (Inr [], d)"
| "post_all C k (b # bs) d = and_then (post_one C k b d) (\<lambda>i d1.
     and_then (post_all C (Suc k) bs d1) (\<lambda>is d2. (Inr (i # is), d2)))"

text \<open>
  The thread pool of the benchmark makes all of them, many at a time: they are listed in the order in
  which they commit, and each may have been checked on any earlier state of the database since the
  pool began, before any number of the others were inserted. \<open>hist\<close> holds those states, the latest
  first. Collecting the futures raises what the first failed one raised.
\<close>

fun pool_submit :: "client \<Rightarrow> nat \<Rightarrow> task_create list \<Rightarrow> db list \<Rightarrow> db \<Rightarrow> (exc + uuid) list \<times> db" where
  "pool_submit C k [] hist d = ([], d)"
| "pool_submit C k (b # bs) hist d =
     (let d0 = cl_fleet C k d;
          states = d0 # hist;
          seen = states ! min (cl_overlap C k) (length hist);
          (r, d1) = post_task C k b seen d0;
          (rs, d2) = pool_submit C (Suc k) bs (d1 # states) d1
      in (r # rs, d2))"

fun collect_results :: "(exc + 'a) list \<Rightarrow> exc + 'a list" where
  "collect_results [] = Inr []"
| "collect_results (r # rs) = bindE r (\<lambda>x. bindE (collect_results rs) (\<lambda>xs. Inr (x # xs)))"

definition posted :: "uuid \<Rightarrow> string \<Rightarrow> dict \<Rightarrow> task_create" where
  "posted tenant_id ty pl = \<lparr>b_tenant_id = tenant_id, b_task_type = Some ty, b_request_type = None,
     b_payload = pl, b_idempotency_key = None, b_priority = 100, b_max_attempts = 3,
     b_max_execution_time_s = 300, b_available_at = None\<rparr>"

text \<open>A tenant of the scripts; the schema's default bound on its queue is 1000.\<close>

definition post_tenant :: "uuid \<Rightarrow> string \<Rightarrow> int \<Rightarrow> int \<Rightarrow> db \<Rightarrow> (exc + tenant) \<times> db" where
  "post_tenant i nm max_running max_queued d =
     (let b = \<lparr>tc_name = nm, tc_max_concurrent_tasks = max_running, tc_max_queued_tasks = max_queued\<rparr> in
      if \<not> tenant_create_valid b then (Inl status_error, d)
      else case create_tenant_request i b d of Inl e \<Rightarrow> (Inl status_error, d) | Inr (tn, d1) \<Rightarrow> (Inr tn, d1))"

section \<open>The throughput benchmark\<close>

definition round_half_even :: "rat \<Rightarrow> int" where
  "round_half_even x = (let f = \<lfloor>x\<rfloor>; r = x - of_int f in
     if r < 1 / 2 then f else if r > 1 / 2 then f + 1 else if even f then f else f + 1)"

definition py_round :: "rat \<Rightarrow> nat \<Rightarrow> rat" where
  "py_round x n = of_int (round_half_even (x * 10 ^ n)) / 10 ^ n"

record bench_result =
  br_task_count :: nat
  br_worker_count :: nat
  submit_duration_s :: rat
  submit_rate_tasks_per_s :: rat
  drain_duration_s :: rat
  end_to_end_rate_tasks_per_s :: rat
  queue_wait_quantiles :: "rat list"
  execution_quantiles :: "rat list"
  claim_quantiles :: "rat list"
  machine :: string
  python_version :: string

definition quantile_query :: "string \<Rightarrow> string \<Rightarrow> string" where
  "quantile_query metric quantile =
     ''histogram_quantile('' @ quantile @ '', sum(rate('' @ metric @ ''_bucket[2m])) by (le))''"

text \<open>The polls of the three gauges until the deadline; whether one of them found nothing left.\<close>

fun drain_polls :: "(rat list \<times> rat list \<times> rat list) list \<Rightarrow> bool" where
  "drain_polls [] = False"
| "drain_polls ((running, queued, deferred) # polls) =
     (if prom_scalar 0 running = 0 \<and> prom_scalar 0 queued = 0 \<and> prom_scalar 0 deferred = 0 then True
      else drain_polls polls)"

record bench_env =
  be_health :: "nat option list"
  be_docker :: "string list"
  be_suffix :: string
  be_tenant :: uuid
  be_client :: client
  be_submit_s :: rat
  be_polls :: "(rat list \<times> rat list \<times> rat list) list"
  be_settle :: "db \<Rightarrow> db"
  be_drain_s :: rat
  be_prometheus :: "string \<Rightarrow> rat list"
  be_machine :: string
  be_python :: string

definition bench_tasks :: "uuid \<Rightarrow> nat \<Rightarrow> task_create list" where
  "bench_tasks tenant_id n = map (\<lambda>i. posted tenant_id ''demo.agent'' [(''i'', JNum (of_nat i))]) [0..<n]"

text \<open>The result, which is computed the same way whether the wait found nothing left or ran out.\<close>

definition bench_numbers :: "bench_env \<Rightarrow> nat \<Rightarrow> exc + bench_result" where
  "bench_numbers E n =
     (if be_submit_s E = 0 \<or> be_drain_s E = 0 then Inl (adapter_error (Subclass ''ZeroDivisionError'' PyException None) '''' AttrNone)
      else let drained = drain_polls (be_polls E);
               q = (\<lambda>metric places quantile. py_round (prom_scalar 0 (be_prometheus E (quantile_query metric quantile))) places) in
        Inr \<lparr>br_task_count = n, br_worker_count = length (worker_containers (be_docker E)),
          submit_duration_s = py_round (be_submit_s E) 3,
          submit_rate_tasks_per_s = py_round (of_nat n / be_submit_s E) 1,
          drain_duration_s = py_round (be_drain_s E) 3,
          end_to_end_rate_tasks_per_s = py_round (of_nat n / be_drain_s E) 1,
          queue_wait_quantiles = map (q ''acp_queue_wait_seconds'' 4) [''0.50'', ''0.95'', ''0.99''],
          execution_quantiles = map (q ''acp_execution_duration_seconds'' 4) [''0.50'', ''0.95'', ''0.99''],
          claim_quantiles = map (q ''acp_claim_duration_seconds'' 5) [''0.50'', ''0.99''],
          machine = be_machine E, python_version = be_python E\<rparr>)"

definition throughput_run :: "bench_env \<Rightarrow> nat \<Rightarrow> db \<Rightarrow> (exc + bench_result) \<times> db" where
  "throughput_run E n d =
     (case wait_for_api (be_health E) of
        Inl e \<Rightarrow> (Inl e, d)
      | Inr _ \<Rightarrow>
          if length (worker_containers (be_docker E)) = 0
          then (Inl (adapter_error (Subclass ''RuntimeError'' PyException None) ''no worker containers found'' AttrNone), d)
          else and_then (post_tenant (be_tenant E) (''bench-'' @ be_suffix E) 10000 (max (int n * 2) 1000) d) (\<lambda>tn d1.
            let (rs, d2) = pool_submit (be_client E) 0 (bench_tasks (tn_id tn) n) [d1] d1 in
            case collect_results rs of
              Inl e \<Rightarrow> (Inl e, d2)
            | Inr task_ids \<Rightarrow> (bench_numbers E n, be_settle E d2)))"

section \<open>The recovery benchmark\<close>

text \<open>The poll for the task to run, and the worker that holds it.\<close>

fun wait_running :: "nat \<Rightarrow> (db \<Rightarrow> db) \<Rightarrow> uuid \<Rightarrow> db \<Rightarrow> (exc + string) \<times> db" where
  "wait_running 0 fleet i d = (Inl (adapter_error PyTimeoutError ''task never started running'' AttrNone), d)"
| "wait_running (Suc n) fleet i d =
     (case get_task d i of
        None \<Rightarrow> (Inl status_error, d)
      | Some t \<Rightarrow>
          if t_state t = RUNNING then
            (case lease_worker_id t of
               None \<Rightarrow> (Inl (adapter_error PyTimeoutError ''task never started running'' AttrNone), d)
             | Some w \<Rightarrow> (Inr w, d))
          else wait_running n fleet i (fleet d))"

text \<open>
  \<open>measure_one\<close>: the polls each wait gets, the fleet between two of them, what the signal to a
  container does to it, and the containers Docker lists. The measure is the number of polls.
\<close>

record recovery_env =
  re_client :: client
  re_docker :: "string list"
  re_polls :: "nat \<times> nat"
  re_fleet :: "db \<Rightarrow> db"
  re_signal :: "string \<Rightarrow> db \<Rightarrow> db"
  re_after :: "string \<Rightarrow> db \<Rightarrow> db"

definition measure_one :: "recovery_env \<Rightarrow> nat \<Rightarrow> uuid \<Rightarrow> rat \<Rightarrow> db \<Rightarrow> (exc + nat) \<times> db" where
  "measure_one E k tenant_id dur d =
     (let containers = worker_containers (re_docker E) in
      and_then (post_one (re_client E) k (posted tenant_id ''demo.slow'' [(''duration_s'', JArr [JNum dur, JNum dur])]) d) (\<lambda>i d1.
      and_then (wait_running (fst (re_polls E)) (re_fleet E) i d1) (\<lambda>lease_worker d2.
        if containers = [] then (Inl (adapter_error PyLookupError ''list index out of range'' AttrNone), d2)
        else let target = container_of containers lease_worker in
          wait_for_reclaim (snd (re_polls E)) (re_after E target) i lease_worker (re_signal E target d2))))"

text \<open>The summary: \<open>min\<close> of no results is a \<open>ValueError\<close>.\<close>

definition summarise :: "rat list \<Rightarrow> exc + (rat \<times> rat \<times> rat)" where
  "summarise xs = (if xs = [] then Inl (adapter_error PyValueError ''min() arg is an empty sequence'' AttrNone)
     else Inr (Min (set xs), Max (set xs), sum_list xs / of_nat (length xs)))"

definition speedup :: "rat \<Rightarrow> rat \<Rightarrow> rat" where
  "speedup kill_mean term_mean = kill_mean / max term_mean (1 / 100)"

text \<open>\<open>main\<close>: the same number of kills and of graceful stops, one after the other.\<close>

fun measure_all :: "(nat \<Rightarrow> recovery_env) \<Rightarrow> nat \<Rightarrow> nat \<Rightarrow> uuid \<Rightarrow> rat \<Rightarrow> db \<Rightarrow> (exc + nat list) \<times> db" where
  "measure_all E k 0 tenant_id dur d = (Inr [], d)"
| "measure_all E k (Suc n) tenant_id dur d =
     and_then (measure_one (E k) k tenant_id dur d) (\<lambda>r d1.
     and_then (measure_all E (Suc k) n tenant_id dur d1) (\<lambda>rs d2. (Inr (r # rs), d2)))"

definition recovery_main ::
  "(nat \<Rightarrow> recovery_env) \<Rightarrow> (nat \<Rightarrow> recovery_env) \<Rightarrow> (nat \<Rightarrow> rat) \<Rightarrow> uuid \<Rightarrow> string \<Rightarrow> nat \<Rightarrow> rat \<Rightarrow> db
   \<Rightarrow> (exc + (rat \<times> rat \<times> rat) \<times> (rat \<times> rat \<times> rat) \<times> rat) \<times> db" where
  "recovery_main killing terming elapsed tenant_id suf iterations dur d =
     and_then (post_tenant tenant_id (''bench-recovery-'' @ suf) 100 1000 d) (\<lambda>tn d1.
     and_then (measure_all killing 0 iterations (tn_id tn) dur d1) (\<lambda>kills d2.
     and_then (measure_all terming iterations iterations (tn_id tn) dur d2) (\<lambda>terms d3.
       (bindE (summarise (map elapsed kills)) (\<lambda>(k_min, k_max, k_mean).
        bindE (summarise (map elapsed terms)) (\<lambda>(t_min, t_max, t_mean).
        Inr ((k_min, k_max, k_mean), (t_min, t_max, t_mean), speedup k_mean t_mean))), d3))))"

section \<open>The chaos demo's batch\<close>

definition chaos_posts :: "uuid list \<Rightarrow> task_create list" where
  "chaos_posts tenant_ids = map (\<lambda>(k, ty, pl). posted (tenant_ids ! nat k) ty pl) chaos_batch"

definition chaos_target :: "string list \<Rightarrow> string" where
  "chaos_target containers = containers ! (length containers div 2)"

text \<open>The tenants and the batch.\<close>

definition chaos_submission :: "client \<Rightarrow> (nat \<Rightarrow> uuid) \<Rightarrow> (nat \<Rightarrow> string) \<Rightarrow> db \<Rightarrow> (exc + uuid list) \<times> db" where
  "chaos_submission C new_id suf d =
     and_then (post_tenant (new_id 0) (''chaos-demo-'' @ suf 0) 200 1000 d) (\<lambda>t0 d1.
     and_then (post_tenant (new_id 1) (''chaos-demo-'' @ suf 1) 200 1000 d1) (\<lambda>t1 d2.
     post_all C 0 (chaos_posts [tn_id t0, tn_id t1]) d2))"

section \<open>One task posted\<close>

text \<open>A submission without a route or a key, checked on the state \<open>x\<close> and inserted on \<open>d\<close>.\<close>

lemma direct_submit:
  assumes w: "world_ok d" and v: "task_create_valid jb b" and b: "b_task_type b = Some ty" "b_request_type b = None"
    "b_idempotency_key b = None" and ins: "before_insert env = (\<lambda>_. d)" and th: "shed_threshold env \<le> 0"
    and fresh: "find_task d (generated_id env) = None"
    and tn: "get_tenant x (b_tenant_id b) = Some tn" "int (queued_count_for_tenant x (b_tenant_id b)) < max_queued_tasks tn"
    and here: "get_tenant d (b_tenant_id b) \<noteq> None"
  shows "\<exists>t d'. submit env clock b x = (Inr (201, to_out clock t), d') \<and> others d d'
    \<and> t_id t = generated_id env \<and> t_tenant_id t = b_tenant_id b \<and> task_type t = ty
    \<and> tasks d' = tasks d @ [t] \<and> tenants d' = tenants d"
proof -
  let ?p = "\<lparr>pin_task_type = JStr ty, pin_max_attempts = b_max_attempts b,
    pin_max_execution_time_s = b_max_execution_time_s b, pin_version = None, pin_capabilities = []\<rparr>"
  have inv: "db_inv d" "control_inv d" using w by (simp_all add: world_ok_def sys_inv_def)
  have ten: "b_tenant_id b \<in> tn_id ` set (tenants d)"
    using find_by_SomeD [of tn_id _ "tenants d"] here by (force simp: get_tenant_def)
  have p: "resolve_submission b y = Inr ?p" for y using b by (simp add: resolve_submission_def)
  have pin: "pin_ok b d ?p" using v b by (simp add: pin_ok_def task_create_valid_def between_def)
  obtain s where s: "submission_of env b ?p = Inr s" "s_task_type s = ty" by (simp add: submission_of_def task_type_text_def)
  note so = submission_of_Inr [OF s(1) v pin ten]
  have h: "holder s d = None" using so(5) b(3) by (simp add: holder_None key_taken_def list_ex_iff)
  let ?t = "new_task (generated_id env) s (now d)" and ?d = "with_task (new_task (generated_id env) s (now d)) (created_data s) d"
  have n: "submit_task (generated_id env) s d = Inr (\<lparr>created = True, sub_task = ?t\<rparr>, ?d)"
    by (rule submit_new [OF so(1,2) fresh h])
  have "flight_ok d s" using so ten by (simp add: flight_ok_def owned_version_def)
  then have "others d ?d" using n by (rule o_insert)
  moreover have "submit env clock b x = (Inr (201, to_out clock ?t), ?d)"
    using tn th p s(1) n by (simp add: submit_def Let_def admission_decide_def ins insert_submission_def)
  ultimately show ?thesis using so(3) s(2)
    by (intro exI [of _ ?t] exI [of _ ?d]) (simp add: with_task_def new_task_def)
qed

section \<open>A batch posted\<close>

text \<open>What a batch needs to be admitted: the bounds of its tenants, and ids that are not taken.\<close>

definition direct :: "(dict \<Rightarrow> nat) \<Rightarrow> task_create \<Rightarrow> bool" where
  "direct jb b \<longleftrightarrow> task_create_valid jb b \<and> b_task_type b \<noteq> None \<and> b_request_type b = None \<and> b_idempotency_key b = None"

definition honest :: "client \<Rightarrow> (nat \<Rightarrow> uuid) \<Rightarrow> bool" where
  "honest C new_id \<longleftrightarrow> inj new_id \<and> (\<forall>k. shed_threshold (cl_env C k) \<le> 0
     \<and> generated_id (cl_env C k) = new_id k \<and> (\<forall>x. world_ok x \<longrightarrow> commit\<^sup>*\<^sup>* x (cl_fleet C k x)))"

definition tasks_of :: "db \<Rightarrow> uuid \<Rightarrow> nat" where
  "tasks_of d i = length (filter (\<lambda>(j, tn, ty). tn = i) (owners d))"

definition batch_of :: "task_create list \<Rightarrow> uuid \<Rightarrow> nat" where
  "batch_of bs i = length (filter (\<lambda>b. b_tenant_id b = i) bs)"

definition ready :: "(dict \<Rightarrow> nat) \<Rightarrow> (nat \<Rightarrow> uuid) \<Rightarrow> nat \<Rightarrow> task_create list \<Rightarrow> db \<Rightarrow> bool" where
  "ready jb new_id k bs d \<longleftrightarrow> world_ok d \<and> (\<forall>j \<ge> k. find_task d (new_id j) = None)
     \<and> (\<forall>b \<in> set bs. direct jb b \<and> (\<exists>tn. get_tenant d (b_tenant_id b) = Some tn
          \<and> int (tasks_of d (b_tenant_id b) + batch_of bs (b_tenant_id b)) \<le> max_queued_tasks tn))"

definition identity :: "task_create \<Rightarrow> uuid \<Rightarrow> uuid \<times> uuid \<times> string" where
  "identity b i = (i, b_tenant_id b, the (b_task_type b))"

lemma queued_bound: "queued_count_for_tenant d i \<le> tasks_of d i"
proof -
  have "filter (\<lambda>t. t_tenant_id t = i \<and> t_state t = QUEUED) (tasks d) =
      filter (\<lambda>t. t_state t = QUEUED) (filter (\<lambda>t. t_tenant_id t = i) (tasks d))"
    by (simp add: conj_commute)
  then show ?thesis
    by (simp add: queued_count_for_tenant_def tasks_of_def owners_def filter_map comp_def del: filter_filter)
qed

lemma find_owner: "find_task d i = None \<longleftrightarrow> i \<notin> fst ` set (owners d)"
  using find_task_iff [of d i] by (auto simp: owners_def image_image)

lemma commits_kept:
  assumes "commit\<^sup>*\<^sup>* d d'" "world_ok d"
  shows "world_ok d' \<and> owners d' = owners d \<and> (\<forall>i tn. get_tenant d i = Some tn \<longrightarrow> get_tenant d' i = Some tn)"
  using assms
proof (induction rule: rtranclp_induct)
  case base
  then show ?case by simp
next
  case (step y z)
  then have y: "world_ok y" "control_inv y" by (simp_all add: world_ok_def sys_inv_def)
  then show ?case
    using step others_ok(1) [OF o_commit [OF step(2)]] commit_owners [OF step(2)] commit_tenant [OF step(2)] by simp
qed

lemma ready_kept:
  assumes "ready jb new_id k bs d" "commit\<^sup>*\<^sup>* d d'"
  shows "ready jb new_id k bs d'" "owners d' = owners d"
proof -
  have "world_ok d" using assms(1) by (simp add: ready_def)
  note c = commits_kept [OF assms(2) this]
  then show "owners d' = owners d" by simp
  show "ready jb new_id k bs d'"
    unfolding ready_def
  proof (intro conjI allI impI ballI)
    show "world_ok d'" using c by simp
    show "find_task d' (new_id j) = None" if "k \<le> j" for j
      using assms(1) c that by (simp add: ready_def find_owner)
    fix b assume b: "b \<in> set bs"
    then show "direct jb b" using assms(1) by (simp add: ready_def)
    show "\<exists>tn. get_tenant d' (b_tenant_id b) = Some tn
        \<and> int (tasks_of d' (b_tenant_id b) + batch_of bs (b_tenant_id b)) \<le> max_queued_tasks tn"
      using assms(1) b c unfolding ready_def tasks_of_def by metis
  qed
qed

text \<open>
  An earlier state of a batch being posted: the tenants of the posts are as they are now, and have no
  more tasks than now.
\<close>

definition earlier :: "task_create list \<Rightarrow> db \<Rightarrow> db \<Rightarrow> bool" where
  "earlier bs d x \<longleftrightarrow> (\<forall>b \<in> set bs. get_tenant x (b_tenant_id b) = get_tenant d (b_tenant_id b)
     \<and> tasks_of x (b_tenant_id b) \<le> tasks_of d (b_tenant_id b))"

lemma earlier_self: "earlier bs d d"
  by (simp add: earlier_def)

lemma earlier_trans: "earlier bs d x \<Longrightarrow> earlier bs d' d \<Longrightarrow> earlier bs d' x"
  unfolding earlier_def by (metis order_trans)

lemma earlier_fewer: "earlier (b # bs) d x \<Longrightarrow> earlier bs d x"
  by (simp add: earlier_def)

lemma fleet_earlier:
  assumes "ready jb new_id k bs d" "commit\<^sup>*\<^sup>* d d'"
  shows "earlier bs d' d"
proof -
  have "world_ok d" using assms(1) by (simp add: ready_def)
  note c = commits_kept [OF assms(2) this]
  have o: "owners d' = owners d" using c by blast
  have g: "get_tenant d (b_tenant_id b) = get_tenant d' (b_tenant_id b)" if b: "b \<in> set bs" for b
  proof -
    obtain tn where "get_tenant d (b_tenant_id b) = Some tn" using assms(1) b by (auto simp: ready_def)
    moreover from this have "get_tenant d' (b_tenant_id b) = Some tn" using c by blast
    ultimately show ?thesis by (simp only:)
  qed
  show ?thesis unfolding earlier_def tasks_of_def o by (intro ballI conjI g order_refl)
qed

lemma post_next:
  assumes d0: "ready jb new_id k (b # bs) d0" and C: "honest C new_id" and x: "earlier (b # bs) d0 x"
  shows "\<exists>d'. post_task C k b x d0 = (Inr (new_id k), d') \<and> ready jb new_id (Suc k) bs d'
    \<and> owners d' = owners d0 @ [identity b (new_id k)] \<and> earlier bs d' d0"
proof -
  let ?env = "(cl_env C k)\<lparr>before_insert := \<lambda>_. d0\<rparr>"
  have C: "shed_threshold ?env \<le> 0" "generated_id ?env = new_id k" "inj new_id" "before_insert ?env = (\<lambda>_. d0)"
    using C by (simp_all add: honest_def)
  obtain tn where tn: "get_tenant d0 (b_tenant_id b) = Some tn"
    "int (tasks_of d0 (b_tenant_id b) + batch_of (b # bs) (b_tenant_id b)) \<le> max_queued_tasks tn"
    and dir: "direct jb b" using d0 by (auto simp: ready_def)
  have seen: "get_tenant x (b_tenant_id b) = Some tn" "tasks_of x (b_tenant_id b) \<le> tasks_of d0 (b_tenant_id b)"
    using x tn(1) by (simp_all add: earlier_def)
  have low: "int (queued_count_for_tenant x (b_tenant_id b)) < max_queued_tasks tn"
    using queued_bound [of x "b_tenant_id b"] seen(2) tn(2) by (simp add: batch_of_def)
  obtain ty where ty: "b_task_type b = Some ty" using dir by (auto simp: direct_def)
  obtain t d' where s: "submit ?env (cl_clock C) b x = (Inr (201, to_out (cl_clock C) t), d')" "others d0 d'"
    "t_id t = new_id k" "t_tenant_id t = b_tenant_id b" "task_type t = ty" "tasks d' = tasks d0 @ [t]" "tenants d' = tenants d0"
    using direct_submit [of d0 jb b ty ?env x tn "cl_clock C"] d0 dir ty C seen(1) low tn(1)
    by (auto simp: ready_def direct_def)
  have own: "owners d' = owners d0 @ [identity b (new_id k)]"
    using s(3-6) ty by (simp add: owners_def identity_def)
  have "ready jb new_id (Suc k) bs d'"
    unfolding ready_def
  proof (intro conjI allI impI ballI)
    show "world_ok d'" using others_ok(1) [OF s(2)] d0 by (simp add: ready_def)
    fix j assume j: "Suc k \<le> j"
    then have "find_task d0 (new_id j) = None" using d0 by (simp add: ready_def)
    moreover have "new_id j \<noteq> new_id k" using injD [OF C(3), of j k] j by auto
    ultimately show "find_task d' (new_id j) = None" by (simp add: find_owner own identity_def)
  next
    fix c assume c: "c \<in> set bs"
    show "direct jb c" using d0 c by (simp add: ready_def)
    obtain tc where tc: "get_tenant d0 (b_tenant_id c) = Some tc"
      "int (tasks_of d0 (b_tenant_id c) + batch_of (b # bs) (b_tenant_id c)) \<le> max_queued_tasks tc"
      using d0 c by (auto simp: ready_def)
    then show "\<exists>tn. get_tenant d' (b_tenant_id c) = Some tn
        \<and> int (tasks_of d' (b_tenant_id c) + batch_of bs (b_tenant_id c)) \<le> max_queued_tasks tn"
      using s(7) own by (intro exI [of _ tc]) (auto simp: get_tenant_def tasks_of_def batch_of_def identity_def split: if_splits)
  qed
  moreover have "post_task C k b x d0 = (Inr (new_id k), d')"
    using s(1,3) by (simp add: post_task_def to_out_def)
  moreover have "earlier bs d' d0"
    using s(7) own by (auto simp: earlier_def get_tenant_def tasks_of_def)
  ultimately show ?thesis using own by (intro exI [of _ d']) simp
qed

lemma fleet_moves: "honest C new_id \<Longrightarrow> ready jb new_id k bs d \<Longrightarrow> commit\<^sup>*\<^sup>* d (cl_fleet C k d)"
  by (simp add: honest_def ready_def)

lemma post_one_admitted:
  assumes "ready jb new_id k (b # bs) d" "honest C new_id"
  shows "\<exists>d'. post_one C k b d = (Inr (new_id k), d') \<and> ready jb new_id (Suc k) bs d'
    \<and> owners d' = owners d @ [identity b (new_id k)]"
  using post_next [OF ready_kept(1) [OF assms(1) fleet_moves [OF assms(2,1)]] assms(2) earlier_self]
    ready_kept(2) [OF assms(1) fleet_moves [OF assms(2,1)]]
  by (auto simp: post_one_def Let_def)

lemma pool_admitted:
  "ready jb new_id k bs d \<Longrightarrow> honest C new_id \<Longrightarrow> \<forall>x \<in> set hist. earlier bs d x \<Longrightarrow>
    \<exists>d'. pool_submit C k bs hist d = (map (\<lambda>j. Inr (new_id j)) [k..<k + length bs], d') \<and> world_ok d'
      \<and> owners d' = owners d @ map2 identity bs (map new_id [k..<k + length bs])"
proof (induction bs arbitrary: k hist d)
  case Nil
  then show ?case by (simp add: ready_def)
next
  case (Cons b bs)
  define d0 where "d0 = cl_fleet C k d"
  define x where "x = (d0 # hist) ! min (cl_overlap C k) (length hist)"
  note fm = fleet_moves [OF Cons.prems(2,1)]
  have d0: "ready jb new_id k (b # bs) d0" "owners d0 = owners d" "earlier (b # bs) d0 d"
    using ready_kept [OF Cons.prems(1) fm] fleet_earlier [OF Cons.prems(1) fm] by (simp_all add: d0_def)
  have states: "\<forall>y \<in> set (d0 # hist). earlier (b # bs) d0 y"
    using Cons.prems(3) d0(3) earlier_self earlier_trans by auto
  have "x \<in> set (d0 # hist)" unfolding x_def by (rule nth_mem) simp
  then have "earlier (b # bs) d0 x" using states by blast
  from post_next [OF d0(1) Cons.prems(2) this]
  obtain d1 where d1: "post_task C k b x d0 = (Inr (new_id k), d1)" "ready jb new_id (Suc k) bs d1"
    "owners d1 = owners d0 @ [identity b (new_id k)]" "earlier bs d1 d0" by blast
  have "\<forall>y \<in> set (d1 # d0 # hist). earlier bs d1 y"
    using states d1(4) earlier_self earlier_fewer earlier_trans by (metis set_ConsD)
  from Cons.IH [OF d1(2) Cons.prems(2) this]
  obtain d' where d': "pool_submit C (Suc k) bs (d1 # d0 # hist) d1 = (map (\<lambda>j. Inr (new_id j)) [Suc k..<Suc k + length bs], d')"
    "world_ok d'" "owners d' = owners d1 @ map2 identity bs (map new_id [Suc k..<Suc k + length bs])"
    by blast
  have up: "[k..<k + length (b # bs)] = k # [Suc k..<Suc k + length bs]" by (simp add: upt_rec)
  have "pool_submit C k (b # bs) hist d = (Inr (new_id k) # map (\<lambda>j. Inr (new_id j)) [Suc k..<Suc k + length bs], d')"
    using d1(1) d'(1) by (simp add: Let_def d0_def x_def)
  then show ?case unfolding up using d1(3) d0(2) d'(2,3) by simp
qed

lemma posts_admitted:
  "ready jb new_id k bs d \<Longrightarrow> honest C new_id \<Longrightarrow>
    \<exists>d'. post_all C k bs d = (Inr (map new_id [k..<k + length bs]), d') \<and> world_ok d'
      \<and> owners d' = owners d @ map2 identity bs (map new_id [k..<k + length bs])"
proof (induction bs arbitrary: k d)
  case Nil
  then show ?case by (simp add: ready_def)
next
  case (Cons b bs)
  obtain d1 where d1: "post_one C k b d = (Inr (new_id k), d1)" "ready jb new_id (Suc k) bs d1"
    "owners d1 = owners d @ [identity b (new_id k)]" using post_one_admitted [OF Cons.prems] by blast
  obtain d' where d': "post_all C (Suc k) bs d1 = (Inr (map new_id [Suc k..<Suc k + length bs]), d')"
    "world_ok d'" "owners d' = owners d1 @ map2 identity bs (map new_id [Suc k..<Suc k + length bs])"
    using Cons.IH [OF d1(2) Cons.prems(2)] by blast
  have up: "[k..<k + length (b # bs)] = k # [Suc k..<Suc k + length bs]" by (simp add: upt_rec)
  show ?case unfolding up using d1(1,3) d' by simp
qed

lemma collect_all: "collect_results (map (\<lambda>j. Inr (f j)) js) = Inr (map f js)"
  by (induction js) simp_all

text \<open>A tenant just created has no task yet.\<close>

lemma new_tenant:
  assumes "world_ok d" "post_tenant i nm r q d = (Inr tn, d1)"
  shows "world_ok d1" "owners d1 = owners d" "get_tenant d1 (tn_id tn) = Some tn" "max_queued_tasks tn = q"
    "tasks_of d1 (tn_id tn) = 0" "\<And>j tn'. get_tenant d j = Some tn' \<Longrightarrow> get_tenant d1 j = Some tn' \<and> j \<noteq> tn_id tn"
proof -
  let ?b = "\<lparr>tc_name = nm, tc_max_concurrent_tasks = r, tc_max_queued_tasks = q\<rparr>"
  have c: "create_tenant_request i ?b d = Inr (tn, d1)"
    using assms(2) by (auto simp: post_tenant_def Let_def split: if_splits sum.splits)
  from handler_Inr(1) [OF c] have t: "d1 = d\<lparr>tenants := tenants d @ [tn]\<rparr>" "tn_id tn \<notin> tn_id ` set (tenants d)"
    "max_queued_tasks tn = q" by (auto simp: create_tenant_def Let_def split: if_splits)
  show "world_ok d1" by (rule others_ok(1) [OF o_commit [OF c_create_tenant [OF c]] assms(1)])
  show "owners d1 = owners d" by (simp add: t(1) owners_def)
  have new: "get_tenant d (tn_id tn) = None"
    using t(2) by (auto simp: get_tenant_def find_by_None_iff)
  then show "get_tenant d1 (tn_id tn) = Some tn" by (simp add: t(1) get_tenant_def find_by_append)
  show "max_queued_tasks tn = q" by (rule t(3))
  show "get_tenant d1 j = Some tn' \<and> j \<noteq> tn_id tn" if "get_tenant d j = Some tn'" for j tn'
    using that new by (auto simp: t(1) get_tenant_def find_by_append)
  have "db_inv d" using assms(1) by (simp add: world_ok_def sys_inv_def)
  then have "t_tenant_id x \<in> tn_id ` set (tenants d)" if "x \<in> set (tasks d)" for x
    using that by (simp add: db_inv_def tenant_refs_def)
  then have "t_tenant_id x \<noteq> tn_id tn" if "x \<in> set (tasks d)" for x
    using that t(2) by metis
  then show "tasks_of d1 (tn_id tn) = 0"
    by (auto simp: tasks_of_def owners_def t(1) filter_empty_conv)
qed

lemma posted_direct:
  "1 \<le> length ty \<Longrightarrow> length ty \<le> 128 \<Longrightarrow> jb pl \<le> MAX_PAYLOAD_BYTES \<Longrightarrow> direct jb (posted i ty pl)"
  by (cases ty) (auto simp: direct_def posted_def task_create_valid_def opt_all_def length_between_def between_def
      exactly_one_submission_mode_def)

lemma batch_small: "batch_of bs i \<le> length bs"
  by (simp add: batch_of_def)

lemma map2_identity_posted:
  "map2 identity (map (\<lambda>i. posted tn ty (g i)) is) (map f is) = map (\<lambda>i. (f i, tn, ty)) is"
  by (induction "is") (simp_all add: identity_def posted_def)

section \<open>Properties\<close>

text \<open>
  C31. The batch of the throughput benchmark is admitted whole. From every reachable state, with the
  API up, worker containers, shedding off and a fresh tenant, and whatever transactions the fleet,
  the reaper and the rest of the API commit between its requests: not one of its submissions is
  refused, however the requests of the pool overlap (each may be checked on any state since the pool
  began), because the tenant's queue bound is raised to twice the batch. The batch adds exactly
  \<open>n\<close> tasks of that tenant, one for each request, nothing is lost or posted twice. If the stopwatch
  advanced, the run ends with a result: its task and worker counts are those of the run, and its two
  rates divide the batch by the time the posts took and by the time until the wait for the drain
  ended. That the wait ends early or gives up is a matter of \<open>drain_wait_blind\<close>.
\<close>

theorem benchmark_batch_admitted:
  assumes "reachable S" and "honest (be_client E) new_id"
    and "wait_for_api (be_health E) = Inr ()" and "worker_containers (be_docker E) \<noteq> []"
    and "post_tenant (be_tenant E) (''bench-'' @ be_suffix E) 10000 (max (int n * 2) 1000) (sys_db S) = (Inr tn, d1)"
    and "\<forall>k. find_task (sys_db S) (new_id k) = None"
    and "\<forall>i < n. jb [(''i'', JNum (of_nat i))] \<le> MAX_PAYLOAD_BYTES"
    and "0 < be_submit_s E" and "0 < be_drain_s E"
  shows "\<exists>d2 r. throughput_run E n (sys_db S) = (Inr r, be_settle E d2) \<and> world_ok d2
    \<and> owners d2 = owners (sys_db S) @ map (\<lambda>i. (new_id i, tn_id tn, ''demo.agent'')) [0..<n]
    \<and> br_task_count r = n \<and> br_worker_count r = length (worker_containers (be_docker E))
    \<and> submit_rate_tasks_per_s r = py_round (of_nat n / be_submit_s E) 1
    \<and> end_to_end_rate_tasks_per_s r = py_round (of_nat n / be_drain_s E) 1"
proof -
  have "sys_inv S" by (rule reachable_inv [OF assms(1)])
  then have "world_ok (sys_db S)" by (simp add: world_ok_def sys_inv_def)
  note tn = new_tenant [OF this assms(5)]
  let ?bs = "bench_tasks (tn_id tn) n"
  have len: "length ?bs = n" by (simp add: bench_tasks_def)
  have "ready jb new_id 0 ?bs d1"
    unfolding ready_def
  proof (intro conjI allI impI ballI)
    show "world_ok d1" by (rule tn(1))
    show "find_task d1 (new_id j) = None" for j using assms(6) tn(2) by (simp add: find_owner)
    fix b assume b: "b \<in> set ?bs"
    then show "direct jb b" using assms(7) by (auto simp: bench_tasks_def intro!: posted_direct)
    have "b_tenant_id b = tn_id tn" using b by (auto simp: bench_tasks_def posted_def)
    then show "\<exists>tn. get_tenant d1 (b_tenant_id b) = Some tn
        \<and> int (tasks_of d1 (b_tenant_id b) + batch_of ?bs (b_tenant_id b)) \<le> max_queued_tasks tn"
      using tn(3-5) batch_small [of ?bs "tn_id tn"] len by (intro exI [of _ tn]) simp
  qed
  from pool_admitted [OF this assms(2), of "[d1]"] obtain d2 where d2:
    "pool_submit (be_client E) 0 ?bs [d1] d1 = (map (\<lambda>j. Inr (new_id j)) [0..<n], d2)" "world_ok d2"
    "owners d2 = owners d1 @ map2 identity ?bs (map new_id [0..<n])" by (auto simp: len earlier_self)
  have run: "throughput_run E n (sys_db S) = (bench_numbers E n, be_settle E d2)"
    using assms(3-5) d2(1) by (simp add: throughput_run_def collect_all Let_def)
  have own: "owners d2 = owners (sys_db S) @ map (\<lambda>i. (new_id i, tn_id tn, ''demo.agent'')) [0..<n]"
    using d2(3) tn(2) by (simp add: bench_tasks_def map2_identity_posted)
  obtain r where r: "bench_numbers E n = Inr r" "br_task_count r = n"
    "br_worker_count r = length (worker_containers (be_docker E))"
    "submit_rate_tasks_per_s r = py_round (of_nat n / be_submit_s E) 1"
    "end_to_end_rate_tasks_per_s r = py_round (of_nat n / be_drain_s E) 1"
    using assms(8,9) by (simp add: bench_numbers_def Let_def)
  show ?thesis
    by (rule exI [of _ d2], rule exI [of _ r]) (use run own d2(2) r in simp)
qed

text \<open>So is the batch of the chaos demo: 300 tasks, over two tenants of 1000 each.\<close>

lemma chaos_batch_length: "length chaos_batch = 300"
  by (simp add: chaos_batch_def SLOW_TASK_COUNT_def FAST_TASK_COUNT_def)

lemma chaos_posts_admitted:
  assumes "reachable S" and "honest C new_id" and "\<forall>k. find_task (sys_db S) (new_id k) = None"
    and "post_tenant i0 n0 200 1000 (sys_db S) = (Inr t0, d1)" and "post_tenant i1 n1 200 1000 d1 = (Inr t1, d2)"
    and "\<forall>(k, ty, pl) \<in> set chaos_batch. jb pl \<le> MAX_PAYLOAD_BYTES"
  shows "\<exists>d'. post_all C 0 (chaos_posts [tn_id t0, tn_id t1]) d2 = (Inr (map new_id [0..<300]), d') \<and> world_ok d'
    \<and> length (owners d') = length (owners (sys_db S)) + 300"
proof -
  have "sys_inv S" by (rule reachable_inv [OF assms(1)])
  then have "world_ok (sys_db S)" by (simp add: world_ok_def sys_inv_def)
  note a = new_tenant [OF this assms(4)]
  note b = new_tenant [OF a(1) assms(5)]
  let ?bs = "chaos_posts [tn_id t0, tn_id t1]"
  have len: "length ?bs = 300" by (simp add: chaos_posts_def chaos_batch_length)
  have "get_tenant d2 (tn_id t0) = Some t0" using b(6) [OF a(3)] by simp
  moreover have "tasks_of d2 (tn_id t0) = 0" using a(5) b(2) by (simp add: tasks_of_def)
  moreover have row: "b_tenant_id p \<in> {tn_id t0, tn_id t1} \<and> direct jb p" if q: "p \<in> set ?bs" for p
  proof -
    obtain k ty pl where p: "(k, ty, pl) \<in> set chaos_batch" "p = posted ([tn_id t0, tn_id t1] ! nat k) ty pl"
      using q by (auto simp: chaos_posts_def)
    then obtain i where "(k, ty, pl) = chaos_task i" by (auto simp: chaos_batch_def)
    then have "k = i mod 2" "ty \<in> {''demo.fail'', ''demo.slow'', ''demo.agent''}"
      by (auto simp: chaos_task_def split: if_splits)
    moreover from this have "k = 0 \<or> k = 1" by presburger
    moreover have "direct jb (posted x ty pl)" for x
      using calculation(2) assms(6) p(1) by (intro posted_direct) auto
    ultimately show ?thesis unfolding p(2) by (auto simp: posted_def)
  qed
  ultimately have "ready jb new_id 0 ?bs d2"
    using b(1-5) a(4) assms(3) a(2) batch_small [of ?bs] len
    unfolding ready_def find_owner by (fastforce dest: row intro: order_trans [of _ 300])
  from posts_admitted [OF this assms(2)] show ?thesis using a(2) b(2) by (auto simp: len)
qed

text \<open>
  What one measurement of the recovery benchmark is about: when the signal is sent the worker owns
  an attempt of the task; the measure is the number of polls after which it owns none.
\<close>

lemma wait_running_owner:
  "wait_running n fleet i d = (Inr w, d') \<Longrightarrow> \<exists>a. owns d' i a w"
proof (induction n arbitrary: d)
  case (Suc n)
  then show ?case
    by (cases "get_task d i") (auto simp: get_task_def find_task_def owns_iff split: if_splits option.splits)
qed simp

lemma measure_meaning:
  assumes "measure_one E k tenant_id dur d = (Inr n, d')"
  shows "\<exists>i w target d2 a. owns d2 i a w \<and> target \<in> set (worker_containers (re_docker E))
    \<and> d' = (re_after E target ^^ n) (re_signal E target d2) \<and> (\<forall>a. \<not> owns d' i a w)"
proof -
  let ?cs = "worker_containers (re_docker E)"
  obtain i d1 where i: "post_one (re_client E) k (posted tenant_id ''demo.slow'' [(''duration_s'', JArr [JNum dur, JNum dur])]) d = (Inr i, d1)"
    using assms unfolding measure_one_def Let_def and_then_def by (auto split: prod.splits sum.splits)
  obtain w d2 where w: "wait_running (fst (re_polls E)) (re_fleet E) i d1 = (Inr w, d2)"
    using assms i unfolding measure_one_def Let_def by (auto simp: and_then_def split: prod.splits sum.splits)
  define target where "target = container_of ?cs w"
  have c: "?cs \<noteq> []" and r: "wait_for_reclaim (snd (re_polls E)) (re_after E target) i w (re_signal E target d2) = (Inr n, d')"
    using assms i w by (auto simp: measure_one_def Let_def target_def split: if_splits)
  have "target \<in> set ?cs"
    using c by (auto simp: target_def container_of_def find_Some_iff split: option.splits)
  moreover have "d' = (re_after E target ^^ n) (re_signal E target d2) \<and> (\<forall>a. \<not> owns d' i a w)"
    using reclaim_wait_is_ownership [where n = "snd (re_polls E)" and fleet = "re_after E target"
        and i = i and w = w and d = "re_signal E target d2"] unfolding r by auto
  moreover obtain a where "owns d2 i a w" using wait_running_owner [OF w] by blast
  ultimately show ?thesis by blast
qed

text \<open>
  The wait for the drain takes no answer for zero, and its outcome is not used: before the gauges were
  scraped for the first time it ends at once, and a batch that is still running when it gives up
  is divided by the elapsed time like one that is finished.
\<close>

lemma drain_wait_blind:
  "drain_polls (([], [], []) # polls)" "bench_numbers (E\<lparr>be_polls := polls\<rparr>) n = bench_numbers E n"
  by (simp_all add: prom_scalar_def bench_numbers_def Let_def)

section \<open>Witness\<close>

definition demo_client :: client where
  "demo_client = \<lparr>cl_env = (\<lambda>k. \<lparr>generated_id = k + 20, cached_global_queued = 0, shed_threshold = 0, trace_carrier = None,
     bound_text = (\<lambda>_. None), before_resolve = (\<lambda>d. d), before_insert = (\<lambda>d. d)\<rparr>), cl_fleet = (\<lambda>k d. d\<lparr>now := now d + 1\<rparr>),
     cl_overlap = (\<lambda>k. 2), cl_clock = 10\<rparr>"

definition demo_bench :: bench_env where
  "demo_bench = \<lparr>be_health = [None, Some 503, Some 200], be_docker = [''abc'', []], be_suffix = ''0'', be_tenant = 9,
     be_client = demo_client, be_submit_s = 2, be_polls = [([3], [4], [0]), ([0], [0], [0])], be_settle = (\<lambda>d. d),
     be_drain_s = 7, be_prometheus = (\<lambda>q. [1 / 3]), be_machine = ''m'', be_python = ''3''\<rparr>"

lemma demo_client_honest: "honest demo_client (\<lambda>k. k + 20)"
proof -
  have "commit\<^sup>*\<^sup>* x (x\<lparr>now := now x + 1\<rparr>)" for x
    using c_tick [of x "now x + 1"] by (simp add: r_into_rtranclp)
  then show ?thesis by (simp add: honest_def demo_client_def inj_def)
qed

theorem benchmark_batch_admitted_witness:
  "\<exists>d2 r tn. throughput_run demo_bench 2 (sys_db (start 10)) = (Inr r, d2) \<and> br_task_count r = 2
     \<and> owners d2 = [(20, tn, ''demo.agent''), (21, tn, ''demo.agent'')]"
proof -
  have "case fst (post_tenant 9 ''bench-0'' 10000 1000 (empty_db 10)) of Inl e \<Rightarrow> False | Inr tn \<Rightarrow> True" by code_simp
  then obtain tn d1 where t: "post_tenant (be_tenant demo_bench) (''bench-'' @ be_suffix demo_bench) 10000 (max (int 2 * 2) 1000) (sys_db (start 10))
      = (Inr tn, d1)"
    by (cases "post_tenant 9 ''bench-0'' 10000 1000 (empty_db 10)") (auto simp: demo_bench_def start_def split: sum.splits)
  have "reachable (start 10)" by (auto simp: reachable_def)
  moreover have "be_client demo_bench = demo_client" "wait_for_api (be_health demo_bench) = Inr ()" by (simp_all add: demo_bench_def)
  moreover have "worker_containers (be_docker demo_bench) \<noteq> []" by code_simp
  moreover have "0 < be_submit_s demo_bench" "0 < be_drain_s demo_bench" by (simp_all add: demo_bench_def)
  moreover have "be_settle demo_bench = (\<lambda>d. d)" "owners (sys_db (start 10)) = []" "find_task (sys_db (start 10)) j = None" for j
    by (simp_all add: demo_bench_def start_def empty_db_def owners_def find_task_def)
  moreover have "[0..<2] = [0, 1 :: nat]" by (simp add: upt_rec)
  ultimately show ?thesis
    using benchmark_batch_admitted [of "start 10" demo_bench "\<lambda>k. k + 20" 2 tn d1 "\<lambda>_. 2"] demo_client_honest t
    by (auto simp: MAX_PAYLOAD_BYTES_def)
qed

end
