(* ===== verification/Routing.thy ===== *)
theory Routing
  imports Server "HOL-Library.Multiset"
begin

text \<open>
  The table of endpoints that \<open>api/app.py\<close> assembles from the routers of \<open>api/routes\<close>, and the way
  the framework looks a request up in it: the first route whose path and method fit, else a route that
  only lacks the method (405), else the path with its trailing slash added or removed (a redirect),
  else 404. A path is the list of its segments.
\<close>

section \<open>Endpoints\<close>

datatype http_method = M_GET | M_POST | M_PUT | M_DELETE | M_other string

datatype segment = Lit string | Param string

record endpoint =
  ep_handler :: string
  ep_method :: http_method
  ep_path :: "segment list"
  ep_status :: nat

definition under_prefix :: "segment list \<Rightarrow> (string \<times> http_method \<times> segment list \<times> nat) list \<Rightarrow> endpoint list" where
  "under_prefix pre rows = map (\<lambda>(h, m, p, code). \<lparr>ep_handler = h, ep_method = m, ep_path = pre @ p, ep_status = code\<rparr>) rows"

definition health_router :: "endpoint list" where
  "health_router = under_prefix [] [(''healthz'', M_GET, [Lit ''healthz''], 200)]"

definition metrics_router :: "endpoint list" where
  "metrics_router = under_prefix [] [(''prometheus_metrics'', M_GET, [Lit ''metrics''], 200)]"

definition tenants_router :: "endpoint list" where
  "tenants_router = under_prefix [Lit ''v1'', Lit ''tenants'']
     [(''create'', M_POST, [], 201), (''get'', M_GET, [Param ''tenant_id''], 200)]"

definition agents_router :: "endpoint list" where
  "agents_router = under_prefix [Lit ''v1'', Lit ''agents'']
     [(''create_agent'', M_POST, [], 201),
      (''list_agents'', M_GET, [], 200),
      (''get_agent'', M_GET, [Param ''agent_id''], 200),
      (''create_version'', M_POST, [Param ''agent_id'', Lit ''versions''], 201),
      (''list_versions'', M_GET, [Param ''agent_id'', Lit ''versions''], 200),
      (''activate'', M_POST, [Param ''agent_id'', Lit ''activate''], 200),
      (''disable'', M_POST, [Param ''agent_id'', Lit ''disable''], 200)]"

definition routes_router :: "endpoint list" where
  "routes_router = under_prefix [Lit ''v1'', Lit ''routes'']
     [(''set_route'', M_PUT, [], 200), (''list_routes'', M_GET, [], 200)]"

definition tools_router :: "endpoint list" where
  "tools_router = under_prefix [Lit ''v1'', Lit ''tools'']
     [(''create_tool'', M_POST, [], 201),
      (''list_tools'', M_GET, [], 200),
      (''disable_tool'', M_POST, [Param ''tool_id'', Lit ''disable''], 200),
      (''enable_tool'', M_POST, [Param ''tool_id'', Lit ''enable''], 200)]"

definition grants_router :: "endpoint list" where
  "grants_router = under_prefix [Lit ''v1'', Lit ''agent-versions'']
     [(''grant'', M_POST, [Param ''version_id'', Lit ''grants''], 201),
      (''list_grants'', M_GET, [Param ''version_id'', Lit ''grants''], 200),
      (''revoke_grant'', M_DELETE, [Param ''version_id'', Lit ''grants'', Param ''tool_id''], 204)]"

definition audit_router :: "endpoint list" where
  "audit_router = under_prefix [Lit ''v1'', Lit ''audit''] [(''list_audit'', M_GET, [], 200)]"

definition tasks_router :: "endpoint list" where
  "tasks_router = under_prefix [Lit ''v1'', Lit ''tasks'']
     [(''submit'', M_POST, [], 201),
      (''list_tasks'', M_GET, [], 200),
      (''get_task'', M_GET, [Param ''task_id''], 200),
      (''get_events'', M_GET, [Param ''task_id'', Lit ''events''], 200),
      (''cancel'', M_POST, [Param ''task_id'', Lit ''cancel''], 200)]"

text \<open>The routers in the order in which they are included, and the root.\<close>

definition app_routes :: "endpoint list" where
  "app_routes = health_router @ metrics_router @ tenants_router @ agents_router @ routes_router @ tools_router
     @ grants_router @ audit_router @ tasks_router @ under_prefix [] [(''root'', M_GET, [Lit []], 200)]"

section \<open>Lookup\<close>

fun fits_path :: "segment list \<Rightarrow> string list \<Rightarrow> bool" where
  "fits_path [] [] = True"
| "fits_path (Lit s # segs) (x # xs) = (x = s \<and> fits_path segs xs)"
| "fits_path (Param p # segs) (x # xs) = (x \<noteq> [] \<and> fits_path segs xs)"
| "fits_path _ _ = False"

datatype routed = Route endpoint | Method_not_allowed | Redirect_to "string list" | No_route

definition fits_request :: "http_method \<Rightarrow> string list \<Rightarrow> endpoint \<Rightarrow> bool" where
  "fits_request m path e \<longleftrightarrow> ep_method e = m \<and> fits_path (ep_path e) path"

definition toggle_slash :: "string list \<Rightarrow> string list" where
  "toggle_slash path = (if path \<noteq> [] \<and> last path = [] then butlast path else path @ [[]])"

definition dispatch :: "endpoint list \<Rightarrow> http_method \<Rightarrow> string list \<Rightarrow> routed" where
  "dispatch routes m path =
     (case find (fits_request m path) routes of
        Some e \<Rightarrow> Route e
      | None \<Rightarrow>
          if list_ex (\<lambda>e. fits_path (ep_path e) path) routes then Method_not_allowed
          else if path \<noteq> [[]] \<and> list_ex (\<lambda>e. fits_path (ep_path e) (toggle_slash path)) routes
            then Redirect_to (toggle_slash path)
          else No_route)"

text \<open>The address of a request of the dispatcher, and the function that answers it.\<close>

fun address :: "request \<Rightarrow> string \<times> http_method \<times> string list" where
  "address (POST_tenants i b) = (''create'', M_POST, [''v1'', ''tenants''])"
| "address (GET_tenant i) = (''get'', M_GET, [''v1'', ''tenants'', uuid_str i])"
| "address (POST_tasks env b) = (''submit'', M_POST, [''v1'', ''tasks''])"
| "address (GET_tasks rd tn st n c) = (''list_tasks'', M_GET, [''v1'', ''tasks''])"
| "address (GET_task i) = (''get_task'', M_GET, [''v1'', ''tasks'', uuid_str i])"
| "address (GET_task_events i) = (''get_events'', M_GET, [''v1'', ''tasks'', uuid_str i, ''events''])"
| "address (POST_task_cancel i) = (''cancel'', M_POST, [''v1'', ''tasks'', uuid_str i, ''cancel''])"
| "address (POST_agents i b) = (''create_agent'', M_POST, [''v1'', ''agents''])"
| "address (GET_agents tn) = (''list_agents'', M_GET, [''v1'', ''agents''])"
| "address (GET_agent i) = (''get_agent'', M_GET, [''v1'', ''agents'', uuid_str i])"
| "address (POST_agent_versions i a b) = (''create_version'', M_POST, [''v1'', ''agents'', uuid_str a, ''versions''])"
| "address (GET_agent_versions a) = (''list_versions'', M_GET, [''v1'', ''agents'', uuid_str a, ''versions''])"
| "address (POST_agent_activate a b) = (''activate'', M_POST, [''v1'', ''agents'', uuid_str a, ''activate''])"
| "address (POST_agent_disable a) = (''disable'', M_POST, [''v1'', ''agents'', uuid_str a, ''disable''])"
| "address (PUT_routes b) = (''set_route'', M_PUT, [''v1'', ''routes''])"
| "address (GET_routes tn) = (''list_routes'', M_GET, [''v1'', ''routes''])"
| "address (POST_tools i b) = (''create_tool'', M_POST, [''v1'', ''tools''])"
| "address (GET_tools tn) = (''list_tools'', M_GET, [''v1'', ''tools''])"
| "address (POST_tool_disable i) = (''disable_tool'', M_POST, [''v1'', ''tools'', uuid_str i, ''disable''])"
| "address (POST_tool_enable i) = (''enable_tool'', M_POST, [''v1'', ''tools'', uuid_str i, ''enable''])"
| "address (POST_version_grants v b) = (''grant'', M_POST, [''v1'', ''agent-versions'', uuid_str v, ''grants''])"
| "address (GET_version_grants v) = (''list_grants'', M_GET, [''v1'', ''agent-versions'', uuid_str v, ''grants''])"
| "address (DELETE_version_grant v i) = (''revoke_grant'', M_DELETE, [''v1'', ''agent-versions'', uuid_str v, ''grants'', uuid_str i])"
| "address (GET_audit tn a out n) = (''list_audit'', M_GET, [''v1'', ''audit''])"

text \<open>The two handlers that set \<open>response.status_code\<close>: a deduplicated submission and a cancellation asked for.\<close>

fun own_status :: "request \<Rightarrow> nat set" where
  "own_status (POST_tasks env b) = {200}"
| "own_status (POST_task_cancel i) = {202}"
| "own_status r = {}"

section \<open>No two routes compete\<close>

fun overlap :: "segment list \<Rightarrow> segment list \<Rightarrow> bool" where
  "overlap [] [] = True"
| "overlap (Lit a # s) (Lit b # t) = (a = b \<and> overlap s t)"
| "overlap (Lit a # s) (Param p # t) = (a \<noteq> [] \<and> overlap s t)"
| "overlap (Param p # s) (Lit b # t) = (b \<noteq> [] \<and> overlap s t)"
| "overlap (Param p # s) (Param q # t) = overlap s t"
| "overlap _ _ = False"

lemma fits_overlap: "fits_path s path \<Longrightarrow> fits_path t path \<Longrightarrow> overlap s t"
proof (induction s path arbitrary: t rule: fits_path.induct)
  case 1
  then show ?case by (cases t) auto
next
  case (2 a s x xs)
  then show ?case by (cases t; cases "hd t") auto
next
  case (3 p s x xs)
  then show ?case by (cases t; cases "hd t") auto
qed auto

lemmas route_tables = app_routes_def health_router_def metrics_router_def tenants_router_def agents_router_def
  routes_router_def tools_router_def grants_router_def audit_router_def tasks_router_def under_prefix_def

lemma routes_apart:
  "\<forall>e \<in> set app_routes. \<forall>e' \<in> set app_routes. ep_method e = ep_method e' \<and> overlap (ep_path e) (ep_path e') \<longrightarrow> e = e'"
  by (simp add: route_tables)

lemma one_route:
  assumes "e \<in> set app_routes" "fits_request m path e" "e' \<in> set app_routes" "fits_request m path e'"
  shows "e = e'"
  using routes_apart assms fits_overlap by (auto simp: fits_request_def)

lemma find_only:
  assumes "\<And>x y. x \<in> set xs \<Longrightarrow> P x \<Longrightarrow> y \<in> set xs \<Longrightarrow> P y \<Longrightarrow> x = y"
  shows "find P xs = Some x \<longleftrightarrow> x \<in> set xs \<and> P x"
  using assms by (induction xs) (auto simp: find_Some_iff)

lemma dispatch_Route:
  assumes "set rs = set app_routes"
  shows "dispatch rs m path = Route e \<longleftrightarrow> e \<in> set app_routes \<and> fits_request m path e"
proof -
  have "find (fits_request m path) rs = Some e \<longleftrightarrow> e \<in> set app_routes \<and> fits_request m path e" for e
    unfolding assms [symmetric] by (rule find_only) (use one_route assms in blast)
  moreover have "dispatch rs m path = Route e \<longleftrightarrow> find (fits_request m path) rs = Some e"
    by (cases "find (fits_request m path) rs") (simp_all add: dispatch_def)
  ultimately show ?thesis by blast
qed

lemma dispatch_order:
  assumes "set rs = set app_routes"
  shows "dispatch rs m path = dispatch app_routes m path"
proof (cases "\<exists>e. dispatch rs m path = Route e")
  case True
  then show ?thesis using dispatch_Route [OF assms] dispatch_Route [OF refl] by metis
next
  case False
  then have "find (fits_request m path) rs = None" "find (fits_request m path) app_routes = None"
    using dispatch_Route [OF assms] dispatch_Route [OF refl] unfolding find_None_iff assms [symmetric] by blast+
  then show ?thesis by (simp add: dispatch_def list_ex_iff assms)
qed

section \<open>Status codes\<close>

lemma refusal_range: "400 \<le> refusal e"
proof (cases e)
  case (Api a)
  then show ?thesis by (cases "ae_class a") (simp_all add: refusal_def error_response_def)
qed (simp add: refusal_def)

lemma reply_status: "fst (reply c m d) < 400 \<Longrightarrow> fst (reply c m d) = c"
  using refusal_range by (cases m) (fastforce simp: reply_def not_less [symmetric])+

lemma reply_read_status: "fst (reply_read m d) < 400 \<Longrightarrow> fst (reply_read m d) = 200"
  using refusal_range by (cases m) (fastforce simp: reply_read_def not_less [symmetric])+

lemma insert_submission_status:
  "insert_submission env clock s d = Inr ((code, out), d') \<Longrightarrow> code = 201 \<or> code = 200"
  by (auto simp: insert_submission_def api_def split: sum.splits exn.splits if_splits)

lemma submit_code:
  assumes "submit env clock b d = (Inr (code, out), d')"
  shows "code = 201 \<or> code = 200"
proof -
  obtain s d1 d2 where "insert_submission env clock s d1 = Inr ((code, out), d2)"
    using assms unfolding submit_def Let_def api_def unknown_def
    by (auto simp: bindE_Inr_iff split: option.splits admission.splits sum.splits)
  then show ?thesis by (rule insert_submission_status)
qed

lemma cancel_code: "cancel i d = Inr ((code, out), d') \<Longrightarrow> code = 200 \<or> code = 202"
  by (auto simp: cancel_def bindE_Inr_iff unknown_def api_def split: option.splits if_splits)

text \<open>The status a route declares, by its function.\<close>

definition declared_status :: "string \<Rightarrow> nat" where
  "declared_status h =
     (if h \<in> {''create'', ''submit'', ''create_agent'', ''create_version'', ''create_tool'', ''grant''} then 201
      else if h = ''revoke_grant'' then 204 else 200)"

lemma declared_routes: "\<forall>e \<in> set app_routes. ep_status e = declared_status (ep_handler e)"
  by (simp add: route_tables declared_status_def)

lemma uuid_str_nonempty [simp]: "uuid_str i \<noteq> []"
  by (simp add: uuid_str_def Let_def)

definition reaches :: "string \<times> http_method \<times> string list \<Rightarrow> endpoint list \<Rightarrow> bool" where
  "reaches a es \<longleftrightarrow> (\<exists>e \<in> set es. fits_request (fst (snd a)) (snd (snd a)) e \<and> ep_handler e = fst a)"

lemma reaches_simps [simp]:
  "reaches a (xs @ ys) \<longleftrightarrow> reaches a xs \<or> reaches a ys"
  "reaches (h, m, p) (under_prefix pre []) \<longleftrightarrow> False"
  "reaches (h, m, p) (under_prefix pre ((h', m', p', c) # rows)) \<longleftrightarrow>
     h' = h \<and> m' = m \<and> fits_path (pre @ p') p \<or> reaches (h, m, p) (under_prefix pre rows)"
  by (auto simp: reaches_def under_prefix_def fits_request_def)

lemma own_route: "reaches (address r) app_routes"
proof (cases r)
qed (simp_all add: app_routes_def health_router_def metrics_router_def tenants_router_def agents_router_def
  routes_router_def tools_router_def grants_router_def audit_router_def tasks_router_def)

lemma own_statuses:
  assumes "fst (handle clock r d) < 400"
  shows "fst (handle clock r d) = declared_status (fst (address r)) \<or> fst (handle clock r d) \<in> own_status r"
proof (cases r)
  case (POST_tasks env b)
  obtain m d' where m: "submit env clock b d = (m, d')" by (cases "submit env clock b d")
  obtain code out where c: "m = Inr (code, out)"
    using assms refusal_range by (cases m) (auto simp: POST_tasks m not_less [symmetric])
  show ?thesis using submit_code [OF m [unfolded c]] by (auto simp: POST_tasks m c declared_status_def)
next
  case (POST_task_cancel i)
  obtain code out d' where c: "cancel i d = Inr ((code, out), d')"
    using assms refusal_range by (cases "cancel i d") (auto simp: POST_task_cancel not_less [symmetric])
  show ?thesis using cancel_code [OF c] by (auto simp: POST_task_cancel c declared_status_def)
qed (use assms in \<open>auto simp: declared_status_def Let_def dest: reply_status reply_read_status\<close>)

section \<open>Property\<close>

text \<open>
  C36. Routing. Every request of the dispatcher reaches the function that the model answers it with, whatever
  the order in which the routers are included and their endpoints declared (so no path parameter ever
  captures the literal segment of another route), and a success has the status that the
  endpoint declares, but for the deduplicated submission (200) and the requested cancellation (202).
\<close>

theorem requests_reach_their_handlers:
  assumes "mset rs = mset app_routes"
  shows "(\<exists>e. dispatch rs (fst (snd (address r))) (snd (snd (address r))) = Route e \<and> ep_handler e = fst (address r)
      \<and> (fst (handle clock r d) < 400 \<longrightarrow> fst (handle clock r d) = ep_status e \<or> fst (handle clock r d) \<in> own_status r))
    \<and> dispatch rs m path = dispatch app_routes m path"
proof -
  have rs: "set rs = set app_routes" by (rule mset_eq_setD [OF assms])
  obtain e where e: "e \<in> set app_routes" "fits_request (fst (snd (address r))) (snd (snd (address r))) e"
    "ep_handler e = fst (address r)" using own_route [of r] unfolding reaches_def by blast
  have "ep_status e = declared_status (fst (address r))" using declared_routes e(1,3) by metis
  then show ?thesis using own_statuses [of clock r d] dispatch_Route [OF rs] dispatch_order [OF rs] e by metis
qed

theorem requests_reach_their_handlers_witness:
  "dispatch (rev app_routes) M_POST [''v1'', ''tools'', ''x'', ''disable''] = dispatch app_routes M_POST [''v1'', ''tools'', ''x'', ''disable'']
   \<and> (\<exists>e. dispatch (rev app_routes) M_GET [''v1'', ''tasks'', uuid_str 7] = Route e \<and> ep_handler e = ''get_task'')"
  using requests_reach_their_handlers [of "rev app_routes" "GET_task 7" 0 "empty_db 0" M_POST "[''v1'', ''tools'', ''x'', ''disable'']"]
  by auto

end
