(* ===== verification/Divergences.thy ===== *)
theory Divergences
  imports Liveness WorkerLoop
begin

text \<open>
  Behaviours of the claim, of recovery and of retry that the comments of the program do not lead one
  to expect, each proved of the operations as they are.
\<close>

section \<open>Recovery and a request to cancel\<close>

lemma long_take: "length xs \<le> n \<Longrightarrow> set (take n (sort_key f (filter P xs))) = set (filter P xs)"
  by (simp add: take_all_iff le_trans [OF length_filter_le])

text \<open>
  A request to cancel is not honoured by recovery. When the worker of a task that was asked to
  stop dies, the reaper does not cancel the task: with attempts left it goes back to the queue, due
  at once, still flagged, and is run again from the start.
\<close>

theorem reaper_ignores_cancel:
  assumes "db_inv d" "find_task d i = Some t" "t_state t = RUNNING" "cancel_requested t"
    and "lease_expired (now d) t" "t_attempt t < t_max_attempts t" "i \<notin> set locked" "length (tasks d) \<le> limit"
  shows "\<exists>res d' t'. reap_expired_leases limit locked d = Inr (res, d') \<and> db_inv d'
    \<and> find_task d' i = Some t' \<and> t_state t' = QUEUED \<and> cancel_requested t' \<and> available_at t' \<le> now d'"
proof -
  have t: "t \<in> set (tasks d)" "t_id t = i" using find_task_SomeD [OF assms(2)] by simp_all
  then have row: "t \<in> set (expired_rows limit locked d)"
    using assms(3,5,7,8) unfolding expired_rows_def long_take [OF assms(8)] by simp
  obtain res d' where r: "reap_expired_leases limit locked d = Inr (res, d')" "db_inv d'" "now d' = now d"
    "recovered_all (expired_rows limit locked d) d d'"
    using reap_expired_ok [OF assms(1), of limit locked] by blast
  then obtain t' where "find_task d' (t_id t) = Some t'" "recovered_row (now d) t t'"
    using row unfolding recovered_all_def by blast
  then show ?thesis using r(1-3) assms(4,6) t(2) by (auto simp: recovered_row_def)
qed

section \<open>The execution-time cap\<close>

text \<open>
  C37. A retry can be born hung. The execution-time cap is measured from the first start of the task,
  which no retry resets. So a task that waited for its retry until the cap, counted from its first
  attempt, has passed is overdue at the very moment it is claimed: the hung-task pass takes it from
  the worker at once, however healthy the new attempt is.
\<close>

theorem retry_born_hung:
  assumes "db_inv d" "find_worker d w \<noteq> None" "claim_tasks w limit ttl policy caps locked d = Inr (rows, d')"
    and "r \<in> set rows" "find_task d (t_id r) = Some t"
    and "first_started_at t = Some s" "s + of_int (t_max_execution_time_s t) < now d"
  shows "now d' = now d \<and> t_state r = RUNNING \<and> execution_time_exceeded (now d') r
    \<and> (\<exists>res d'' t''. reap_hung_tasks (length (tasks d')) [] d' = Inr (res, d'')
        \<and> find_task d'' (t_id r) = Some t'' \<and> t_state t'' \<noteq> RUNNING)"
proof -
  have ok: "db_inv d'" "db_step_ok d d'" using claim_tasks_ok [OF assms(1-3)] by simp_all
  obtain rows' d1 where c: "claim_tasks w limit ttl policy caps locked d = Inr (rows', d1)"
    "\<forall>r \<in> set rows'. \<exists>t. find_task d (t_id r) = Some t \<and> eligible (candidate_ok caps locked) [] d t
          \<and> find_task d1 (t_id r) = Some r \<and> pinned r = pinned t \<and> t_state r = RUNNING
          \<and> t_attempt r = t_attempt t + 1 \<and> lease_worker_id r = Some w
          \<and> lease_expires_at r = Some (now d + of_int ttl)"
    using claim_tasks_result [OF assms(1,2), of limit ttl policy caps locked] by blast
  then have r: "find_task d' (t_id r) = Some r" "t_state r = RUNNING" using assms(3,4) by auto
  have n: "now d' = now d" by (rule clock.claim_tasks_view [OF assms(3)])
  have "row_step t r" by (rule db_step_okD [OF ok(2) assms(5) r(1)])
  then have "first_started_at r = Some s" "t_max_execution_time_s r = t_max_execution_time_s t"
    using assms(6) by (auto simp: row_step_def dest: pinned_columns)
  then have over: "execution_time_exceeded (now d') r"
    using assms(7) by (simp add: execution_time_exceeded_def n)
  have "r \<in> set (hung_rows (length (tasks d')) [] d')"
    unfolding hung_rows_def long_take [OF order_refl] using r over find_task_SomeD [OF r(1)] by simp
  moreover obtain res d'' where "reap_hung_tasks (length (tasks d')) [] d' = Inr (res, d'')"
    "recovered_all (hung_rows (length (tasks d')) [] d') d' d''"
    using reap_hung_ok [OF ok(1), of "length (tasks d')" "[]"] by blast
  ultimately obtain t'' where "reap_hung_tasks (length (tasks d')) [] d' = Inr (res, d'')"
    "find_task d'' (t_id r) = Some t''" "recovered_row (now d') r t''"
    unfolding recovered_all_def by blast
  then show ?thesis using n r(2) over by (auto simp: recovered_row_def)
qed

section \<open>The bound on attempts\<close>

text \<open>
  A worker with capacity for one that claims a task and is shut down before it finishes: the claim,
  and the hand-back of \<open>_drain\<close> for what the claim returned.
\<close>

definition claim_and_hand_back :: "string \<Rightarrow> int \<Rightarrow> string list \<Rightarrow> db \<Rightarrow> db" where
  "claim_and_hand_back w ttl caps d =
     (case claim_tasks w 1 ttl DEFAULT_POLICY caps [] d of
        Inl e \<Rightarrow> d
      | Inr (rows, d1) \<Rightarrow> fold (abandon_one w) (map (\<lambda>r. (t_id r, t_attempt r)) rows) d1)"

text \<open>A queue whose only task that is not over is \<open>i\<close>, due and within the worker's capabilities.\<close>

definition only_waiting :: "string \<Rightarrow> string list \<Rightarrow> uuid \<Rightarrow> db \<Rightarrow> bool" where
  "only_waiting w caps i d \<longleftrightarrow> db_inv d \<and> find_worker d w \<noteq> None
     \<and> (\<exists>t. find_task d i = Some t \<and> eligible (candidate_ok caps []) [] d t)
     \<and> (\<forall>u \<in> set (tasks d). t_id u \<noteq> i \<longrightarrow> is_terminal (t_state u))
     \<and> (\<forall>tn \<in> set (tenants d). 1 \<le> max_concurrent_tasks tn)"

lemma candidate_pinned: "pinned t' = pinned t \<Longrightarrow> candidate_ok caps locked t' = candidate_ok caps locked t"
  by (simp add: pinned_def candidate_ok_def keyed_ok_def fallback_ok_def)

lemma find_row: "ids_distinct d \<Longrightarrow> u \<in> set (tasks d) \<Longrightarrow> find_task d (t_id u) = Some u"
  by (simp add: find_task_def ids_distinct_def find_by_in_set)

lemma only_waiting_found:
  assumes "ids_distinct d"
  shows "(\<forall>u \<in> set (tasks d). t_id u \<noteq> i \<longrightarrow> is_terminal (t_state u)) \<longleftrightarrow>
    (\<forall>j u. find_task d j = Some u \<longrightarrow> j \<noteq> i \<longrightarrow> is_terminal (t_state u))"
  using find_row [OF assms] find_task_SomeD [of d] by blast

lemma hand_back_step:
  assumes "only_waiting w caps i d" "find_task d i = Some t"
  shows "only_waiting w caps i (claim_and_hand_back w ttl caps d)
    \<and> (\<exists>t'. find_task (claim_and_hand_back w ttl caps d) i = Some t' \<and> pinned t' = pinned t
        \<and> t_state t' = QUEUED \<and> t_attempt t' = t_attempt t + 1)"
proof -
  have inv: "db_inv d" and wk: "find_worker d w \<noteq> None" and el: "eligible (candidate_ok caps []) [] d t"
    and over: "\<forall>u \<in> set (tasks d). t_id u \<noteq> i \<longrightarrow> is_terminal (t_state u)"
    and caps: "\<forall>tn \<in> set (tenants d). 1 \<le> max_concurrent_tasks tn"
    using assms by (auto simp: only_waiting_def)
  have t: "t \<in> set (tasks d)" "t_id t = i" using find_task_SomeD [OF assms(2)] by simp_all
  have idle: "running_of d tn = 0" for tn
  proof (rule running_none, rule ballI)
    fix u assume u: "u \<in> set (tasks d)"
    show "t_state u \<noteq> RUNNING"
    proof (cases "t_id u = i")
      case True
      then have "find_task d i = Some u" using find_row [OF db_inv_ids [OF inv] u] by simp
      then show ?thesis using assms(2) el by (simp add: eligible_def)
    next
      case False
      then show ?thesis using over u by (auto simp: is_terminal_def TERMINAL_def)
    qed
  qed
  have slack: "1 \<le> max_concurrent_tasks tn - int (running_of d (tn_id tn))" if "tn \<in> set (tenants d)" for tn
    using that caps idle by simp
  obtain j where j: "chosen 1 DEFAULT_POLICY caps [] d = [j]"
    using chosen_first [OF inv wk slack t(1) el] by blast
  obtain row d1 u where c: "claim_tasks w 1 ttl DEFAULT_POLICY caps [] d = Inr ([row], d1)" "t_id row = j" "db_inv d1"
    and u: "find_task d j = Some u" "eligible (candidate_ok caps []) [] d u" "find_task d1 j = Some row"
      "pinned row = pinned u" "t_state row = RUNNING" "t_attempt row = t_attempt u + 1" "lease_worker_id row = Some w"
    and same: "\<forall>k. k \<noteq> j \<longrightarrow> find_task d1 k = find_task d k" "tenants d1 = tenants d" "workers d1 = workers d"
      "now d1 = now d"
    using claim_one [OF inv wk j, of ttl] by blast
  have "u \<in> set (tasks d)" "t_id u = j" using find_task_SomeD [OF u(1)] by simp_all
  then have ji: "j = i" using over u(2) by (auto simp: eligible_def is_terminal_def TERMINAL_def)
  then have ut: "u = t" using u(1) assms(2) by simp
  let ?k = "Abandoned ''worker_shutdown''"
  have own: "owns d1 j (t_attempt row) w" using u(3,5,7) by (simp add: owns_iff)
  obtain r d2 where k: "complete ?k j (t_attempt row) w d1 = Inr (r, d2)" "db_inv d2"
    using complete_total [OF c(3)] by blast
  have hb: "claim_and_hand_back w ttl caps d = d2"
    using c(1,2) k(1) by (simp add: claim_and_hand_back_def abandon_one_def del: complete.simps)
  note fr = complete_frame [OF c(3) k(1)]
  have ap: "applied r" by (rule complete_owner_applied [OF c(3) own k(1)])
  have ka: "complete_abandoned j (t_attempt row) w ''worker_shutdown'' d1 = Inr (r, d2)" using k(1) by simp
  obtain t' where t': "find_task d2 j = Some t'" "t_state t' = QUEUED" "t_attempt t' = t_attempt row"
    "pinned t' = pinned row" "available_at t' = now d1"
  proof (rule abandoned.complete_result [OF c(3) ka ap])
    fix v v' assume v: "find_task d1 j = Some v" "v' = set_row (cas_set (now d1)
        (abandoned_cas (t_attempt row) w ''worker_shutdown'' (now d1))) v" "find_task d2 j = Some v'"
      "t_state v' = to_state (abandoned_cas (t_attempt row) w ''worker_shutdown'' (now d1))" "t_attempt v' = t_attempt v"
    have "available_at v' = now d1" by (simp add: v(2) set_row_cas abandoned_cas_def)
    moreover have "v = row" using v(1) u(3) by simp
    ultimately show thesis using that [OF v(3)] v(2,4,5) by (simp add: abandoned_cas_def)
  qed
  have pin: "pinned t' = pinned t" using t'(4) u(4) ut by simp
  have other: "find_task d2 k = find_task d k" if "k \<noteq> i" for k
    using fr(1) [of k] same(1) that ji by simp
  have "eligible (candidate_ok caps []) [] d2 t'"
    using t'(2,5) fr(2) el candidate_pinned [OF pin] by (simp add: eligible_def)
  moreover have "find_worker d2 w \<noteq> None" using wk fr(3) same(3) by (simp add: find_worker_def)
  moreover have "\<forall>u \<in> set (tasks d2). t_id u \<noteq> i \<longrightarrow> is_terminal (t_state u)"
    unfolding only_waiting_found [OF db_inv_ids [OF k(2)]]
    using over [unfolded only_waiting_found [OF db_inv_ids [OF inv]]] other by metis
  ultimately have "only_waiting w caps i d2"
    using k(2) t'(1) ji caps fr(4) same(2) by (simp add: only_waiting_def)
  then show ?thesis using hb t' pin u(6) ut ji by simp
qed

text \<open>
  C39. The bound on attempts is not a bound. A task handed back by a worker that shuts down is queued
  again, due at once, whatever its attempt number and its \<open>max_attempts\<close>; the next claim takes it
  and raises the number again. So, when \<open>i\<close> is the only task that is not over, a worker that is
  restarted \<open>n\<close> times while it runs the task leaves it queued with \<open>n\<close> attempts more than it had,
  each opened and closed in its history, for every \<open>n\<close>: for \<open>n\<close> of at least \<open>max_attempts\<close> the
  next claim starts an attempt beyond the bound.
\<close>

theorem attempts_exceed_their_bound:
  assumes "only_waiting w caps i d" and "find_task d i = Some t"
  shows "\<exists>t'. find_task ((claim_and_hand_back w ttl caps ^^ n) d) i = Some t' \<and> t_state t' = QUEUED
    \<and> t_attempt t' = t_attempt t + int n \<and> t_max_attempts t' = t_max_attempts t
    \<and> length (attempts_of ((claim_and_hand_back w ttl caps ^^ n) d) i) = nat (t_attempt t + int n)
    \<and> only_waiting w caps i ((claim_and_hand_back w ttl caps ^^ n) d)"
proof -
  have "only_waiting w caps i ((claim_and_hand_back w ttl caps ^^ n) d)
    \<and> (\<exists>t'. find_task ((claim_and_hand_back w ttl caps ^^ n) d) i = Some t' \<and> t_state t' = QUEUED
      \<and> t_attempt t' = t_attempt t + int n \<and> pinned t' = pinned t)"
  proof (induction n)
    case 0
    then show ?case using assms by (auto simp: only_waiting_def eligible_def)
  next
    case (Suc n)
    then obtain t' where "find_task ((claim_and_hand_back w ttl caps ^^ n) d) i = Some t'"
      "t_attempt t' = t_attempt t + int n" "pinned t' = pinned t" by blast
    then show ?case using hand_back_step [OF conjunct1 [OF Suc], of t' ttl] by auto
  qed
  then obtain t' where w: "only_waiting w caps i ((claim_and_hand_back w ttl caps ^^ n) d)"
    and t': "find_task ((claim_and_hand_back w ttl caps ^^ n) d) i = Some t'" "t_state t' = QUEUED"
      "t_attempt t' = t_attempt t + int n" "pinned t' = pinned t" by blast
  have "log_ok t' (attempts_of ((claim_and_hand_back w ttl caps ^^ n) d) i)"
    by (rule db_inv_task(2) [OF _ t'(1)]) (use w in \<open>simp add: only_waiting_def\<close>)
  then have "map ta_attempt (attempts_of ((claim_and_hand_back w ttl caps ^^ n) d) i) = [1..t_attempt t']"
    by (simp add: log_ok_def)
  from arg_cong [OF this, of length]
  have "length (attempts_of ((claim_and_hand_back w ttl caps ^^ n) d) i) = nat (t_attempt t')" by simp
  then show ?thesis using w t' pinned_columns(4) [OF t'(4)] by (intro exI [of _ t']) simp
qed

section \<open>Two claims and one tenant\<close>

text \<open>
  A claim that waits. Its candidates are locked, and the slack of their tenants is counted, on the
  snapshot \<open>snap\<close> of the \<open>SELECT .. FOR UPDATE\<close>; that statement then blocks on the row of a tenant
  until the claim that holds it commits, and the \<open>UPDATE\<close> runs on the state \<open>d\<close> of that moment.
  The other claim does not change the tenant's row, so the select list is not evaluated again, and
  the count stays that of the snapshot. A claim that does not wait is \<open>claim_tasks\<close>.
\<close>

definition claim_after_wait ::
  "string \<Rightarrow> int \<Rightarrow> int \<Rightarrow> claim_policy \<Rightarrow> string list \<Rightarrow> uuid list \<Rightarrow> db \<Rightarrow> db \<Rightarrow> exn + (task list \<times> db)" where
  "claim_after_wait w limit ttl policy caps locked snap d =
     (let ids = claimed_ids (claim_rounds MAX_ROUNDS limit (fetch_candidates caps policy locked) snap claim_start)
      in if ids = [] then Inr ([], d) else grant_leases ids w ttl d)"

lemma claim_without_wait: "claim_after_wait w limit ttl policy caps locked d d = claim_tasks w limit ttl policy caps locked d"
  by (simp add: claim_after_wait_def claim_tasks_def)

lemma claim_after_wait_eq:
  assumes "db_inv d" "claimable d (chosen limit policy caps locked snap)" "find_worker d w \<noteq> None"
  shows "\<exists>es. claim_after_wait w limit ttl policy caps locked snap d =
    Inr (claimed_rows (chosen limit policy caps locked snap) w ttl d,
         granted_db (chosen limit policy caps locked snap) w ttl es d)"
proof (cases "chosen limit policy caps locked snap = []")
  case True
  then show ?thesis
    by (intro exI [of _ "[]"])
      (simp add: claim_after_wait_def chosen_def claimed_rows_def granted_db_def sql_update_def)
next
  case False
  then show ?thesis
    using grant_leases_eq [OF assms, of ttl] by (auto simp: claim_after_wait_def chosen_def)
qed

text \<open>It is one of the platform's transactions.\<close>

lemma claim_after_wait_commits:
  assumes "find_worker d w \<noteq> None" "claimable d (chosen limit policy caps locked snap)"
    and "claim_after_wait w limit ttl policy caps locked snap d = Inr (rows, d')"
  shows "commit d d' \<or> d' = d"
  using assms c_claim_late [OF assms(1,2)] by (auto simp: claim_after_wait_def chosen_def Let_def split: if_splits)

definition rows_of :: "uuid \<Rightarrow> task list \<Rightarrow> nat" where
  "rows_of i rows = length (filter (\<lambda>r. t_tenant_id r = i) rows)"

lemma rows_of_claimed:
  assumes "claimable d ids"
  shows "rows_of i (claimed_rows ids w ttl d) = claimed_for d ids i"
proof -
  have "map_option t_tenant_id (find_task d j) = Some i \<longleftrightarrow> t_tenant_id (the (find_task d j)) = i"
    if "j \<in> set ids" for j using that assms by (auto simp: claimable_def)
  then have "filter (\<lambda>j. map_option t_tenant_id (find_task d j) = Some i) ids =
      filter (\<lambda>j. t_tenant_id (the (find_task d j)) = i) ids" by (intro filter_cong) simp_all
  then show ?thesis by (simp add: rows_of_def claimed_rows_def claimed_for_def filter_map comp_def)
qed

lemma chosen_facts:
  assumes "db_inv d"
  shows "j \<in> set (chosen limit policy caps locked d) \<Longrightarrow> j \<notin> set locked"
    and "tn \<in> set (tenants d) \<Longrightarrow> 0 < claimed_for d (chosen limit policy caps locked d) (tn_id tn) \<Longrightarrow>
      int (running_of d (tn_id tn)) + int (claimed_for d (chosen limit policy caps locked d) (tn_id tn))
        \<le> max_concurrent_tasks tn"
proof -
  obtain st where st: "round_ok (candidate_ok caps locked) limit d st" "claimed_ids st = chosen limit policy caps locked d"
    using chosen_round [OF assms] by blast
  show "j \<notin> set locked" if jc: "j \<in> set (chosen limit policy caps locked d)"
  proof -
    obtain t where t: "find_task d j = Some t" "candidate_ok caps locked t"
      using st jc unfolding round_ok_def chosen_ok_def eligible_def by metis
    then show ?thesis
      using find_task_SomeD [OF t(1)] by (auto simp: candidate_ok_def keyed_ok_def fallback_ok_def split: if_splits)
  qed
  show "int (running_of d (tn_id tn)) + int (claimed_for d (chosen limit policy caps locked d) (tn_id tn))
        \<le> max_concurrent_tasks tn"
    if "tn \<in> set (tenants d)" "0 < claimed_for d (chosen limit policy caps locked d) (tn_id tn)"
  proof -
    have "slack_ok d st tn" using st(1) that(1) by (simp add: round_ok_def slacks_ok_def)
    then show ?thesis using that(2) by (simp add: slack_ok_def st(2) Let_def)
  qed
qed

text \<open>
  C40. The bound on a tenant's running tasks can be passed by two claims that overlap, although the
  second waits for the lock the first holds on the tenant. Neither fails. Each stays within the
  bound against what it counted, which for both is the number running before the first; but the
  second counted before it waited, so both numbers come on top: the tenant ends with what was
  running and all the tasks of the two. With one slot free and a task of the tenant claimed by each,
  that is one more than the bound. A second claim that counted after its wait would be one of C10.
\<close>

theorem overlapping_claims_pass_the_cap:
  assumes "db_inv d" and "find_worker d w \<noteq> None" and "find_worker d w' \<noteq> None" and "tn \<in> set (tenants d)"
    and "claim_tasks w limit ttl policy caps locked d = Inr (rows, d1)"
  shows "\<exists>rows' d2. claim_after_wait w' limit' ttl policy caps' (locked @ map t_id rows) d d1 = Inr (rows', d2) \<and> db_inv d2
    \<and> running_of d2 (tn_id tn) = running_of d (tn_id tn) + rows_of (tn_id tn) rows + rows_of (tn_id tn) rows'
    \<and> (0 < rows_of (tn_id tn) rows \<longrightarrow>
         int (running_of d (tn_id tn)) + int (rows_of (tn_id tn) rows) \<le> max_concurrent_tasks tn)
    \<and> (0 < rows_of (tn_id tn) rows' \<longrightarrow>
         int (running_of d (tn_id tn)) + int (rows_of (tn_id tn) rows') \<le> max_concurrent_tasks tn)
    \<and> (0 < rows_of (tn_id tn) rows \<and> 0 < rows_of (tn_id tn) rows'
         \<and> int (running_of d (tn_id tn)) + 1 = max_concurrent_tasks tn \<longrightarrow>
         int (running_of d2 (tn_id tn)) = max_concurrent_tasks tn + 1)"
proof -
  let ?i = "tn_id tn" and ?l = "locked @ map t_id rows"
  let ?ids = "chosen limit policy caps locked d" and ?ids' = "chosen limit' policy caps' ?l d"
  note cl = chosen_cl [OF assms(1), of limit policy caps locked]
  obtain es where c1: "rows = claimed_rows ?ids w ttl d" "d1 = granted_db ?ids w ttl es d"
    using claim_tasks_eq [OF assms(1,2), of limit ttl policy caps locked] assms(5) by auto
  have inv1: "db_inv d1" using claim_tasks_ok [OF assms(1,2,5)] by simp
  have w': "find_worker d1 w' \<noteq> None"
    using assms(3) roster.claim_tasks_view [OF assms(5)] by (simp add: find_worker_def)
  have ids: "set ?ids = t_id ` set rows"
    using claimed_rows_facts(1) [OF cl, of w ttl] by (metis c1(1) list.set_map)
  have keep: "find_task d1 j = find_task d j" if "j \<in> set ?ids'" for j
  proof -
    have "j \<notin> set ?ids" using chosen_facts(1) [OF assms(1) that] ids by auto
    then show ?thesis
      by (cases "find_task d j")
        (auto simp: c1(2) granted_db_def find_task_def task_rows.find_update dest: find_by_SomeD)
  qed
  then have cl': "claimable d1 ?ids'"
    using chosen_cl [OF assms(1), of limit' policy caps' ?l] by (simp add: claimable_def)
  obtain es' where c2: "claim_after_wait w' limit' ttl policy caps' ?l d d1 =
      Inr (claimed_rows ?ids' w' ttl d1, granted_db ?ids' w' ttl es' d1)"
    using claim_after_wait_eq [OF inv1 cl' w'] by blast
  have inv2: "db_inv (granted_db ?ids' w' ttl es' d1)"
  proof (cases "?ids' = []")
    case True
    then show ?thesis using c2 inv1 by (simp add: claim_after_wait_def chosen_def)
  next
    case False
    then show ?thesis using c2 grant_leases_ok [OF inv1 w' cl'] by (simp add: claim_after_wait_def chosen_def)
  qed
  have for': "claimed_for d1 ?ids' ?i = claimed_for d ?ids' ?i"
    unfolding claimed_for_def using keep by (intro arg_cong [where f = length] filter_cong) simp_all
  have n: "rows_of ?i rows = claimed_for d ?ids ?i" "rows_of ?i (claimed_rows ?ids' w' ttl d1) = claimed_for d ?ids' ?i"
    using rows_of_claimed [OF cl, of ?i w ttl] rows_of_claimed [OF cl', of ?i w' ttl] for' c1(1) by simp_all
  have run: "running_of (granted_db ?ids' w' ttl es' d1) ?i = running_of d ?i + claimed_for d ?ids ?i + claimed_for d ?ids' ?i"
    using running_of_granted [OF inv1 cl', of w' ttl es' ?i] running_of_granted [OF assms(1) cl, of w ttl es ?i]
      for' c1(2) by simp
  note bound = chosen_facts(2) [OF assms(1,4), of limit policy caps locked]
    chosen_facts(2) [OF assms(1,4), of limit' policy caps' ?l]
  show ?thesis
    by (rule exI [of _ "claimed_rows ?ids' w' ttl d1"], rule exI [of _ "granted_db ?ids' w' ttl es' d1"])
      (use c2 inv2 bound in \<open>auto simp: n run\<close>)
qed

section \<open>Witnesses\<close>

definition flagged_db :: db where
  "flagged_db = demo_db\<lparr>now := 50, tasks := [demo_task\<lparr>cancel_requested := True\<rparr>]\<rparr>"

lemma flagged_db_inv: "db_inv flagged_db"
proof -
  let ?t = "demo_task\<lparr>cancel_requested := True\<rparr>"
  have "row_wf ?t" by (simp add: row_wf_def demo_task_def lease_coherent_def)
  moreover have "log_ok ?t (attempts_of flagged_db 7)"
    by (simp add: log_ok_def attempts_of_def flagged_db_def demo_defs upto.simps)
  ultimately show ?thesis
    by (simp add: db_inv_def ids_distinct_def tasks_ok_def task_ok_def keys_unique_def tenant_refs_def
        attempt_refs_def event_refs_def flagged_db_def demo_db_def empty_db_def)
       (simp add: demo_defs)
qed

theorem reaper_ignores_cancel_witness:
  "\<exists>res d' t'. reap_expired_leases 1 [] flagged_db = Inr (res, d') \<and> find_task d' 7 = Some t'
     \<and> t_state t' = QUEUED \<and> cancel_requested t'"
proof -
  let ?t = "demo_task\<lparr>cancel_requested := True\<rparr>"
  have "find_task flagged_db 7 = Some ?t" "t_state ?t = RUNNING" "cancel_requested ?t"
    "lease_expired (now flagged_db) ?t" "t_attempt ?t < t_max_attempts ?t" "length (tasks flagged_db) \<le> 1"
    by (simp_all add: find_task_def flagged_db_def demo_task_def lease_expired_def)
  then show ?thesis using reaper_ignores_cancel [OF flagged_db_inv, of 7 ?t "[]" 1] by auto
qed

text \<open>The run above, a thousand seconds later: the task waits for its second attempt.\<close>

definition waited_db :: db where
  "waited_db = run5\<lparr>now := 1000\<rparr>"

lemma waited_facts:
  "case run_claim ''w1'' waited_db of Inl _ \<Rightarrow> False | Inr (rows, _) \<Rightarrow> map t_id rows = [7]"
  "map_option (\<lambda>t. (first_started_at t, t_max_execution_time_s t)) (find_task waited_db 7) = Some (Some 10, 300)"
  "find_worker waited_db ''w1'' \<noteq> None" "now waited_db = 1000"
  by code_simp+

lemma waited_inv: "db_inv waited_db"
proof -
  have "db_inv run5"
    using commit_good [of run4 run5] platform.run [OF _ start_inv] reachable_inv [OF run_steps(1)]
      outcome_Inr [OF run_succeeds(6)] unfolding run5_def [symmetric]
    by (auto simp: sys_inv_def good_step_def simp del: complete.simps dest: c_complete)
  then show ?thesis
    by (rule db_inv_frame) (use \<open>db_inv run5\<close> in \<open>auto simp: waited_db_def db_inv_def event_refs_def\<close>)
qed

theorem retry_born_hung_witness:
  "\<exists>rows d' r. run_claim ''w1'' waited_db = Inr (rows, d') \<and> r \<in> set rows \<and> execution_time_exceeded (now d') r"
proof -
  obtain rows d' where c: "claim_tasks ''w1'' 1 30 DEFAULT_POLICY [] [] waited_db = Inr (rows, d')" "map t_id rows = [7]"
    using waited_facts(1) by (auto simp: run_claim_def split: sum.splits)
  then obtain r where r: "r \<in> set rows" "t_id r = 7" by auto
  obtain t where t: "find_task waited_db 7 = Some t" "first_started_at t = Some 10" "t_max_execution_time_s t = 300"
    using waited_facts(2) by auto
  have "10 + of_int (t_max_execution_time_s t) < now waited_db" by (simp add: t(3) waited_facts(4))
  then show ?thesis
    using retry_born_hung [OF waited_inv waited_facts(3) c(1) r(1), of t 10] t r c(1) by (auto simp: run_claim_def)
qed

text \<open>The task of the run above, submitted with a single attempt, after five restarts of its worker.\<close>

lemma hand_back_facts:
  "map_option (\<lambda>t. (t_id t, t_attempt t, t_max_attempts t)) (find_task run3 7) = Some (7, 0, 1)"
  "list_all (\<lambda>t. t_id t = 7 \<and> eligible (candidate_ok [] []) [] run3 t) (tasks run3)"
  "list_all (\<lambda>tn. 1 \<le> max_concurrent_tasks tn) (tenants run3)" "find_worker run3 ''w1'' \<noteq> None"
  by code_simp+

lemma run3_inv: "db_inv run3"
proof -
  let ?S = "\<lambda>d. \<lparr>sys_db = d, in_flight = []\<rparr>"
  have c: "commit (empty_db 10) run1" "commit run2 run3"
    using outcome_Inr [OF run_succeeds(1)] outcome_Inr [OF run_succeeds(3)]
    unfolding run1_def [symmetric] run3_def [symmetric] by (blast intro: c_create_tenant c_register)+
  have "get_tenant run1 1 \<noteq> None" by code_simp
  then have "sys_step\<^sup>*\<^sup>* (?S run1) (?S run2)" using run_submit [OF _ run_succeeds(2)] by (simp add: run2_def)
  moreover have "sys_step\<^sup>*\<^sup>* (start 10) (?S run1)" using commits [OF c(1), of "[]"] by (simp add: start_def)
  ultimately have "reachable (?S run3)" using commits [OF c(2)] unfolding reachable_def by (meson rtranclp_trans)
  then show ?thesis using reachable_inv [of "?S run3"] by (simp add: sys_inv_def)
qed

theorem attempts_exceed_their_bound_witness:
  "\<exists>t'. find_task ((claim_and_hand_back ''w1'' 30 [] ^^ 5) run3) 7 = Some t' \<and> t_state t' = QUEUED
     \<and> t_attempt t' = 5 \<and> t_max_attempts t' = 1"
proof -
  obtain t where t: "find_task run3 7 = Some t" "t_attempt t = 0" "t_max_attempts t = 1"
    using hand_back_facts(1) by auto
  have "only_waiting ''w1'' [] 7 run3"
    using run3_inv hand_back_facts(2-4) t(1) find_task_SomeD [OF t(1)]
    by (auto simp: only_waiting_def list_all_iff)
  then show ?thesis using attempts_exceed_their_bound [OF _ t(1), of "''w1''" "[]" 5 30] t by auto
qed

text \<open>A tenant that may have one task running, two tasks submitted, two workers registered.\<close>

definition race1 :: db where
  "race1 = outcome_db (create_tenant_request 1 \<lparr>tc_name = ''acme'', tc_max_concurrent_tasks = 1,
     tc_max_queued_tasks = 100\<rparr> (empty_db 10))"

definition race2 :: db where
  "race2 = outcome_db (submit_task 7 run_submission race1)"

definition race3 :: db where
  "race3 = outcome_db (submit_task 8 run_submission race2)"

definition race4 :: db where
  "race4 = outcome_db (register_worker ''w1'' ''h'' 1 2 [] race3)"

definition race5 :: db where
  "race5 = outcome_db (register_worker ''w2'' ''h'' 2 2 [] race4)"

lemma race_succeeds:
  "succeeds (create_tenant_request 1 \<lparr>tc_name = ''acme'', tc_max_concurrent_tasks = 1,
     tc_max_queued_tasks = 100\<rparr> (empty_db 10))"
  "succeeds (submit_task 7 run_submission race1)" "succeeds (submit_task 8 run_submission race2)"
  "succeeds (register_worker ''w1'' ''h'' 1 2 [] race3)" "succeeds (register_worker ''w2'' ''h'' 2 2 [] race4)"
  by code_simp+

lemma race_facts:
  "case run_claim ''w1'' race5 of Inl _ \<Rightarrow> False | Inr (rows, _) \<Rightarrow> map t_id rows = [7] \<and> rows_of 1 rows = 1"
  "case run_claim ''w1'' race5 of Inl _ \<Rightarrow> False | Inr (rows, d1) \<Rightarrow>
     (case claim_after_wait ''w2'' 1 30 DEFAULT_POLICY [] [7] race5 d1 of
        Inl _ \<Rightarrow> False | Inr (rows', _) \<Rightarrow> map t_id rows' = [8] \<and> rows_of 1 rows' = 1)"
  "map (\<lambda>tn. (tn_id tn, max_concurrent_tasks tn)) (tenants race5) = [(1, 1)]" "running_of race5 1 = 0"
  "find_worker race5 ''w1'' \<noteq> None" "find_worker race5 ''w2'' \<noteq> None"
  by code_simp+

lemma race_inv: "db_inv race5"
proof -
  let ?S = "\<lambda>d. \<lparr>sys_db = d, in_flight = []\<rparr>"
  have c1: "commit (empty_db 10) race1"
    using outcome_Inr [OF race_succeeds(1)] unfolding race1_def [symmetric] by (blast intro: c_create_tenant)
  have c4: "commit race3 race4" and c5: "commit race4 race5"
    using outcome_Inr [OF race_succeeds(4)] outcome_Inr [OF race_succeeds(5)]
    unfolding race4_def [symmetric] race5_def [symmetric] by (blast intro: c_register)+
  have t: "get_tenant race1 1 \<noteq> None" "get_tenant race2 1 \<noteq> None" by code_simp+
  have s: "sys_step\<^sup>*\<^sup>* (?S race1) (?S race2)" "sys_step\<^sup>*\<^sup>* (?S race2) (?S race3)"
    using run_submit [OF t(1) race_succeeds(2)] run_submit [OF t(2) race_succeeds(3)]
    by (simp_all add: race2_def race3_def)
  have "sys_step (start 10) (?S race1)" using s_commit [of "start 10" race1] c1 by (simp add: start_def)
  then have "sys_step\<^sup>*\<^sup>* (start 10) (?S race3)" using s by (meson converse_rtranclp_into_rtranclp rtranclp_trans)
  then have "sys_step\<^sup>*\<^sup>* (start 10) (?S race5)" using commits [OF c4] commits [OF c5] by (meson rtranclp_trans)
  then have "reachable (?S race5)" by (auto simp: reachable_def)
  then show ?thesis using reachable_inv [of "?S race5"] by (simp add: sys_inv_def)
qed

theorem overlapping_claims_pass_the_cap_witness:
  "\<exists>tn rows d1 rows' d2. tn \<in> set (tenants race5) \<and> max_concurrent_tasks tn = 1
     \<and> run_claim ''w1'' race5 = Inr (rows, d1) \<and> map t_id rows = [7]
     \<and> claim_after_wait ''w2'' 1 30 DEFAULT_POLICY [] [7] race5 d1 = Inr (rows', d2) \<and> map t_id rows' = [8]
     \<and> running_of d2 (tn_id tn) = 2"
proof -
  obtain tn where tn: "tn \<in> set (tenants race5)" "tn_id tn = 1" "max_concurrent_tasks tn = 1"
    using race_facts(3) by (cases "tenants race5") auto
  obtain rows d1 where c: "claim_tasks ''w1'' 1 30 DEFAULT_POLICY [] [] race5 = Inr (rows, d1)"
    "map t_id rows = [7]" "rows_of 1 rows = 1"
    using race_facts(1) by (auto simp: run_claim_def split: sum.splits)
  obtain rows' d2 where c2: "claim_after_wait ''w2'' 1 30 DEFAULT_POLICY [] [7] race5 d1 = Inr (rows', d2)"
    "map t_id rows' = [8]" "rows_of 1 rows' = 1"
    using race_facts(2) c(1) by (auto simp: run_claim_def split: sum.splits)
  have "running_of d2 (tn_id tn) = 2"
    using overlapping_claims_pass_the_cap [OF race_inv race_facts(5,6) tn(1) c(1), of 1 "[]"] c c2 tn race_facts(4)
    by simp
  then show ?thesis using tn c c2 by (auto simp: run_claim_def)
qed

end
