(* ===== verification/Ddl.thy ===== *)
theory Ddl
  imports Prelude
begin

text \<open>
  Data definition as PostgreSQL does it: a catalog of types, tables, indexes, functions and
  triggers, the statements of the migrations over it with the errors that refuse them, and the
  meaning of a \<open>CHECK\<close> or partial-index expression on a row.
\<close>

section \<open>Expressions\<close>

datatype sql_expr =
    Col string
  | Num int
  | Str string
  | Eq sql_expr sql_expr
  | Ne sql_expr sql_expr
  | Ge sql_expr sql_expr
  | Both sql_expr sql_expr
  | In_list sql_expr "string list"
  | Is_not_null sql_expr

primrec columns_of :: "sql_expr \<Rightarrow> string list" where
  "columns_of (Col c) = [c]"
| "columns_of (Num n) = []"
| "columns_of (Str s) = []"
| "columns_of (Eq a b) = columns_of a @ columns_of b"
| "columns_of (Ne a b) = columns_of a @ columns_of b"
| "columns_of (Ge a b) = columns_of a @ columns_of b"
| "columns_of (Both a b) = columns_of a @ columns_of b"
| "columns_of (In_list a vs) = columns_of a"
| "columns_of (Is_not_null a) = columns_of a"

text \<open>Values of a row and the three-valued logic over them.\<close>

datatype sql_value = VNull | VNum int | VStr string | VTime rat | VUuid uuid | VBool bool

fun sql_compare :: "(sql_value \<Rightarrow> sql_value \<Rightarrow> bool) \<Rightarrow> sql_value \<Rightarrow> sql_value \<Rightarrow> sql_value" where
  "sql_compare r VNull v = VNull"
| "sql_compare r v VNull = VNull"
| "sql_compare r v v' = VBool (r v v')"

fun num_ge :: "sql_value \<Rightarrow> sql_value \<Rightarrow> bool" where
  "num_ge (VNum m) (VNum n) \<longleftrightarrow> n \<le> m"
| "num_ge v v' \<longleftrightarrow> False"

fun sql_and :: "sql_value \<Rightarrow> sql_value \<Rightarrow> sql_value" where
  "sql_and (VBool False) v = VBool False"
| "sql_and v (VBool False) = VBool False"
| "sql_and (VBool True) v = v"
| "sql_and v (VBool True) = v"
| "sql_and v v' = VNull"

primrec eval_expr :: "(string \<Rightarrow> sql_value) \<Rightarrow> sql_expr \<Rightarrow> sql_value" where
  "eval_expr row (Col c) = row c"
| "eval_expr row (Num n) = VNum n"
| "eval_expr row (Str s) = VStr s"
| "eval_expr row (Eq a b) = sql_compare (=) (eval_expr row a) (eval_expr row b)"
| "eval_expr row (Ne a b) = sql_compare (\<noteq>) (eval_expr row a) (eval_expr row b)"
| "eval_expr row (Ge a b) = sql_compare num_ge (eval_expr row a) (eval_expr row b)"
| "eval_expr row (Both a b) = sql_and (eval_expr row a) (eval_expr row b)"
| "eval_expr row (In_list a vs) = sql_compare (\<lambda>v _. v \<in> VStr ` set vs) (eval_expr row a) (VStr '''')"
| "eval_expr row (Is_not_null a) = VBool (eval_expr row a \<noteq> VNull)"

text \<open>A \<open>CHECK\<close> refuses a row only when it is false; a partial index holds the rows where it is true.\<close>

definition check_passes :: "(string \<Rightarrow> sql_value) \<Rightarrow> sql_expr \<Rightarrow> bool" where
  "check_passes row e \<longleftrightarrow> eval_expr row e \<noteq> VBool False"

definition in_partial_index :: "(string \<Rightarrow> sql_value) \<Rightarrow> sql_expr option \<Rightarrow> bool" where
  "in_partial_index row w \<longleftrightarrow> (case w of None \<Rightarrow> True | Some e \<Rightarrow> eval_expr row e = VBool True)"

section \<open>The catalog\<close>

datatype sql_type =
    UUID_T | TEXT_T | INTEGER_T | SMALLINT_T | BIGINT_T | BOOLEAN_T | JSONB_T | TIMESTAMPTZ_T | TEXT_ARRAY
  | ENUM_T string

datatype on_delete = NO_ACTION | RESTRICT | CASCADE

datatype server_default = Literal string | Expression string

text \<open>A column as the source declares it: a name, a type and the keywords of \<open>sa.Column\<close>.\<close>

datatype column_option =
    PRIMARY_KEY
  | UNIQUE
  | NOT_NULL
  | AUTOINCREMENT
  | DEFAULT server_default
  | REFERENCES string string on_delete

datatype table_item =
    Column string sql_type "column_option list"
  | Check string sql_expr
  | Unique_constraint string "string list"
  | Primary_key_constraint string "string list"

record column =
  col_name :: string
  col_type :: sql_type
  col_not_null :: bool
  col_default :: "server_default option"

datatype constraint_def =
    Primary_key "string list"
  | Unique_key "string list"
  | Foreign_key "string list" string "string list" on_delete
  | Check_that sql_expr

record table =
  tb_name :: string
  tb_columns :: "column list"
  tb_constraints :: "(string \<times> constraint_def) list"

datatype index_key = Asc_key string | Desc_key string

record index =
  ix_name :: string
  ix_table :: string
  ix_keys :: "index_key list"
  ix_unique :: bool
  ix_where :: "sql_expr option"

record catalog =
  cat_extensions :: "string list"
  cat_enums :: "(string \<times> string list) list"
  cat_tables :: "table list"
  cat_indexes :: "index list"
  cat_functions :: "string list"
  cat_triggers :: "(string \<times> string \<times> string) list"

definition empty_catalog :: catalog where
  "empty_catalog = \<lparr>cat_extensions = [], cat_enums = [], cat_tables = [], cat_indexes = [],
     cat_functions = [], cat_triggers = []\<rparr>"

definition find_table :: "catalog \<Rightarrow> string \<Rightarrow> table option" where
  "find_table c n = find_by tb_name n (cat_tables c)"

fun constraint_columns :: "constraint_def \<Rightarrow> string list" where
  "constraint_columns (Primary_key cs) = cs"
| "constraint_columns (Unique_key cs) = cs"
| "constraint_columns (Foreign_key cs t rs od) = cs"
| "constraint_columns (Check_that e) = columns_of e"

fun is_key :: "constraint_def \<Rightarrow> bool" where
  "is_key (Primary_key cs) = True"
| "is_key (Unique_key cs) = True"
| "is_key (Foreign_key cs t rs od) = False"
| "is_key (Check_that e) = False"

text \<open>Tables, indexes and the indexes behind keys share one name space.\<close>

definition relation_names :: "catalog \<Rightarrow> string list" where
  "relation_names c = map tb_name (cat_tables c) @ map ix_name (cat_indexes c) @
     concat (map (\<lambda>t. map fst (filter (\<lambda>(n, k). is_key k) (tb_constraints t))) (cat_tables c))"

section \<open>From declarations to a table\<close>

definition default_of :: "column_option list \<Rightarrow> server_default option" where
  "default_of os = (case List.map_filter (\<lambda>x. case x of DEFAULT v \<Rightarrow> Some v | _ \<Rightarrow> None) os of
     [] \<Rightarrow> None | v # _ \<Rightarrow> Some v)"

definition column_of :: "string \<Rightarrow> sql_type \<Rightarrow> column_option list \<Rightarrow> column" where
  "column_of n ty os = \<lparr>col_name = n, col_type = ty,
     col_not_null = (PRIMARY_KEY \<in> set os \<or> NOT_NULL \<in> set os), col_default = default_of os\<rparr>"

text \<open>The names PostgreSQL gives the constraints that a column declares.\<close>

definition option_constraints :: "string \<Rightarrow> string \<Rightarrow> column_option list \<Rightarrow> (string \<times> constraint_def) list" where
  "option_constraints t n os = List.map_filter (\<lambda>x. case x of
       PRIMARY_KEY \<Rightarrow> Some (t @ ''_pkey'', Primary_key [n])
     | UNIQUE \<Rightarrow> Some (t @ ''_'' @ n @ ''_key'', Unique_key [n])
     | REFERENCES rt rc od \<Rightarrow> Some (t @ ''_'' @ n @ ''_fkey'', Foreign_key [n] rt [rc] od)
     | _ \<Rightarrow> None) os"

definition item_columns :: "table_item list \<Rightarrow> column list" where
  "item_columns = List.map_filter (\<lambda>i. case i of Column n ty os \<Rightarrow> Some (column_of n ty os) | _ \<Rightarrow> None)"

fun item_constraints :: "string \<Rightarrow> table_item \<Rightarrow> (string \<times> constraint_def) list" where
  "item_constraints t (Column n ty os) = option_constraints t n os"
| "item_constraints t (Check n e) = [(n, Check_that e)]"
| "item_constraints t (Unique_constraint n cs) = [(n, Unique_key cs)]"
| "item_constraints t (Primary_key_constraint n cs) = [(n, Primary_key cs)]"

definition table_of :: "string \<Rightarrow> table_item list \<Rightarrow> table" where
  "table_of t items = \<lparr>tb_name = t, tb_columns = item_columns items,
     tb_constraints = concat (map (item_constraints t) items)\<rparr>"

section \<open>Statements\<close>

datatype ddl =
    Create_extension string
  | Create_enum string "string list"
  | Drop_type string
  | Create_table string "table_item list"
  | Drop_table string
  | Create_index string string "index_key list" bool "sql_expr option"
  | Drop_index string
  | Create_foreign_key string string string "string list" "string list" on_delete
  | Create_check_constraint string string sql_expr
  | Drop_constraint string string
  | Add_column string table_item
  | Drop_column string string
  | Create_function string
  | Drop_function string
  | Create_trigger string string string
  | Drop_trigger string string

datatype ddl_error =
    Duplicate_object string
  | Undefined_object string
  | Undefined_column string
  | Dependent_objects string
  | Invalid_reference string
  | Not_null_violation string

fun type_exists :: "catalog \<Rightarrow> sql_type \<Rightarrow> bool" where
  "type_exists c (ENUM_T n) = (n \<in> set (map fst (cat_enums c)))"
| "type_exists c ty = True"

text \<open>A foreign key must refer to a key of a table that exists, from columns that exist.\<close>

fun constraint_ok :: "catalog \<Rightarrow> column list \<Rightarrow> constraint_def \<Rightarrow> bool" where
  "constraint_ok c cols (Foreign_key cs rt rcs od) =
     (set cs \<subseteq> set (map col_name cols) \<and>
      (case find_table c rt of None \<Rightarrow> False
       | Some t \<Rightarrow> list_ex (\<lambda>(n, k). is_key k \<and> constraint_columns k = rcs) (tb_constraints t)))"
| "constraint_ok c cols k = (set (constraint_columns k) \<subseteq> set (map col_name cols))"

definition table_violation :: "catalog \<Rightarrow> table \<Rightarrow> ddl_error option" where
  "table_violation c t =
     (if tb_name t \<in> set (relation_names c) \<or> tb_name t \<in> set (map fst (cat_enums c))
        then Some (Duplicate_object (tb_name t))
      else if \<not> distinct (map col_name (tb_columns t)) then Some (Duplicate_object (tb_name t))
      else if \<not> list_all (\<lambda>x. type_exists c (col_type x)) (tb_columns t) then Some (Undefined_object (tb_name t))
      else if \<not> distinct (map fst (tb_constraints t)) then Some (Duplicate_object (tb_name t))
      else if \<not> list_all (\<lambda>(n, k). constraint_ok c (tb_columns t) k) (tb_constraints t)
        then Some (Invalid_reference (tb_name t))
      else if list_ex (\<lambda>(n, k). is_key k \<and> n \<in> set (relation_names c)) (tb_constraints t)
        then Some (Duplicate_object (tb_name t))
      else None)"

fun refers_to :: "string \<Rightarrow> constraint_def \<Rightarrow> bool" where
  "refers_to t (Foreign_key cs rt rcs od) = (rt = t)"
| "refers_to t k = False"

definition referenced :: "catalog \<Rightarrow> string \<Rightarrow> bool" where
  "referenced c t = list_ex (\<lambda>u. tb_name u \<noteq> t \<and> list_ex (\<lambda>(n, k). refers_to t k) (tb_constraints u)) (cat_tables c)"

fun key_column :: "index_key \<Rightarrow> string" where
  "key_column (Asc_key n) = n"
| "key_column (Desc_key n) = n"

definition index_columns :: "index \<Rightarrow> string list" where
  "index_columns i = map key_column (ix_keys i) @ (case ix_where i of None \<Rightarrow> [] | Some e \<Rightarrow> columns_of e)"

definition on_table :: "string \<Rightarrow> (table \<Rightarrow> ddl_error + table) \<Rightarrow> catalog \<Rightarrow> ddl_error + catalog" where
  "on_table t f c = (case find_table c t of
     None \<Rightarrow> Inl (Undefined_object t)
   | Some u \<Rightarrow> bindE (f u) (\<lambda>u'. Inr (c\<lparr>cat_tables := map (\<lambda>x. if tb_name x = t then u' else x) (cat_tables c)\<rparr>)))"

definition add_constraint :: "catalog \<Rightarrow> string \<Rightarrow> constraint_def \<Rightarrow> table \<Rightarrow> ddl_error + table" where
  "add_constraint c n k u =
     (if n \<in> set (map fst (tb_constraints u)) then Inl (Duplicate_object n)
      else if \<not> constraint_ok c (tb_columns u) k then Inl (Invalid_reference n)
      else Inr (u\<lparr>tb_constraints := tb_constraints u @ [(n, k)]\<rparr>))"

text \<open>
  A column added without a default and \<open>NOT NULL\<close> would fail on a table that has rows; every table
  is taken to have some.
\<close>

definition add_column :: "catalog \<Rightarrow> string \<Rightarrow> sql_type \<Rightarrow> column_option list \<Rightarrow> table \<Rightarrow> ddl_error + table" where
  "add_column c n ty os u =
     (let x = column_of n ty os in
      if n \<in> set (map col_name (tb_columns u)) then Inl (Duplicate_object n)
      else if \<not> type_exists c ty then Inl (Undefined_object n)
      else if col_not_null x \<and> col_default x = None then Inl (Not_null_violation n)
      else Inr (u\<lparr>tb_columns := tb_columns u @ [x],
                  tb_constraints := tb_constraints u @ option_constraints (tb_name u) n os\<rparr>))"

text \<open>Dropping a column drops the constraints and the indexes that mention it.\<close>

definition drop_column :: "string \<Rightarrow> table \<Rightarrow> ddl_error + table" where
  "drop_column n u =
     (if n \<notin> set (map col_name (tb_columns u)) then Inl (Undefined_column n)
      else Inr (u\<lparr>tb_columns := filter (\<lambda>x. col_name x \<noteq> n) (tb_columns u),
                  tb_constraints := filter (\<lambda>(m, k). n \<notin> set (constraint_columns k)) (tb_constraints u)\<rparr>))"

fun exec_ddl :: "ddl \<Rightarrow> catalog \<Rightarrow> ddl_error + catalog" where
  "exec_ddl (Create_extension n) c =
     Inr (if n \<in> set (cat_extensions c) then c else c\<lparr>cat_extensions := cat_extensions c @ [n]\<rparr>)"
| "exec_ddl (Create_enum n vs) c =
     (if n \<in> set (map fst (cat_enums c)) \<or> n \<in> set (map tb_name (cat_tables c)) then Inl (Duplicate_object n)
      else Inr (c\<lparr>cat_enums := cat_enums c @ [(n, vs)]\<rparr>))"
| "exec_ddl (Drop_type n) c =
     (if n \<notin> set (map fst (cat_enums c)) then Inl (Undefined_object n)
      else if list_ex (\<lambda>t. list_ex (\<lambda>x. col_type x = ENUM_T n) (tb_columns t)) (cat_tables c)
        then Inl (Dependent_objects n)
      else Inr (c\<lparr>cat_enums := filter (\<lambda>(m, vs). m \<noteq> n) (cat_enums c)\<rparr>))"
| "exec_ddl (Create_table n items) c =
     (let t = table_of n items in
      case table_violation c t of Some e \<Rightarrow> Inl e
      | None \<Rightarrow> Inr (c\<lparr>cat_tables := cat_tables c @ [t]\<rparr>))"
| "exec_ddl (Drop_table n) c =
     (if find_table c n = None then Inl (Undefined_object n)
      else if referenced c n then Inl (Dependent_objects n)
      else Inr (c\<lparr>cat_tables := filter (\<lambda>t. tb_name t \<noteq> n) (cat_tables c),
                  cat_indexes := filter (\<lambda>i. ix_table i \<noteq> n) (cat_indexes c),
                  cat_triggers := filter (\<lambda>(m, t, f). t \<noteq> n) (cat_triggers c)\<rparr>))"
| "exec_ddl (Create_index n t ks u w) c =
     (let i = \<lparr>ix_name = n, ix_table = t, ix_keys = ks, ix_unique = u, ix_where = w\<rparr> in
      if n \<in> set (relation_names c) then Inl (Duplicate_object n)
      else case find_table c t of None \<Rightarrow> Inl (Undefined_object t)
      | Some tb \<Rightarrow>
          if set (index_columns i) \<subseteq> set (map col_name (tb_columns tb))
          then Inr (c\<lparr>cat_indexes := cat_indexes c @ [i]\<rparr>) else Inl (Undefined_column n))"
| "exec_ddl (Drop_index n) c =
     (if n \<notin> set (map ix_name (cat_indexes c)) then Inl (Undefined_object n)
      else Inr (c\<lparr>cat_indexes := filter (\<lambda>i. ix_name i \<noteq> n) (cat_indexes c)\<rparr>))"
| "exec_ddl (Create_foreign_key n t rt cs rcs od) c = on_table t (add_constraint c n (Foreign_key cs rt rcs od)) c"
| "exec_ddl (Create_check_constraint n t e) c = on_table t (add_constraint c n (Check_that e)) c"
| "exec_ddl (Drop_constraint n t) c =
     on_table t (\<lambda>u. if n \<notin> set (map fst (tb_constraints u)) then Inl (Undefined_object n)
        else Inr (u\<lparr>tb_constraints := filter (\<lambda>(m, k). m \<noteq> n) (tb_constraints u)\<rparr>)) c"
| "exec_ddl (Add_column t item) c =
     (case item of
        Column n ty os \<Rightarrow> on_table t (add_column c n ty os) c
      | _ \<Rightarrow> Inl (Undefined_object t))"
| "exec_ddl (Drop_column t n) c =
     bindE (on_table t (drop_column n) c) (\<lambda>c'.
       Inr (c'\<lparr>cat_indexes := filter (\<lambda>i. \<not> (ix_table i = t \<and> n \<in> set (index_columns i))) (cat_indexes c')\<rparr>))"
| "exec_ddl (Create_function n) c =
     (if n \<in> set (cat_functions c) then Inl (Duplicate_object n)
      else Inr (c\<lparr>cat_functions := cat_functions c @ [n]\<rparr>))"
| "exec_ddl (Drop_function n) c =
     (if n \<notin> set (cat_functions c) then Inl (Undefined_object n)
      else if list_ex (\<lambda>(m, t, f). f = n) (cat_triggers c) then Inl (Dependent_objects n)
      else Inr (c\<lparr>cat_functions := filter (\<lambda>m. m \<noteq> n) (cat_functions c)\<rparr>))"
| "exec_ddl (Create_trigger n t f) c =
     (if f \<notin> set (cat_functions c) then Inl (Undefined_object f)
      else if find_table c t = None then Inl (Undefined_object t)
      else if list_ex (\<lambda>(m, u, g). m = n \<and> u = t) (cat_triggers c) then Inl (Duplicate_object n)
      else Inr (c\<lparr>cat_triggers := cat_triggers c @ [(n, t, f)]\<rparr>))"
| "exec_ddl (Drop_trigger n t) c =
     (if \<not> list_ex (\<lambda>(m, u, g). m = n \<and> u = t) (cat_triggers c) then Inl (Undefined_object n)
      else Inr (c\<lparr>cat_triggers := filter (\<lambda>(m, u, g). \<not> (m = n \<and> u = t)) (cat_triggers c)\<rparr>))"

definition run_ddl :: "ddl list \<Rightarrow> catalog \<Rightarrow> ddl_error + catalog" where
  "run_ddl = foldE exec_ddl"

lemma run_ddl_append: "run_ddl (xs @ ys) c = bindE (run_ddl xs c) (run_ddl ys)"
proof (induction xs arbitrary: c)
  case (Cons x xs)
  then show ?case by (cases "exec_ddl x c") (simp_all add: run_ddl_def)
qed (simp add: run_ddl_def)

lemma run_ddl_Nil [simp]: "run_ddl [] c = Inr c"
  by (simp add: run_ddl_def)

end
