(* ===== verification/Migrations.thy ===== *)
theory Migrations
  imports Ddl
begin

text \<open>
  The migrations \<open>0001\<close> to \<open>0009\<close> of \<open>migrations/versions\<close>, statement for statement, and the tables
  that \<open>db/models.py\<close> declares for the queries.
\<close>

abbreviation "TS \<equiv> TIMESTAMPTZ_T"
abbreviation "now_default \<equiv> DEFAULT (Expression ''now()'')"
abbreviation "uuid_default \<equiv> DEFAULT (Expression ''gen_random_uuid()'')"
abbreviation "json_default \<equiv> DEFAULT (Expression '''{}'::jsonb'')"
abbreviation "array_default \<equiv> DEFAULT (Expression '''{}'::text[]'')"

record migration =
  revision :: string
  down_revision :: "string option"
  upgrade :: "ddl list"
  downgrade :: "ddl list"

section \<open>Expressions\<close>

definition lease_coherence_check :: sql_expr where
  "lease_coherence_check = Eq (Eq (Col ''state'') (Str ''RUNNING''))
     (Both (Is_not_null (Col ''lease_worker_id'')) (Is_not_null (Col ''lease_expires_at'')))"

section \<open>0001: tenants, tasks, events\<close>

definition tenants_table :: "table_item list" where
  "tenants_table =
     [Column ''id'' UUID_T [PRIMARY_KEY, uuid_default],
      Column ''name'' TEXT_T [NOT_NULL, UNIQUE],
      Column ''max_concurrent_tasks'' INTEGER_T [NOT_NULL, DEFAULT (Literal ''10'')],
      Column ''max_queued_tasks'' INTEGER_T [NOT_NULL, DEFAULT (Literal ''1000'')],
      Column ''priority_weight'' INTEGER_T [NOT_NULL, DEFAULT (Literal ''1'')],
      Column ''created_at'' TS [NOT_NULL, now_default]]"

definition task_events_table :: "table_item list" where
  "task_events_table =
     [Column ''id'' BIGINT_T [PRIMARY_KEY, AUTOINCREMENT],
      Column ''task_id'' UUID_T [REFERENCES ''tasks'' ''id'' CASCADE, NOT_NULL],
      Column ''attempt'' INTEGER_T [],
      Column ''event_type'' TEXT_T [NOT_NULL],
      Column ''worker_id'' TEXT_T [],
      Column ''data'' JSONB_T [NOT_NULL, json_default],
      Column ''created_at'' TS [NOT_NULL, now_default]]"

definition upgrade_0001 :: "ddl list" where
  "upgrade_0001 =
     [Create_extension ''pgcrypto'',
      Create_enum ''task_state'' [''QUEUED'', ''RUNNING'', ''SUCCEEDED'', ''FAILED'', ''CANCELLED''],
      Create_table ''tenants'' tenants_table,
      Create_table ''tasks''
        [Column ''id'' UUID_T [PRIMARY_KEY, uuid_default],
         Column ''tenant_id'' UUID_T [REFERENCES ''tenants'' ''id'' RESTRICT, NOT_NULL],
         Column ''task_type'' TEXT_T [NOT_NULL],
         Column ''payload'' JSONB_T [NOT_NULL, json_default],
         Column ''idempotency_key'' TEXT_T [],
         Column ''priority'' SMALLINT_T [NOT_NULL, DEFAULT (Literal ''100'')],
         Column ''state'' (ENUM_T ''task_state'') [NOT_NULL, DEFAULT (Literal ''QUEUED'')],
         Column ''attempt'' INTEGER_T [NOT_NULL, DEFAULT (Literal ''0'')],
         Column ''max_attempts'' INTEGER_T [NOT_NULL, DEFAULT (Literal ''3'')],
         Column ''available_at'' TS [NOT_NULL, now_default],
         Column ''lease_worker_id'' TEXT_T [],
         Column ''lease_expires_at'' TS [],
         Column ''cancel_requested'' BOOLEAN_T [NOT_NULL, DEFAULT (Expression ''false'')],
         Column ''result'' JSONB_T [],
         Column ''error_class'' TEXT_T [],
         Column ''error_message'' TEXT_T [],
         Column ''created_at'' TS [NOT_NULL, now_default],
         Column ''updated_at'' TS [NOT_NULL, now_default],
         Column ''first_started_at'' TS [],
         Column ''finished_at'' TS [],
         Check ''ck_tasks_max_attempts'' (Ge (Col ''max_attempts'') (Num 1)),
         Check ''ck_tasks_attempt_nonneg'' (Ge (Col ''attempt'') (Num 0)),
         Check ''ck_tasks_priority_nonneg'' (Ge (Col ''priority'') (Num 0)),
         Check ''ck_tasks_lease_coherence'' lease_coherence_check],
      Create_index ''idx_tasks_idem'' ''tasks'' [Asc_key ''tenant_id'', Asc_key ''idempotency_key''] True
        (Some (Is_not_null (Col ''idempotency_key''))),
      Create_table ''task_events'' task_events_table,
      Create_index ''idx_events_task'' ''task_events'' [Asc_key ''task_id'', Asc_key ''id''] False None]"

definition downgrade_0001 :: "ddl list" where
  "downgrade_0001 =
     [Drop_table ''task_events'', Drop_index ''idx_tasks_idem'', Drop_table ''tasks'', Drop_table ''tenants'',
      Drop_type ''task_state'']"

section \<open>0002: the listing index\<close>

definition upgrade_0002 :: "ddl list" where
  "upgrade_0002 =
     [Create_index ''idx_tasks_tenant_created'' ''tasks'' [Asc_key ''tenant_id'', Desc_key ''created_at'', Desc_key ''id'']
        False None]"

definition downgrade_0002 :: "ddl list" where
  "downgrade_0002 = [Drop_index ''idx_tasks_tenant_created'']"

section \<open>0003: workers, attempts, the ready queue\<close>

definition workers_table :: "table_item list" where
  "workers_table =
     [Column ''id'' TEXT_T [PRIMARY_KEY],
      Column ''hostname'' TEXT_T [NOT_NULL],
      Column ''pid'' INTEGER_T [NOT_NULL],
      Column ''capacity'' INTEGER_T [NOT_NULL],
      Column ''capabilities'' TEXT_ARRAY [NOT_NULL, array_default],
      Column ''status'' (ENUM_T ''worker_status'') [NOT_NULL, DEFAULT (Literal ''ALIVE'')],
      Column ''registered_at'' TS [NOT_NULL, now_default],
      Column ''last_heartbeat_at'' TS [NOT_NULL, now_default],
      Check ''ck_workers_capacity'' (Ge (Col ''capacity'') (Num 1))]"

definition task_attempts_table :: "table_item list" where
  "task_attempts_table =
     [Column ''task_id'' UUID_T [REFERENCES ''tasks'' ''id'' CASCADE, NOT_NULL],
      Column ''attempt'' INTEGER_T [NOT_NULL],
      Column ''worker_id'' TEXT_T [REFERENCES ''workers'' ''id'' RESTRICT, NOT_NULL],
      Column ''started_at'' TS [NOT_NULL, now_default],
      Column ''finished_at'' TS [],
      Column ''outcome'' (ENUM_T ''attempt_outcome'') [],
      Column ''error_class'' TEXT_T [],
      Column ''error_message'' TEXT_T [],
      Primary_key_constraint ''pk_task_attempts'' [''task_id'', ''attempt'']]"

definition upgrade_0003 :: "ddl list" where
  "upgrade_0003 =
     [Create_enum ''worker_status'' [''ALIVE'', ''DRAINING'', ''DEAD''],
      Create_enum ''attempt_outcome'' [''SUCCEEDED'', ''FAILED'', ''LOST'', ''ABANDONED'', ''CANCELLED''],
      Create_table ''workers'' workers_table,
      Create_table ''task_attempts'' task_attempts_table,
      Create_index ''idx_tasks_ready'' ''tasks'' [Asc_key ''priority'', Asc_key ''available_at'', Asc_key ''id''] False
        (Some (Eq (Col ''state'') (Str ''QUEUED'')))]"

definition downgrade_0003 :: "ddl list" where
  "downgrade_0003 =
     [Drop_index ''idx_tasks_ready'', Drop_table ''task_attempts'', Drop_table ''workers'',
      Drop_type ''attempt_outcome'', Drop_type ''worker_status'']"

section \<open>0004 and 0005: the reaper's indexes, the tenant's running tasks\<close>

definition upgrade_0004 :: "ddl list" where
  "upgrade_0004 =
     [Create_index ''idx_tasks_lease_expiry'' ''tasks'' [Asc_key ''lease_expires_at''] False
        (Some (Eq (Col ''state'') (Str ''RUNNING''))),
      Create_index ''idx_workers_heartbeat'' ''workers'' [Asc_key ''last_heartbeat_at''] False
        (Some (Ne (Col ''status'') (Str ''DEAD'')))]"

definition downgrade_0004 :: "ddl list" where
  "downgrade_0004 = [Drop_index ''idx_workers_heartbeat'', Drop_index ''idx_tasks_lease_expiry'']"

definition upgrade_0005 :: "ddl list" where
  "upgrade_0005 =
     [Create_index ''idx_tasks_tenant_running'' ''tasks'' [Asc_key ''tenant_id''] False
        (Some (Eq (Col ''state'') (Str ''RUNNING'')))]"

definition downgrade_0005 :: "ddl list" where
  "downgrade_0005 = [Drop_index ''idx_tasks_tenant_running'']"

section \<open>0006: the agent registry\<close>

definition upgrade_0006 :: "ddl list" where
  "upgrade_0006 =
     [Create_enum ''agent_status'' [''ACTIVE'', ''DEPRECATED'', ''DISABLED''],
      Create_enum ''version_status'' [''DRAFT'', ''ACTIVE'', ''DEPRECATED'', ''DISABLED''],
      Create_table ''agents''
        [Column ''id'' UUID_T [PRIMARY_KEY, uuid_default],
         Column ''tenant_id'' UUID_T [REFERENCES ''tenants'' ''id'' RESTRICT, NOT_NULL],
         Column ''name'' TEXT_T [NOT_NULL],
         Column ''description'' TEXT_T [],
         Column ''status'' (ENUM_T ''agent_status'') [NOT_NULL, DEFAULT (Literal ''ACTIVE'')],
         Column ''default_version_id'' UUID_T [],
         Column ''created_at'' TS [NOT_NULL, now_default],
         Column ''updated_at'' TS [NOT_NULL, now_default],
         Unique_constraint ''uq_agents_tenant_name'' [''tenant_id'', ''name'']],
      Create_table ''agent_versions''
        [Column ''id'' UUID_T [PRIMARY_KEY, uuid_default],
         Column ''agent_id'' UUID_T [REFERENCES ''agents'' ''id'' RESTRICT, NOT_NULL],
         Column ''version'' INTEGER_T [NOT_NULL],
         Column ''runtime_spec'' JSONB_T [NOT_NULL, json_default],
         Column ''required_capabilities'' TEXT_ARRAY [NOT_NULL, array_default],
         Column ''config'' JSONB_T [NOT_NULL, json_default],
         Column ''max_attempts'' INTEGER_T [NOT_NULL, DEFAULT (Literal ''3'')],
         Column ''max_execution_time_s'' INTEGER_T [NOT_NULL, DEFAULT (Literal ''300'')],
         Column ''status'' (ENUM_T ''version_status'') [NOT_NULL, DEFAULT (Literal ''DRAFT'')],
         Column ''created_at'' TS [NOT_NULL, now_default],
         Unique_constraint ''uq_agent_versions_agent_version'' [''agent_id'', ''version''],
         Check ''ck_agent_versions_version'' (Ge (Col ''version'') (Num 1)),
         Check ''ck_agent_versions_max_attempts'' (Ge (Col ''max_attempts'') (Num 1)),
         Check ''ck_agent_versions_max_execution_time'' (Ge (Col ''max_execution_time_s'') (Num 1))],
      Create_foreign_key ''fk_agents_default_version'' ''agents'' ''agent_versions'' [''default_version_id''] [''id''] RESTRICT,
      Create_function ''acp_agent_versions_immutable'',
      Create_trigger ''trg_agent_versions_immutable'' ''agent_versions'' ''acp_agent_versions_immutable'',
      Create_table ''agent_routes''
        [Column ''tenant_id'' UUID_T [REFERENCES ''tenants'' ''id'' CASCADE, NOT_NULL],
         Column ''request_type'' TEXT_T [NOT_NULL],
         Column ''agent_id'' UUID_T [REFERENCES ''agents'' ''id'' RESTRICT, NOT_NULL],
         Column ''created_at'' TS [NOT_NULL, now_default],
         Primary_key_constraint ''pk_agent_routes'' [''tenant_id'', ''request_type'']],
      Add_column ''tasks'' (Column ''agent_version_id'' UUID_T []),
      Create_foreign_key ''fk_tasks_agent_version'' ''tasks'' ''agent_versions'' [''agent_version_id''] [''id''] RESTRICT,
      Add_column ''tasks'' (Column ''required_capabilities'' TEXT_ARRAY [NOT_NULL, array_default]),
      Add_column ''tasks'' (Column ''capability_key'' TEXT_T [NOT_NULL, DEFAULT (Literal '''')]),
      Create_index ''idx_tasks_agent_version_active'' ''tasks'' [Asc_key ''agent_version_id''] False
        (Some (In_list (Col ''state'') [''QUEUED'', ''RUNNING'']))]"

definition downgrade_0006 :: "ddl list" where
  "downgrade_0006 =
     [Drop_index ''idx_tasks_agent_version_active'',
      Drop_constraint ''fk_tasks_agent_version'' ''tasks'',
      Drop_column ''tasks'' ''capability_key'',
      Drop_column ''tasks'' ''required_capabilities'',
      Drop_column ''tasks'' ''agent_version_id'',
      Drop_table ''agent_routes'',
      Drop_trigger ''trg_agent_versions_immutable'' ''agent_versions'',
      Drop_function ''acp_agent_versions_immutable'',
      Drop_constraint ''fk_agents_default_version'' ''agents'',
      Drop_table ''agent_versions'',
      Drop_table ''agents'',
      Drop_type ''version_status'',
      Drop_type ''agent_status'']"

section \<open>0007: tools, grants, audit\<close>

definition upgrade_0007 :: "ddl list" where
  "upgrade_0007 =
     [Create_enum ''tool_status'' [''ACTIVE'', ''DISABLED''],
      Create_table ''tools''
        [Column ''id'' UUID_T [PRIMARY_KEY, uuid_default],
         Column ''tenant_id'' UUID_T [REFERENCES ''tenants'' ''id'' RESTRICT, NOT_NULL],
         Column ''name'' TEXT_T [NOT_NULL],
         Column ''description'' TEXT_T [],
         Column ''tool_type'' TEXT_T [NOT_NULL, DEFAULT (Literal ''SIMULATED'')],
         Column ''config'' JSONB_T [NOT_NULL, json_default],
         Column ''status'' (ENUM_T ''tool_status'') [NOT_NULL, DEFAULT (Literal ''ACTIVE'')],
         Column ''created_at'' TS [NOT_NULL, now_default],
         Unique_constraint ''uq_tools_tenant_name'' [''tenant_id'', ''name''],
         Check ''ck_tools_type'' (In_list (Col ''tool_type'') [''SIMULATED'', ''HTTP''])],
      Create_table ''agent_version_tool_grants''
        [Column ''agent_version_id'' UUID_T [REFERENCES ''agent_versions'' ''id'' CASCADE, NOT_NULL],
         Column ''tool_id'' UUID_T [REFERENCES ''tools'' ''id'' RESTRICT, NOT_NULL],
         Column ''created_at'' TS [NOT_NULL, now_default],
         Primary_key_constraint ''pk_agent_version_tool_grants'' [''agent_version_id'', ''tool_id'']],
      Create_index ''idx_grants_by_tool'' ''agent_version_tool_grants'' [Asc_key ''tool_id'', Asc_key ''agent_version_id'']
        False None,
      Create_table ''audit_events''
        [Column ''id'' BIGINT_T [PRIMARY_KEY, AUTOINCREMENT],
         Column ''tenant_id'' UUID_T [NOT_NULL],
         Column ''actor'' TEXT_T [NOT_NULL, DEFAULT (Literal ''system'')],
         Column ''action'' TEXT_T [NOT_NULL],
         Column ''resource_type'' TEXT_T [NOT_NULL],
         Column ''resource_id'' UUID_T [],
         Column ''outcome'' TEXT_T [NOT_NULL],
         Column ''data'' JSONB_T [NOT_NULL, json_default],
         Column ''created_at'' TS [NOT_NULL, now_default]],
      Create_index ''idx_audit_tenant_time'' ''audit_events'' [Asc_key ''tenant_id'', Desc_key ''created_at''] False None,
      Create_index ''idx_audit_resource'' ''audit_events''
        [Asc_key ''resource_type'', Asc_key ''resource_id'', Asc_key ''id''] False None]"

definition downgrade_0007 :: "ddl list" where
  "downgrade_0007 =
     [Drop_index ''idx_audit_resource'', Drop_index ''idx_audit_tenant_time'', Drop_table ''audit_events'',
      Drop_index ''idx_grants_by_tool'', Drop_table ''agent_version_tool_grants'', Drop_table ''tools'',
      Drop_type ''tool_status'']"

section \<open>0008 and 0009: admission, hung tasks, the keyed queue\<close>

definition upgrade_0008 :: "ddl list" where
  "upgrade_0008 =
     [Create_index ''idx_tasks_tenant_queued'' ''tasks'' [Asc_key ''tenant_id''] False
        (Some (Eq (Col ''state'') (Str ''QUEUED'')))]"

definition downgrade_0008 :: "ddl list" where
  "downgrade_0008 = [Drop_index ''idx_tasks_tenant_queued'']"

definition upgrade_0009 :: "ddl list" where
  "upgrade_0009 =
     [Add_column ''tasks'' (Column ''max_execution_time_s'' INTEGER_T [NOT_NULL, DEFAULT (Literal ''300'')]),
      Create_check_constraint ''ck_tasks_max_execution_time'' ''tasks'' (Ge (Col ''max_execution_time_s'') (Num 1)),
      Create_index ''idx_tasks_ready_by_capability'' ''tasks''
        [Asc_key ''capability_key'', Asc_key ''priority'', Asc_key ''available_at'', Asc_key ''id''] False
        (Some (Eq (Col ''state'') (Str ''QUEUED'')))]"

definition downgrade_0009 :: "ddl list" where
  "downgrade_0009 =
     [Drop_index ''idx_tasks_ready_by_capability'',
      Drop_constraint ''ck_tasks_max_execution_time'' ''tasks'',
      Drop_column ''tasks'' ''max_execution_time_s'']"

section \<open>The chain of revisions\<close>

definition m0001 :: migration where
  "m0001 = \<lparr>revision = ''0001'', down_revision = None, upgrade = upgrade_0001, downgrade = downgrade_0001\<rparr>"
definition m0002 :: migration where
  "m0002 = \<lparr>revision = ''0002'', down_revision = Some ''0001'', upgrade = upgrade_0002, downgrade = downgrade_0002\<rparr>"
definition m0003 :: migration where
  "m0003 = \<lparr>revision = ''0003'', down_revision = Some ''0002'', upgrade = upgrade_0003, downgrade = downgrade_0003\<rparr>"
definition m0004 :: migration where
  "m0004 = \<lparr>revision = ''0004'', down_revision = Some ''0003'', upgrade = upgrade_0004, downgrade = downgrade_0004\<rparr>"
definition m0005 :: migration where
  "m0005 = \<lparr>revision = ''0005'', down_revision = Some ''0004'', upgrade = upgrade_0005, downgrade = downgrade_0005\<rparr>"
definition m0006 :: migration where
  "m0006 = \<lparr>revision = ''0006'', down_revision = Some ''0005'', upgrade = upgrade_0006, downgrade = downgrade_0006\<rparr>"
definition m0007 :: migration where
  "m0007 = \<lparr>revision = ''0007'', down_revision = Some ''0006'', upgrade = upgrade_0007, downgrade = downgrade_0007\<rparr>"
definition m0008 :: migration where
  "m0008 = \<lparr>revision = ''0008'', down_revision = Some ''0007'', upgrade = upgrade_0008, downgrade = downgrade_0008\<rparr>"
definition m0009 :: migration where
  "m0009 = \<lparr>revision = ''0009'', down_revision = Some ''0008'', upgrade = upgrade_0009, downgrade = downgrade_0009\<rparr>"

definition versions :: "migration list" where
  "versions = [m0001, m0002, m0003, m0004, m0005, m0006, m0007, m0008, m0009]"

text \<open>
  The scripts in the order of their links, from a revision on: a script must be the only one that
  names its predecessor. The fuel is the number of scripts, each of which appears once.
\<close>

fun linked :: "nat \<Rightarrow> migration list \<Rightarrow> string option \<Rightarrow> migration list" where
  "linked 0 ms r = []"
| "linked (Suc n) ms r =
     (case filter (\<lambda>m. down_revision m = r) ms of
        [m] \<Rightarrow> m # linked n ms (Some (revision m))
      | _ \<Rightarrow> [])"

lemma versions_linear:
  "linked (length versions) versions None = versions" "distinct (map revision versions)"
  by code_simp+

text \<open>The statements that lead from revision number \<open>i\<close> to \<open>j\<close>, and back.\<close>

definition upgrades :: "nat \<Rightarrow> nat \<Rightarrow> ddl list" where
  "upgrades i j = concat (map upgrade (take (j - i) (drop i versions)))"

definition downgrades :: "nat \<Rightarrow> nat \<Rightarrow> ddl list" where
  "downgrades i j = concat (map downgrade (rev (take (j - i) (drop i versions))))"

text \<open>The extension stays when every migration is undone.\<close>

definition base_catalog :: catalog where
  "base_catalog = empty_catalog\<lparr>cat_extensions := [''pgcrypto'']\<rparr>"

section \<open>Round trips\<close>

fun reversible_from :: "migration list \<Rightarrow> catalog \<Rightarrow> bool" where
  "reversible_from [] c \<longleftrightarrow> True"
| "reversible_from (m # ms) c \<longleftrightarrow>
     (case run_ddl (upgrade m) c of
        Inl e \<Rightarrow> False
      | Inr c' \<Rightarrow> run_ddl (downgrade m) c' = Inr c \<and> reversible_from ms c')"

lemma reversible_take:
  "reversible_from ms c \<Longrightarrow> \<exists>c'. run_ddl (concat (map upgrade (take n ms))) c = Inr c'
     \<and> reversible_from (drop n ms) c'"
proof (induction ms arbitrary: c n)
  case (Cons m ms)
  then show ?case
    by (cases n) (auto simp: run_ddl_append split: sum.splits)
qed simp

lemma reversible_undo:
  "reversible_from ms c \<Longrightarrow> \<exists>c'. run_ddl (concat (map upgrade ms)) c = Inr c'
     \<and> run_ddl (concat (map downgrade (rev ms))) c' = Inr c"
proof (induction ms arbitrary: c)
  case (Cons m ms)
  then obtain c1 where c1: "run_ddl (upgrade m) c = Inr c1" "run_ddl (downgrade m) c1 = Inr c"
    "reversible_from ms c1" by (auto split: sum.splits)
  with Cons.IH [OF c1(3)] show ?case by (auto simp: run_ddl_append)
qed simp

lemma reversible_prefix: "reversible_from ms c \<Longrightarrow> reversible_from (take n ms) c"
proof (induction ms arbitrary: c n)
  case (Cons m ms)
  then show ?case by (cases n) (auto split: sum.splits)
qed simp

lemma versions_reversible: "reversible_from versions base_catalog"
  by code_simp

text \<open>
  C32. The migrations. The scripts form one chain from the empty schema to one head. On a new
  database the first one succeeds and adds the extension, which no downgrade removes; otherwise, between
  any two revisions of the chain, the upgrade succeeds (every statement finds what it names, no name
  is taken, no new column would fail on existing rows) and the downgrade (which never drops what
  something still depends on) restores the older schema exactly: types, tables with their columns
  and constraints in order, indexes, functions and triggers.
\<close>

theorem migrations_round_trip:
  assumes "i \<le> j" "j \<le> length versions"
  shows "linked (length versions) versions None = versions
    \<and> run_ddl upgrade_0001 empty_catalog = run_ddl upgrade_0001 base_catalog
    \<and> (\<exists>ci cj. run_ddl (upgrades 0 i) base_catalog = Inr ci
        \<and> run_ddl (upgrades i j) ci = Inr cj \<and> run_ddl (downgrades i j) cj = Inr ci)"
proof -
  obtain ci where ci: "run_ddl (upgrades 0 i) base_catalog = Inr ci" "reversible_from (drop i versions) ci"
    using reversible_take [OF versions_reversible, of i] by (auto simp: upgrades_def)
  moreover obtain cj where "run_ddl (upgrades i j) ci = Inr cj" "run_ddl (downgrades i j) cj = Inr ci"
    using reversible_undo [OF reversible_prefix [OF ci(2), of "j - i"]] by (auto simp: upgrades_def downgrades_def)
  moreover have "run_ddl upgrade_0001 empty_catalog = run_ddl upgrade_0001 base_catalog"
    by (simp add: run_ddl_def upgrade_0001_def empty_catalog_def base_catalog_def)
  ultimately show ?thesis using versions_linear(1) by blast
qed

theorem migrations_round_trip_witness:
  "\<exists>c. run_ddl (upgrades 0 9) base_catalog = Inr c \<and> run_ddl (downgrades 0 9) c = Inr base_catalog"
proof -
  have "length versions = 9" by (simp add: versions_def)
  then show ?thesis using migrations_round_trip [of 0 9] by (auto simp: upgrades_def)
qed

end
