(* ===== verification/Models.thy ===== *)
theory Models
  imports Migrations Invariant Scheduling Metrics
begin

text \<open>
  The tables of \<open>db/models.py\<close>, against which the queries are written, and the schema the migrations
  install: the same columns, which constraints only one of them has, and that the row and key rules
  used by the model of the queries are the constraints of that schema.
\<close>

section \<open>The declared tables\<close>

definition tasks_model :: "table_item list" where
  "tasks_model =
     [Column ''id'' UUID_T [PRIMARY_KEY, uuid_default],
      Column ''tenant_id'' UUID_T [REFERENCES ''tenants'' ''id'' RESTRICT, NOT_NULL],
      Column ''task_type'' TEXT_T [NOT_NULL],
      Column ''payload'' JSONB_T [NOT_NULL, json_default],
      Column ''idempotency_key'' TEXT_T [],
      Column ''priority'' SMALLINT_T [NOT_NULL, DEFAULT (Literal ''100'')],
      Column ''state'' (ENUM_T ''task_state'') [NOT_NULL, DEFAULT (Literal ''QUEUED'')],
      Column ''attempt'' INTEGER_T [NOT_NULL, DEFAULT (Literal ''0'')],
      Column ''max_attempts'' INTEGER_T [NOT_NULL, DEFAULT (Literal ''3'')],
      Column ''max_execution_time_s'' INTEGER_T [NOT_NULL, DEFAULT (Literal ''300'')],
      Column ''available_at'' TS [NOT_NULL, now_default],
      Column ''lease_worker_id'' TEXT_T [],
      Column ''lease_expires_at'' TS [],
      Column ''agent_version_id'' UUID_T [],
      Column ''required_capabilities'' TEXT_ARRAY [NOT_NULL, array_default],
      Column ''capability_key'' TEXT_T [NOT_NULL, DEFAULT (Literal '''')],
      Column ''cancel_requested'' BOOLEAN_T [NOT_NULL, DEFAULT (Expression ''false'')],
      Column ''result'' JSONB_T [],
      Column ''error_class'' TEXT_T [],
      Column ''error_message'' TEXT_T [],
      Column ''created_at'' TS [NOT_NULL, now_default],
      Column ''updated_at'' TS [NOT_NULL, now_default],
      Column ''first_started_at'' TS [],
      Column ''finished_at'' TS [],
      Check ''ck_tasks_max_attempts'' (Ge (Col ''max_attempts'') (Num 1)),
      Check ''ck_tasks_max_execution_time'' (Ge (Col ''max_execution_time_s'') (Num 1)),
      Check ''ck_tasks_attempt_nonneg'' (Ge (Col ''attempt'') (Num 0)),
      Check ''ck_tasks_priority_nonneg'' (Ge (Col ''priority'') (Num 0)),
      Check ''ck_tasks_lease_coherence'' lease_coherence_check]"

definition agents_model :: "table_item list" where
  "agents_model =
     [Column ''id'' UUID_T [PRIMARY_KEY, uuid_default],
      Column ''tenant_id'' UUID_T [REFERENCES ''tenants'' ''id'' NO_ACTION, NOT_NULL],
      Column ''name'' TEXT_T [NOT_NULL],
      Column ''description'' TEXT_T [],
      Column ''status'' (ENUM_T ''agent_status'') [NOT_NULL, DEFAULT (Literal ''ACTIVE'')],
      Column ''default_version_id'' UUID_T [],
      Column ''created_at'' TS [NOT_NULL, now_default],
      Column ''updated_at'' TS [NOT_NULL, now_default],
      Unique_constraint ''uq_agents_tenant_name'' [''tenant_id'', ''name'']]"

definition agent_versions_model :: "table_item list" where
  "agent_versions_model =
     [Column ''id'' UUID_T [PRIMARY_KEY, uuid_default],
      Column ''agent_id'' UUID_T [REFERENCES ''agents'' ''id'' NO_ACTION, NOT_NULL],
      Column ''version'' INTEGER_T [NOT_NULL],
      Column ''runtime_spec'' JSONB_T [NOT_NULL, json_default],
      Column ''required_capabilities'' TEXT_ARRAY [NOT_NULL, array_default],
      Column ''config'' JSONB_T [NOT_NULL, json_default],
      Column ''max_attempts'' INTEGER_T [NOT_NULL, DEFAULT (Literal ''3'')],
      Column ''max_execution_time_s'' INTEGER_T [NOT_NULL, DEFAULT (Literal ''300'')],
      Column ''status'' (ENUM_T ''version_status'') [NOT_NULL, DEFAULT (Literal ''DRAFT'')],
      Column ''created_at'' TS [NOT_NULL, now_default],
      Unique_constraint ''uq_agent_versions_agent_version'' [''agent_id'', ''version'']]"

definition agent_routes_model :: "table_item list" where
  "agent_routes_model =
     [Column ''tenant_id'' UUID_T [REFERENCES ''tenants'' ''id'' CASCADE, NOT_NULL],
      Column ''request_type'' TEXT_T [NOT_NULL],
      Column ''agent_id'' UUID_T [REFERENCES ''agents'' ''id'' NO_ACTION, NOT_NULL],
      Column ''created_at'' TS [NOT_NULL, now_default],
      Primary_key_constraint ''pk_agent_routes'' [''tenant_id'', ''request_type'']]"

definition tools_model :: "table_item list" where
  "tools_model =
     [Column ''id'' UUID_T [PRIMARY_KEY, uuid_default],
      Column ''tenant_id'' UUID_T [REFERENCES ''tenants'' ''id'' NO_ACTION, NOT_NULL],
      Column ''name'' TEXT_T [NOT_NULL],
      Column ''description'' TEXT_T [],
      Column ''tool_type'' TEXT_T [NOT_NULL, DEFAULT (Literal ''SIMULATED'')],
      Column ''config'' JSONB_T [NOT_NULL, json_default],
      Column ''status'' (ENUM_T ''tool_status'') [NOT_NULL, DEFAULT (Literal ''ACTIVE'')],
      Column ''created_at'' TS [NOT_NULL, now_default],
      Unique_constraint ''uq_tools_tenant_name'' [''tenant_id'', ''name'']]"

definition grants_model :: "table_item list" where
  "grants_model =
     [Column ''agent_version_id'' UUID_T [REFERENCES ''agent_versions'' ''id'' CASCADE, NOT_NULL],
      Column ''tool_id'' UUID_T [REFERENCES ''tools'' ''id'' NO_ACTION, NOT_NULL],
      Column ''created_at'' TS [NOT_NULL, now_default],
      Primary_key_constraint ''pk_agent_version_tool_grants'' [''agent_version_id'', ''tool_id'']]"

definition audit_events_model :: "table_item list" where
  "audit_events_model =
     [Column ''id'' BIGINT_T [PRIMARY_KEY, AUTOINCREMENT],
      Column ''tenant_id'' UUID_T [NOT_NULL],
      Column ''actor'' TEXT_T [NOT_NULL, DEFAULT (Literal ''system'')],
      Column ''action'' TEXT_T [NOT_NULL],
      Column ''resource_type'' TEXT_T [NOT_NULL],
      Column ''resource_id'' UUID_T [],
      Column ''outcome'' TEXT_T [NOT_NULL],
      Column ''data'' JSONB_T [NOT_NULL, json_default],
      Column ''created_at'' TS [NOT_NULL, now_default]]"

definition metadata :: "(string \<times> table_item list) list" where
  "metadata =
     [(''tenants'', tenants_table), (''tasks'', tasks_model), (''task_events'', task_events_table),
      (''workers'', workers_table), (''task_attempts'', task_attempts_table), (''agents'', agents_model),
      (''agent_versions'', agent_versions_model), (''agent_routes'', agent_routes_model), (''tools'', tools_model),
      (''agent_version_tool_grants'', grants_model), (''audit_events'', audit_events_model)]"

definition metadata_enums :: "(string \<times> string list) list" where
  "metadata_enums =
     [(''task_state'', [''QUEUED'', ''RUNNING'', ''SUCCEEDED'', ''FAILED'', ''CANCELLED'']),
      (''worker_status'', [''ALIVE'', ''DRAINING'', ''DEAD'']),
      (''tool_status'', [''ACTIVE'', ''DISABLED'']),
      (''agent_status'', [''ACTIVE'', ''DEPRECATED'', ''DISABLED'']),
      (''version_status'', [''DRAFT'', ''ACTIVE'', ''DEPRECATED'', ''DISABLED'']),
      (''attempt_outcome'', [''SUCCEEDED'', ''FAILED'', ''LOST'', ''ABANDONED'', ''CANCELLED''])]"

section \<open>The installed schema\<close>

definition constraints_of :: "catalog \<Rightarrow> (string \<times> constraint_def) list" where
  "constraints_of c = concat (map tb_constraints (cat_tables c))"

definition declared_constraints :: "(string \<times> constraint_def) list" where
  "declared_constraints = concat (map (\<lambda>(n, items). tb_constraints (table_of n items)) metadata)"

text \<open>
  Constraints that only the database has, and those it has in another form: the name, the form
  \<open>db/models.py\<close> declares, and the form the migrations install.
\<close>

definition undeclared :: "catalog \<Rightarrow> string list" where
  "undeclared c = (let ds = map fst declared_constraints in filter (\<lambda>n. n \<notin> set ds) (map fst (constraints_of c)))"

definition altered :: "catalog \<Rightarrow> (string \<times> constraint_def \<times> constraint_def) list" where
  "altered c = List.map_filter (\<lambda>(n, k). case map_of declared_constraints n of
       None \<Rightarrow> None
     | Some m \<Rightarrow> if m = k then None else Some (n, m, k)) (constraints_of c)"

definition checks_of :: "catalog \<Rightarrow> string \<Rightarrow> sql_expr list" where
  "checks_of c t = (case find_table c t of None \<Rightarrow> []
     | Some u \<Rightarrow> List.map_filter (\<lambda>(n, k). case k of Check_that e \<Rightarrow> Some e | _ \<Rightarrow> None) (tb_constraints u))"

definition keys_of :: "catalog \<Rightarrow> string \<Rightarrow> (string list \<times> sql_expr option) list" where
  "keys_of c t = (case find_table c t of None \<Rightarrow> []
     | Some u \<Rightarrow> map (\<lambda>(n, k). (constraint_columns k, None)) (filter (\<lambda>(n, k). is_key k) (tb_constraints u)))
     @ map (\<lambda>i. (map key_column (ix_keys i), ix_where i))
         (filter (\<lambda>i. ix_table i = t \<and> ix_unique i) (cat_indexes c))"

definition find_index :: "catalog \<Rightarrow> string \<Rightarrow> index option" where
  "find_index c n = find_by ix_name n (cat_indexes c)"

text \<open>The constraint names with which the modelled statements fail.\<close>

definition raised_names :: "string list" where
  "raised_names =
     [''agent_routes_agent_id_fkey'', ''agent_routes_tenant_id_fkey'',
      ''agent_version_tool_grants_agent_version_id_fkey'', ''agent_version_tool_grants_tool_id_fkey'',
      ''agent_versions_pkey'', ''agents_pkey'', ''agents_tenant_id_fkey'', ''ck_agent_versions_max_attempts'',
      ''ck_agent_versions_max_execution_time'', ''ck_agent_versions_version'', ''ck_workers_capacity'',
      ''fk_tasks_agent_version'', ''pk_task_attempts'', ''task_attempts_task_id_fkey'',
      ''task_attempts_worker_id_fkey'', ''task_events_task_id_fkey'', ''tasks_pkey'', ''tasks_tenant_id_fkey'',
      ''tenants_name_key'', ''tenants_pkey'', ''tools_pkey'', ''tools_tenant_id_fkey'',
      ''uq_agent_versions_agent_version'', ''uq_agents_tenant_name'', ''uq_tools_tenant_name'', ''workers_pkey'']"

text \<open>A reference to the primary key of a table whose deletion the declaration leaves to the default.\<close>

definition tightened :: "string \<Rightarrow> string \<Rightarrow> string \<Rightarrow> string \<times> constraint_def \<times> constraint_def" where
  "tightened n column referenced_table =
     (n, Foreign_key [column] referenced_table [''id''] NO_ACTION, Foreign_key [column] referenced_table [''id''] RESTRICT)"

definition altered_keys :: "(string \<times> constraint_def \<times> constraint_def) list" where
  "altered_keys =
     [tightened ''agents_tenant_id_fkey'' ''tenant_id'' ''tenants'',
      tightened ''agent_versions_agent_id_fkey'' ''agent_id'' ''agents'',
      tightened ''agent_routes_agent_id_fkey'' ''agent_id'' ''agents'',
      tightened ''tools_tenant_id_fkey'' ''tenant_id'' ''tenants'',
      tightened ''agent_version_tool_grants_tool_id_fkey'' ''tool_id'' ''tools'']"

text \<open>The values the program writes into the columns of an enumeration.\<close>

fun tool_status_value :: "tool_status \<Rightarrow> string" where
  "tool_status_value TOOL_ACTIVE = ''ACTIVE''"
| "tool_status_value TOOL_DISABLED = ''DISABLED''"

fun attempt_outcome_value :: "attempt_outcome \<Rightarrow> string" where
  "attempt_outcome_value OUT_SUCCEEDED = ''SUCCEEDED''"
| "attempt_outcome_value OUT_FAILED = ''FAILED''"
| "attempt_outcome_value OUT_LOST = ''LOST''"
| "attempt_outcome_value OUT_ABANDONED = ''ABANDONED''"
| "attempt_outcome_value OUT_CANCELLED = ''CANCELLED''"

definition domain_enums :: "(string \<times> string list) list" where
  "domain_enums =
     [(''task_state'', map state_value [QUEUED, RUNNING, SUCCEEDED, FAILED, CANCELLED]),
      (''worker_status'', map worker_status_value [ALIVE, DRAINING, DEAD]),
      (''tool_status'', map tool_status_value [TOOL_ACTIVE, TOOL_DISABLED]),
      (''agent_status'', map agent_status_value [AGENT_ACTIVE, AGENT_DEPRECATED, AGENT_DISABLED]),
      (''version_status'', map version_status_value [VERSION_DRAFT, VERSION_ACTIVE, VERSION_DEPRECATED, VERSION_DISABLED]),
      (''attempt_outcome'', map attempt_outcome_value [OUT_SUCCEEDED, OUT_FAILED, OUT_LOST, OUT_ABANDONED, OUT_CANCELLED])]"

definition ready_where :: sql_expr where
  "ready_where = Eq (Col ''state'') (Str ''QUEUED'')"

definition task_checks :: "sql_expr list" where
  "task_checks =
     [Ge (Col ''max_attempts'') (Num 1), Ge (Col ''attempt'') (Num 0), Ge (Col ''priority'') (Num 0),
      lease_coherence_check, Ge (Col ''max_execution_time_s'') (Num 1)]"

definition columns_match :: "catalog \<Rightarrow> bool" where
  "columns_match c \<longleftrightarrow>
     map (\<lambda>t. (tb_name t, set (tb_columns t))) (cat_tables c) =
       map (\<lambda>(n, items). (n, set (item_columns items))) metadata
   \<and> set (cat_enums c) = set metadata_enums"

definition constraints_match :: "catalog \<Rightarrow> bool" where
  "constraints_match c \<longleftrightarrow>
     set (map fst declared_constraints) \<subseteq> set (map fst (constraints_of c))
   \<and> undeclared c = [''fk_tasks_agent_version'', ''fk_agents_default_version'', ''ck_agent_versions_version'',
       ''ck_agent_versions_max_attempts'', ''ck_agent_versions_max_execution_time'', ''ck_tools_type'']
   \<and> altered c = altered_keys"

definition queries_match :: "catalog \<Rightarrow> bool" where
  "queries_match c \<longleftrightarrow>
     set raised_names \<subseteq> set (map fst (constraints_of c))
   \<and> checks_of c ''tasks'' = task_checks
   \<and> checks_of c ''tools'' = [In_list (Col ''tool_type'') [''SIMULATED'', ''HTTP'']]
   \<and> keys_of c ''tasks'' = [([''id''], None),
        ([''tenant_id'', ''idempotency_key''], Some (Is_not_null (Col ''idempotency_key'')))]
   \<and> map_option (\<lambda>i. (ix_keys i, ix_where i)) (find_index c ''idx_tasks_ready'') =
        Some (map Asc_key READY_INDEX_COLUMNS, Some ready_where)"

definition at_head :: "(catalog \<Rightarrow> bool) \<Rightarrow> bool" where
  "at_head p \<longleftrightarrow> (case run_ddl (upgrades 0 9) base_catalog of Inl e \<Rightarrow> False | Inr c \<Rightarrow> p c)"

lemma head_columns: "at_head columns_match" by code_simp
lemma head_constraints: "at_head constraints_match" by code_simp
lemma head_queries: "at_head queries_match" by code_simp

text \<open>
  C33. The declared tables and the migrated schema. The migrations of the head install exactly the
  tables of \<open>db/models.py\<close> with exactly the declared columns, types, nullability and defaults, and
  the enumerations it names. Every declared constraint is there under its name; six constraints exist
  only in the database; and of the common ones all have the declared form but five foreign keys,
  which the declaration leaves to the default action (\<open>NO ACTION\<close>) and the migrations create with
  \<open>RESTRICT\<close>. Each of the six enumerations has exactly the values of the domain's type, and a
  registered tool's type is checked against the domain's two; the ready index has the columns of the
  claim's default order.
\<close>

theorem models_match_migrations:
  "\<exists>c. run_ddl (upgrades 0 9) base_catalog = Inr c
     \<and> map (\<lambda>t. (tb_name t, set (tb_columns t))) (cat_tables c) =
         map (\<lambda>(n, items). (n, set (item_columns items))) metadata
     \<and> set (cat_enums c) = set metadata_enums
     \<and> set (map fst declared_constraints) \<subseteq> set (map fst (constraints_of c))
     \<and> undeclared c = [''fk_tasks_agent_version'', ''fk_agents_default_version'', ''ck_agent_versions_version'',
         ''ck_agent_versions_max_attempts'', ''ck_agent_versions_max_execution_time'', ''ck_tools_type'']
     \<and> altered c =
         [(''agents_tenant_id_fkey'', Foreign_key [''tenant_id''] ''tenants'' [''id''] NO_ACTION,
             Foreign_key [''tenant_id''] ''tenants'' [''id''] RESTRICT),
          (''agent_versions_agent_id_fkey'', Foreign_key [''agent_id''] ''agents'' [''id''] NO_ACTION,
             Foreign_key [''agent_id''] ''agents'' [''id''] RESTRICT),
          (''agent_routes_agent_id_fkey'', Foreign_key [''agent_id''] ''agents'' [''id''] NO_ACTION,
             Foreign_key [''agent_id''] ''agents'' [''id''] RESTRICT),
          (''tools_tenant_id_fkey'', Foreign_key [''tenant_id''] ''tenants'' [''id''] NO_ACTION,
             Foreign_key [''tenant_id''] ''tenants'' [''id''] RESTRICT),
          (''agent_version_tool_grants_tool_id_fkey'', Foreign_key [''tool_id''] ''tools'' [''id''] NO_ACTION,
             Foreign_key [''tool_id''] ''tools'' [''id''] RESTRICT)]
     \<and> metadata_enums = domain_enums
     \<and> checks_of c ''tools'' = [In_list (Col ''tool_type'') (map tool_type_value [SIMULATED, HTTP])]
     \<and> map_option ix_keys (find_index c ''idx_tasks_ready'') = Some (map Asc_key READY_INDEX_COLUMNS)"
proof -
  obtain c where c: "run_ddl (upgrades 0 9) base_catalog = Inr c" "columns_match c" "constraints_match c" "queries_match c"
    using head_columns head_constraints head_queries by (auto simp: at_head_def split: sum.splits)
  have "map_option ix_keys (find_index c ''idx_tasks_ready'') = Some (map Asc_key READY_INDEX_COLUMNS)"
    using c(4) by (auto simp: queries_match_def)
  then show ?thesis
    using c by (intro exI [of _ c])
      (simp add: queries_match_def columns_match_def constraints_match_def metadata_enums_def domain_enums_def altered_keys_def tightened_def)
qed

section \<open>The constraints on a row of tasks\<close>

text \<open>A row as the constraints see it.\<close>

definition task_row :: "task \<Rightarrow> string \<Rightarrow> sql_value" where
  "task_row t c =
     (if c = ''id'' then VUuid (t_id t)
      else if c = ''tenant_id'' then VUuid (t_tenant_id t)
      else if c = ''idempotency_key'' then (case idempotency_key t of None \<Rightarrow> VNull | Some k \<Rightarrow> VStr k)
      else if c = ''priority'' then VNum (priority t)
      else if c = ''state'' then VStr (state_value (t_state t))
      else if c = ''attempt'' then VNum (t_attempt t)
      else if c = ''max_attempts'' then VNum (t_max_attempts t)
      else if c = ''max_execution_time_s'' then VNum (t_max_execution_time_s t)
      else if c = ''lease_worker_id'' then (case lease_worker_id t of None \<Rightarrow> VNull | Some w \<Rightarrow> VStr w)
      else if c = ''lease_expires_at'' then (case lease_expires_at t of None \<Rightarrow> VNull | Some e \<Rightarrow> VTime e)
      else VNull)"

text \<open>A unique key, or unique index: no two of its rows agree on all its columns, \<open>NULL\<close> agreeing with nothing.\<close>

definition key_holds :: "('r \<Rightarrow> string \<Rightarrow> sql_value) \<Rightarrow> string list \<times> sql_expr option \<Rightarrow> 'r list \<Rightarrow> bool" where
  "key_holds row k rows \<longleftrightarrow> distinct (map (\<lambda>r. map (row r) (fst k))
     (filter (\<lambda>r. in_partial_index (row r) (snd k) \<and> VNull \<notin> row r ` set (fst k)) rows))"

lemma state_value_running [simp]: "state_value s = ''RUNNING'' \<longleftrightarrow> s = RUNNING" "state_value s = ''QUEUED'' \<longleftrightarrow> s = QUEUED"
  by (cases s; simp)+

lemma task_checks_hold: "list_all (check_passes (task_row t)) task_checks \<longleftrightarrow> task_violation t = None"
  by (auto simp: task_checks_def check_passes_def task_row_def lease_coherence_check_def lease_coherent_def
      not_le split: option.splits)

lemma task_keys_hold:
  "list_all (\<lambda>k. key_holds task_row k (tasks d)) [([''id''], None),
      ([''tenant_id'', ''idempotency_key''], Some (Is_not_null (Col ''idempotency_key'')))]
    \<longleftrightarrow> ids_distinct d \<and> keys_unique d"
proof -
  have id: "key_holds task_row ([''id''], None) (tasks d) \<longleftrightarrow> ids_distinct d"
  proof -
    have "key_holds task_row ([''id''], None) (tasks d) \<longleftrightarrow> distinct (map (\<lambda>i. [VUuid i]) (map t_id (tasks d)))"
      by (simp add: key_holds_def in_partial_index_def task_row_def comp_def)
    then show ?thesis by (simp add: ids_distinct_def distinct_map [of _ "map t_id (tasks d)"] inj_on_def del: map_map)
  qed
  let ?k = "([''tenant_id'', ''idempotency_key''], Some (Is_not_null (Col ''idempotency_key'')))"
  let ?key = "\<lambda>t. [VUuid (t_tenant_id t), case idempotency_key t of None \<Rightarrow> VNull | Some k \<Rightarrow> VStr k]"
  have "filter (\<lambda>t. in_partial_index (task_row t) (snd ?k) \<and> VNull \<notin> task_row t ` set (fst ?k)) (tasks d) =
      filter (\<lambda>t. idempotency_key t \<noteq> None) (tasks d)"
    by (rule filter_cong) (auto simp: in_partial_index_def task_row_def split: option.splits)
  then have k: "key_holds task_row ?k (tasks d) \<longleftrightarrow> distinct (map ?key (filter (\<lambda>t. idempotency_key t \<noteq> None) (tasks d)))"
    by (simp add: key_holds_def task_row_def)
  have same: "same_key t u \<longleftrightarrow> idempotency_key t \<noteq> None \<and> idempotency_key u \<noteq> None \<and> ?key t = ?key u" for t u
    by (auto simp: same_key_def split: option.splits)
  have "keys_unique d \<longleftrightarrow> key_holds task_row ?k (tasks d)" if "ids_distinct d"
  proof -
    have "distinct (tasks d)" using that by (simp add: ids_distinct_def distinct_map)
    moreover have "t_id t = t_id u \<longleftrightarrow> t = u" if "t \<in> set (tasks d)" "u \<in> set (tasks d)" for t u
      using that \<open>ids_distinct d\<close> by (auto simp: ids_distinct_def distinct_map inj_on_def)
    ultimately show ?thesis
      unfolding k keys_unique_def same distinct_map inj_on_def by auto
  qed
  then show ?thesis using id by auto
qed

text \<open>
  The row and key rules of the model are the schema's. A version of a task row violates a rule
  of the model exactly when it fails a \<open>CHECK\<close> of the migrated table; the table's keys and unique indexes hold
  exactly when the ids are distinct and no tenant uses an idempotency key twice; a task is in the
  partial index the claim scans exactly when it is queued; and each constraint by which a modelled
  statement can fail exists under that name.
\<close>

theorem row_rules_are_the_schema:
  "\<exists>c. run_ddl (upgrades 0 9) base_catalog = Inr c
     \<and> (task_violation t = None \<longleftrightarrow> list_all (check_passes (task_row t)) (checks_of c ''tasks''))
     \<and> (ids_distinct d \<and> keys_unique d \<longleftrightarrow> list_all (\<lambda>k. key_holds task_row k (tasks d)) (keys_of c ''tasks''))
     \<and> (t_state t = QUEUED \<longleftrightarrow> map_option (in_partial_index (task_row t) \<circ> ix_where) (find_index c ''idx_tasks_ready'') = Some True)
     \<and> set raised_names \<subseteq> set (map fst (constraints_of c))"
proof -
  obtain c where c: "run_ddl (upgrades 0 9) base_catalog = Inr c" "queries_match c"
    using head_queries by (auto simp: at_head_def split: sum.splits)
  obtain i where i: "find_index c ''idx_tasks_ready'' = Some i" "ix_where i = Some ready_where"
    using c(2) by (auto simp: queries_match_def)
  have "in_partial_index (task_row t) (Some ready_where) \<longleftrightarrow> t_state t = QUEUED"
    by (auto simp: in_partial_index_def ready_where_def task_row_def)
  then show ?thesis
    using c(2) i task_checks_hold [of t] task_keys_hold [of d]
    by (intro exI [of _ c]) (simp add: c(1) queries_match_def del: task_violation_None)
qed

end
