(* ===== verification/Spec2Isabelle.thy ===== *)
theory Spec2Isabelle
  imports Liveness RecoveryBound Bench Routing Demos Processes Divergences Server Metrics Requests WorkerLoop ReaperLoop Retry Failures Authz Scheduling Models
begin

text \<open>
  A control plane for AI agents. Tenants submit tasks over an HTTP API, workers claim them under a
  lease and run an adapter, a reaper recovers what dead or hung workers leave behind. All three are
  processes without shared memory that meet in one PostgreSQL database; every rule that makes them
  safe together (fencing tokens, compare-and-set transitions, row locks, idempotency keys, CHECK
  constraints) is in their SQL. This development models the code under \<open>src/acp\<close>, the migrations
  under \<open>migrations/versions\<close> and what the scripts under \<open>scripts\<close> and \<open>load\<close> rest on, function by
  function and statement by statement, and proves what the processes may rely on.

  \<^bold>\<open>How the code is represented.\<close> The database is the record \<open>db\<close> (theory \<open>Schema\<close>), a list of row
  records per table, the clock \<open>now\<close> (the transaction's \<open>now()\<close>) and the event sequence. A query
  function is a function on it; one that can raise returns \<open>exn + ('a \<times> db)\<close>, and a transaction
  that raises leaves no database, which is its rollback. \<open>UPDATE .. WHERE .. RETURNING\<close>, \<open>INSERT\<close>
  with its constraints and \<open>ON CONFLICT DO NOTHING\<close> are functions of \<open>Prelude\<close> and \<open>Schema\<close>.
  Python's integers are \<open>int\<close>, timestamps and durations rational seconds, UUIDs natural numbers
  (their text is \<open>uuid_str\<close>), a dict an association list with distinct keys. What the code takes
  from outside is an argument: generated ids, random draws, the clock of a process, the adapters'
  registry and tools, the rows that other open transactions hold locked, and what other processes
  commit between two transactions of one operation.

  \<^bold>\<open>Which theory models what.\<close>
  \<^item> \<open>Prelude\<close>, \<open>Json\<close>: the error monad, SQL on lists of rows, Python strings; JSON values.
  \<^item> \<open>TaskStates\<close> (\<open>domain/states.py\<close>), \<open>Failures\<close> (\<open>domain/errors.py\<close>), \<open>Retry\<close> (\<open>domain/retry.py\<close>),
    \<open>Capabilities\<close> (\<open>domain/agents.py\<close>), \<open>Authz\<close> (\<open>domain/authz.py\<close>), \<open>Scheduling\<close> (\<open>scheduling/\<close>
    and \<open>config.py\<close>): the pure domain.
  \<^item> \<open>Schema\<close> (\<open>db/models.py\<close>, \<open>db/sqlutil.py\<close>), \<open>Transitions\<close>, \<open>Completion\<close>, \<open>Workers\<close> (with
    \<open>lease.py\<close>), \<open>Candidates\<close> and \<open>Claim\<close> (\<open>claim.py\<close>), \<open>Reap\<close>, \<open>Tasks\<close>, \<open>Registry\<close>
    (\<open>agents.py\<close>), \<open>Tools\<close> (with \<open>audit.py\<close>): one theory per module of \<open>db/queries\<close>. \<open>Invariant\<close>
    states what is true of the task tables between transactions.
  \<^item> \<open>ToolRuntime\<close> (\<open>agent/\<close>), \<open>WorkerLoop\<close> (\<open>worker/loop.py\<close>), \<open>ReaperLoop\<close> (\<open>reaper/loop.py\<close>): the
    processes, as functions on their own state and the database.
  \<^item> \<open>Api\<close> (\<open>api/\<close>, \<open>obs/gauges.py\<close>) and \<open>Requests\<close>: the handlers and what they promise; \<open>Server\<close>: every
    endpoint behind one dispatcher, with the schemas that guard it; \<open>Routing\<close>: the table of routes of
    \<open>api/app.py\<close> and the lookup in it; \<open>Calendar\<close> and \<open>Cursor\<close>: timestamps, base64 and UUIDs as text,
    and the page cursors made of them; \<open>Metrics\<close> (\<open>obs/metrics.py\<close>): the
    metric families and the samples the processes record.
  \<^item> \<open>Ddl\<close>, \<open>Migrations\<close> (\<open>migrations/versions\<close>), \<open>Models\<close> (\<open>db/models.py\<close> against the migrations): a
    catalog of types, tables, indexes and constraints, the migrations over it, and the proof that
    the rules the query model uses are those of the migrated schema.
  \<^item> \<open>Frames\<close>, \<open>ControlInv\<close>, \<open>System\<close>, \<open>LeaseProtocol\<close>, \<open>Guarantees\<close>, \<open>Divergences\<close>: the platform
    as one transition system whose steps are the commits of all processes in any order; \<open>ClaimOrder\<close>:
    the claim against a greedy reference; \<open>Liveness\<close>: what can still be done from each state;
    \<open>PlatformViews\<close>: what only some of the transactions write (the clock, the tenants, who owns a task);
    \<open>RecoveryBound\<close>: how long a dead worker keeps its task.
  \<^item> \<open>Tracing\<close> (\<open>obs/tracing.py\<close>), \<open>Spans\<close> (the code that runs inside a span), \<open>Fleet\<close> (what goes
    on around one worker's loop: others' commits, its own attempts, \<open>stop()\<close>), \<open>Processes\<close> (the entry points of
    \<open>worker\<close>, \<open>reaper\<close> and \<open>api/app.py\<close> with the engine, logging and exporter they set up, and the worker's
    \<open>run_forever\<close>), \<open>Demos\<close> (\<open>scripts/\<close> and the
    waits of \<open>load/\<close>: clients of the API), \<open>Bench\<close> (the benchmarks of \<open>load/\<close> and the batch of the chaos
    demo, from the tasks a pool of overlapping clients posts to the numbers they report).

  \<^bold>\<open>Interfaces.\<close> \<open>ends_attempt\<close>, \<open>fenced_completion\<close>, \<open>recovery\<close>, \<open>reap_pass\<close> (what the five completions and
  the two recoveries share), \<open>candidates\<close> and \<open>ordered_candidates\<close> (what the claim needs of a
  candidate query; both queries of the code are instances), \<open>task_view\<close>, \<open>db_view\<close> and \<open>platform_view\<close> (a part
  of the database that an operation, or every transaction but a few, leaves alone), \<open>text_code\<close> (a printer and
  a parser that reads what it writes: base64, timestamps, UUIDs, cursors), \<open>attempt_recorder\<close> (what the tool gateway needs of the worker's
  callbacks) and \<open>evolving\<close> (an invariant and a relation kept by every step) are locales, each
  interpreted on the definitions of the model that provide it.

  \<^bold>\<open>What the lemmas show.\<close>
  \<^item> Single statements: a transition applies exactly when its fences hold and changes one row and
    one event; its report of a lost race names the first fence that failed.
  \<^item> Operations, each under the invariant and for every branch: completions, claim, renewal,
    recovery, submission, cancellation, activation, grants, routing and the handlers never raise where they
    should not, say what they did, touch nothing else and keep the invariant.
  \<^item> Equivalence with a reference: the keyed merge of the claim is one ordered scan, satisfiable
    keys are subset containment, all rounds of a claim together are one greedy pass over the queue, pagination returns the filtered table, gauges add up, the
    snapshot decides as the live tables would.
  \<^item> Processes: one turn of the worker takes no more than its capacity, a fenced worker writes
    nothing, a clean stop hands everything back, an attempt ends in the state its failure class
    prescribes, a sweep of the reaper makes its batches of expired leases and of hung tasks, no more than its
    bounds, counts what they recovered and drains its backlog.
  \<^item> The whole: an invariant of every reachable state, success at most once, finality of history,
    rejection of every stale worker for ever, isolation of tenants, and a refinement of an abstract
    lease protocol in which mutual exclusion is proved; and from every reachable state all work
    that is not over can still be carried to success by the ordinary duties of the workers (a wait, a join,
    a call of the claim, a completion by the holder), except what no worker can be given.
  \<^item> Tracing: what a hexadecimal id is read back as, the link of an execution to the submission
    that caused it through every retry, and the payloads that break it.
  \<^item> Whole processes: a worker from its registration to its drain on the live platform,
    whatever commits, attempts and stops fall in between, an engine disposed of however a process
    ends, and a complete run of the governance demo against handlers, claim, worker and tools.
  \<^item> The API: every request is answered without a server error but for one kind of
    misconfiguration and for cursors that are not ones, whatever other transactions commit during a submission;
    a refusal and a read write nothing, every request reaches its handler whatever the order of the routes, and recording a metric never fails.
  \<^item> Text: a timestamp, a UUID and a cursor are read back as they were written, so a client that hands the
    cursors back sees the whole listing.
  \<^item> Time: a task whose worker died leaves it within the lease, one period of the reaper and the time of two
    sweeps, whatever the rest of the platform commits meanwhile.
  \<^item> Schema: the migrations form one chain, each can be undone exactly, and they install the
    columns, checks and keys that the queries rely on.
  \<^item> Divergences: a cap that a claim passes by all that another was granted while it waited for the tenant's
    row, a request to cancel that recovery ignores,
    a retry that is hung at birth, as many attempts as a task is handed back, whatever its bound, a lease loss that ends a task as
    cancelled, a submission that outlives the disabling of its agent, a collision of
    capability keys, a requirement that no worker can meet, a carrier that crashes its attempt, a claim
    of nothing while a task behind a full tenant could run, a
    demo whose verdict does not look at the tasks and a benchmark that does not look at its own wait.

  \<^bold>\<open>Bounds and fuel.\<close> \<open>claim_rounds\<close> has the source's own bound (\<open>MAX_ROUNDS\<close>), the batch loops of the
  reaper theirs (\<open>max_batches_per_sweep\<close>); renewal polls and adapter programs recurse on the list of polls and on the program.
  Walking the pages of a listing takes one more page than there are rows, which is enough because
  each page but the last is not empty and no row is repeated. \<open>linked\<close> follows the revisions for as
  many steps as there are scripts. A worker's loop recurses on the list of its turns, of any length, and
  a waiting loop of a script on the polls it makes before its deadline; running out of them is the
  \<open>TimeoutError\<close> of the source, or the end of the wait where the source has none.

  \<^bold>\<open>What is not modelled.\<close> The event loop: \<open>asyncio\<close> tasks are the order of their database steps and
  polls. Interleaving inside a transaction is modelled where the code depends on it: the wait of a claim for a
  tenant's row (\<open>claim_after_wait\<close>: candidates and slack from the snapshot, the grant on what is there
  after the wait; \<open>claim\<close> itself, and \<open>load_slack\<close> in it, read one snapshot), the reads of a submission before
  its insert, two activations; elsewhere a transaction is one step,
  as its row locks make it. The step relation \<open>commit\<close> has more steps than the code for a claim that waited
  (\<open>c_claim_late\<close>: any queued tasks) and for completions (any arguments): it serves what holds of every step;
  what says that something can be reached uses \<open>duty\<close>, \<open>claim\<close> or \<open>claim_after_wait\<close>.
  Numbers of a JSON body that are not finite (\<open>NaN\<close>, \<open>Infinity\<close>, \<open>1e400\<close>): \<open>jsonb\<close> refuses them, after the schema has
  let them pass, and the request ends in a server error. Durations too long for an interval of PostgreSQL, which a
  \<open>retry_after\<close> of an adapter could be. Data in
  existing rows when a migration runs. The bodies of third-party code: SQLAlchemy, psycopg, alembic, FastAPI
  and pydantic (their validation of the requests' fields is written out where a handler relies on it),
  OpenTelemetry (which ids are valid is a parameter), the Prometheus client and server, Docker, the HTTP
  client; of Python's \<open>datetime.fromisoformat\<close>, what it reads beyond the texts that \<open>isoformat\<close> writes
  is a parameter, and so is a cursor whose text is not ASCII. Log lines; the text that \<open>/metrics\<close> renders; the readings of a stopwatch and the percentiles of
  Prometheus, which the benchmarks are given; what the scripts print; the JSON of the answers; text that
  PostgreSQL cannot store (a NUL character).
\<close>

end
